(* ===== verification/Prelude.thy ===== *)
theory Prelude
  imports Main "HOL-Library.Word"
begin

text \<open>
  Shared vocabulary of the development.

  \<^item> machine integers: \<open>u8\<close>, \<open>u32\<close> and \<open>u64\<close> are words of that width; \<open>usize\<close> is \<open>nat\<close>,
    with the bound of a 64-bit target written out where the code converts;
  \<^item> byte strings: \<open>bytes\<close> for \<open>Vec<u8>\<close> and \<open>&[u8]\<close>, and the type \<open>'n barr\<close> for the
    fixed-size array \<open>[u8; N]\<close>, whose length is part of the type as it is in Rust;
  \<^item> little-endian integer encodings (\<open>to_le_bytes\<close>, \<open>from_le_bytes\<close>), checked arithmetic;
  \<^item> \<open>Result\<close> as a sum with the error on the left.

  The collection \<open>codec_simps\<close> gathers the rewrite rules that compute with encoded bytes.
\<close>

unbundle bit_operations_syntax

named_theorems codec_simps "rewrite rules that compute with encoded bytes"

type_synonym u8 = "8 word"
type_synonym u32 = "32 word"
type_synonym u64 = "64 word"
type_synonym usize = nat
type_synonym bytes = "u8 list"

section \<open>Results\<close>

type_synonym ('e, 'a) result = "'e + 'a"

definition is_ok :: "('e, 'a) result \<Rightarrow> bool" where
  "is_ok r = (case r of Inl _ \<Rightarrow> False | Inr _ \<Rightarrow> True)"

definition ok :: "('e, 'a) result \<Rightarrow> 'a option" where
  "ok r = (case r of Inl _ \<Rightarrow> None | Inr a \<Rightarrow> Some a)"

fun map_err :: "('e \<Rightarrow> 'f) \<Rightarrow> ('e, 'a) result \<Rightarrow> ('f, 'a) result" where
  "map_err f (Inl e) = Inl (f e)"
| "map_err f (Inr a) = Inr a"

lemma map_err_Inr [simp]: "map_err f r = Inr a \<longleftrightarrow> r = Inr a" "Inr a = map_err f r \<longleftrightarrow> r = Inr a"
  by (cases r; auto)+

lemma map_sum_eq_Inr: "map_sum f g r = Inr y \<longleftrightarrow> (\<exists>x. r = Inr x \<and> y = g x)"
  by (cases r) auto

text \<open>\<open>iter().map(f).collect::<Result<Vec<_>, _>>()\<close>: stops at the first error.\<close>

fun collect_results :: "('a \<Rightarrow> ('e, 'b) result) \<Rightarrow> 'a list \<Rightarrow> ('e, 'b list) result" where
  "collect_results f [] = Inr []"
| "collect_results f (x # xs) =
     (case f x of Inl e \<Rightarrow> Inl e
      | Inr y \<Rightarrow> (case collect_results f xs of Inl e \<Rightarrow> Inl e | Inr ys \<Rightarrow> Inr (y # ys)))"

section \<open>Fixed-size byte arrays\<close>

typedef (overloaded) 'n barr = "{xs :: u8 list. length xs = LENGTH('n::len)}"
  morphisms bytes_of Abs_barr
proof
  show "replicate LENGTH('n) 0 \<in> {xs :: u8 list. length xs = LENGTH('n)}" by simp
qed

text \<open>
  \<open>mk_barr\<close> is \<open>copy_from_slice\<close> into a zeroed array; the code only calls it on slices of
  exactly the array's length. \<open>arr_of_slice\<close> is \<open>try_into\<close> on a slice.
\<close>

definition mk_barr :: "bytes \<Rightarrow> 'n::len barr" where
  "mk_barr xs = Abs_barr (take LENGTH('n) (xs @ replicate LENGTH('n) 0))"

definition arr_of_slice :: "bytes \<Rightarrow> 'n::len barr option" where
  "arr_of_slice xs = (if length xs = LENGTH('n) then Some (mk_barr xs) else None)"

instantiation barr :: (len) equal
begin
definition equal_barr :: "'a barr \<Rightarrow> 'a barr \<Rightarrow> bool" where
  "equal_barr a b = (bytes_of a = bytes_of b)"
instance
  by standard (simp add: equal_barr_def bytes_of_inject)
end

lemma length_bytes_of [simp]: "length (bytes_of (a :: 'n::len barr)) = LENGTH('n)"
  using bytes_of [of a] by simp

lemma barr_abstype [code abstype]: "Abs_barr (bytes_of a) = a"
  by (rule bytes_of_inverse)

lemma bytes_of_mk_barr [code abstract]: "bytes_of (mk_barr xs :: 'n::len barr)
    = take LENGTH('n) (xs @ replicate LENGTH('n) 0)"
  by (simp add: mk_barr_def Abs_barr_inverse)

lemma bytes_of_mk_barr_exact [simp]:
  "length xs = LENGTH('n) \<Longrightarrow> bytes_of (mk_barr xs :: 'n::len barr) = xs"
  by (simp add: bytes_of_mk_barr)

lemma mk_barr_bytes_of [simp]: "mk_barr (bytes_of a) = a"
  by (simp add: bytes_of_inject [symmetric])

lemma arr_of_slice_bytes_of [simp]: "arr_of_slice (bytes_of a) = Some a"
  by (simp add: arr_of_slice_def)

lemma arr_of_slice_Some: "arr_of_slice xs = Some a \<longleftrightarrow> xs = bytes_of a"
  by (auto simp: arr_of_slice_def)

lemma bytes_of_eq_iff [simp]: "bytes_of a = bytes_of b \<longleftrightarrow> a = b"
  by (rule bytes_of_inject)

section \<open>Little-endian integers\<close>

fun le_nat :: "nat \<Rightarrow> nat \<Rightarrow> bytes" where
  "le_nat 0 n = []"
| "le_nat (Suc k) n = word_of_nat (n mod 256) # le_nat k (n div 256)"

fun nat_of_le :: "bytes \<Rightarrow> nat" where
  "nat_of_le [] = 0"
| "nat_of_le (b # bs) = unat b + 256 * nat_of_le bs"

definition u32_to_le :: "u32 \<Rightarrow> bytes" where
  "u32_to_le w = le_nat 4 (unat w)"

definition u64_to_le :: "u64 \<Rightarrow> bytes" where
  "u64_to_le w = le_nat 8 (unat w)"

definition u32_from_le :: "bytes \<Rightarrow> u32" where
  "u32_from_le bs = word_of_nat (nat_of_le bs)"

definition u64_from_le :: "bytes \<Rightarrow> u64" where
  "u64_from_le bs = word_of_nat (nat_of_le bs)"

lemma length_le_nat [simp]: "length (le_nat k n) = k"
  by (induction k arbitrary: n) auto

lemma nat_of_le_le_nat: "nat_of_le (le_nat k n) = n mod 256 ^ k"
proof (induction k arbitrary: n)
  case 0
  then show ?case by simp
next
  case (Suc k)
  have "unat (word_of_nat (n mod 256) :: u8) = n mod 256"
    by (simp add: unat_of_nat)
  then have "nat_of_le (le_nat (Suc k) n) = n mod 256 + 256 * (n div 256 mod 256 ^ k)"
    by (simp add: Suc.IH)
  also have "\<dots> = n mod (256 * 256 ^ k)"
    by (simp add: mod_mult2_eq)
  finally show ?case by simp
qed

lemma nat_of_le_bound: "nat_of_le bs < 256 ^ length bs"
proof (induction bs)
  case (Cons b bs)
  have "unat b < 256" using unsigned_less [of b] by simp
  moreover have "Suc (nat_of_le bs) \<le> 256 ^ length bs" using Cons by simp
  then have "256 * Suc (nat_of_le bs) \<le> 256 * 256 ^ length bs" by (rule mult_le_mono2)
  ultimately show ?case by simp
qed simp

lemma le_nat_nat_of_le: "le_nat (length bs) (nat_of_le bs) = bs"
proof (induction bs)
  case (Cons b bs)
  have b: "unat b < 256" using unsigned_less [of b] by simp
  then have "(unat b + 256 * nat_of_le bs) div 256 = nat_of_le bs" by simp
  moreover have "(unat b + 256 * nat_of_le bs) mod 256 = unat b" using b by simp
  ultimately show ?case using Cons by simp
qed simp

lemma le_nat_inj: "m < 256 ^ k \<Longrightarrow> n < 256 ^ k \<Longrightarrow> le_nat k m = le_nat k n \<Longrightarrow> m = n"
  by (metis mod_less nat_of_le_le_nat)

lemma unat_u32_bound: "unat (w :: u32) < 4294967296"
  using unsigned_less [of w] by simp

lemma unat_u64_bound: "unat (w :: u64) < 18446744073709551616"
  using unsigned_less [of w] by simp

lemma length_u32_to_le [simp]: "length (u32_to_le w) = 4"
  by (simp add: u32_to_le_def)

lemma length_u64_to_le [simp]: "length (u64_to_le w) = 8"
  by (simp add: u64_to_le_def)

lemma u32_from_to_le [simp]: "u32_from_le (u32_to_le w) = w"
  by (simp add: u32_from_le_def u32_to_le_def nat_of_le_le_nat unat_u32_bound)

lemma u64_from_to_le [simp]: "u64_from_le (u64_to_le w) = w"
  by (simp add: u64_from_le_def u64_to_le_def nat_of_le_le_nat unat_u64_bound)

lemma u32_to_from_le: "length bs = 4 \<Longrightarrow> u32_to_le (u32_from_le bs) = bs"
  using nat_of_le_bound [of bs] le_nat_nat_of_le [of bs]
  by (simp add: u32_from_le_def u32_to_le_def unat_of_nat)

lemma u64_to_from_le: "length bs = 8 \<Longrightarrow> u64_to_le (u64_from_le bs) = bs"
  using nat_of_le_bound [of bs] le_nat_nat_of_le [of bs]
  by (simp add: u64_from_le_def u64_to_le_def unat_of_nat)

lemma u32_to_le_inject [simp]: "u32_to_le a = u32_to_le b \<longleftrightarrow> a = b"
  by (metis u32_from_to_le)

lemma u64_to_le_inject [simp]: "u64_to_le a = u64_to_le b \<longleftrightarrow> a = b"
  by (metis u64_from_to_le)

lemmas [codec_simps] = length_u32_to_le length_u64_to_le u32_from_to_le u64_from_to_le

section \<open>Checked arithmetic\<close>

definition checked_add :: "'a::len word \<Rightarrow> 'a word \<Rightarrow> 'a word option" where
  "checked_add a b = (if unat a + unat b < 2 ^ LENGTH('a) then Some (a + b) else None)"

lemma checked_add_Some:
  "checked_add a b = Some c \<longleftrightarrow> unat a + unat b < 2 ^ LENGTH('a) \<and> c = a + (b :: 'a::len word)"
  by (auto simp: checked_add_def)

lemma checked_add_unat: "checked_add a b = Some c \<Longrightarrow> unat c = unat a + unat b"
  by (auto simp: checked_add_Some unat_word_ariths)

definition usize_max :: nat where
  "usize_max = 2 ^ 64 - 1"

definition usize_checked_add :: "nat \<Rightarrow> nat \<Rightarrow> nat option" where
  "usize_checked_add a b = (if a + b \<le> usize_max then Some (a + b) else None)"

definition usize_checked_mul :: "nat \<Rightarrow> nat \<Rightarrow> nat option" where
  "usize_checked_mul a b = (if a * b \<le> usize_max then Some (a * b) else None)"

section \<open>Lists\<close>

lemma append_eq_append_lengths:
  "length a = length b \<Longrightarrow> a @ x = b @ y \<longleftrightarrow> a = b \<and> x = y"
  by simp

text \<open>Concatenation of equally long pieces is injective.\<close>

lemma concat_fixed_inj:
  assumes "\<forall>x \<in> set xs \<union> set ys. length x = k" and "0 < k" and "concat xs = concat ys"
  shows "xs = ys"
  using assms
proof (induction xs arbitrary: ys)
  case Nil
  then show ?case by (cases ys) auto
next
  case (Cons x xs)
  then obtain y ys' where ys: "ys = y # ys'" by (cases ys) auto
  with Cons.prems have "x = y \<and> concat xs = concat ys'" by auto
  moreover from Cons.prems ys have "\<forall>z \<in> set xs \<union> set ys'. length z = k" by auto
  ultimately show ?case using Cons.IH [of ys'] Cons.prems(2) ys by simp
qed

lemma length_concat_fixed: "\<forall>x \<in> set xs. length x = k \<Longrightarrow> length (concat xs) = k * length xs"
  by (induction xs) auto

lemma concat_bytes_of_inj:
  "concat (map bytes_of xs) = concat (map bytes_of (ys :: 'n::len barr list)) \<longleftrightarrow> xs = ys"
proof
  assume "concat (map bytes_of xs) = concat (map bytes_of ys)"
  then have "map bytes_of xs = map bytes_of ys"
    by (intro concat_fixed_inj [where k = "LENGTH('n)"]) auto
  then show "xs = ys" by (simp add: inj_map_eq_map inj_def)
qed simp

text \<open>Overwriting a region of a byte string, as \<open>seek\<close> followed by \<open>write_all\<close> does inside a file.\<close>

definition write_at :: "nat \<Rightarrow> 'a list \<Rightarrow> 'a list \<Rightarrow> 'a list" where
  "write_at off new old = take off old @ new @ drop (off + length new) old"

definition region :: "nat \<Rightarrow> nat \<Rightarrow> 'a list \<Rightarrow> 'a list" where
  "region off n xs = take n (drop off xs)"

lemma length_write_at [simp]: "off + length new \<le> length old \<Longrightarrow> length (write_at off new old) = length old"
  by (simp add: write_at_def)

lemma length_region [simp]: "off + n \<le> length xs \<Longrightarrow> length (region off n xs) = n"
  by (simp add: region_def)

lemma region_write_at_same:
  "off + length new \<le> length old \<Longrightarrow> region off (length new) (write_at off new old) = new"
  by (simp add: region_def write_at_def)

lemma region_write_at_before:
  assumes "a + n \<le> off" and "off \<le> length old"
  shows "region a n (write_at off new old) = region a n old"
proof -
  have "region a n (write_at off new old) = take n (drop a (take off old))"
    using assms by (simp add: region_def write_at_def)
  also have "\<dots> = take n (take (off - a) (drop a old))"
    by (simp add: drop_take)
  also have "\<dots> = region a n old"
    using assms(1) by (simp add: region_def min_absorb1)
  finally show ?thesis .
qed

lemma region_write_at_after:
  assumes "off + length new \<le> a" and "off + length new \<le> length old"
  shows "region a n (write_at off new old) = region a n old"
proof -
  have "drop a (write_at off new old) = drop (a - off - length new) (drop (off + length new) old)"
    using assms by (simp add: write_at_def)
  also have "\<dots> = drop a old" using assms by simp
  finally show ?thesis by (simp add: region_def)
qed

end
