(* ===== verification/Externals.thy ===== *)
theory Externals
  imports Prelude
begin

text \<open>
  The third-party code the program calls, as parameters of the model: hash functions,
  SSZ codecs and bit lists (\<open>sha3\<close>, \<open>leanvm_primitives\<close>, \<open>ethereum_ssz\<close>), XMSS signatures and
  aggregates (\<open>leanvm\<close>). Each library is a record of the functions the source calls; nothing is
  assumed about a value of such a record except where a theorem names one of the laws below,
  which state what the library documents. Hash functions have no law: where a theorem depends
  on collision resistance it concludes with the pair of inputs that would collide.
\<close>

section \<open>Hash functions\<close>

record hashes =
  sha3_256 :: "bytes \<Rightarrow> 32 barr"
  blake2s_256 :: "bytes \<Rightarrow> 32 barr"

definition collides :: "('a \<Rightarrow> 'b) \<Rightarrow> 'a \<Rightarrow> 'a \<Rightarrow> bool" where
  "collides h x y \<longleftrightarrow> x \<noteq> y \<and> h x = h y"

lemma hash_eq_cases: "h x = h y \<Longrightarrow> x = y \<or> collides h x y"
  by (auto simp: collides_def)

section \<open>SSZ\<close>

text \<open>
  The derived encoder and decoder of one container. A decoding error carries the text of its
  \<open>Debug\<close> rendering.
\<close>

record 'w ssz =
  as_ssz_bytes :: "'w \<Rightarrow> bytes"
  from_ssz_bytes :: "bytes \<Rightarrow> (string, 'w) result"

text \<open>
  What the wire-format notes of the repository rely on: a value whose encoding fits the 32-bit
  offsets decodes to itself, and malformed offsets, lengths and trailing bytes are rejected, so
  an accepted byte string is the encoding of the value it decodes to.
\<close>

definition ssz_roundtrip :: "'w ssz \<Rightarrow> bool" where
  "ssz_roundtrip S \<longleftrightarrow> (\<forall>w. length (as_ssz_bytes S w) < 2 ^ 32
     \<longrightarrow> from_ssz_bytes S (as_ssz_bytes S w) = Inr w)"

definition ssz_canonical :: "'w ssz \<Rightarrow> bool" where
  "ssz_canonical S \<longleftrightarrow> (\<forall>b w. from_ssz_bytes S b = Inr w \<longrightarrow> as_ssz_bytes S w = b)"

lemma ssz_roundtripD:
  "ssz_roundtrip S \<Longrightarrow> length (as_ssz_bytes S w) < 2 ^ 32 \<Longrightarrow> from_ssz_bytes S (as_ssz_bytes S w) = Inr w"
  by (simp add: ssz_roundtrip_def)

lemma ssz_canonicalD: "ssz_canonical S \<Longrightarrow> from_ssz_bytes S b = Inr w \<Longrightarrow> as_ssz_bytes S w = b"
  by (simp add: ssz_canonical_def)

section \<open>Bit lists\<close>

text \<open>
  \<open>BitList<N>\<close>: a list of bits that knows its exact length, at most \<open>N\<close>. \<open>bl_iter\<close> is the
  sequence of its bits; the laws say what the other operations do to that sequence.
\<close>

record 'b bitlist =
  bl_with_capacity :: "usize \<Rightarrow> 'b option"
  bl_set :: "'b \<Rightarrow> usize \<Rightarrow> bool \<Rightarrow> 'b option"
  bl_len :: "'b \<Rightarrow> usize"
  bl_num_set_bits :: "'b \<Rightarrow> usize"
  bl_iter :: "'b \<Rightarrow> bool list"

definition bitlist_laws :: "usize \<Rightarrow> 'b bitlist \<Rightarrow> bool" where
  "bitlist_laws N B \<longleftrightarrow>
     (\<forall>n. if n \<le> N then (\<exists>b. bl_with_capacity B n = Some b \<and> bl_iter B b = replicate n False)
          else bl_with_capacity B n = None)
   \<and> (\<forall>b i v. if i < bl_len B b
          then (\<exists>b'. bl_set B b i v = Some b' \<and> bl_iter B b' = (bl_iter B b)[i := v])
          else bl_set B b i v = None)
   \<and> (\<forall>b. bl_len B b = length (bl_iter B b))
   \<and> (\<forall>b. bl_num_set_bits B b = length (filter id (bl_iter B b)))"

lemma bitlist_lenD: "bitlist_laws N B \<Longrightarrow> bl_len B b = length (bl_iter B b)"
  by (simp add: bitlist_laws_def)

lemma bitlist_countD: "bitlist_laws N B \<Longrightarrow> bl_num_set_bits B b = length (filter id (bl_iter B b))"
  by (simp add: bitlist_laws_def)

lemma bitlist_capacityD:
  "bitlist_laws N B \<Longrightarrow> n \<le> N \<Longrightarrow> \<exists>b. bl_with_capacity B n = Some b \<and> bl_iter B b = replicate n False"
  unfolding bitlist_laws_def by metis

lemma bitlist_capacity_None: "bitlist_laws N B \<Longrightarrow> N < n \<Longrightarrow> bl_with_capacity B n = None"
  unfolding bitlist_laws_def by (metis not_le)

lemma bitlist_setD:
  "bitlist_laws N B \<Longrightarrow> i < length (bl_iter B b) \<Longrightarrow>
     \<exists>b'. bl_set B b i v = Some b' \<and> bl_iter B b' = (bl_iter B b)[i := v]"
  unfolding bitlist_laws_def by metis

section \<open>Signatures and aggregates\<close>

text \<open>Signing draws randomness: \<open>'rng\<close> is the random tape of one call.\<close>

record ('pk, 'sk, 'sig, 'rng) xmss =
  xmss_verify :: "'pk \<Rightarrow> 32 barr \<Rightarrow> 'sig \<Rightarrow> u32 \<Rightarrow> bool"
  xmss_sign :: "'rng \<Rightarrow> 'sk \<Rightarrow> 32 barr \<Rightarrow> u32 \<Rightarrow> (string, 'sig) result"

text \<open>
  An aggregate names its claims: groups of XMSS signers over one slot and message, and signers
  of the other family leanVM supports.
\<close>

record ('pk, 'sig, 'sph, 'agg) leanvm =
  agg_from_bytes :: "bytes \<Rightarrow> (string, 'agg) result"
  agg_to_bytes :: "'agg \<Rightarrow> bytes"
  agg_xmss_signers :: "'agg \<Rightarrow> (u32 \<times> 32 barr \<times> 'pk list) list"
  agg_sphincs_signers :: "'agg \<Rightarrow> 'sph list"
  agg_verify :: "'agg \<Rightarrow> bool"
  aggregate :: "('pk \<times> u32 \<times> 32 barr \<times> 'sig) list \<Rightarrow> usize \<Rightarrow> (string, 'agg) result"

end
