(* ===== verification/File_System.thy ===== *)
theory File_System
  imports Prelude
begin

text \<open>
  The part of the operating system the durable state of the program lives in.

  A path is the list of its components. \<open>files\<close> is what a process reads back, \<open>stable\<close> what has
  been made durable, and \<open>locks\<close> the lock files whose advisory lock is held by some process. A
  power loss forgets whatever is not stable; a process that dies forgets nothing but its locks.

  Every system call can fail. An operation therefore takes a fault that says at which call it
  fails, or that none does, and the effects of the calls made before the failure stay.
\<close>

type_synonym path = "string list"

datatype io_error = NotFound | OtherIo

record fs =
  files :: "path \<Rightarrow> bytes option"
  stable :: "path \<Rightarrow> bytes option"
  locks :: "path set"

definition no_files :: fs where
  "no_files = \<lparr>files = (\<lambda>_. None), stable = (\<lambda>_. None), locks = {}\<rparr>"

section \<open>Sibling paths\<close>

text \<open>
  \<open>sibling\<close> (src/state/slot_counter.rs): the file name extended by a dot and a suffix. A path
  without a file name gets one made of the dot and the suffix.
\<close>

definition sibling :: "path \<Rightarrow> string \<Rightarrow> path" where
  "sibling p suffix =
     (let name = (if p = [] then [] else last p) in butlast p @ [name @ ''.'' @ suffix])"

lemma sibling_inj: "p \<noteq> [] \<Longrightarrow> q \<noteq> [] \<Longrightarrow> sibling p s = sibling q s \<Longrightarrow> p = q"
  by (simp add: sibling_def Let_def append_butlast_last_id [symmetric]
      del: append_butlast_last_id) (metis append_butlast_last_id)

lemma sibling_not_self: "sibling p s \<noteq> p"
proof
  assume "sibling p s = p"
  then have "p \<noteq> []" and "last (sibling p s) = last p" by (auto simp: sibling_def Let_def)
  then show False by (simp add: sibling_def Let_def)
qed

lemma sibling_suffix_neq: "sibling p ''lock'' \<noteq> sibling q ''tmp''"
proof
  assume "sibling p ''lock'' = sibling q ''tmp''"
  then have "last (sibling p ''lock'') = last (sibling q ''tmp'')" by simp
  then have "last (last (sibling p ''lock'')) = last (last (sibling q ''tmp''))" by simp
  then show False by (simp add: sibling_def Let_def)
qed

section \<open>Locks\<close>

datatype lock_fault = LockClean | LockOpenFails | LockErrors

text \<open>
  Opening the lock file creates it when missing and never truncates it; \<open>try_lock\<close> reports
  contention apart from every other failure.
\<close>

datatype lock_outcome = Locked | WouldBlock | LockIo io_error

definition try_lock_sibling :: "lock_fault \<Rightarrow> path \<Rightarrow> fs \<Rightarrow> lock_outcome \<times> fs" where
  "try_lock_sibling f p s =
     (let l = sibling p ''lock'';
          s' = s\<lparr>files := (files s)(l := Some (case files s l of None \<Rightarrow> [] | Some b \<Rightarrow> b))\<rparr>
      in if f = LockOpenFails then (LockIo OtherIo, s)
         else if f = LockErrors then (LockIo OtherIo, s')
         else if l \<in> locks s then (WouldBlock, s')
         else (Locked, s'\<lparr>locks := insert l (locks s)\<rparr>))"

definition unlock_sibling :: "path \<Rightarrow> fs \<Rightarrow> fs" where
  "unlock_sibling p s = s\<lparr>locks := locks s - {sibling p ''lock''}\<rparr>"

text \<open>Reading a file, or its metadata: it can fail for a reason other than a missing file.\<close>

datatype read_fault = ReadClean | ReadFails

text \<open>\<open>Path::exists\<close> takes an error of the metadata call for a missing file.\<close>

definition path_exists :: "read_fault \<Rightarrow> path \<Rightarrow> fs \<Rightarrow> bool" where
  "path_exists f p s \<longleftrightarrow> f = ReadClean \<and> files s p \<noteq> None"

lemma path_exists_simps [simp]:
  "path_exists ReadClean p s \<longleftrightarrow> files s p \<noteq> None" "\<not> path_exists ReadFails p s"
  by (simp_all add: path_exists_def)

section \<open>Atomic replacement\<close>

text \<open>
  Create the sibling \<open>.tmp\<close>, write the whole content, \<open>sync_all\<close>, rename over the target, then
  open and sync the directory. The rename is visible at once and durable after the last step.
\<close>

datatype replace_fault = ReplaceClean | CreateFails | WriteFails nat | SyncFails | RenameFails | DirSyncFails

definition replace_file :: "replace_fault \<Rightarrow> path \<Rightarrow> bytes \<Rightarrow> fs \<Rightarrow> (io_error, unit) result \<times> fs" where
  "replace_file f p content s =
     (let tmp = sibling p ''tmp'';
          written = s\<lparr>files := (files s)(tmp := Some content)\<rparr>;
          synced = written\<lparr>stable := (stable s)(tmp := Some content)\<rparr>;
          renamed = synced\<lparr>files := (files s)(tmp := None, p := Some content)\<rparr>;
          durable = renamed\<lparr>stable := (stable s)(tmp := None, p := Some content)\<rparr>
      in case f of
           CreateFails \<Rightarrow> (Inl OtherIo, s)
         | WriteFails k \<Rightarrow> (Inl OtherIo, s\<lparr>files := (files s)(tmp := Some (take k content))\<rparr>)
         | SyncFails \<Rightarrow> (Inl OtherIo, written)
         | RenameFails \<Rightarrow> (Inl OtherIo, synced)
         | DirSyncFails \<Rightarrow> (Inl OtherIo, renamed)
         | ReplaceClean \<Rightarrow> (Inr (), durable))"

lemma replace_file_ok:
  "replace_file f p content s = (Inr (), s') \<Longrightarrow>
     files s' p = Some content \<and> stable s' p = Some content \<and> locks s' = locks s"
  by (cases f) (auto simp: replace_file_def Let_def sibling_not_self [symmetric])

lemma replace_file_locks [simp]: "locks (snd (replace_file f p content s)) = locks s"
  by (cases f) (auto simp: replace_file_def Let_def)

lemma replace_file_target:
  "files (snd (replace_file f p content s)) p =
     (if f = ReplaceClean \<or> f = DirSyncFails then Some content else files s p)"
  "stable (snd (replace_file f p content s)) p =
     (if f = ReplaceClean then Some content else stable s p)"
  by (cases f; simp add: replace_file_def Let_def sibling_not_self [symmetric])+

lemma replace_file_result:
  "fst (replace_file f p content s) = (if f = ReplaceClean then Inr () else Inl OtherIo)"
  by (cases f) (auto simp: replace_file_def Let_def)

end
