(* ===== verification/Rust_Text.thy ===== *)
theory Rust_Text
  imports Prelude
begin

text \<open>
  The text operations of the standard library that the state files and the wire rely on:
  UTF-8 validation (\<open>std::str::from_utf8\<close>), \<open>split_whitespace\<close>, unsigned decimal printing
  (\<open>to_string\<close>) and parsing (\<open>str::parse::<u32>\<close>, \<open>str::parse::<u64>\<close>), and the lower-case
  hexadecimal rendering of digests (\<open>{b:02x}\<close>).

  Decoded text is a list of Unicode scalar values (\<open>ustr\<close>); text the program writes is a
  \<open>string\<close> of ASCII characters, turned into bytes by \<open>as_bytes\<close>.
\<close>

type_synonym ustr = "nat list"

definition text_of :: "string \<Rightarrow> ustr" where
  "text_of s = map of_char s"

definition as_bytes :: "string \<Rightarrow> bytes" where
  "as_bytes s = map (\<lambda>c. word_of_nat (of_char c)) s"

section \<open>UTF-8\<close>

definition cont :: "u8 \<Rightarrow> bool" where
  "cont b \<longleftrightarrow> 128 \<le> unat b \<and> unat b \<le> 191"

definition tail6 :: "u8 \<Rightarrow> nat" where
  "tail6 b = unat b mod 64"

text \<open>The well-formed byte sequences of the Unicode standard; anything else is refused.\<close>

definition two_ok :: "u8 \<Rightarrow> u8 \<Rightarrow> bool" where
  "two_ok a b \<longleftrightarrow> 194 \<le> unat a \<and> unat a \<le> 223 \<and> cont b"

definition three_ok :: "u8 \<Rightarrow> u8 \<Rightarrow> u8 \<Rightarrow> bool" where
  "three_ok a b c \<longleftrightarrow> cont c \<and>
     (unat a = 224 \<and> 160 \<le> unat b \<and> unat b \<le> 191
      \<or> 225 \<le> unat a \<and> unat a \<le> 236 \<and> cont b
      \<or> unat a = 237 \<and> 128 \<le> unat b \<and> unat b \<le> 159
      \<or> 238 \<le> unat a \<and> unat a \<le> 239 \<and> cont b)"

definition four_ok :: "u8 \<Rightarrow> u8 \<Rightarrow> u8 \<Rightarrow> u8 \<Rightarrow> bool" where
  "four_ok a b c d \<longleftrightarrow> cont c \<and> cont d \<and>
     (unat a = 240 \<and> 144 \<le> unat b \<and> unat b \<le> 191
      \<or> 241 \<le> unat a \<and> unat a \<le> 243 \<and> cont b
      \<or> unat a = 244 \<and> 128 \<le> unat b \<and> unat b \<le> 143)"

fun from_utf8 :: "bytes \<Rightarrow> ustr option" where
  "from_utf8 [] = Some []"
| "from_utf8 (a # bs) =
     (if unat a < 128 then map_option (\<lambda>t. unat a # t) (from_utf8 bs)
      else case bs of
        [] \<Rightarrow> None
      | b # cs \<Rightarrow>
          if two_ok a b
          then map_option (\<lambda>t. (unat a mod 32 * 64 + tail6 b) # t) (from_utf8 cs)
          else case cs of
            [] \<Rightarrow> None
          | c # ds \<Rightarrow>
              if three_ok a b c
              then map_option (\<lambda>t. (unat a mod 16 * 4096 + tail6 b * 64 + tail6 c) # t) (from_utf8 ds)
              else case ds of
                [] \<Rightarrow> None
              | d # es \<Rightarrow>
                  if four_ok a b c d
                  then map_option
                    (\<lambda>t. (unat a mod 8 * 262144 + tail6 b * 4096 + tail6 c * 64 + tail6 d) # t)
                    (from_utf8 es)
                  else None)"

lemma from_utf8_ascii:
  "\<forall>c \<in> set s. of_char c < (128 :: nat) \<Longrightarrow> from_utf8 (as_bytes s) = Some (text_of s)"
proof (induction s)
  case (Cons c s)
  then have "unat (word_of_nat (of_char c) :: u8) = of_char c"
    by (simp add: unat_of_nat)
  with Cons show ?case by (simp add: as_bytes_def text_of_def)
qed (simp add: as_bytes_def text_of_def)

section \<open>Splitting at white space\<close>

text \<open>The characters of Unicode's \<open>White_Space\<close> property.\<close>

definition is_whitespace :: "nat \<Rightarrow> bool" where
  "is_whitespace c \<longleftrightarrow> 9 \<le> c \<and> c \<le> 13 \<or> c = 32 \<or> c = 133 \<or> c = 160 \<or> c = 5760
     \<or> 8192 \<le> c \<and> c \<le> 8202 \<or> c = 8232 \<or> c = 8233 \<or> c = 8239 \<or> c = 8287 \<or> c = 12288"

fun split_ws :: "ustr \<Rightarrow> ustr \<Rightarrow> ustr list" where
  "split_ws w [] = (if w = [] then [] else [w])"
| "split_ws w (c # cs) =
     (if is_whitespace c then (if w = [] then split_ws [] cs else w # split_ws [] cs)
      else split_ws (w @ [c]) cs)"

definition split_whitespace :: "ustr \<Rightarrow> ustr list" where
  "split_whitespace t = split_ws [] t"

lemma split_ws_word:
  "\<forall>c \<in> set u. \<not> is_whitespace c \<Longrightarrow> split_ws w (u @ rest) = split_ws (w @ u) rest"
  by (induction u arbitrary: w) auto

lemma split_whitespace_two:
  assumes "\<forall>c \<in> set u. \<not> is_whitespace c" and "\<forall>c \<in> set v. \<not> is_whitespace c"
    and "u \<noteq> []" and "v \<noteq> []" and "is_whitespace s" and "is_whitespace e"
  shows "split_whitespace (u @ [s] @ v @ [e]) = [u, v]"
  using assms by (simp add: split_whitespace_def split_ws_word)

text \<open>\<open>str::strip_prefix\<close>.\<close>

definition strip_prefix :: "ustr \<Rightarrow> ustr \<Rightarrow> ustr option" where
  "strip_prefix p s = (if take (length p) s = p then Some (drop (length p) s) else None)"

section \<open>Decimal integers\<close>

fun show_nat :: "nat \<Rightarrow> string" where
  "show_nat n = (if n < 10 then [char_of (48 + n)]
                 else show_nat (n div 10) @ [char_of (48 + n mod 10)])"

declare show_nat.simps [simp del]

datatype parse_int_error = Empty | InvalidDigit | PosOverflow

text \<open>
  \<open>from_str_radix\<close> at radix 10 for an unsigned type: the product is checked before the digit
  is looked at, a bad digit is reported before an overflow, and the sum is checked last.
\<close>

fun parse_digits :: "nat \<Rightarrow> nat \<Rightarrow> ustr \<Rightarrow> (parse_int_error, nat) result" where
  "parse_digits lim acc [] = Inr acc"
| "parse_digits lim acc (c # cs) =
     (if \<not> (48 \<le> c \<and> c \<le> 57) then Inl InvalidDigit
      else if acc * 10 > lim then Inl PosOverflow
      else if acc * 10 + (c - 48) > lim then Inl PosOverflow
      else parse_digits lim (acc * 10 + (c - 48)) cs)"

definition parse_unsigned :: "nat \<Rightarrow> ustr \<Rightarrow> (parse_int_error, nat) result" where
  "parse_unsigned lim s =
     (case s of
        [] \<Rightarrow> Inl Empty
      | c # cs \<Rightarrow>
          if (c = 43 \<or> c = 45) \<and> cs = [] then Inl InvalidDigit
          else if c = 43 then parse_digits lim 0 cs
          else parse_digits lim 0 s)"

definition parse_u32 :: "ustr \<Rightarrow> (parse_int_error, u32) result" where
  "parse_u32 s = map_sum id word_of_nat (parse_unsigned (2 ^ 32 - 1) s)"

definition parse_u64 :: "ustr \<Rightarrow> (parse_int_error, u64) result" where
  "parse_u64 s = map_sum id word_of_nat (parse_unsigned (2 ^ 64 - 1) s)"

lemma show_nat_nonempty [simp]: "show_nat n \<noteq> []"
  by (subst show_nat.simps) simp

lemma length_show_nat: "n < 10 ^ k \<Longrightarrow> 0 < k \<Longrightarrow> length (show_nat n) \<le> k"
proof (induction k arbitrary: n)
  case (Suc k)
  show ?case
  proof (cases "n < 10")
    case True
    then show ?thesis by (simp add: show_nat.simps [of n])
  next
    case False
    then have "0 < k" using Suc.prems(1) by (cases k) auto
    moreover have "n div 10 < 10 ^ k" using Suc.prems(1) by (simp add: less_mult_imp_div_less mult.commute)
    ultimately show ?thesis using False Suc.IH [of "n div 10"] by (simp add: show_nat.simps [of n])
  qed
qed simp

lemma of_char_digit: "d < 10 \<Longrightarrow> (of_char (char_of (48 + d)) :: nat) = 48 + d"
  by (simp add: of_char_of)

lemma show_nat_digits: "\<forall>c \<in> set (show_nat n). 48 \<le> (of_char c :: nat) \<and> (of_char c :: nat) \<le> 57"
proof (induction n rule: show_nat.induct)
  case (1 n)
  show ?case
  proof (cases "n < 10")
    case True
    then show ?thesis by (simp add: show_nat.simps [of n] of_char_digit)
  next
    case False
    have "n mod 10 < 10" by simp
    with False 1 show ?thesis by (auto simp: show_nat.simps [of n] of_char_digit)
  qed
qed

lemma parse_digits_append:
  "parse_digits m acc xs = Inr v \<Longrightarrow> parse_digits m acc (xs @ ys) = parse_digits m v ys"
  by (induction xs arbitrary: acc) (auto split: if_splits)

lemma parse_digits_one: "q * 10 + r \<le> m \<Longrightarrow> r < 10 \<Longrightarrow> parse_digits m q [48 + r] = Inr (q * 10 + r)"
  by simp

lemma parse_digits_show_nat: "n \<le> m \<Longrightarrow> parse_digits m 0 (text_of (show_nat n)) = Inr n"
proof (induction n rule: show_nat.induct)
  case (1 n)
  show ?case
  proof (cases "n < 10")
    case True
    with 1 show ?thesis by (simp add: show_nat.simps [of n] text_of_def of_char_digit)
  next
    case False
    have d: "n mod 10 < 10" "n div 10 * 10 + n mod 10 = n" by simp_all
    from False 1 have "parse_digits m 0 (text_of (show_nat (n div 10))) = Inr (n div 10)" by simp
    then have "parse_digits m 0 (text_of (show_nat n)) = parse_digits m (n div 10) [48 + n mod 10]"
      using False parse_digits_append d(1)
      by (simp add: show_nat.simps [of n] text_of_def of_char_digit)
    also have "\<dots> = Inr n"
      using parse_digits_one [of "n div 10" "n mod 10" m, unfolded d(2), OF "1.prems" d(1)] .
    finally show ?thesis .
  qed
qed

lemma parse_unsigned_show_nat: "n \<le> m \<Longrightarrow> parse_unsigned m (text_of (show_nat n)) = Inr n"
proof -
  assume n: "n \<le> m"
  obtain c cs where s: "show_nat n = c # cs" by (cases "show_nat n") auto
  then have "48 \<le> (of_char c :: nat)" using show_nat_digits [of n] by simp
  moreover have "parse_digits m 0 (of_char c # map of_char cs) = Inr n"
    using parse_digits_show_nat [OF n] by (simp add: s text_of_def)
  ultimately show ?thesis by (auto simp: parse_unsigned_def text_of_def s)
qed

lemma parse_u32_show [simp]: "parse_u32 (text_of (show_nat (unat v))) = Inr v"
proof -
  have "unat v \<le> 4294967295" using unat_u32_bound [of v] by linarith
  then show ?thesis by (simp add: parse_u32_def parse_unsigned_show_nat)
qed

lemma parse_u64_show [simp]: "parse_u64 (text_of (show_nat (unat v))) = Inr v"
proof -
  have "unat v \<le> 18446744073709551615" using unat_u64_bound [of v] by linarith
  then show ?thesis by (simp add: parse_u64_def parse_unsigned_show_nat)
qed

lemma digit_text:
  assumes "c \<in> set (text_of (show_nat n))"
  shows "48 \<le> c \<and> c \<le> 57"
  using assms show_nat_digits [of n] by (auto simp: text_of_def)

section \<open>Hexadecimal digests\<close>

definition hex_digit :: "nat \<Rightarrow> char" where
  "hex_digit n = char_of (if n < 10 then 48 + n else 87 + n)"

definition hex_byte :: "u8 \<Rightarrow> string" where
  "hex_byte b = [hex_digit (unat b div 16), hex_digit (unat b mod 16)]"

definition hex :: "bytes \<Rightarrow> string" where
  "hex bs = concat (map hex_byte bs)"

lemma of_char_hex_digit:
  "n < 16 \<Longrightarrow> (of_char (hex_digit n) :: nat) = (if n < 10 then 48 + n else 87 + n)"
  by (simp add: hex_digit_def of_char_of)

lemma hex_digit_inj: "m < 16 \<Longrightarrow> n < 16 \<Longrightarrow> hex_digit m = hex_digit n \<Longrightarrow> m = n"
proof -
  assume mn: "m < 16" "n < 16" and "hex_digit m = hex_digit n"
  then have "(of_char (hex_digit m) :: nat) = of_char (hex_digit n)" by simp
  then show "m = n"
    unfolding of_char_hex_digit [OF mn(1)] of_char_hex_digit [OF mn(2)] by (simp split: if_splits)
qed

lemma hex_byte_inj: "hex_byte a = hex_byte b \<Longrightarrow> a = b"
proof -
  assume h: "hex_byte a = hex_byte b"
  have bound: "unat (x :: u8) < 256" for x using unsigned_less [of x, where 'a = nat] by simp
  have "unat a div 16 = unat b div 16"
    using h bound [of a] bound [of b] by (intro hex_digit_inj) (auto simp: hex_byte_def)
  moreover have "unat a mod 16 = unat b mod 16"
    using h by (intro hex_digit_inj) (auto simp: hex_byte_def)
  ultimately have "unat a = unat b" by (metis div_mult_mod_eq)
  then show "a = b" by (simp add: word_unat_eq_iff)
qed

lemma hex_inj: "hex a = hex b \<longleftrightarrow> a = b"
proof
  assume "hex a = hex b"
  then have "map hex_byte a = map hex_byte b"
    by (intro concat_fixed_inj [where k = 2]) (auto simp: hex_def hex_byte_def)
  then show "a = b" using hex_byte_inj by (auto simp: inj_map_eq_map inj_def)
qed simp

lemma hex_chars: "c \<in> set (hex bs) \<Longrightarrow> 48 \<le> (of_char c :: nat) \<and> (of_char c :: nat) < 128"
proof -
  assume "c \<in> set (hex bs)"
  then obtain b where "c = hex_digit (unat (b :: u8) div 16) \<or> c = hex_digit (unat b mod 16)"
    by (auto simp: hex_def hex_byte_def)
  moreover have "unat b < 256" using unsigned_less [of b, where 'a = nat] by simp
  then have "unat b div 16 < 16" by simp
  ultimately show ?thesis using of_char_hex_digit by (auto split: if_splits)
qed

lemma length_hex [simp]: "length (hex bs) = 2 * length bs"
  by (induction bs) (auto simp: hex_def hex_byte_def)

lemma text_of_inject [simp]: "text_of a = text_of b \<longleftrightarrow> a = b"
proof -
  have "inj (of_char :: char \<Rightarrow> nat)" by (metis char_of_char injI)
  then show ?thesis by (simp add: text_of_def inj_map_eq_map)
qed

lemma not_ws: "48 \<le> c \<and> c < 128 \<Longrightarrow> \<not> is_whitespace c"
  by (simp add: is_whitespace_def)

lemma hex_text_not_ws: "c \<in> set (text_of (hex bs)) \<Longrightarrow> \<not> is_whitespace c"
  using hex_chars not_ws by (fastforce simp: text_of_def)

lemma digit_text_not_ws: "c \<in> set (text_of (show_nat n)) \<Longrightarrow> \<not> is_whitespace c"
  using digit_text [of c n] not_ws by simp

end
