(* ===== verification/Interfaces.thy ===== *)
theory Interfaces
  imports Prelude
begin

text \<open>
  The contracts components rely on, as locales; each is interpreted on the model's definitions
  in the theory of the component that provides it.

  \<^item> \<open>codec\<close>: an encoder and a decoder that accepts exactly the encoder's output;
  \<^item> \<open>allocator\<close>: a stateful allocator of numbers that never hands one out twice;
  \<^item> \<open>gate\<close>: a monotone acceptance gate over versions, which is an allocator of versions.
\<close>

section \<open>Codecs\<close>

locale codec =
  fixes enc :: "'a \<Rightarrow> bytes"
    and dec :: "bytes \<Rightarrow> 'a option"
    and valid :: "'a \<Rightarrow> bool"
  assumes dec_enc: "valid x \<Longrightarrow> dec (enc x) = Some x"
    and enc_dec: "dec b = Some x \<Longrightarrow> valid x \<and> enc x = b"
begin

lemma enc_inj: "valid x \<Longrightarrow> valid y \<Longrightarrow> enc x = enc y \<Longrightarrow> x = y"
  by (metis dec_enc option.inject)

lemma dec_iff: "dec b = Some x \<longleftrightarrow> valid x \<and> b = enc x"
  using dec_enc enc_dec by metis

text \<open>Canonicity: no second spelling of a value is accepted.\<close>

lemma dec_unique: "dec b = Some x \<Longrightarrow> dec b' = Some x \<Longrightarrow> b = b'"
  using enc_dec by metis

end

section \<open>Running a stateful operation\<close>

text \<open>The results of a sequence of operations, in order, and the state they leave.\<close>

fun run_steps :: "('op \<Rightarrow> 's \<Rightarrow> 'r \<times> 's) \<Rightarrow> 'op list \<Rightarrow> 's \<Rightarrow> 'r list \<times> 's" where
  "run_steps step [] s = ([], s)"
| "run_steps step (x # xs) s =
     (let (r, s1) = step x s; (rs, s2) = run_steps step xs s1 in (r # rs, s2))"

text \<open>The successful results of a run.\<close>

fun oks :: "('e, 'a) result list \<Rightarrow> 'a list" where
  "oks [] = []"
| "oks (Inl e # rs) = oks rs"
| "oks (Inr a # rs) = a # oks rs"

lemma run_steps_Cons [simp]:
  "run_steps step (x # xs) s =
     (fst (step x s) # fst (run_steps step xs (snd (step x s))), snd (run_steps step xs (snd (step x s))))"
  by (simp add: case_prod_unfold Let_def)

declare run_steps.simps(2) [simp del]

section \<open>Allocators\<close>

text \<open>
  \<open>frontier\<close> bounds everything handed out so far. A success returns a number at or above the
  old frontier and below the new one; a refusal leaves the frontier where it was.
\<close>

locale allocator =
  fixes step :: "'op \<Rightarrow> 's \<Rightarrow> ('e, 'a) result \<times> 's"
    and num :: "'a \<Rightarrow> nat"
    and frontier :: "'s \<Rightarrow> nat"
  assumes granted: "step x s = (Inr a, s') \<Longrightarrow> frontier s \<le> num a \<and> num a < frontier s'"
    and refused: "step x s = (Inl e, s') \<Longrightarrow> frontier s' = frontier s"
begin

lemma frontier_mono: "frontier s \<le> frontier (snd (step x s))"
proof (cases "step x s")
  case (Pair r s')
  then show ?thesis using granted [of x s] refused [of x s] by (cases r) fastforce+
qed

lemma run_frontier_mono: "frontier s \<le> frontier (snd (run_steps step xs s))"
proof (induction xs arbitrary: s)
  case (Cons x xs)
  show ?case using frontier_mono [of s x] Cons.IH [of "snd (step x s)"] by simp
qed simp

lemma run_granted_range:
  "a \<in> set (oks (fst (run_steps step xs s))) \<Longrightarrow>
     frontier s \<le> num a \<and> num a < frontier (snd (run_steps step xs s))"
proof (induction xs arbitrary: s)
  case (Cons x xs)
  obtain r s1 where st: "step x s = (r, s1)" by force
  have mono: "frontier s \<le> frontier s1" "frontier s1 \<le> frontier (snd (run_steps step xs s1))"
    using frontier_mono [of s x] run_frontier_mono [of s1 xs] st by simp_all
  show ?case
  proof (cases "a \<in> set (oks (fst (run_steps step xs s1)))")
    case True
    then show ?thesis using Cons.IH [of s1] mono st by simp
  next
    case False
    with Cons.prems st have "r = Inr a"
      by (cases r) auto
    with st granted mono show ?thesis
      by fastforce
  qed
qed simp

text \<open>Whatever the operations and whichever of them fail, the numbers handed out increase strictly.\<close>

lemma run_strictly_increasing: "sorted_wrt (<) (map num (oks (fst (run_steps step xs s))))"
proof (induction xs arbitrary: s)
  case (Cons x xs)
  obtain r s1 where st: "step x s = (r, s1)" by force
  have tail: "sorted_wrt (<) (map num (oks (fst (run_steps step xs s1))))" by (rule Cons.IH)
  show ?case
  proof (cases r)
    case (Inl e)
    with tail st show ?thesis by simp
  next
    case (Inr a)
    with st granted have "num a < frontier s1" by blast
    then have "\<forall>b \<in> set (oks (fst (run_steps step xs s1))). num a < num b"
      using run_granted_range [of _ xs s1] by fastforce
    with Inr tail st show ?thesis by simp
  qed
qed simp

lemma run_distinct: "distinct (map num (oks (fst (run_steps step xs s))))"
  using run_strictly_increasing [of xs s] by (simp add: strict_sorted_iff)

end

section \<open>Gates\<close>

text \<open>
  A gate over versions: \<open>acc\<close> reads from an operation and its outcome the version it accepted, if
  any. A gate accepts only at or above its floor, which then moves one past the accepted version;
  every other outcome leaves the floor. A gate is an allocator whose numbers are the versions it
  accepts.
\<close>

definition accept_step :: "('op \<Rightarrow> 's \<Rightarrow> 'r \<times> 's) \<Rightarrow> ('op \<Rightarrow> 'r \<Rightarrow> nat option) \<Rightarrow> 'op \<Rightarrow> 's \<Rightarrow> ('r, nat) result \<times> 's" where
  "accept_step offer acc x s =
     (let (r, s') = offer x s in (case acc x r of Some v \<Rightarrow> Inr v | None \<Rightarrow> Inl r, s'))"

definition accepted_versions :: "('op \<Rightarrow> 's \<Rightarrow> 'r \<times> 's) \<Rightarrow> ('op \<Rightarrow> 'r \<Rightarrow> nat option) \<Rightarrow> 'op list \<Rightarrow> 's \<Rightarrow> nat list" where
  "accepted_versions offer acc xs s = oks (fst (run_steps (accept_step offer acc) xs s))"

locale gate =
  fixes offer :: "'op \<Rightarrow> 's \<Rightarrow> 'r \<times> 's"
    and acc :: "'op \<Rightarrow> 'r \<Rightarrow> nat option"
    and floor_of :: "'s \<Rightarrow> nat"
  assumes accepted: "offer x s = (r, s') \<Longrightarrow> acc x r = Some v \<Longrightarrow> floor_of s \<le> v \<and> floor_of s' = v + 1"
    and kept: "offer x s = (r, s') \<Longrightarrow> acc x r = None \<Longrightarrow> floor_of s' = floor_of s"

sublocale gate \<subseteq> versions: allocator "accept_step offer acc" "\<lambda>v. v" floor_of
  using accepted kept
  by unfold_locales (fastforce simp: accept_step_def split: prod.splits option.splits)+

context gate
begin

lemma accepted_increase: "sorted_wrt (<) (accepted_versions offer acc xs s)"
  using versions.run_strictly_increasing [of xs s] by (simp add: accepted_versions_def)

lemma floor_mono: "floor_of s \<le> floor_of (snd (run_steps offer xs s))"
proof (induction xs arbitrary: s)
  case (Cons x xs)
  obtain r s' where st: "offer x s = (r, s')" by force
  have "floor_of s \<le> floor_of s'" using accepted [OF st] kept [OF st] by (cases "acc x r") auto
  with st Cons.IH [of s'] show ?case by simp
qed simp

lemma replay_refused:
  assumes "offer x s = (r, s')" and "acc x r = Some v"
    and "offer y (snd (run_steps offer zs s')) = (q, u)" and "acc y q = Some w"
  shows "v < w"
  using accepted [OF assms(1,2)] accepted [OF assms(3,4)] floor_mono [of s' zs] by simp

end

end
