(* ===== verification/Instances.thy ===== *)
theory Instances
  imports Externals
begin

text \<open>
  Concrete stand-ins for the libraries, small enough to evaluate: a byte-folding hash, an SSZ codec
  of byte arrays, and bit lists as lists of bits. They show that the laws the theorems assume of
  the libraries can hold together, and the witnesses of the properties are stated on them.
\<close>

section \<open>A hash\<close>

definition fold_hash :: "bytes \<Rightarrow> 32 barr" where
  "fold_hash bs = mk_barr (u64_to_le (foldl (\<lambda>h b. 31 * h + ucast b + 7) 0 bs) @ replicate 24 0)"

section \<open>SSZ of a fixed byte array\<close>

definition array_ssz :: "'n::len barr ssz" where
  "array_ssz = \<lparr>as_ssz_bytes = bytes_of,
     from_ssz_bytes = (\<lambda>b. case arr_of_slice b of None \<Rightarrow> Inl ''InvalidByteLength'' | Some a \<Rightarrow> Inr a)\<rparr>"

lemma array_ssz_laws: "ssz_roundtrip array_ssz" "ssz_canonical array_ssz"
  by (auto simp: ssz_roundtrip_def ssz_canonical_def array_ssz_def arr_of_slice_def split: option.splits if_splits)

section \<open>Bit lists\<close>

definition bools_bitlist :: "usize \<Rightarrow> bool list bitlist" where
  "bools_bitlist N = \<lparr>bl_with_capacity = (\<lambda>n. if n \<le> N then Some (replicate n False) else None),
     bl_set = (\<lambda>b i v. if i < length b then Some (b[i := v]) else None),
     bl_len = length, bl_num_set_bits = (\<lambda>b. length (filter id b)), bl_iter = id\<rparr>"

lemma bools_bitlist_laws: "bitlist_laws N (bools_bitlist N)"
  by (simp add: bitlist_laws_def bools_bitlist_def)

section \<open>Lists of arrays\<close>

text \<open>Cutting a byte string into 32-byte arrays; a remainder is dropped.\<close>

function arrays :: "bytes \<Rightarrow> 32 barr list" where
  "arrays b = (if length b < 32 then [] else mk_barr (take 32 b) # arrays (drop 32 b))"
  by pat_completeness auto
termination by (relation "measure length") auto

declare arrays.simps [simp del]

lemma length_concat_arrays: "length (concat (map bytes_of (xs :: 32 barr list))) = 32 * length xs"
  by (induction xs) auto

lemma arrays_concat: "arrays (concat (map bytes_of xs)) = xs"
  by (induction xs) (simp_all add: arrays.simps)

lemma concat_arrays: "32 * k = length b \<Longrightarrow> concat (map bytes_of (arrays b)) = b"
proof (induction k arbitrary: b)
  case 0
  then show ?case by (simp add: arrays.simps)
next
  case (Suc k)
  then have "concat (map bytes_of (arrays (drop 32 b))) = drop 32 b" by simp
  moreover have "\<not> length b < 32" using Suc.prems by simp
  ultimately show ?case by (simp add: arrays.simps [of b])
qed

section \<open>Signatures\<close>

text \<open>A signature that spells out who signed what at which slot.\<close>

definition plain_xmss :: "(32 barr, 32 barr, 32 barr \<times> 32 barr \<times> u32, unit) xmss" where
  "plain_xmss = \<lparr>xmss_verify = (\<lambda>pk msg sig slot. sig = (pk, msg, slot)), xmss_sign = (\<lambda>rng sk msg slot. Inr (sk, msg, slot))\<rparr>"

definition numbered_key :: "nat \<Rightarrow> 32 barr" where
  "numbered_key i = mk_barr (le_nat 32 i)"

lemma numbered_key_inj: "i < 65536 \<Longrightarrow> j < 65536 \<Longrightarrow> numbered_key i = numbered_key j \<Longrightarrow> i = j"
proof -
  assume "i < 65536" "j < 65536" and "numbered_key i = numbered_key j"
  then have "bytes_of (numbered_key i) = bytes_of (numbered_key j)" by simp
  then have "le_nat 32 i = le_nat 32 j" by (simp add: numbered_key_def)
  then show "i = j" using \<open>i < 65536\<close> \<open>j < 65536\<close> by (intro le_nat_inj [of i 32 j]) auto
qed

section \<open>Aggregates\<close>

text \<open>An aggregate that lists its claim in the clear and verifies by construction.\<close>

definition plain_leanvm :: "(32 barr, 32 barr \<times> 32 barr \<times> u32, unit, u32 \<times> 32 barr \<times> 32 barr list) leanvm" where
  "plain_leanvm = \<lparr>
     agg_from_bytes = (\<lambda>b. if length b < 36 then Inl ''short'' else Inr (u32_from_le (take 4 b), mk_barr (region 4 32 b), arrays (drop 36 b))),
     agg_to_bytes = (\<lambda>(slot, m, pks). u32_to_le slot @ bytes_of m @ concat (map bytes_of pks)),
     agg_xmss_signers = (\<lambda>(slot, m, pks). [(slot, m, remdups pks)]),
     agg_sphincs_signers = (\<lambda>_. []),
     agg_verify = (\<lambda>_. True),
     aggregate = (\<lambda>raws rate. case raws of [] \<Rightarrow> Inl ''nothing to aggregate''
        | (pk, slot, m, sig) # _ \<Rightarrow> Inr (slot, m, map fst raws))\<rparr>"

lemma plain_agg_roundtrip: "agg_from_bytes plain_leanvm (agg_to_bytes plain_leanvm a) = Inr a"
  by (cases a) (simp add: plain_leanvm_def region_def arrays_concat)

end
