(* ===== verification/Freshness.thy ===== *)
theory Freshness
  imports Externals File_System Rust_Text Interfaces Instances
begin

text \<open>
  The anti-rollback mark of a verifier (src/state/freshness.rs): its one-line state file, \<open>create\<close>,
  \<open>open\<close>, \<open>load_from_trusted_source\<close>, and the strict gate \<open>try_advance\<close>, which persists before
  memory moves.

  The lemmas show that the state file round-trips, that the mark is a gate (accepted versions
  increase strictly), and that a persisted mark is what the next \<open>open\<close> finds.
\<close>

section \<open>State\<close>

datatype decision = Accepted | Stale u32

datatype mark_parse_error = EmptyMarkFile | MissingFreshness | TrailingMarkData | DifferentAnchor
  | UnparseableFreshness parse_int_error

datatype mark_reason = MarkExists path | MarkUnreadable path | MarkNotUtf8 path | MarkParse mark_parse_error
  | ValidStateKept path

datatype high_water_mark_error = MarkState mark_reason | MarkBusy | MarkIo io_error

record high_water_mark =
  m_path :: path
  m_fingerprint :: string
  m_current :: u32
  m_have :: bool

definition fingerprint :: "(bytes \<Rightarrow> 32 barr) \<Rightarrow> bytes \<Rightarrow> string" where
  "fingerprint sha3 anchor = hex (bytes_of (sha3 anchor))"

definition parse_mark :: "ustr \<Rightarrow> string \<Rightarrow> (mark_parse_error, u32 \<times> bool) result" where
  "parse_mark s fp =
     (case split_whitespace s of
        [] \<Rightarrow> Inl EmptyMarkFile
      | [w] \<Rightarrow> Inl MissingFreshness
      | w # v # rest \<Rightarrow>
          if rest \<noteq> [] then Inl TrailingMarkData
          else if w \<noteq> text_of fp then Inl DifferentAnchor
          else if v = text_of ''none'' then Inr (0, False)
          else case parse_u32 v of
                 Inl e \<Rightarrow> Inl (UnparseableFreshness e)
               | Inr n \<Rightarrow> Inr (n, True))"

definition mark_acquire_lock :: "lock_fault \<Rightarrow> path \<Rightarrow> fs \<Rightarrow> (high_water_mark_error, unit) result \<times> fs" where
  "mark_acquire_lock f p s =
     (case try_lock_sibling f p s of
        (Locked, s') \<Rightarrow> (Inr (), s')
      | (WouldBlock, s') \<Rightarrow> (Inl MarkBusy, s')
      | (LockIo e, s') \<Rightarrow> (Inl (MarkIo e), s'))"

definition mark_line :: "string \<Rightarrow> u32 option \<Rightarrow> string" where
  "mark_line fp v = fp @ '' '' @ (case v of None \<Rightarrow> ''none'' | Some n \<Rightarrow> show_nat (unat n)) @ [char_of (10 :: nat)]"

definition mark_persist ::
  "replace_fault \<Rightarrow> high_water_mark \<Rightarrow> u32 option \<Rightarrow> fs \<Rightarrow> (high_water_mark_error, unit) result \<times> fs" where
  "mark_persist f m v s =
     (let (r, s') = replace_file f (m_path m) (as_bytes (mark_line (m_fingerprint m) v)) s
      in (map_err MarkIo r, s'))"

section \<open>Operations\<close>

text \<open>An early return drops the lock file, which releases the lock.\<close>

definition mark_create ::
  "(bytes \<Rightarrow> 32 barr) \<Rightarrow> lock_fault \<Rightarrow> read_fault \<Rightarrow> replace_fault \<Rightarrow> path \<Rightarrow> bytes \<Rightarrow> fs
    \<Rightarrow> (high_water_mark_error, high_water_mark) result \<times> fs" where
  "mark_create sha3 lf mf rf p anchor s =
     (case mark_acquire_lock lf p s of
        (Inl e, s1) \<Rightarrow> (Inl e, s1)
      | (Inr _, s1) \<Rightarrow>
          if mf = ReadFails then (Inl (MarkIo OtherIo), unlock_sibling p s1)
          else if files s1 p \<noteq> None then (Inl (MarkState (MarkExists p)), unlock_sibling p s1)
          else let m = \<lparr>m_path = p, m_fingerprint = fingerprint sha3 anchor, m_current = 0, m_have = False\<rparr>
               in case mark_persist rf m None s1 of
                    (Inl e, s2) \<Rightarrow> (Inl e, unlock_sibling p s2)
                  | (Inr _, s2) \<Rightarrow> (Inr m, s2))"

definition mark_open ::
  "(bytes \<Rightarrow> 32 barr) \<Rightarrow> lock_fault \<Rightarrow> read_fault \<Rightarrow> path \<Rightarrow> bytes \<Rightarrow> fs
    \<Rightarrow> (high_water_mark_error, high_water_mark) result \<times> fs" where
  "mark_open sha3 lf rdf p anchor s =
     (case mark_acquire_lock lf p s of
        (Inl e, s1) \<Rightarrow> (Inl e, s1)
      | (Inr _, s1) \<Rightarrow>
          let fp = fingerprint sha3 anchor
          in case (if rdf = ReadFails then None else files s1 p) of
               None \<Rightarrow> (Inl (MarkState (MarkUnreadable p)), unlock_sibling p s1)
             | Some raw \<Rightarrow>
                 (case from_utf8 raw of
                    None \<Rightarrow> (Inl (MarkState (MarkNotUtf8 p)), unlock_sibling p s1)
                  | Some txt \<Rightarrow>
                      (case parse_mark txt fp of
                         Inl e \<Rightarrow> (Inl (MarkState (MarkParse e)), unlock_sibling p s1)
                       | Inr (cur, have) \<Rightarrow>
                           (Inr \<lparr>m_path = p, m_fingerprint = fp, m_current = cur, m_have = have\<rparr>, s1))))"

definition valid_mark_bytes :: "string \<Rightarrow> bytes \<Rightarrow> bool" where
  "valid_mark_bytes fp raw = (case from_utf8 raw of None \<Rightarrow> False | Some txt \<Rightarrow> is_ok (parse_mark txt fp))"

definition load_from_trusted_source ::
  "(bytes \<Rightarrow> 32 barr) \<Rightarrow> lock_fault \<Rightarrow> read_fault \<Rightarrow> replace_fault \<Rightarrow> path \<Rightarrow> bytes \<Rightarrow> u32 \<Rightarrow> fs
    \<Rightarrow> (high_water_mark_error, high_water_mark) result \<times> fs" where
  "load_from_trusted_source sha3 lf rdf rf p anchor v s =
     (case mark_acquire_lock lf p s of
        (Inl e, s1) \<Rightarrow> (Inl e, s1)
      | (Inr _, s1) \<Rightarrow>
          let fp = fingerprint sha3 anchor;
              m = \<lparr>m_path = p, m_fingerprint = fp, m_current = v, m_have = True\<rparr>
          in if rdf = ReadFails then (Inl (MarkIo OtherIo), unlock_sibling p s1)
             else if (case files s1 p of None \<Rightarrow> False | Some raw \<Rightarrow> valid_mark_bytes fp raw)
             then (Inl (MarkState (ValidStateKept p)), unlock_sibling p s1)
             else case mark_persist rf m (Some v) s1 of
                    (Inl e, s2) \<Rightarrow> (Inl e, unlock_sibling p s2)
                  | (Inr _, s2) \<Rightarrow> (Inr m, s2))"

definition mark_current :: "high_water_mark \<Rightarrow> u32 option" where
  "mark_current m = (if m_have m then Some (m_current m) else None)"

definition try_advance ::
  "replace_fault \<Rightarrow> u32 \<Rightarrow> high_water_mark \<Rightarrow> fs
    \<Rightarrow> (high_water_mark_error, decision) result \<times> high_water_mark \<times> fs" where
  "try_advance rf v m s =
     (if m_have m \<and> v \<le> m_current m then (Inr (Stale (m_current m)), m, s)
      else case mark_persist rf m (Some v) s of
             (Inl e, s') \<Rightarrow> (Inl e, m, s')
           | (Inr _, s') \<Rightarrow> (Inr Accepted, m\<lparr>m_current := v, m_have := True\<rparr>, s'))"

section \<open>The state file\<close>

definition mark_floor :: "high_water_mark \<Rightarrow> nat" where
  "mark_floor m = (if m_have m then unat (m_current m) + 1 else 0)"

lemma mark_value_chars: "c \<in> set (case v of None \<Rightarrow> ''none'' | Some n \<Rightarrow> show_nat (unat n)) \<Longrightarrow>
    48 \<le> (of_char c :: nat) \<and> of_char c < (128 :: nat)"
  using show_nat_digits by (fastforce split: option.splits)

lemma mark_line_ascii:
  "c \<in> set (mark_line (fingerprint sha3 anchor) v) \<Longrightarrow> of_char c < (128 :: nat)"
  using hex_chars [of c "bytes_of (sha3 anchor)"] mark_value_chars [of c v]
  by (auto simp: mark_line_def fingerprint_def of_char_of)

lemma parse_mark_line:
  "parse_mark (text_of (mark_line (fingerprint sha3 anchor) v)) (fingerprint sha3 anchor)
     = Inr (case v of None \<Rightarrow> (0, False) | Some n \<Rightarrow> (n, True))"
proof -
  let ?v = "case v of None \<Rightarrow> ''none'' | Some n \<Rightarrow> show_nat (unat n)"
  let ?h = "text_of (fingerprint sha3 anchor)" and ?n = "text_of ?v"
  have t: "text_of (mark_line (fingerprint sha3 anchor) v) = ?h @ [32] @ ?n @ [10]"
    by (simp add: mark_line_def text_of_def of_char_of)
  have "length ?h = 64" by (simp add: fingerprint_def text_of_def)
  then have "?h \<noteq> []" and "?n \<noteq> []" by (auto simp: text_of_def split: option.splits)
  moreover have "\<forall>c \<in> set ?h. \<not> is_whitespace c" "\<forall>c \<in> set ?n. \<not> is_whitespace c"
    using hex_text_not_ws mark_value_chars [of _ v] not_ws unfolding fingerprint_def
    by (blast, fastforce simp: text_of_def)
  moreover have "is_whitespace 32" "is_whitespace 10" by (simp_all add: is_whitespace_def)
  ultimately have "split_whitespace (?h @ [32] @ ?n @ [10]) = [?h, ?n]"
    by (intro split_whitespace_two) simp_all
  moreover have "show_nat k \<noteq> ''none''" for k
    using show_nat_digits [of k] by auto
  ultimately show ?thesis
    by (auto simp: parse_mark_def t split: option.splits)
qed

lemma mark_line_utf8:
  "from_utf8 (as_bytes (mark_line (fingerprint sha3 anchor) v)) = Some (text_of (mark_line (fingerprint sha3 anchor) v))"
  using mark_line_ascii by (intro from_utf8_ascii) blast

text \<open>What a file content says about versions: the lowest one it still lets through.\<close>

definition content_floor :: "string \<Rightarrow> bytes \<Rightarrow> nat option" where
  "content_floor fp raw =
     (case from_utf8 raw of None \<Rightarrow> None
      | Some txt \<Rightarrow> (case parse_mark txt fp of Inl _ \<Rightarrow> None
          | Inr (v, have) \<Rightarrow> Some (if have then unat v + 1 else 0)))"

lemma content_floor_line:
  "content_floor (fingerprint sha3 anchor) (as_bytes (mark_line (fingerprint sha3 anchor) v))
     = Some (case v of None \<Rightarrow> 0 | Some n \<Rightarrow> unat n + 1)"
  by (auto simp: content_floor_def mark_line_utf8 parse_mark_line split: option.splits)

lemma valid_mark_floor: "valid_mark_bytes fp raw \<longleftrightarrow> content_floor fp raw \<noteq> None"
  by (auto simp: valid_mark_bytes_def content_floor_def is_ok_def split: option.splits sum.splits)

lemma mark_acquire_lock_keeps:
  "mark_acquire_lock lf p f = (r, f') \<Longrightarrow> files f' p = files f p \<and> stable f' = stable f"
  by (auto simp: mark_acquire_lock_def try_lock_sibling_def Let_def sibling_not_self [symmetric] split: if_splits)

lemma mark_open_keeps:
  assumes "mark_open sha3 lf rdf p anchor s = (r, s')"
  shows "files s' p = files s p \<and> stable s' = stable s"
proof -
  obtain l s1 where "mark_acquire_lock lf p s = (l, s1)" by force
  then show ?thesis using assms mark_acquire_lock_keeps [of lf p s]
    by (auto simp: mark_open_def Let_def unlock_sibling_def split: sum.splits option.splits if_splits)
qed

lemma mark_open_floor:
  assumes "mark_open sha3 lf rdf p anchor s = (Inr m, s')"
  shows "m_path m = p \<and> m_fingerprint m = fingerprint sha3 anchor
    \<and> (\<exists>raw. files s p = Some raw \<and> content_floor (fingerprint sha3 anchor) raw = Some (mark_floor m))"
proof -
  obtain l s1 where l: "mark_acquire_lock lf p s = (l, s1)" by force
  then show ?thesis using assms mark_acquire_lock_keeps [OF l]
    by (auto simp: mark_open_def Let_def content_floor_def mark_floor_def split: sum.splits option.splits if_splits)
qed

section \<open>The gate\<close>

definition offer_version ::
  "replace_fault \<times> u32 \<Rightarrow> high_water_mark \<times> fs \<Rightarrow> (high_water_mark_error, decision) result \<times> high_water_mark \<times> fs" where
  "offer_version fv ms = try_advance (fst fv) (snd fv) (fst ms) (snd ms)"

lemma try_advance_accepted:
  "try_advance rf v m s = (Inr Accepted, m', s') \<longleftrightarrow>
     mark_floor m \<le> unat v \<and> rf = ReplaceClean \<and> m' = m\<lparr>m_current := v, m_have := True\<rparr>
     \<and> s' = snd (replace_file ReplaceClean (m_path m) (as_bytes (mark_line (m_fingerprint m) (Some v))) s)"
proof -
  have le: "mark_floor m \<le> unat v \<longleftrightarrow> \<not> (m_have m \<and> v \<le> m_current m)"
    by (auto simp: mark_floor_def word_le_nat_alt)
  obtain r s1 where r: "replace_file rf (m_path m) (as_bytes (mark_line (m_fingerprint m) (Some v))) s = (r, s1)" by force
  then have "r = (if rf = ReplaceClean then Inr () else Inl OtherIo)"
    by (metis fst_conv replace_file_result)
  then show ?thesis using r unfolding le by (auto simp: try_advance_def mark_persist_def)
qed

lemma try_advance_kept:
  "try_advance rf v m s = (r, m', s') \<Longrightarrow> r \<noteq> Inr Accepted \<Longrightarrow> m' = m"
  by (auto simp: try_advance_def split: if_splits prod.splits sum.splits)

definition version_accepted :: "replace_fault \<times> u32 \<Rightarrow> (high_water_mark_error, decision) result \<Rightarrow> nat option" where
  "version_accepted fv r = (if r = Inr Accepted then Some (unat (snd fv)) else None)"

interpretation mark_gate: gate offer_version version_accepted "\<lambda>ms. mark_floor (fst ms)"
proof
  fix x :: "replace_fault \<times> u32" and ms ms' :: "high_water_mark \<times> fs" and r and v :: nat
  assume o: "offer_version x ms = (r, ms')"
  obtain m' s' where ms': "ms' = (m', s')" by force
  have t: "try_advance (fst x) (snd x) (fst ms) (snd ms) = (r, m', s')"
    using o ms' by (simp add: offer_version_def)
  show "mark_floor (fst ms) \<le> v \<and> mark_floor (fst ms') = v + 1" if "version_accepted x r = Some v"
    using t that by (auto simp: version_accepted_def try_advance_accepted ms' mark_floor_def split: if_splits)
  show "mark_floor (fst ms') = mark_floor (fst ms)" if "version_accepted x r = None"
    using try_advance_kept [OF t] that ms' by (auto simp: version_accepted_def split: if_splits)
qed

end
