(* ===== verification/Freshness_Crash.thy ===== *)
theory Freshness_Crash
  imports Freshness
begin

text \<open>
  The anti-rollback mark among crashes: a machine whose steps are \<open>try_advance\<close> with any failure of
  its system calls, process death, power loss, reopening, and attempts at trusted-source recovery
  (src/state/freshness.rs). A rename that is not yet durable may or may not survive a power loss.
  The versions accepted over the whole life of the state file increase strictly.
\<close>

section \<open>The machine\<close>

record mark_machine =
  mk_mem :: "high_water_mark option"
  mk_fs :: fs
  mk_accepted :: "u32 list"

inductive mark_step ::
  "(bytes \<Rightarrow> 32 barr) \<Rightarrow> path \<Rightarrow> bytes \<Rightarrow> mark_machine \<Rightarrow> mark_machine \<Rightarrow> bool"
  for sha3 :: "bytes \<Rightarrow> 32 barr" and p :: path and anchor :: bytes where
  accept: "mk_mem s = Some m \<Longrightarrow> try_advance rf v m (mk_fs s) = (Inr Accepted, m', f') \<Longrightarrow>
     mark_step sha3 p anchor s (s\<lparr>mk_mem := Some m', mk_fs := f', mk_accepted := mk_accepted s @ [v]\<rparr>)"
| refuse: "mk_mem s = Some m \<Longrightarrow> try_advance rf v m (mk_fs s) = (r, m', f') \<Longrightarrow> r \<noteq> Inr Accepted \<Longrightarrow>
     mark_step sha3 p anchor s (s\<lparr>mk_mem := Some m', mk_fs := f'\<rparr>)"
| die: "mark_step sha3 p anchor s (s\<lparr>mk_mem := None, mk_fs := unlock_sibling p (mk_fs s)\<rparr>)"
| power_loss: "x = files (mk_fs s) p \<or> x = stable (mk_fs s) p \<Longrightarrow>
     mark_step sha3 p anchor s
       (s\<lparr>mk_mem := None, mk_fs := \<lparr>files = (stable (mk_fs s))(p := x), stable = (stable (mk_fs s))(p := x), locks = {}\<rparr>\<rparr>)"
| reopen: "mk_mem s = None \<Longrightarrow> mark_open sha3 lf rdf p anchor (mk_fs s) = (Inr m, f') \<Longrightarrow>
     mark_step sha3 p anchor s (s\<lparr>mk_mem := Some m, mk_fs := f'\<rparr>)"
| reopen_fails: "mk_mem s = None \<Longrightarrow> mark_open sha3 lf rdf p anchor (mk_fs s) = (Inl e, f') \<Longrightarrow>
     mark_step sha3 p anchor s (s\<lparr>mk_fs := f'\<rparr>)"
| recover: "mk_mem s = None \<Longrightarrow> load_from_trusted_source sha3 lf rdf rf p anchor v (mk_fs s) = (Inr m, f') \<Longrightarrow>
     mark_step sha3 p anchor s (s\<lparr>mk_mem := Some m, mk_fs := f'\<rparr>)"
| recover_fails: "mk_mem s = None \<Longrightarrow> load_from_trusted_source sha3 lf rdf rf p anchor v (mk_fs s) = (Inl e, f') \<Longrightarrow>
     mark_step sha3 p anchor s (s\<lparr>mk_fs := f'\<rparr>)"

inductive mark_reach :: "(bytes \<Rightarrow> 32 barr) \<Rightarrow> path \<Rightarrow> bytes \<Rightarrow> mark_machine \<Rightarrow> bool"
  for sha3 :: "bytes \<Rightarrow> 32 barr" and p :: path and anchor :: bytes where
  created: "mark_create sha3 lf mf rf p anchor f0 = (Inr m, f1) \<Longrightarrow>
     mark_reach sha3 p anchor \<lparr>mk_mem = Some m, mk_fs = f1, mk_accepted = []\<rparr>"
| recovered: "load_from_trusted_source sha3 lf rdf rf p anchor v f0 = (Inr m, f1) \<Longrightarrow>
     mark_reach sha3 p anchor \<lparr>mk_mem = Some m, mk_fs = f1, mk_accepted = []\<rparr>"
| stepped: "mark_reach sha3 p anchor s \<Longrightarrow> mark_step sha3 p anchor s t \<Longrightarrow> mark_reach sha3 p anchor t"

section \<open>The invariant\<close>

definition under :: "u32 list \<Rightarrow> nat \<Rightarrow> bool" where
  "under xs n \<longleftrightarrow> (\<forall>x \<in> set xs. unat x < n)"

definition floor_above :: "string \<Rightarrow> u32 list \<Rightarrow> bytes option \<Rightarrow> bool" where
  "floor_above fp xs c \<longleftrightarrow> (\<exists>raw n. c = Some raw \<and> content_floor fp raw = Some n \<and> under xs n)"

definition mark_inv :: "(bytes \<Rightarrow> 32 barr) \<Rightarrow> path \<Rightarrow> bytes \<Rightarrow> mark_machine \<Rightarrow> bool" where
  "mark_inv sha3 p anchor s \<longleftrightarrow>
     (let fp = fingerprint sha3 anchor
      in floor_above fp (mk_accepted s) (files (mk_fs s) p)
       \<and> floor_above fp (mk_accepted s) (stable (mk_fs s) p)
       \<and> sorted_wrt (<) (map unat (mk_accepted s))
       \<and> (\<forall>m. mk_mem s = Some m \<longrightarrow>
            m_path m = p \<and> m_fingerprint m = fp \<and> under (mk_accepted s) (mark_floor m)))"

lemma mark_persist_target:
  assumes "mark_persist rf m v f = (r, f')" and "m_path m = p"
  shows "(files f' p = files f p \<or> files f' p = Some (as_bytes (mark_line (m_fingerprint m) v)))
    \<and> (stable f' p = stable f p \<or> stable f' p = Some (as_bytes (mark_line (m_fingerprint m) v)))
    \<and> (r = Inr () \<longrightarrow> files f' p = Some (as_bytes (mark_line (m_fingerprint m) v))
         \<and> stable f' p = Some (as_bytes (mark_line (m_fingerprint m) v)))"
proof -
  obtain q f1 where q: "replace_file rf p (as_bytes (mark_line (m_fingerprint m) v)) f = (q, f1)" by force
  then show ?thesis
    using assms replace_file_target [of rf p "as_bytes (mark_line (m_fingerprint m) v)" f]
      replace_file_result [of rf p "as_bytes (mark_line (m_fingerprint m) v)" f]
    by (auto simp: mark_persist_def split: if_splits)
qed

lemma try_advance_target:
  assumes "try_advance rf v m f = (r, m', f')" and "m_path m = p"
  shows "files f' p \<in> {files f p, Some (as_bytes (mark_line (m_fingerprint m) (Some v)))}
    \<and> stable f' p \<in> {stable f p, Some (as_bytes (mark_line (m_fingerprint m) (Some v)))}
    \<and> (f' \<noteq> f \<longrightarrow> mark_floor m \<le> unat v)
    \<and> (r = Inr Accepted \<longrightarrow> files f' p = Some (as_bytes (mark_line (m_fingerprint m) (Some v)))
         \<and> stable f' p = Some (as_bytes (mark_line (m_fingerprint m) (Some v))))"
proof (cases "m_have m \<and> v \<le> m_current m")
  case True
  then show ?thesis using assms by (auto simp: try_advance_def)
next
  case False
  then have "mark_floor m \<le> unat v" by (auto simp: mark_floor_def word_le_nat_alt)
  moreover obtain q f1 where q: "mark_persist rf m (Some v) f = (q, f1)" by force
  ultimately show ?thesis using assms(1) False mark_persist_target [OF q assms(2)]
    by (auto simp: try_advance_def split: sum.splits)
qed

lemma under_line:
  "under xs n \<Longrightarrow> n \<le> unat v \<Longrightarrow>
     floor_above (fingerprint sha3 anchor) xs (Some (as_bytes (mark_line (fingerprint sha3 anchor) (Some v))))"
  by (force simp: floor_above_def content_floor_line under_def)

lemma under_line_snoc:
  "under xs n \<Longrightarrow> n \<le> unat v \<Longrightarrow>
     floor_above (fingerprint sha3 anchor) (xs @ [v]) (Some (as_bytes (mark_line (fingerprint sha3 anchor) (Some v))))"
  by (force simp: floor_above_def content_floor_line under_def)

lemma mark_step_accept:
  assumes "mark_inv sha3 p anchor s" and "mk_mem s = Some m"
    and t: "try_advance rf v m (mk_fs s) = (Inr Accepted, m', f')"
  shows "mark_inv sha3 p anchor (s\<lparr>mk_mem := Some m', mk_fs := f', mk_accepted := mk_accepted s @ [v]\<rparr>)"
proof -
  have m: "m_path m = p" "m_fingerprint m = fingerprint sha3 anchor" "under (mk_accepted s) (mark_floor m)"
    "sorted_wrt (<) (map unat (mk_accepted s))"
    using assms(1,2) by (auto simp: mark_inv_def Let_def)
  have le: "mark_floor m \<le> unat v" and m': "m' = m\<lparr>m_current := v, m_have := True\<rparr>"
    using t by (auto simp: try_advance_accepted)
  have "sorted_wrt (<) (map unat (mk_accepted s @ [v]))" "under (mk_accepted s @ [v]) (mark_floor m')"
    using m le by (fastforce simp: sorted_wrt_append under_def m' mark_floor_def)+
  then show ?thesis
    using try_advance_target [OF t m(1)] under_line_snoc [OF m(3) le, of sha3 anchor] m m'
    by (simp add: mark_inv_def Let_def)
qed

lemma mark_step_refuse:
  assumes "mark_inv sha3 p anchor s" and "mk_mem s = Some m"
    and t: "try_advance rf v m (mk_fs s) = (r, m', f')" and "r \<noteq> Inr Accepted"
  shows "mark_inv sha3 p anchor (s\<lparr>mk_mem := Some m', mk_fs := f'\<rparr>)"
proof -
  have m: "m_path m = p" "m_fingerprint m = fingerprint sha3 anchor" "under (mk_accepted s) (mark_floor m)"
    using assms(1,2) by (auto simp: mark_inv_def Let_def)
  have "m' = m" using try_advance_kept [OF t assms(4)] .
  moreover have "f' = mk_fs s \<or> floor_above (fingerprint sha3 anchor) (mk_accepted s)
      (Some (as_bytes (mark_line (m_fingerprint m) (Some v))))"
    using try_advance_target [OF t m(1)] under_line [OF m(3)] m(2) by metis
  ultimately show ?thesis
    using try_advance_target [OF t m(1)] assms(1,2) by (auto simp: mark_inv_def Let_def)
qed

lemma recovery_refused:
  assumes "floor_above (fingerprint sha3 anchor) xs (files f p)"
    and "load_from_trusted_source sha3 lf rdf rf p anchor v f = (r, f')"
  shows "(\<exists>e. r = Inl e) \<and> files f' p = files f p \<and> stable f' = stable f"
proof -
  obtain l f1 where l: "mark_acquire_lock lf p f = (l, f1)" by force
  have "case files f p of None \<Rightarrow> False | Some raw \<Rightarrow> valid_mark_bytes (fingerprint sha3 anchor) raw"
    using assms(1) by (auto simp: floor_above_def valid_mark_floor)
  then show ?thesis using assms(2) l mark_acquire_lock_keeps [OF l]
    by (auto simp: load_from_trusted_source_def Let_def unlock_sibling_def split: sum.splits if_splits)
qed

lemma mark_step_inv:
  assumes "mark_step sha3 p anchor s t" and "mark_inv sha3 p anchor s"
  shows "mark_inv sha3 p anchor t"
  using assms
proof (cases rule: mark_step.cases)
  case (accept m rf v m' f')
  then show ?thesis using mark_step_accept [OF assms(2)] by simp
next
  case (refuse m rf v r m' f')
  then show ?thesis using mark_step_refuse [OF assms(2)] by simp
next
  case (reopen lf rdf m f')
  then show ?thesis using assms(2) mark_open_floor [OF reopen(3)] mark_open_keeps [OF reopen(3)]
    by (auto simp: mark_inv_def Let_def floor_above_def)
next
  case (reopen_fails lf rdf e f')
  then show ?thesis using assms(2) mark_open_keeps [OF reopen_fails(3)] by (auto simp: mark_inv_def Let_def)
next
  case (recover lf rdf rf v m f')
  then show ?thesis using assms(2) recovery_refused [OF _ recover(3)] by (auto simp: mark_inv_def Let_def)
next
  case (recover_fails lf rdf rf v e f')
  then show ?thesis using assms(2) recovery_refused [OF _ recover_fails(3)] by (auto simp: mark_inv_def Let_def)
qed (use assms(2) in \<open>auto simp: mark_inv_def Let_def unlock_sibling_def\<close>)

lemma mark_inv_fresh:
  assumes "mark_persist rf m v f = (Inr (), f')" and "m_path m = p" and "m_fingerprint m = fingerprint sha3 anchor"
  shows "mark_inv sha3 p anchor \<lparr>mk_mem = Some m, mk_fs = f', mk_accepted = []\<rparr>"
  using mark_persist_target [OF assms(1,2)] assms(2,3)
  by (simp add: mark_inv_def floor_above_def content_floor_line under_def)

lemma mark_reach_inv: "mark_reach sha3 p anchor s \<Longrightarrow> mark_inv sha3 p anchor s"
proof (induction rule: mark_reach.induct)
  case (created lf mf rf f0 m f1)
  then show ?case
    by (auto simp: mark_create_def Let_def intro!: mark_inv_fresh split: prod.splits sum.splits if_splits)
next
  case (recovered lf rdf rf v f0 m f1)
  then show ?case
    by (auto simp: load_from_trusted_source_def Let_def intro!: mark_inv_fresh split: prod.splits sum.splits if_splits)
next
  case (stepped s t)
  then show ?case using mark_step_inv by blast
qed

section \<open>Rollback protection\<close>

text \<open>
  C4. No rollback across restarts: over the whole life of a mark's state file, through failed
  writes, renames that were not yet durable, process deaths, power losses, reopenings and attempts
  at trusted-source recovery, the versions accepted increase strictly.
\<close>

theorem accepted_versions_never_roll_back:
  assumes "mark_reach sha3 p anchor s"
  shows "sorted_wrt (<) (map unat (mk_accepted s))"
  using mark_reach_inv [OF assms] by (simp add: mark_inv_def Let_def)

text \<open>
  C13. The mark always comes back: in every reachable state whose lock is free, \<open>open\<close> succeeds under the
  same anchor and its mark is above every version ever accepted, while recovery is refused.
\<close>

theorem mark_reopens_above_everything_accepted:
  assumes "mark_reach sha3 p anchor s" and "sibling p ''lock'' \<notin> locks (mk_fs s)"
  shows "(\<exists>m f'. mark_open sha3 LockClean ReadClean p anchor (mk_fs s) = (Inr m, f')
            \<and> (\<forall>v \<in> set (mk_accepted s). unat v < mark_floor m))
    \<and> fst (load_from_trusted_source sha3 LockClean ReadClean rf p anchor w (mk_fs s)) = Inl (MarkState (ValidStateKept p))"
proof -
  let ?fp = "fingerprint sha3 anchor"
  obtain raw n where raw: "files (mk_fs s) p = Some raw" "content_floor ?fp raw = Some n" "under (mk_accepted s) n"
    using mark_reach_inv [OF assms(1)] by (auto simp: mark_inv_def floor_above_def Let_def)
  obtain f1 where l: "mark_acquire_lock LockClean p (mk_fs s) = (Inr (), f1)"
    using assms(2) by (simp add: mark_acquire_lock_def try_lock_sibling_def Let_def)
  obtain m where o: "mark_open sha3 LockClean ReadClean p anchor (mk_fs s) = (Inr m, f1)"
    using raw l mark_acquire_lock_keeps [OF l]
    by (auto simp: mark_open_def content_floor_def Let_def split: option.splits sum.splits)
  then have "mark_floor m = n" using mark_open_floor [OF o] raw by simp
  moreover have "fst (load_from_trusted_source sha3 LockClean ReadClean rf p anchor w (mk_fs s)) = Inl (MarkState (ValidStateKept p))"
    using raw l mark_acquire_lock_keeps [OF l]
    by (simp add: load_from_trusted_source_def Let_def valid_mark_floor)
  ultimately show ?thesis using o raw(3) by (auto simp: under_def)
qed

section \<open>A run\<close>

lemma mark_run_accept:
  assumes "mark_reach sha3 p anchor s" and "mk_mem s = Some m" and "mark_floor m \<le> unat v"
  shows "\<exists>t. mark_reach sha3 p anchor t \<and> mk_mem t = Some (m\<lparr>m_current := v, m_have := True\<rparr>)
    \<and> mk_accepted t = mk_accepted s @ [v]"
proof -
  have "\<exists>f'. try_advance ReplaceClean v m (mk_fs s) = (Inr Accepted, m\<lparr>m_current := v, m_have := True\<rparr>, f')"
    using assms(3) by (simp add: try_advance_accepted)
  then obtain f' where t: "try_advance ReplaceClean v m (mk_fs s) = (Inr Accepted, m\<lparr>m_current := v, m_have := True\<rparr>, f')"
    by blast
  show ?thesis using mark_reach.stepped [OF assms(1) mark_step.accept [OF assms(2) t]] by fastforce
qed

lemma example_mark_run:
  "\<exists>s. mark_reach fold_hash [''mark''] [] s \<and> mk_accepted s = [3, 8] \<and> mk_mem s = None
     \<and> sibling [''mark''] ''lock'' \<notin> locks (mk_fs s)"
proof -
  let ?m = "\<lparr>m_path = [''mark''], m_fingerprint = fingerprint fold_hash [], m_current = 0, m_have = False\<rparr>"
  obtain f0 where "mark_acquire_lock LockClean [''mark''] no_files = (Inr (), f0)"
    by (simp add: mark_acquire_lock_def try_lock_sibling_def no_files_def Let_def)
  moreover from this have "files f0 [''mark''] = None"
    using mark_acquire_lock_keeps by (fastforce simp: no_files_def)
  ultimately obtain f1 where "mark_create fold_hash LockClean ReadClean ReplaceClean [''mark''] [] no_files = (Inr ?m, f1)"
    by (simp add: mark_create_def mark_persist_def replace_file_def Let_def)
  from mark_reach.created [OF this]
  have "mark_reach fold_hash [''mark''] [] \<lparr>mk_mem = Some ?m, mk_fs = f1, mk_accepted = []\<rparr>" .
  from mark_run_accept [OF this, of ?m 3] obtain s1 where s1: "mark_reach fold_hash [''mark''] [] s1"
    "mk_mem s1 = Some (?m\<lparr>m_current := 3, m_have := True\<rparr>)" "mk_accepted s1 = [3]"
    by (auto simp: mark_floor_def)
  from mark_run_accept [OF s1(1,2), of 8] obtain s2 where s2: "mark_reach fold_hash [''mark''] [] s2" "mk_accepted s2 = [3, 8]"
    using s1(3) by (auto simp: mark_floor_def)
  show ?thesis
    using mark_reach.stepped [OF s2(1) mark_step.die] s2(2) by (fastforce simp: unlock_sibling_def)
qed

theorem accepted_versions_never_roll_back_witness:
  "\<exists>s. mark_reach fold_hash [''mark''] [] s \<and> mk_accepted s = [3, 8] \<and> sorted_wrt (<) (map unat (mk_accepted s))"
  using example_mark_run accepted_versions_never_roll_back [of fold_hash "[''mark'']" "[]"] by blast

theorem mark_reopens_above_everything_accepted_witness:
  "\<exists>s m f'. mark_reach fold_hash [''mark''] [] s \<and> mk_accepted s = [3, 8]
     \<and> mark_open fold_hash LockClean ReadClean [''mark''] [] (mk_fs s) = (Inr m, f') \<and> 8 < mark_floor m"
proof -
  obtain s where s: "mark_reach fold_hash [''mark''] [] s" "mk_accepted s = [3, 8]"
    "sibling [''mark''] ''lock'' \<notin> locks (mk_fs s)"
    using example_mark_run by blast
  then show ?thesis using mark_reopens_above_everything_accepted [OF s(1,3), of ReplaceClean 0] by auto
qed

end
