(* ===== verification/Slot_Counter.thy ===== *)
theory Slot_Counter
  imports Externals File_System Rust_Text Interfaces
begin

text \<open>
  The durable slot counter of one XMSS key (src/state/slot_counter.rs): the 128-byte journal
  record and its codec, the two-record journal file and its recovery, the textual predecessors
  and their migration, and \<open>AtomicSlotCounter\<close> with \<open>create\<close>, \<open>open\<close>, \<open>reserve\<close> and \<open>reserve_at\<close>.

  The lemmas show that the codec round-trips and accepts nothing but its own output, that
  recovery picks the newest of two consecutive records and refuses everything else, that a
  reservation returns a slot only after the record that burns it is durable, and that no
  counter ever returns the same slot twice. What a crash can do is the subject of the theory
  of the crash machine.
\<close>

section \<open>Journal records\<close>

definition RECORD_SIZE :: usize where "RECORD_SIZE = 128"
definition JOURNAL_SLOT_SIZE :: usize where "JOURNAL_SLOT_SIZE = 4096"
definition JOURNAL_SIZE :: usize where "JOURNAL_SIZE = JOURNAL_SLOT_SIZE * 2"
definition CHECKSUM_OFFSET :: usize where "CHECKSUM_OFFSET = 96"
definition JOURNAL_MAGIC :: bytes where "JOURNAL_MAGIC = as_bytes ''DROTSL03''"

lemmas journal_consts = RECORD_SIZE_def JOURNAL_SLOT_SIZE_def JOURNAL_SIZE_def CHECKSUM_OFFSET_def

record journal_record =
  generation :: u64
  next_free :: u64
  key_tag :: "32 barr"

definition encode_record :: "(bytes \<Rightarrow> 32 barr) \<Rightarrow> journal_record \<Rightarrow> bytes" where
  "encode_record sha3 r =
     (let bs = replicate RECORD_SIZE 0;
          bs = write_at 0 JOURNAL_MAGIC bs;
          bs = write_at 8 (u64_to_le (generation r)) bs;
          bs = write_at 16 (u64_to_le (next_free r)) bs;
          bs = write_at 24 (bytes_of (key_tag r)) bs;
          checksum = sha3 (take CHECKSUM_OFFSET bs)
      in write_at CHECKSUM_OFFSET (bytes_of checksum) bs)"

datatype record_error = WrongRecordLength | WrongMagic | NonZeroReserved | ChecksumMismatch | WrongJournalSlot

definition decode_record ::
  "(bytes \<Rightarrow> 32 barr) \<Rightarrow> bytes \<Rightarrow> usize \<Rightarrow> (record_error, journal_record option) result" where
  "decode_record sha3 bs slot =
     (if length bs \<noteq> RECORD_SIZE then Inl WrongRecordLength
      else if list_all (\<lambda>b. b = 0) bs then Inr None
      else if take 8 bs \<noteq> JOURNAL_MAGIC then Inl WrongMagic
      else if list_ex (\<lambda>b. b \<noteq> 0) (region 56 (CHECKSUM_OFFSET - 56) bs) then Inl NonZeroReserved
      else if drop CHECKSUM_OFFSET bs \<noteq> bytes_of (sha3 (take CHECKSUM_OFFSET bs)) then Inl ChecksumMismatch
      else let g = u64_from_le (region 8 8 bs)
           in if unat g mod 2 \<noteq> slot then Inl WrongJournalSlot
              else Inr (Some \<lparr>generation = g, next_free = u64_from_le (region 16 8 bs),
                             key_tag = mk_barr (region 24 32 bs)\<rparr>))"

section \<open>Errors\<close>

text \<open>
  \<open>AtomicSlotCounterError\<close>. The messages of its \<open>State\<close> variant are a datatype, one constructor
  per message with the values it prints.
\<close>

datatype state_reason =
    JournalLength usize
  | NoValidRecord "(usize \<times> record_error) list"
  | ForeignJournal
  | NotOneGenerationApart
  | OutsideWindow u64 u32
  | EmptyStateFile
  | MissingSlotCounter
  | DifferentKey
  | UnparseableCounter parse_int_error
  | TrailingData
  | CounterExists path
  | CannotRead path
  | NeitherJournalNorUtf8
  | AmbiguousLegacy
  | GenerationExhausted

datatype counter_error =
    Exhausted u64 u32
  | AlreadySpent u32 u64
  | State state_reason
  | Busy
  | Io io_error

section \<open>Key fingerprints and the textual predecessors\<close>

definition key_fingerprint :: "(bytes \<Rightarrow> 32 barr) \<Rightarrow> 'pk ssz \<Rightarrow> 'pk \<Rightarrow> 32 barr" where
  "key_fingerprint sha3 K pk = sha3 (as_ssz_bytes K pk)"

definition key_fingerprint_hex :: "32 barr \<Rightarrow> string" where
  "key_fingerprint_hex tag = hex (bytes_of tag)"

definition parse_legacy :: "ustr \<Rightarrow> 32 barr \<Rightarrow> (counter_error, u64 \<times> bool) result" where
  "parse_legacy s tag =
     (let (s, unversioned) = (case strip_prefix (text_of ''v2 '') s of
                                Some versioned \<Rightarrow> (versioned, False) | None \<Rightarrow> (s, True))
      in case split_whitespace s of
           [] \<Rightarrow> Inl (State EmptyStateFile)
         | [fp] \<Rightarrow> Inl (State MissingSlotCounter)
         | fp # nxt # rest \<Rightarrow>
             if fp \<noteq> text_of (key_fingerprint_hex tag) then Inl (State DifferentKey)
             else case parse_u64 nxt of
                    Inl e \<Rightarrow> Inl (State (UnparseableCounter e))
                  | Inr n \<Rightarrow> if rest \<noteq> [] then Inl (State TrailingData) else Inr (n, unversioned))"

section \<open>Recovery\<close>

definition read_slot :: "(bytes \<Rightarrow> 32 barr) \<Rightarrow> bytes \<Rightarrow> usize \<Rightarrow> (record_error, journal_record option) result" where
  "read_slot sha3 bs slot = decode_record sha3 (region (slot * JOURNAL_SLOT_SIZE) RECORD_SIZE bs) slot"

text \<open>The loop over the two slots: the decoded records and the reasons of the undecodable ones.\<close>

definition scan_slot ::
  "(bytes \<Rightarrow> 32 barr) \<Rightarrow> bytes \<Rightarrow> usize \<Rightarrow> journal_record list \<times> (usize \<times> record_error) list
    \<Rightarrow> journal_record list \<times> (usize \<times> record_error) list" where
  "scan_slot sha3 bs slot acc =
     (case read_slot sha3 bs slot of
        Inr (Some r) \<Rightarrow> (fst acc @ [r], snd acc)
      | Inr None \<Rightarrow> acc
      | Inl reason \<Rightarrow> (fst acc, snd acc @ [(slot, reason)]))"

text \<open>What the rest of \<open>recover_journal\<close> does with the records found.\<close>

definition select_record ::
  "journal_record list \<Rightarrow> (usize \<times> record_error) list \<Rightarrow> 32 barr \<Rightarrow> u32 \<Rightarrow> (counter_error, journal_record) result" where
  "select_record records invalid tag slot_end =
     (if records = [] then Inl (State (NoValidRecord invalid))
      else if list_ex (\<lambda>r. key_tag r \<noteq> tag) records then Inl (State ForeignJournal)
      else
        let sorted = sort_key (\<lambda>r. unat (generation r)) records;
            newest = last sorted
        in if length sorted = 2 \<and>
              (generation (sorted ! 1) \<noteq> generation (sorted ! 0) + 1
               \<or> next_free (sorted ! 1) \<le> next_free (sorted ! 0))
           then Inl (State NotOneGenerationApart)
           else if unat (next_free newest) > unat slot_end + 1
           then Inl (State (OutsideWindow (next_free newest) slot_end))
           else Inr newest)"

definition recover_journal ::
  "(bytes \<Rightarrow> 32 barr) \<Rightarrow> bytes \<Rightarrow> 32 barr \<Rightarrow> u32 \<Rightarrow> (counter_error, journal_record) result" where
  "recover_journal sha3 bs tag slot_end =
     (if length bs \<noteq> JOURNAL_SIZE then Inl (State (JournalLength (length bs)))
      else let (records, invalid) = scan_slot sha3 bs 1 (scan_slot sha3 bs 0 ([], []))
           in select_record records invalid tag slot_end)"

section \<open>The counter\<close>

text \<open>
  The in-memory counter. The open file is named by its path: nothing renames over it while the
  lock is held.
\<close>

record atomic_slot_counter =
  c_path :: path
  c_key_tag :: "32 barr"
  c_generation :: u64
  c_next :: u64
  c_end :: u32

definition acquire_lock :: "lock_fault \<Rightarrow> path \<Rightarrow> fs \<Rightarrow> (counter_error, unit) result \<times> fs" where
  "acquire_lock f p s =
     (case try_lock_sibling f p s of
        (Locked, s') \<Rightarrow> (Inr (), s')
      | (WouldBlock, s') \<Rightarrow> (Inl Busy, s')
      | (LockIo e, s') \<Rightarrow> (Inl (Io e), s'))"

definition install_journal ::
  "(bytes \<Rightarrow> 32 barr) \<Rightarrow> replace_fault \<Rightarrow> path \<Rightarrow> 32 barr \<Rightarrow> u64 \<Rightarrow> fs \<Rightarrow> (counter_error, unit) result \<times> fs" where
  "install_journal sha3 f p tag nf s =
     (let image = write_at 0 (encode_record sha3 \<lparr>generation = 0, next_free = nf, key_tag = tag\<rparr>)
                    (replicate JOURNAL_SIZE 0);
          (r, s') = replace_file f p image s
      in (map_err Io r, s'))"

text \<open>An early return drops the lock file, which releases the lock.\<close>

definition counter_create ::
  "(bytes \<Rightarrow> 32 barr) \<Rightarrow> 'pk ssz \<Rightarrow> lock_fault \<Rightarrow> read_fault \<Rightarrow> replace_fault \<Rightarrow> path \<Rightarrow> 'pk \<Rightarrow> u32 \<Rightarrow> u32 \<Rightarrow> fs
    \<Rightarrow> (counter_error, atomic_slot_counter) result \<times> fs" where
  "counter_create sha3 K lf mf rf p pk slot_start slot_end s =
     (let tag = key_fingerprint sha3 K pk
      in case acquire_lock lf p s of
           (Inl e, s1) \<Rightarrow> (Inl e, s1)
         | (Inr _, s1) \<Rightarrow>
             if path_exists mf p s1 then (Inl (State (CounterExists p)), unlock_sibling p s1)
             else case install_journal sha3 rf p tag (ucast slot_start) s1 of
                    (Inl e, s2) \<Rightarrow> (Inl e, unlock_sibling p s2)
                  | (Inr _, s2) \<Rightarrow>
                      (Inr \<lparr>c_path = p, c_key_tag = tag, c_generation = 0,
                            c_next = ucast slot_start, c_end = slot_end\<rparr>, s2))"

text \<open>What \<open>open\<close> does once it holds the lock and has read the file.\<close>

definition open_content ::
  "(bytes \<Rightarrow> 32 barr) \<Rightarrow> replace_fault \<Rightarrow> path \<Rightarrow> 32 barr \<Rightarrow> u32 \<Rightarrow> bytes \<Rightarrow> fs
    \<Rightarrow> (counter_error, atomic_slot_counter) result \<times> fs" where
  "open_content sha3 rf p tag slot_end raw s =
     (if length raw = JOURNAL_SIZE then
        case recover_journal sha3 raw tag slot_end of
          Inl e \<Rightarrow> (Inl e, s)
        | Inr cur \<Rightarrow> (Inr \<lparr>c_path = p, c_key_tag = tag, c_generation = generation cur,
                          c_next = next_free cur, c_end = slot_end\<rparr>, s)
      else case from_utf8 raw of
        None \<Rightarrow> (Inl (State NeitherJournalNorUtf8), s)
      | Some txt \<Rightarrow>
          (case parse_legacy txt tag of
             Inl e \<Rightarrow> (Inl e, s)
           | Inr (nxt, unversioned) \<Rightarrow>
               if unat nxt > unat slot_end + 1 then (Inl (State (OutsideWindow nxt slot_end)), s)
               else if unversioned \<and> slot_end = -1 \<and> nxt = ucast (-1 :: u32)
               then (Inl (State AmbiguousLegacy), s)
               else case install_journal sha3 rf p tag nxt s of
                      (Inl e, s') \<Rightarrow> (Inl e, s')
                    | (Inr _, s') \<Rightarrow>
                        (Inr \<lparr>c_path = p, c_key_tag = tag, c_generation = 0,
                              c_next = nxt, c_end = slot_end\<rparr>, s')))"

definition counter_open ::
  "(bytes \<Rightarrow> 32 barr) \<Rightarrow> 'pk ssz \<Rightarrow> lock_fault \<Rightarrow> read_fault \<Rightarrow> replace_fault \<Rightarrow> path \<Rightarrow> 'pk \<Rightarrow> u32 \<Rightarrow> fs
    \<Rightarrow> (counter_error, atomic_slot_counter) result \<times> fs" where
  "counter_open sha3 K lf rdf rf p pk slot_end s =
     (let tag = key_fingerprint sha3 K pk
      in case acquire_lock lf p s of
           (Inl e, s1) \<Rightarrow> (Inl e, s1)
         | (Inr _, s1) \<Rightarrow>
             (case (if rdf = ReadFails then None else files s1 p) of
                None \<Rightarrow> (Inl (State (CannotRead p)), unlock_sibling p s1)
              | Some raw \<Rightarrow>
                  (case open_content sha3 rf p tag slot_end raw s1 of
                     (Inl e, s2) \<Rightarrow> (Inl e, unlock_sibling p s2)
                   | (Inr c, s2) \<Rightarrow> (Inr c, s2))))"

definition counter_drop :: "atomic_slot_counter \<Rightarrow> fs \<Rightarrow> fs" where
  "counter_drop c s = unlock_sibling (c_path c) s"

section \<open>Reservations\<close>

datatype persist_fault = PersistClean | SeekFails | RecordWriteFails nat | SyncDataFails

definition overwrite :: "path \<Rightarrow> nat \<Rightarrow> bytes \<Rightarrow> fs \<Rightarrow> fs" where
  "overwrite p off bs s = s\<lparr>files := (files s)(p := map_option (write_at off bs) (files s p))\<rparr>"

definition sync_data :: "path \<Rightarrow> fs \<Rightarrow> fs" where
  "sync_data p s = s\<lparr>stable := (stable s)(p := files s p)\<rparr>"

definition persist_next ::
  "(bytes \<Rightarrow> 32 barr) \<Rightarrow> persist_fault \<Rightarrow> u64 \<Rightarrow> atomic_slot_counter \<Rightarrow> fs
    \<Rightarrow> (counter_error, unit) result \<times> atomic_slot_counter \<times> fs" where
  "persist_next sha3 f nf c s =
     (case checked_add (c_generation c) 1 of
        None \<Rightarrow> (Inl (State GenerationExhausted), c, s)
      | Some g \<Rightarrow>
          let slot = unat g mod 2;
              bs = encode_record sha3 \<lparr>generation = g, next_free = nf, key_tag = c_key_tag c\<rparr>;
              off = slot * JOURNAL_SLOT_SIZE;
              written = overwrite (c_path c) off bs s
          in case f of
               SeekFails \<Rightarrow> (Inl (Io OtherIo), c, s)
             | RecordWriteFails k \<Rightarrow> (Inl (Io OtherIo), c, overwrite (c_path c) off (take k bs) s)
             | SyncDataFails \<Rightarrow> (Inl (Io OtherIo), c, written)
             | PersistClean \<Rightarrow> (Inr (), c\<lparr>c_generation := g\<rparr>, sync_data (c_path c) written))"

definition next_slot :: "atomic_slot_counter \<Rightarrow> u64" where
  "next_slot c = c_next c"

definition remaining :: "atomic_slot_counter \<Rightarrow> nat" where
  "remaining c = (unat (c_end c) + 1) - unat (c_next c)"

definition reserve ::
  "(bytes \<Rightarrow> 32 barr) \<Rightarrow> persist_fault \<Rightarrow> atomic_slot_counter \<Rightarrow> fs
    \<Rightarrow> (counter_error, u32) result \<times> atomic_slot_counter \<times> fs" where
  "reserve sha3 f c s =
     (if c_next c > ucast (c_end c) then (Inl (Exhausted (c_next c) (c_end c)), c, s)
      else let slot = ucast (c_next c);
               target = c_next c + 1
           in case persist_next sha3 f target c s of
                (Inl e, c', s') \<Rightarrow> (Inl e, c', s')
              | (Inr _, c', s') \<Rightarrow> (Inr slot, c'\<lparr>c_next := target\<rparr>, s'))"

definition reserve_at ::
  "(bytes \<Rightarrow> 32 barr) \<Rightarrow> persist_fault \<Rightarrow> u32 \<Rightarrow> atomic_slot_counter \<Rightarrow> fs
    \<Rightarrow> (counter_error, u32) result \<times> atomic_slot_counter \<times> fs" where
  "reserve_at sha3 f requested c s =
     (let req64 = ucast requested :: u64
      in if c_next c > ucast (c_end c) \<or> requested > c_end c
         then (Inl (Exhausted (max (c_next c) req64) (c_end c)), c, s)
         else if req64 < c_next c then (Inl (AlreadySpent requested (c_next c)), c, s)
         else let target = req64 + 1
              in case persist_next sha3 f target c s of
                   (Inl e, c', s') \<Rightarrow> (Inl e, c', s')
                 | (Inr _, c', s') \<Rightarrow> (Inr requested, c'\<lparr>c_next := target\<rparr>, s'))"

section \<open>The record codec\<close>

definition record_body :: "journal_record \<Rightarrow> bytes" where
  "record_body r = JOURNAL_MAGIC @ u64_to_le (generation r) @ u64_to_le (next_free r)
     @ bytes_of (key_tag r) @ replicate 40 0"

lemma length_JOURNAL_MAGIC [simp]: "length JOURNAL_MAGIC = 8"
  by (simp add: JOURNAL_MAGIC_def as_bytes_def)

lemma length_record_body [simp]: "length (record_body r) = 96"
  by (simp add: record_body_def)

lemma encode_record_flat: "encode_record sha3 r = record_body r @ bytes_of (sha3 (record_body r))"
  by (simp add: encode_record_def record_body_def write_at_def journal_consts Let_def
      drop_replicate take_replicate)

lemma length_encode_record [simp]: "length (encode_record sha3 r) = RECORD_SIZE"
  by (simp add: encode_record_flat RECORD_SIZE_def)

lemma region_append_skip: "length a \<le> off \<Longrightarrow> region off n (a @ b) = region (off - length a) n b"
  by (simp add: region_def)

lemma region_append_hit: "length a = n \<Longrightarrow> region 0 n (a @ b) = a"
  by (simp add: region_def)

lemma decode_encode_record:
  "decode_record sha3 (encode_record sha3 r) slot =
     (if unat (generation r) mod 2 = slot then Inr (Some r) else Inl WrongJournalSlot)"
proof -
  let ?b = "encode_record sha3 r"
  have take8: "take 8 ?b = JOURNAL_MAGIC" by (simp add: encode_record_flat record_body_def)
  have nz: "\<not> list_all (\<lambda>b. b = 0) ?b"
    by (simp add: encode_record_flat record_body_def JOURNAL_MAGIC_def as_bytes_def)
  have body: "take CHECKSUM_OFFSET ?b = record_body r" "drop CHECKSUM_OFFSET ?b = bytes_of (sha3 (record_body r))"
    by (simp_all add: encode_record_flat CHECKSUM_OFFSET_def)
  have regions: "region 8 8 ?b = u64_to_le (generation r)" "region 16 8 ?b = u64_to_le (next_free r)"
    "region 24 32 ?b = bytes_of (key_tag r)" "region 56 40 ?b = replicate 40 0"
    by (simp_all add: encode_record_flat record_body_def region_append_skip region_append_hit)
  have reserved: "\<not> list_ex (\<lambda>b. b \<noteq> 0) (region 56 (CHECKSUM_OFFSET - 56) ?b)"
    by (simp add: CHECKSUM_OFFSET_def regions(4) list_ex_iff)
  show ?thesis
    unfolding decode_record_def using nz reserved
    by (simp add: take8 body regions)
qed

lemma list_split_regions:
  assumes "length bs = 128"
  shows "bs = take 8 bs @ region 8 8 bs @ region 16 8 bs @ region 24 32 bs @ region 56 40 bs @ drop 96 bs"
proof -
  have split: "drop a bs = region a n bs @ drop (a + n) bs" for a n
    using append_take_drop_id [of n "drop a bs"] by (simp add: region_def add.commute)
  have "bs = take 8 bs @ drop 8 bs" by simp
  also have "\<dots> = take 8 bs @ region 8 8 bs @ region 16 8 bs @ region 24 32 bs @ region 56 40 bs @ drop 96 bs"
    using split [of 8 8] split [of 16 8] split [of 24 32] split [of 56 40] by simp
  finally show ?thesis .
qed

lemma decode_record_Some:
  assumes "decode_record sha3 bs slot = Inr (Some r)"
  shows "bs = encode_record sha3 r \<and> unat (generation r) mod 2 = slot"
proof -
  from assms have len: "length bs = 128" and magic: "take 8 bs = JOURNAL_MAGIC"
    and res: "\<not> list_ex (\<lambda>b. b \<noteq> 0) (region 56 40 bs)"
    and sum: "drop 96 bs = bytes_of (sha3 (take 96 bs))"
    and par: "unat (u64_from_le (region 8 8 bs)) mod 2 = slot"
    and r: "r = \<lparr>generation = u64_from_le (region 8 8 bs), next_free = u64_from_le (region 16 8 bs),
                 key_tag = mk_barr (region 24 32 bs)\<rparr>"
    by (auto simp: decode_record_def journal_consts Let_def split: if_splits)
  have zeros: "region 56 40 bs = replicate 40 0"
    using res len by (simp add: list_ex_iff replicate_eqI)
  have "take 96 bs = record_body r"
  proof -
    have "take 96 bs = take 8 bs @ region 8 8 bs @ region 16 8 bs @ region 24 32 bs @ region 56 40 bs"
      using arg_cong [OF list_split_regions [OF len], of "take 96"] len by simp
    then show ?thesis using len
      by (simp add: record_body_def r magic zeros u64_to_from_le)
  qed
  then have "bs = encode_record sha3 r"
    using sum by (metis append_take_drop_id encode_record_flat)
  then show ?thesis using par r by simp
qed

definition read_record :: "(bytes \<Rightarrow> 32 barr) \<Rightarrow> usize \<Rightarrow> bytes \<Rightarrow> journal_record option" where
  "read_record sha3 slot bs = (case decode_record sha3 bs slot of Inr (Some r) \<Rightarrow> Some r | _ \<Rightarrow> None)"

lemma read_record_Some: "read_record sha3 slot bs = Some r \<longleftrightarrow> decode_record sha3 bs slot = Inr (Some r)"
  by (auto simp: read_record_def split: sum.splits option.splits)

interpretation journal_codec: codec "encode_record sha3" "read_record sha3 slot"
  "\<lambda>r. unat (generation r) mod 2 = slot" for sha3 slot
proof
  show "unat (generation r) mod 2 = slot \<Longrightarrow> read_record sha3 slot (encode_record sha3 r) = Some r" for r
    by (simp add: read_record_def decode_encode_record)
  show "read_record sha3 slot b = Some r \<Longrightarrow> unat (generation r) mod 2 = slot \<and> encode_record sha3 r = b" for b r
    using decode_record_Some [of sha3 b slot r] by (simp add: read_record_Some)
qed

section \<open>Recovery\<close>

text \<open>
  What recovery should do with the two slots: take the only record there is, or, of two
  consecutive generations with an advancing frontier, the newer one.
\<close>

fun newest :: "journal_record option \<Rightarrow> journal_record option \<Rightarrow> journal_record option" where
  "newest None None = None"
| "newest (Some r) None = Some r"
| "newest None (Some q) = Some q"
| "newest (Some r) (Some q) =
     (if unat (generation q) = unat (generation r) + 1 \<and> next_free r < next_free q then Some q
      else if unat (generation r) = unat (generation q) + 1 \<and> next_free q < next_free r then Some r
      else None)"

definition slot_record :: "(bytes \<Rightarrow> 32 barr) \<Rightarrow> bytes \<Rightarrow> usize \<Rightarrow> journal_record option" where
  "slot_record sha3 bs slot = read_record sha3 slot (region (slot * JOURNAL_SLOT_SIZE) RECORD_SIZE bs)"

lemma slot_record_parity: "slot_record sha3 bs slot = Some r \<Longrightarrow> unat (generation r) mod 2 = slot"
  unfolding slot_record_def using journal_codec.enc_dec by blast

lemma scan_records:
  "fst (scan_slot sha3 bs slot acc) = fst acc @ (case slot_record sha3 bs slot of None \<Rightarrow> [] | Some r \<Rightarrow> [r])"
  by (auto simp: scan_slot_def read_slot_def slot_record_def read_record_def split: sum.splits option.splits)

lemma scan_both:
  "fst (scan_slot sha3 bs 1 (scan_slot sha3 bs 0 ([], []))) =
     (case slot_record sha3 bs 0 of None \<Rightarrow> [] | Some r \<Rightarrow> [r])
     @ (case slot_record sha3 bs 1 of None \<Rightarrow> [] | Some r \<Rightarrow> [r])"
  by (simp add: scan_records)

lemma succ_word_iff:
  fixes a b :: u64
  assumes "unat a mod 2 \<noteq> unat b mod 2" and "unat a \<le> unat b"
  shows "b = a + 1 \<longleftrightarrow> unat b = unat a + 1"
proof -
  have "unat a < unat b" using assms by (metis le_neq_implies_less)
  then have "unat a + 1 < 2 ^ 64" using unat_u64_bound [of b] by simp
  then have "unat (a + 1) = unat a + 1" by (simp add: unat_word_ariths)
  then show ?thesis by (auto simp: word_unat_eq_iff)
qed

lemma select_record_one:
  "select_record [q] invalid tag slot_end = Inr r \<longleftrightarrow>
     r = q \<and> key_tag q = tag \<and> unat (next_free q) \<le> unat slot_end + 1"
  by (auto simp: select_record_def Let_def)

lemma select_record_two:
  assumes par: "unat (generation a) mod 2 \<noteq> unat (generation b) mod 2"
  shows "select_record [a, b] invalid tag slot_end = Inr r \<longleftrightarrow>
     newest (Some a) (Some b) = Some r \<and> key_tag a = tag \<and> key_tag b = tag
     \<and> unat (next_free r) \<le> unat slot_end + 1"
proof (cases "unat (generation a) \<le> unat (generation b)")
  case True
  then show ?thesis using par succ_word_iff [OF par True] by (auto simp: select_record_def Let_def)
next
  case False
  then have le: "unat (generation b) \<le> unat (generation a)" by simp
  show ?thesis using False par succ_word_iff [OF par [symmetric] le]
    by (auto simp: select_record_def Let_def)
qed

text \<open>
  The functional specification of recovery: it succeeds exactly when the slots determine a
  newest record, every record present is of this key, and the frontier is inside the window.
\<close>

definition records_of :: "journal_record option \<Rightarrow> journal_record option \<Rightarrow> journal_record list" where
  "records_of A B = (case A of None \<Rightarrow> [] | Some r \<Rightarrow> [r]) @ (case B of None \<Rightarrow> [] | Some r \<Rightarrow> [r])"

lemma recover_journal_iff:
  "recover_journal sha3 bs tag slot_end = Inr r \<longleftrightarrow>
     length bs = JOURNAL_SIZE
     \<and> newest (slot_record sha3 bs 0) (slot_record sha3 bs 1) = Some r
     \<and> (\<forall>q \<in> set (records_of (slot_record sha3 bs 0) (slot_record sha3 bs 1)). key_tag q = tag)
     \<and> unat (next_free r) \<le> unat slot_end + 1"
proof -
  define A where "A = slot_record sha3 bs 0"
  define B where "B = slot_record sha3 bs 1"
  obtain recs inv where sc: "scan_slot sha3 bs 1 (scan_slot sha3 bs 0 ([], [])) = (recs, inv)" by force
  have recs: "recs = records_of A B"
    using scan_both [of sha3 bs] sc by (simp add: records_of_def A_def B_def)
  have par: "unat (generation a) mod 2 \<noteq> unat (generation b) mod 2" if "A = Some a" "B = Some b" for a b
    using slot_record_parity that by (force simp: A_def B_def)
  have "select_record recs inv tag slot_end = Inr r \<longleftrightarrow> newest A B = Some r
     \<and> (\<forall>q \<in> set recs. key_tag q = tag) \<and> unat (next_free r) \<le> unat slot_end + 1"
    by (cases A; cases B)
      (auto simp: recs records_of_def select_record_one select_record_two par, simp add: select_record_def)
  then show ?thesis unfolding recover_journal_def sc A_def [symmetric] B_def [symmetric] recs by simp
qed

lemma newest_in: "newest A B = Some r \<Longrightarrow> A = Some r \<or> B = Some r"
  by (cases A; cases B) (auto split: if_splits)

section \<open>Reservations\<close>

lemma unat_ucast_u32_u64 [simp]: "unat (ucast (w :: u32) :: u64) = unat w"
  using unat_u32_bound [of w] by (simp add: unsigned_ucast_eq take_bit_nat_eq_self)

lemma unat_ucast_down: "unat (n :: u64) \<le> unat (e :: u32) \<Longrightarrow> unat (ucast n :: u32) = unat n"
  using unat_u32_bound [of e] by (simp add: unsigned_ucast_eq take_bit_nat_eq_self_iff)

lemma not_less_end: "\<not> (n :: u64) > ucast (e :: u32) \<longleftrightarrow> unat n \<le> unat e"
  by (simp add: word_less_nat_alt not_less)

lemma unat_succ: "unat (n :: u64) \<le> unat (e :: u32) \<Longrightarrow> unat (n + 1) = unat n + 1"
  using unat_u32_bound [of e] by (simp add: unat_word_ariths)

lemma persist_next_path: "persist_next sha3 f nf c s = (r, c', s') \<Longrightarrow>
    c_path c' = c_path c \<and> c_key_tag c' = c_key_tag c \<and> c_next c' = c_next c \<and> c_end c' = c_end c"
  by (auto simp: persist_next_def Let_def split: option.splits persist_fault.splits)

text \<open>The two reservation operations as one stateful operation with its injected fault.\<close>

datatype slot_op = Reserve persist_fault | ReserveAt persist_fault u32

definition slot_step ::
  "(bytes \<Rightarrow> 32 barr) \<Rightarrow> slot_op \<Rightarrow> atomic_slot_counter \<times> fs
    \<Rightarrow> (counter_error, u32) result \<times> atomic_slot_counter \<times> fs" where
  "slot_step sha3 op cs =
     (case op of Reserve f \<Rightarrow> reserve sha3 f (fst cs) (snd cs)
      | ReserveAt f req \<Rightarrow> reserve_at sha3 f req (fst cs) (snd cs))"

definition op_fault :: "slot_op \<Rightarrow> persist_fault" where
  "op_fault op = (case op of Reserve f \<Rightarrow> f | ReserveAt f _ \<Rightarrow> f)"

text \<open>
  Both operations refuse at once, or they burn: they choose a slot inside the window at or above
  the frontier, persist the successor as the new frontier, and return what persisting returned.
\<close>

definition op_target :: "slot_op \<Rightarrow> atomic_slot_counter \<Rightarrow> u32 option" where
  "op_target op c =
     (case op of
        Reserve f \<Rightarrow> if unat (c_next c) \<le> unat (c_end c) then Some (ucast (c_next c)) else None
      | ReserveAt f req \<Rightarrow>
          if unat (c_next c) \<le> unat (c_end c) \<and> req \<le> c_end c \<and> unat (c_next c) \<le> unat req
          then Some req else None)"

lemma op_target_bounds:
  "op_target op c = Some slot \<Longrightarrow> unat (c_next c) \<le> unat slot \<and> unat slot \<le> unat (c_end c)"
  by (cases op) (auto simp: op_target_def word_le_nat_alt unat_ucast_down split: if_splits)

lemma slot_step_refuses:
  "op_target op c = None \<Longrightarrow> \<exists>e. slot_step sha3 op (c, s) = (Inl e, c, s)"
  by (cases op) (auto simp: op_target_def slot_step_def reserve_def reserve_at_def Let_def
      word_less_nat_alt word_le_nat_alt split: if_splits)

lemma slot_step_burns:
  assumes "op_target op c = Some slot"
  shows "slot_step sha3 op (c, s) =
     (case persist_next sha3 (op_fault op) (ucast slot + 1) c s of
        (Inl e, c', s') \<Rightarrow> (Inl e, c', s')
      | (Inr _, c', s') \<Rightarrow> (Inr slot, c'\<lparr>c_next := ucast slot + 1\<rparr>, s'))"
proof (cases op)
  case (Reserve f)
  with assms have le: "unat (c_next c) \<le> unat (c_end c)"
    and slot_eq: "slot = ucast (c_next c)"
    by (auto simp: op_target_def split: if_splits)
  have ucast_back: "ucast slot = c_next c"
    unfolding slot_eq by (simp add: word_unat_eq_iff unat_ucast_down [OF le])
  show ?thesis unfolding ucast_back using le
    by (simp add: Reserve slot_step_def reserve_def not_less_end [symmetric] op_fault_def Let_def
        slot_eq [symmetric])
next
  case (ReserveAt f req)
  with assms show ?thesis
    by (auto simp: slot_step_def reserve_at_def op_fault_def op_target_def Let_def
        word_less_nat_alt word_le_nat_alt split: if_splits prod.split sum.split)
qed

lemma persist_next_error: "persist_next sha3 f nf c s = (Inl e, c', s') \<Longrightarrow> c' = c"
  by (auto simp: persist_next_def Let_def split: option.splits persist_fault.splits)

lemma persist_next_ok:
  "persist_next sha3 f nf c s = (Inr u, c', s') \<Longrightarrow> f = PersistClean \<and> c' = c\<lparr>c_generation := c_generation c + 1\<rparr>"
  by (auto simp: persist_next_def Let_def checked_add_Some split: option.splits persist_fault.splits)

lemma slot_step_error: "slot_step sha3 op (c, s) = (Inl e, c', s') \<Longrightarrow> c' = c"
proof (cases "op_target op c")
  case None
  then show "slot_step sha3 op (c, s) = (Inl e, c', s') \<Longrightarrow> c' = c"
    using slot_step_refuses [of op c sha3 s] by auto
next
  case (Some slot)
  then show "slot_step sha3 op (c, s) = (Inl e, c', s') \<Longrightarrow> c' = c"
    by (auto simp: slot_step_burns split: prod.splits sum.splits dest: persist_next_error)
qed

lemma slot_step_granted:
  assumes "slot_step sha3 op (c, s) = (Inr slot, c', s')"
  shows "op_target op c = Some slot \<and> op_fault op = PersistClean
    \<and> c' = c\<lparr>c_generation := c_generation c + 1, c_next := ucast slot + 1\<rparr>
    \<and> unat (c_next c') = unat slot + 1"
proof (cases "op_target op c")
  case None
  then show ?thesis using slot_step_refuses [of op c sha3 s] assms by auto
next
  case (Some sl)
  with assms have "sl = slot" and c': "c' = c\<lparr>c_generation := c_generation c + 1, c_next := ucast slot + 1\<rparr>"
    and "op_fault op = PersistClean"
    by (auto simp: slot_step_burns split: prod.splits sum.splits dest: persist_next_ok)
  moreover have "unat (ucast slot + 1 :: u64) = unat slot + 1"
    using unat_succ [of "ucast slot" slot] by simp
  ultimately show ?thesis using Some by simp
qed

interpretation counter_alloc: allocator "slot_step sha3" unat "\<lambda>cs. unat (c_next (fst cs))" for sha3
proof
  fix op :: slot_op and cs cs' :: "atomic_slot_counter \<times> fs" and a e
  show "unat (c_next (fst cs)) \<le> unat a \<and> unat a < unat (c_next (fst cs'))"
    if "slot_step sha3 op cs = (Inr a, cs')"
    using that slot_step_granted [of sha3 op "fst cs" "snd cs" a "fst cs'" "snd cs'"]
      op_target_bounds [of op "fst cs" a] by force
  show "unat (c_next (fst cs')) = unat (c_next (fst cs))" if "slot_step sha3 op cs = (Inl e, cs')"
    using that slot_step_error [of sha3 op "fst cs" "snd cs" e "fst cs'" "snd cs'"] by simp
qed

section \<open>What a reservation leaves in the file\<close>

lemma slot_record_write_same:
  assumes "i < 2" and "length b = JOURNAL_SIZE" and "unat (generation r) mod 2 = i"
  shows "slot_record sha3 (write_at (i * JOURNAL_SLOT_SIZE) (encode_record sha3 r) b) i = Some r"
proof -
  have "i * JOURNAL_SLOT_SIZE + length (encode_record sha3 r) \<le> length b"
    using assms(1,2) by (auto simp: journal_consts less_2_cases_iff)
  then have "region (i * JOURNAL_SLOT_SIZE) RECORD_SIZE
      (write_at (i * JOURNAL_SLOT_SIZE) (encode_record sha3 r) b) = encode_record sha3 r"
    using region_write_at_same by fastforce
  then show ?thesis using journal_codec.dec_enc [of r i sha3] assms(3) by (simp add: slot_record_def)
qed

lemma slot_bytes_write_other:
  assumes "i < 2" and "j < 2" and "i \<noteq> j" and "length b = JOURNAL_SIZE" and "length new \<le> RECORD_SIZE"
  shows "region (j * JOURNAL_SLOT_SIZE) RECORD_SIZE (write_at (i * JOURNAL_SLOT_SIZE) new b)
       = region (j * JOURNAL_SLOT_SIZE) RECORD_SIZE b"
proof (cases "j < i")
  case True
  then show ?thesis using assms
    by (intro region_write_at_before) (auto simp: journal_consts less_2_cases_iff)
next
  case False
  then show ?thesis using assms
    by (intro region_write_at_after) (auto simp: journal_consts less_2_cases_iff)
qed

lemma slot_record_write_other:
  "i < 2 \<Longrightarrow> j < 2 \<Longrightarrow> i \<noteq> j \<Longrightarrow> length b = JOURNAL_SIZE \<Longrightarrow> length new \<le> RECORD_SIZE \<Longrightarrow>
     slot_record sha3 (write_at (i * JOURNAL_SLOT_SIZE) new b) j = slot_record sha3 b j"
  by (simp add: slot_record_def slot_bytes_write_other)

lemma length_journal_write:
  "i < 2 \<Longrightarrow> length b = JOURNAL_SIZE \<Longrightarrow> length new \<le> RECORD_SIZE \<Longrightarrow>
     length (write_at (i * JOURNAL_SLOT_SIZE) new b) = JOURNAL_SIZE"
  by (subst length_write_at) (auto simp: journal_consts less_2_cases_iff)

end
