(* ===== verification/Slot_Crash.thy ===== *)
theory Slot_Crash
  imports Slot_Counter
begin

text \<open>
  The slot counter among crashes: a machine whose steps are the operations of
  \<open>AtomicSlotCounter\<close> (src/state/slot_counter.rs), each with any failure of its system calls,
  background write-back, the death of the process, the loss of power, and reopening.

  Two switches bound what the environment does. With \<open>tear\<close>, a record whose bytes are not yet
  durable can come back from a power loss undecodable, and a failed write can leave part of a
  record; without it a record is written as a whole or not at all. With \<open>wkill\<close>, the process can
  die (or drop the counter) while something it wrote is not yet durable; without it, it dies
  only between reservations.

  The invariant proves that no slot is ever issued twice when at most one of the two switches is
  on. The run of \<open>Slot_Traces\<close> shows that with both on a slot can be issued twice.
\<close>

section \<open>The machine\<close>

record machine =
  mem :: "atomic_slot_counter option"
  m_fs :: fs
  issued :: "u32 list"

definition slot_bytes :: "usize \<Rightarrow> bytes \<Rightarrow> bytes" where
  "slot_bytes i b = region (i * JOURNAL_SLOT_SIZE) RECORD_SIZE b"

text \<open>The same operation, stopped between its write and its \<open>sync_data\<close>.\<close>

fun whole_write :: "slot_op \<Rightarrow> slot_op" where
  "whole_write (Reserve f) = Reserve SyncDataFails"
| "whole_write (ReserveAt f req) = ReserveAt SyncDataFails req"

text \<open>
  What a failed write may leave: nothing, the whole record, or (with tearing) a slot that does
  not decode. That the SHA3-256 checksum exposes a torn record is what the journal relies on.
\<close>

definition write_outcome :: "(bytes \<Rightarrow> 32 barr) \<Rightarrow> bool \<Rightarrow> bytes \<Rightarrow> bytes \<Rightarrow> bytes \<Rightarrow> bool" where
  "write_outcome sha3 tear before whole after \<longleftrightarrow>
     after = before \<or> after = whole
     \<or> tear \<and> (\<forall>i < 2. slot_record sha3 after i = slot_record sha3 before i
                     \<or> slot_record sha3 after i = slot_record sha3 whole i
                     \<or> slot_record sha3 after i = None)"

definition survives :: "(bytes \<Rightarrow> 32 barr) \<Rightarrow> bool \<Rightarrow> bytes \<Rightarrow> bytes \<Rightarrow> bytes \<Rightarrow> bool" where
  "survives sha3 tear d c x \<longleftrightarrow> length x = JOURNAL_SIZE \<and>
     (\<forall>i < 2. slot_bytes i x = slot_bytes i d \<or> slot_bytes i x = slot_bytes i c
        \<or> tear \<and> slot_bytes i d \<noteq> slot_bytes i c \<and> slot_record sha3 x i = None)"

inductive crash_step ::
  "(bytes \<Rightarrow> 32 barr) \<Rightarrow> 'pk ssz \<Rightarrow> path \<Rightarrow> 'pk \<Rightarrow> u32 \<Rightarrow> bool \<Rightarrow> bool \<Rightarrow> machine \<Rightarrow> machine \<Rightarrow> bool"
  for sha3 :: "bytes \<Rightarrow> 32 barr" and K :: "'pk ssz" and p :: path and pk :: 'pk and e :: u32
    and tear :: bool and wkill :: bool where
  grant: "mem s = Some k \<Longrightarrow> slot_step sha3 op (k, m_fs s) = (Inr slot, k', f') \<Longrightarrow>
     crash_step sha3 K p pk e tear wkill s (s\<lparr>mem := Some k', m_fs := f', issued := issued s @ [slot]\<rparr>)"
| refuse: "mem s = Some k \<Longrightarrow> slot_step sha3 op (k, m_fs s) = (Inl err, k', f') \<Longrightarrow>
     slot_step sha3 (whole_write op) (k, m_fs s) = (r, k'', f'') \<Longrightarrow>
     files (m_fs s) p = Some before \<Longrightarrow> files f'' p = Some whole \<Longrightarrow> files f' p = Some after \<Longrightarrow>
     write_outcome sha3 tear before whole after \<Longrightarrow>
     crash_step sha3 K p pk e tear wkill s (s\<lparr>mem := Some k', m_fs := f'\<rparr>)"
| write_back: "files (m_fs s) p = Some c \<Longrightarrow> stable (m_fs s) p = Some d \<Longrightarrow> i < 2 \<Longrightarrow>
     crash_step sha3 K p pk e tear wkill s
       (s\<lparr>m_fs := (m_fs s)\<lparr>stable := (stable (m_fs s))(p := Some (write_at (i * JOURNAL_SLOT_SIZE) (slot_bytes i c) d))\<rparr>\<rparr>)"
| kill: "wkill \<or> files (m_fs s) p = stable (m_fs s) p \<Longrightarrow>
     crash_step sha3 K p pk e tear wkill s (s\<lparr>mem := None, m_fs := unlock_sibling p (m_fs s)\<rparr>)"
| power_loss: "files (m_fs s) p = Some c \<Longrightarrow> stable (m_fs s) p = Some d \<Longrightarrow> survives sha3 tear d c x \<Longrightarrow>
     crash_step sha3 K p pk e tear wkill s
       (s\<lparr>mem := None,
          m_fs := \<lparr>files = (stable (m_fs s))(p := Some x), stable = (stable (m_fs s))(p := Some x), locks = {}\<rparr>\<rparr>)"
| reopen: "mem s = None \<Longrightarrow> counter_open sha3 K lf rdf rf p pk e (m_fs s) = (Inr k, f') \<Longrightarrow>
     crash_step sha3 K p pk e tear wkill s (s\<lparr>mem := Some k, m_fs := f'\<rparr>)"
| reopen_fails: "mem s = None \<Longrightarrow> counter_open sha3 K lf rdf rf p pk e (m_fs s) = (Inl err, f') \<Longrightarrow>
     crash_step sha3 K p pk e tear wkill s (s\<lparr>m_fs := f'\<rparr>)"

inductive crash_reach ::
  "(bytes \<Rightarrow> 32 barr) \<Rightarrow> 'pk ssz \<Rightarrow> path \<Rightarrow> 'pk \<Rightarrow> u32 \<Rightarrow> bool \<Rightarrow> bool \<Rightarrow> machine \<Rightarrow> bool"
  for sha3 :: "bytes \<Rightarrow> 32 barr" and K :: "'pk ssz" and p :: path and pk :: 'pk and e :: u32
    and tear :: bool and wkill :: bool where
  created: "counter_create sha3 K lf mf rf p pk start e f0 = (Inr k, f1) \<Longrightarrow>
     crash_reach sha3 K p pk e tear wkill \<lparr>mem = Some k, m_fs = f1, issued = []\<rparr>"
| stepped: "crash_reach sha3 K p pk e tear wkill s \<Longrightarrow> crash_step sha3 K p pk e tear wkill s t \<Longrightarrow>
     crash_reach sha3 K p pk e tear wkill t"

section \<open>The invariant\<close>

text \<open>What a slot of the journal can hold after a power loss that hits the cache \<open>c\<close> over the disk \<open>d\<close>.\<close>

definition mixed :: "(bytes \<Rightarrow> 32 barr) \<Rightarrow> bool \<Rightarrow> bytes \<Rightarrow> bytes \<Rightarrow> usize \<Rightarrow> journal_record option \<Rightarrow> bool" where
  "mixed sha3 tear c d i x \<longleftrightarrow> x = slot_record sha3 d i \<or> x = slot_record sha3 c i
     \<or> tear \<and> slot_bytes i d \<noteq> slot_bytes i c \<and> x = None"

definition below :: "u32 list \<Rightarrow> nat \<Rightarrow> bool" where
  "below xs n \<longleftrightarrow> (\<forall>x \<in> set xs. unat x < n)"

definition safe_mix :: "(bytes \<Rightarrow> 32 barr) \<Rightarrow> bool \<Rightarrow> bytes \<Rightarrow> bytes \<Rightarrow> u32 list \<Rightarrow> bool" where
  "safe_mix sha3 tear c d xs \<longleftrightarrow>
     (\<forall>x0 x1 r. mixed sha3 tear c d 0 x0 \<longrightarrow> mixed sha3 tear c d 1 x1 \<longrightarrow> newest x0 x1 = Some r
        \<longrightarrow> below xs (unat (next_free r)))"

definition gens_bounded :: "(bytes \<Rightarrow> 32 barr) \<Rightarrow> bytes \<Rightarrow> bytes \<Rightarrow> nat \<Rightarrow> bool" where
  "gens_bounded sha3 c d g \<longleftrightarrow>
     (\<forall>i q. i < 2 \<longrightarrow> slot_record sha3 c i = Some q \<or> slot_record sha3 d i = Some q
        \<longrightarrow> unat (generation q) \<le> g + 1)"

definition current_record :: "atomic_slot_counter \<Rightarrow> journal_record" where
  "current_record k = \<lparr>generation = c_generation k, next_free = c_next k, key_tag = c_key_tag k\<rparr>"

definition active :: "atomic_slot_counter \<Rightarrow> usize" where
  "active k = unat (c_generation k) mod 2"

definition mem_inv :: "(bytes \<Rightarrow> 32 barr) \<Rightarrow> bool \<Rightarrow> path \<Rightarrow> bytes \<Rightarrow> bytes \<Rightarrow> u32 list \<Rightarrow> atomic_slot_counter \<Rightarrow> bool" where
  "mem_inv sha3 tear p c d xs k \<longleftrightarrow>
     c_path k = p \<and> slot_record sha3 c (active k) = Some (current_record k)
     \<and> below xs (unat (c_next k)) \<and> gens_bounded sha3 c d (unat (c_generation k))
     \<and> (tear \<longrightarrow> slot_bytes (active k) c = slot_bytes (active k) d)"

definition idle_inv :: "(bytes \<Rightarrow> 32 barr) \<Rightarrow> bool \<Rightarrow> bytes \<Rightarrow> bytes \<Rightarrow> bool" where
  "idle_inv sha3 tear c d \<longleftrightarrow>
     (\<forall>r. newest (slot_record sha3 c 0) (slot_record sha3 c 1) = Some r
        \<longrightarrow> gens_bounded sha3 c d (unat (generation r)))
     \<and> (tear \<longrightarrow> (\<forall>i < 2. slot_bytes i c = slot_bytes i d))"

definition crash_inv :: "(bytes \<Rightarrow> 32 barr) \<Rightarrow> bool \<Rightarrow> path \<Rightarrow> machine \<Rightarrow> bool" where
  "crash_inv sha3 tear p s \<longleftrightarrow>
     (\<exists>c d. files (m_fs s) p = Some c \<and> stable (m_fs s) p = Some d
        \<and> length c = JOURNAL_SIZE \<and> length d = JOURNAL_SIZE
        \<and> safe_mix sha3 tear c d (issued s) \<and> sorted_wrt (<) (map unat (issued s))
        \<and> (case mem s of Some k \<Rightarrow> mem_inv sha3 tear p c d (issued s) k
           | None \<Rightarrow> idle_inv sha3 tear c d))"

section \<open>Facts about cells\<close>

lemma active_less [simp]: "active k < 2"
  by (simp add: active_def)

lemma below_Nil [simp]: "below [] n"
  by (simp add: below_def)

lemma below_mono: "below xs m \<Longrightarrow> m \<le> n \<Longrightarrow> below xs n"
  by (fastforce simp: below_def)

lemma slot_record_cong: "slot_bytes i a = slot_bytes i b \<Longrightarrow> slot_record sha3 a i = slot_record sha3 b i"
  by (simp add: slot_bytes_def slot_record_def)

lemma less_two: "(i :: nat) < 2 \<Longrightarrow> i = 0 \<or> i = 1"
  by auto

lemma mixed_same [simp]: "mixed sha3 tear x x i y \<longleftrightarrow> y = slot_record sha3 x i"
  by (auto simp: mixed_def)

lemma newest_consecutive:
  fixes i :: nat
  assumes "i < 2" and "f i = Some r" and "f (1 - i) = Some q"
    and "unat (generation r) = unat (generation q) + 1" and "next_free q < next_free r"
  shows "newest (f 0) (f 1) = Some r"
  using assms less_two [of i] by (auto simp: word_less_nat_alt)

lemma newest_bound:
  "newest x0 x1 = Some r \<Longrightarrow> x0 = Some q \<or> x1 = Some q \<Longrightarrow> unat (generation q) \<le> unat (generation r)"
  by (cases x0; cases x1) (auto split: if_splits)

lemma newest_idle_inv:
  "(\<And>i. i < 2 \<Longrightarrow> slot_record sha3 d i = slot_record sha3 c i) \<Longrightarrow>
     newest (slot_record sha3 c 0) (slot_record sha3 c 1) = Some r \<Longrightarrow>
     gens_bounded sha3 c d (unat (generation r))"
  using newest_bound less_two unfolding gens_bounded_def by (metis le_add1 order_trans)

section \<open>What an operation does to the file\<close>

definition next_record :: "atomic_slot_counter \<Rightarrow> u32 \<Rightarrow> journal_record" where
  "next_record k slot = \<lparr>generation = c_generation k + 1, next_free = ucast slot + 1, key_tag = c_key_tag k\<rparr>"

definition inactive :: "atomic_slot_counter \<Rightarrow> usize" where
  "inactive k = 1 - active k"

lemma inactive_less [simp]: "inactive k < 2"
  by (simp add: inactive_def)

lemma inactive_neq [simp]: "inactive k \<noteq> active k" "active k \<noteq> inactive k"
  using less_two [OF active_less, of k] by (auto simp: inactive_def)

lemma other_slot: "i < 2 \<Longrightarrow> i \<noteq> active k \<Longrightarrow> i = inactive k"
  using less_two [of i] less_two [OF active_less, of k] by (auto simp: inactive_def)

text \<open>The generation has room: \<open>persist_next\<close> got past its overflow check.\<close>

definition gen_room :: "atomic_slot_counter \<Rightarrow> bool" where
  "gen_room k \<longleftrightarrow> unat (c_generation k) + 1 < 2 ^ 64"

lemma next_generation: "gen_room k \<Longrightarrow> unat (c_generation k + 1) = unat (c_generation k) + 1"
  by (simp add: gen_room_def unat_word_ariths)

lemma next_generation_parity: "gen_room k \<Longrightarrow> unat (c_generation k + 1) mod 2 = inactive k"
  by (simp add: next_generation inactive_def active_def) presburger

lemma next_record_parity: "gen_room k \<Longrightarrow> unat (generation (next_record k slot)) mod 2 = inactive k"
  by (simp add: next_record_def next_generation_parity)

lemma next_record_next: "unat (next_free (next_record k slot)) = unat slot + 1"
  using unat_succ [of "ucast slot" slot] by (simp add: next_record_def)

lemma next_record_fresh: "op_target op k = Some slot \<Longrightarrow> c_next k < next_free (next_record k slot)"
  using op_target_bounds [of op k slot] by (simp add: word_less_nat_alt next_record_next)

text \<open>The file content after the first \<open>n\<close> bytes of the new record have been written.\<close>

definition put :: "(bytes \<Rightarrow> 32 barr) \<Rightarrow> atomic_slot_counter \<Rightarrow> nat \<Rightarrow> u32 \<Rightarrow> bytes \<Rightarrow> bytes" where
  "put sha3 k n slot c = write_at (inactive k * JOURNAL_SLOT_SIZE) (take n (encode_record sha3 (next_record k slot))) c"

lemma granted_effect:
  assumes "slot_step sha3 op (k, f) = (Inr slot, k', f')" and "files f (c_path k) = Some c"
  shows "gen_room k \<and> op_target op k = Some slot \<and> current_record k' = next_record k slot \<and> c_path k' = c_path k
    \<and> files f' (c_path k) = Some (put sha3 k RECORD_SIZE slot c)
    \<and> stable f' (c_path k) = Some (put sha3 k RECORD_SIZE slot c)"
proof -
  note g = slot_step_granted [OF assms(1)]
  have p: "persist_next sha3 PersistClean (ucast slot + 1) k f =
      (Inr (), k\<lparr>c_generation := c_generation k + 1\<rparr>, f')"
    using assms(1) g slot_step_burns [of op k slot sha3 f]
    by (auto split: prod.splits sum.splits dest: persist_next_ok)
  then have room: "gen_room k"
    by (auto simp: persist_next_def checked_add_def gen_room_def split: if_splits)
  have "f' = sync_data (c_path k) (overwrite (c_path k) (inactive k * JOURNAL_SLOT_SIZE)
      (encode_record sha3 (next_record k slot)) f)"
    using p room next_generation_parity [OF room]
    by (auto simp: persist_next_def checked_add_def gen_room_def Let_def next_record_def)
  then show ?thesis using g room assms(2)
    by (simp add: sync_data_def overwrite_def current_record_def next_record_def put_def)
qed

lemma refused_effect:
  assumes "slot_step sha3 op (k, f) = (Inl e, k', f')" and "files f (c_path k) = Some c"
  shows "k' = k \<and> stable f' = stable f \<and>
    (f' = f \<or> (\<exists>slot n. gen_room k \<and> op_target op k = Some slot
       \<and> files f' (c_path k) = Some (put sha3 k n slot c)))"
proof (cases "op_target op k")
  case None
  then show ?thesis using slot_step_refuses [of op k sha3 f] assms(1) by auto
next
  case (Some slot)
  have p: "persist_next sha3 (op_fault op) (ucast slot + 1) k f = (Inl e, k', f')"
    using assms(1) slot_step_burns [OF Some, of sha3 f] by (auto split: prod.splits sum.splits)
  have k: "k' = k" using persist_next_error [OF p] .
  show ?thesis
  proof (cases "gen_room k")
    case False
    with p k show ?thesis by (auto simp: persist_next_def checked_add_def gen_room_def)
  next
    case True
    let ?put = "\<lambda>bs. overwrite (c_path k) (inactive k * JOURNAL_SLOT_SIZE) bs f"
    let ?rec = "encode_record sha3 (next_record k slot)"
    have "f' = f \<or> f' = ?put ?rec \<or> (\<exists>n. f' = ?put (take n ?rec))"
      using p True next_generation_parity [OF True]
      by (auto simp: persist_next_def checked_add_def gen_room_def Let_def next_record_def
          split: persist_fault.splits)
    moreover have "?rec = take RECORD_SIZE ?rec" by simp
    ultimately have "f' = f \<or> (\<exists>n. f' = ?put (take n ?rec))" by metis
    then show ?thesis using k True Some assms(2) by (auto simp: overwrite_def put_def)
  qed
qed

lemma whole_write_effect:
  assumes "op_target op k = Some slot" and "gen_room k" and "files f (c_path k) = Some c"
  shows "\<exists>r k'' f''. slot_step sha3 (whole_write op) (k, f) = (r, k'', f'')
    \<and> files f'' (c_path k) = Some (put sha3 k RECORD_SIZE slot c)"
proof -
  have t: "op_target (whole_write op) k = Some slot" "op_fault (whole_write op) = SyncDataFails"
    using assms(1) by (cases op; simp add: op_target_def op_fault_def)+
  show ?thesis
    using assms(2,3) next_generation_parity [OF assms(2)]
    by (simp add: slot_step_burns [OF t(1)] t(2) persist_next_def checked_add_def gen_room_def Let_def
        next_record_def overwrite_def put_def)
qed

section \<open>Every step keeps the invariant\<close>

lemma put_cells:
  assumes "length c = JOURNAL_SIZE"
  shows "length (put sha3 k n slot c) = JOURNAL_SIZE"
    and "slot_bytes (active k) (put sha3 k n slot c) = slot_bytes (active k) c"
    and "slot_record sha3 (put sha3 k n slot c) (active k) = slot_record sha3 c (active k)"
    and "gen_room k \<Longrightarrow> slot_record sha3 (put sha3 k RECORD_SIZE slot c) (inactive k) = Some (next_record k slot)"
  using assms length_journal_write [of "inactive k" c] slot_bytes_write_other [of "inactive k" "active k" c]
    slot_record_write_other [of "inactive k" "active k" c] slot_record_write_same [of "inactive k" c]
    next_record_parity [of k slot]
  by (simp_all add: slot_bytes_def put_def)

lemma newest_after_put:
  assumes "length c = JOURNAL_SIZE" and "gen_room k" and "op_target op k = Some slot"
    and "slot_record sha3 c (active k) = Some (current_record k)"
  shows "newest (slot_record sha3 (put sha3 k RECORD_SIZE slot c) 0)
                (slot_record sha3 (put sha3 k RECORD_SIZE slot c) 1) = Some (next_record k slot)"
proof -
  have "1 - inactive k = active k"
    using less_two [OF active_less, of k] by (auto simp: inactive_def)
  then show ?thesis
    using assms put_cells [OF assms(1)] next_record_fresh [of op k slot] next_generation [OF assms(2)]
    by (intro newest_consecutive [of "inactive k" _ _ "current_record k"])
      (auto simp: current_record_def next_record_def)
qed

lemma grant_keeps:
  assumes inv: "mem_inv sha3 tear p c d xs k" and len: "length c = JOURNAL_SIZE"
    and room: "gen_room k" and tgt: "op_target op k = Some slot"
    and sorted: "sorted_wrt (<) (map unat xs)"
    and k': "current_record k' = next_record k slot" "c_path k' = p"
  defines "b \<equiv> put sha3 k RECORD_SIZE slot c"
  shows "mem_inv sha3 tear p b b (xs @ [slot]) k' \<and> safe_mix sha3 tear b b (xs @ [slot])
     \<and> sorted_wrt (<) (map unat (xs @ [slot])) \<and> length b = JOURNAL_SIZE"
proof -
  have act: "slot_record sha3 c (active k) = Some (current_record k)" and bel: "below xs (unat (c_next k))"
    and gens: "gens_bounded sha3 c d (unat (c_generation k))"
    using inv by (auto simp: mem_inv_def)
  have le: "unat (c_next k) \<le> unat slot" using op_target_bounds [OF tgt] by simp
  have new: "newest (slot_record sha3 b 0) (slot_record sha3 b 1) = Some (next_record k slot)"
    unfolding b_def by (rule newest_after_put [OF len room tgt act])
  have bel': "below (xs @ [slot]) (unat (next_free (next_record k slot)))"
    using bel le by (auto simp: below_def next_record_next)
  have fields: "c_generation k' = c_generation k + 1" "c_next k' = next_free (next_record k slot)"
    using k'(1) by (auto simp: current_record_def next_record_def)
  have active': "active k' = inactive k"
    by (simp add: active_def fields next_generation_parity [OF room])
  have "gens_bounded sha3 b b (unat (c_generation k'))"
    using newest_idle_inv [of sha3 b b, OF _ new] by (simp add: fields next_record_def)
  then have "mem_inv sha3 tear p b b (xs @ [slot]) k'"
    using put_cells [OF len] room bel' k' active'
    by (simp add: mem_inv_def b_def fields)
  moreover have "safe_mix sha3 tear b b (xs @ [slot])"
    using new bel' by (simp add: safe_mix_def)
  moreover have "sorted_wrt (<) (map unat (xs @ [slot]))"
    using sorted bel le by (fastforce simp: sorted_wrt_append below_def)
  ultimately show ?thesis using put_cells(1) [OF len] by (simp add: b_def)
qed

lemma mixed_after_put:
  assumes len: "length c = JOURNAL_SIZE" and room: "gen_room k" and i: "i < 2"
    and out: "write_outcome sha3 tear c (put sha3 k RECORD_SIZE slot c) (put sha3 k n slot c)"
    and mix: "mixed sha3 tear (put sha3 k n slot c) d i x"
  shows "mixed sha3 tear c d i x \<or> i = inactive k \<and> (x = Some (next_record k slot) \<or> tear \<and> x = None)"
proof (cases "i = active k")
  case True
  then show ?thesis using mix put_cells(2,3) [OF len] by (simp add: mixed_def)
next
  case False
  then have ia: "i = inactive k" using other_slot [OF i] by simp
  have "slot_record sha3 (put sha3 k n slot c) i \<in> {slot_record sha3 c i, Some (next_record k slot)}
      \<or> tear \<and> slot_record sha3 (put sha3 k n slot c) i = None"
    using out i put_cells(4) [OF len room, of sha3 slot] unfolding write_outcome_def ia by fastforce
  then show ?thesis using mix ia unfolding mixed_def by auto
qed

lemma newest_swap: "i < 2 \<Longrightarrow> newest (f 0) (f (1 :: nat)) = Some r \<Longrightarrow>
    f i = Some r \<or> f (1 - i) = Some r"
  using newest_in [of "f 0" "f 1" r] less_two [of i] by auto

lemma put_outranks:
  assumes room: "gen_room k" and gens: "gens_bounded sha3 c d (unat (c_generation k))"
    and a: "mixed sha3 tear c d (active k) (Some r)"
  shows "\<not> unat (generation (next_record k slot)) \<le> unat (generation r)"
proof
  assume le: "unat (generation (next_record k slot)) \<le> unat (generation r)"
  from a have "slot_record sha3 d (active k) = Some r \<or> slot_record sha3 c (active k) = Some r"
    by (auto simp: mixed_def)
  then have par: "unat (generation r) mod 2 = active k" and "unat (generation r) \<le> unat (c_generation k) + 1"
    using slot_record_parity gens active_less [of k] unfolding gens_bounded_def by blast+
  with le have "unat (generation r) = unat (generation (next_record k slot))"
    by (simp add: next_record_def next_generation [OF room])
  with par show False using next_record_parity [OF room, of slot] by simp
qed

lemma safe_after_put:
  assumes inv: "mem_inv sha3 tear p c d xs k" and safe: "safe_mix sha3 tear c d xs"
    and len: "length c = JOURNAL_SIZE" and room: "gen_room k" and tgt: "op_target op k = Some slot"
    and out: "write_outcome sha3 tear c (put sha3 k RECORD_SIZE slot c) (put sha3 k n slot c)"
  shows "safe_mix sha3 tear (put sha3 k n slot c) d xs"
  unfolding safe_mix_def
proof (intro allI impI)
  fix x0 x1 r
  assume m: "mixed sha3 tear (put sha3 k n slot c) d 0 x0" "mixed sha3 tear (put sha3 k n slot c) d 1 x1"
    and new: "newest x0 x1 = Some r"
  define f where "f i = (if i = 0 then x0 else x1)" for i :: nat
  have mf: "i < 2 \<Longrightarrow> mixed sha3 tear (put sha3 k n slot c) d i (f i)" for i
    using m less_two [of i] by (auto simp: f_def)
  have a: "mixed sha3 tear c d (active k) (f (active k))"
    using mixed_after_put [OF len room active_less [of k] out mf [OF active_less]] by simp
  have bel: "below xs (unat (c_next k))" and gens: "gens_bounded sha3 c d (unat (c_generation k))"
    and act: "slot_record sha3 c (active k) = Some (current_record k)"
    using inv by (auto simp: mem_inv_def)
  have fr: "f (active k) = Some r \<or> f (inactive k) = Some r"
    using newest_swap [of "active k" f r] new by (simp add: f_def inactive_def)
  consider "mixed sha3 tear c d (inactive k) (f (inactive k))" | "f (inactive k) = Some (next_record k slot)"
    | "tear" "f (inactive k) = None"
    using mixed_after_put [OF len room inactive_less [of k] out mf [OF inactive_less]] by auto
  then show "below xs (unat (next_free r))"
  proof cases
    case 1
    then have "mixed sha3 tear c d 0 x0" "mixed sha3 tear c d 1 x1"
      using a less_two [OF active_less, of k] by (auto simp: f_def inactive_def)
    then show ?thesis using safe new by (auto simp: safe_mix_def)
  next
    case 2
    show ?thesis
    proof (cases "r = next_record k slot")
      case True
      then show ?thesis using below_mono [OF bel] op_target_bounds [OF tgt] by (simp add: next_record_next)
    next
      case False
      with fr 2 have "f (active k) = Some r" by simp
      moreover have "unat (generation (next_record k slot)) \<le> unat (generation r)"
        using newest_bound [OF new, of "next_record k slot"] 2 by (auto simp: f_def split: if_splits)
      ultimately show ?thesis using put_outranks [OF room gens] a by auto
    qed
  next
    case 3
    with fr have "f (active k) = Some r" by simp
    moreover have "slot_bytes (active k) d = slot_bytes (active k) c" using inv 3 by (simp add: mem_inv_def)
    ultimately have "r = current_record k"
      using a act slot_record_cong [of "active k" d c sha3] by (auto simp: mixed_def)
    then show ?thesis using bel by (simp add: current_record_def)
  qed
qed

lemma gens_after_put:
  assumes gens: "gens_bounded sha3 c d (unat (c_generation k))" and len: "length c = JOURNAL_SIZE"
    and room: "gen_room k"
    and out: "write_outcome sha3 tear c (put sha3 k RECORD_SIZE slot c) (put sha3 k n slot c)"
  shows "gens_bounded sha3 (put sha3 k n slot c) d (unat (c_generation k))"
  unfolding gens_bounded_def
proof (intro allI impI)
  fix i q assume i: "i < 2"
    and q: "slot_record sha3 (put sha3 k n slot c) i = Some q \<or> slot_record sha3 d i = Some q"
  then have "mixed sha3 tear (put sha3 k n slot c) d i (Some q)" by (auto simp: mixed_def)
  then have "mixed sha3 tear c d i (Some q) \<or> q = next_record k slot"
    using mixed_after_put [OF len room i out] by auto
  then show "unat (generation q) \<le> unat (c_generation k) + 1"
    using gens i by (auto simp: mixed_def gens_bounded_def next_record_def next_generation [OF room])
qed

lemma refuse_keeps:
  assumes inv: "mem_inv sha3 tear p c d xs k" and len: "length c = JOURNAL_SIZE" and room: "gen_room k"
    and out: "write_outcome sha3 tear c (put sha3 k RECORD_SIZE slot c) (put sha3 k n slot c)"
  shows "mem_inv sha3 tear p (put sha3 k n slot c) d xs k"
  using inv gens_after_put [OF _ len room out] put_cells(2,3) [OF len] by (simp add: mem_inv_def)

lemma write_back_keeps:
  assumes len: "length d = JOURNAL_SIZE" "length c = JOURNAL_SIZE" and i: "i < 2"
  defines "d' \<equiv> write_at (i * JOURNAL_SLOT_SIZE) (slot_bytes i c) d"
  shows "length d' = JOURNAL_SIZE"
    and "j < 2 \<Longrightarrow> slot_bytes j d' = (if j = i then slot_bytes j c else slot_bytes j d)"
proof -
  have sz: "length (slot_bytes i c) = RECORD_SIZE"
    using len(2) i by (auto simp: slot_bytes_def journal_consts less_2_cases_iff)
  then show "length d' = JOURNAL_SIZE" using length_journal_write [OF i len(1)] by (simp add: d'_def)
  have "i * JOURNAL_SLOT_SIZE + length (slot_bytes i c) \<le> length d"
    using sz len i by (auto simp: journal_consts less_2_cases_iff)
  then have "slot_bytes i d' = slot_bytes i c"
    using region_write_at_same sz by (fastforce simp: d'_def slot_bytes_def)
  then show "j < 2 \<Longrightarrow> slot_bytes j d' = (if j = i then slot_bytes j c else slot_bytes j d)"
    using slot_bytes_write_other [OF i _ _ len(1)] sz by (auto simp: d'_def slot_bytes_def)
qed

section \<open>Steps of the machine\<close>

lemma crash_invE:
  assumes "crash_inv sha3 tear p s"
  obtains c d where "files (m_fs s) p = Some c" and "stable (m_fs s) p = Some d"
    and "length c = JOURNAL_SIZE" and "length d = JOURNAL_SIZE"
    and "safe_mix sha3 tear c d (issued s)" and "sorted_wrt (<) (map unat (issued s))"
    and "case mem s of Some k \<Rightarrow> mem_inv sha3 tear p c d (issued s) k | None \<Rightarrow> idle_inv sha3 tear c d"
  using assms unfolding crash_inv_def by blast

lemma step_grant:
  assumes "crash_inv sha3 tear p s" and k: "mem s = Some k"
    and st: "slot_step sha3 op (k, m_fs s) = (Inr slot, k', f')"
  shows "crash_inv sha3 tear p (s\<lparr>mem := Some k', m_fs := f', issued := issued s @ [slot]\<rparr>)"
  using assms(1)
proof (rule crash_invE)
  fix c d
  assume fc: "files (m_fs s) p = Some c" and len: "length c = JOURNAL_SIZE"
    and sorted: "sorted_wrt (<) (map unat (issued s))"
    and "case mem s of Some k \<Rightarrow> mem_inv sha3 tear p c d (issued s) k | None \<Rightarrow> idle_inv sha3 tear c d"
  with k have mi: "mem_inv sha3 tear p c d (issued s) k" by simp
  then have path: "c_path k = p" by (simp add: mem_inv_def)
  note eff = granted_effect [OF st, of c]
  show ?thesis
    using eff grant_keeps [OF mi len _ _ sorted, of op slot k'] fc path by (auto simp: crash_inv_def)
qed

lemma step_refuse:
  assumes "crash_inv sha3 tear p s" and k: "mem s = Some k"
    and st: "slot_step sha3 op (k, m_fs s) = (Inl err, k', f')"
    and wh: "slot_step sha3 (whole_write op) (k, m_fs s) = (r, k'', f'')"
    and con: "files (m_fs s) p = Some before" "files f'' p = Some whole" "files f' p = Some after"
    and out: "write_outcome sha3 tear before whole after"
  shows "crash_inv sha3 tear p (s\<lparr>mem := Some k', m_fs := f'\<rparr>)"
  using assms(1)
proof (rule crash_invE)
  fix c d
  assume fc: "files (m_fs s) p = Some c" "stable (m_fs s) p = Some d"
    and len: "length c = JOURNAL_SIZE" "length d = JOURNAL_SIZE"
    and safe: "safe_mix sha3 tear c d (issued s)" and sorted: "sorted_wrt (<) (map unat (issued s))"
    and "case mem s of Some k \<Rightarrow> mem_inv sha3 tear p c d (issued s) k | None \<Rightarrow> idle_inv sha3 tear c d"
  with k have mi: "mem_inv sha3 tear p c d (issued s) k" by simp
  then have path: "c_path k = p" by (simp add: mem_inv_def)
  have eff: "k' = k" "stable f' = stable (m_fs s)"
    "f' = m_fs s \<or> (\<exists>slot n. gen_room k \<and> op_target op k = Some slot \<and> files f' p = Some (put sha3 k n slot c))"
    using refused_effect [OF st, of c] fc path by auto
  show ?thesis
  proof (cases "f' = m_fs s")
    case True
    then show ?thesis using assms(1) k eff(1) by (simp add: crash_inv_def)
  next
    case False
    then obtain slot n where w: "gen_room k" "op_target op k = Some slot" "files f' p = Some (put sha3 k n slot c)"
      using eff(3) by blast
    have "whole = put sha3 k RECORD_SIZE slot c"
      using whole_write_effect [OF w(2,1), of "m_fs s" c sha3] wh con(2) fc path by auto
    with out con w fc have out': "write_outcome sha3 tear c (put sha3 k RECORD_SIZE slot c) (put sha3 k n slot c)"
      by simp
    show ?thesis
      using refuse_keeps [OF mi len(1) w(1) out'] safe_after_put [OF mi safe len(1) w(1,2) out']
        put_cells(1) [OF len(1)] w eff fc len sorted
      by (auto simp: crash_inv_def)
  qed
qed

lemma step_write_back:
  assumes "crash_inv sha3 tear p s" and con: "files (m_fs s) p = Some c" "stable (m_fs s) p = Some d" and i: "i < 2"
  shows "crash_inv sha3 tear p (s\<lparr>m_fs := (m_fs s)\<lparr>stable := (stable (m_fs s))
    (p := Some (write_at (i * JOURNAL_SLOT_SIZE) (slot_bytes i c) d))\<rparr>\<rparr>)"
proof -
  let ?d = "write_at (i * JOURNAL_SLOT_SIZE) (slot_bytes i c) d"
  have len: "length c = JOURNAL_SIZE" "length d = JOURNAL_SIZE"
    and safe: "safe_mix sha3 tear c d (issued s)" and sorted: "sorted_wrt (<) (map unat (issued s))"
    and m: "case mem s of Some k \<Rightarrow> mem_inv sha3 tear p c d (issued s) k | None \<Rightarrow> idle_inv sha3 tear c d"
    using assms(1) con unfolding crash_inv_def by auto
  note wb = write_back_keeps [OF len(2,1) i]
  have cell: "slot_record sha3 ?d j = (if j = i then slot_record sha3 c j else slot_record sha3 d j)" if "j < 2" for j
    using slot_record_cong wb(2) [OF that] by (metis (no_types))
  have "mixed sha3 tear c d j x" if "j < 2" "mixed sha3 tear c ?d j x" for j x
    using that wb(2) [OF that(1)] cell [OF that(1)] by (auto simp: mixed_def split: if_splits)
  then have "safe_mix sha3 tear c ?d (issued s)"
    using safe unfolding safe_mix_def by (meson one_less_numeral_iff semiring_norm(76) zero_less_numeral)
  moreover have "gens_bounded sha3 c ?d g" if "gens_bounded sha3 c d g" for g
    using that cell unfolding gens_bounded_def by (metis (full_types))
  then have "case mem s of Some k \<Rightarrow> mem_inv sha3 tear p c ?d (issued s) k | None \<Rightarrow> idle_inv sha3 tear c ?d"
    using m wb(2) by (auto simp: mem_inv_def idle_inv_def split: option.splits)
  ultimately show ?thesis using con len wb(1) sorted by (cases "mem s") (simp_all add: crash_inv_def)
qed

lemma unlock_sibling_files [simp]:
  "files (unlock_sibling p f) = files f" "stable (unlock_sibling p f) = stable f"
  by (simp_all add: unlock_sibling_def)

lemma mem_to_idle:
  assumes "mem_inv sha3 tear p c d xs k" and "tear \<Longrightarrow> c = d"
  shows "idle_inv sha3 tear c d"
proof -
  have act: "slot_record sha3 c (active k) = Some (current_record k)"
    and gens: "gens_bounded sha3 c d (unat (c_generation k))"
    using assms(1) by (auto simp: mem_inv_def)
  have "unat (c_generation k) \<le> unat (generation r)"
    if "newest (slot_record sha3 c 0) (slot_record sha3 c 1) = Some r" for r
    using newest_bound [OF that, of "current_record k"] act less_two [OF active_less, of k]
    by (auto simp: current_record_def)
  then show ?thesis using gens assms(2) unfolding idle_inv_def gens_bounded_def by fastforce
qed

lemma step_kill:
  assumes "crash_inv sha3 tear p s" and "tear \<Longrightarrow> files (m_fs s) p = stable (m_fs s) p"
  shows "crash_inv sha3 tear p (s\<lparr>mem := None, m_fs := unlock_sibling p (m_fs s)\<rparr>)"
  using assms(1)
proof (rule crash_invE)
  fix c d
  assume a: "files (m_fs s) p = Some c" "stable (m_fs s) p = Some d" "length c = JOURNAL_SIZE"
    "length d = JOURNAL_SIZE" "safe_mix sha3 tear c d (issued s)" "sorted_wrt (<) (map unat (issued s))"
    and m: "case mem s of Some k \<Rightarrow> mem_inv sha3 tear p c d (issued s) k | None \<Rightarrow> idle_inv sha3 tear c d"
  have "idle_inv sha3 tear c d"
    using m mem_to_idle [of sha3 tear p c d "issued s"] a assms(2) by (cases "mem s") auto
  with a show ?thesis by (simp add: crash_inv_def)
qed

lemma step_power_loss:
  assumes "crash_inv sha3 tear p s" and con: "files (m_fs s) p = Some c" "stable (m_fs s) p = Some d"
    and x: "survives sha3 tear d c x"
  shows "crash_inv sha3 tear p (s\<lparr>mem := None,
    m_fs := \<lparr>files = (stable (m_fs s))(p := Some x), stable = (stable (m_fs s))(p := Some x), locks = {}\<rparr>\<rparr>)"
proof -
  have safe: "safe_mix sha3 tear c d (issued s)" and sorted: "sorted_wrt (<) (map unat (issued s))"
    using assms(1) con unfolding crash_inv_def by auto
  have m: "mixed sha3 tear c d i (slot_record sha3 x i)" if "i < 2" for i
    using x that slot_record_cong [of i x d sha3] slot_record_cong [of i x c sha3]
    by (auto simp: survives_def mixed_def)
  have "safe_mix sha3 tear x x (issued s)"
    using safe m [of 0] m [of 1] by (simp add: safe_mix_def)
  moreover have "idle_inv sha3 tear x x"
    using newest_idle_inv [of sha3 x x] by (simp add: idle_inv_def)
  ultimately show ?thesis using x sorted by (simp add: crash_inv_def survives_def)
qed

lemma acquire_lock_keeps:
  "acquire_lock lf p f = (r, f') \<Longrightarrow> files f' p = files f p \<and> stable f' = stable f"
  by (auto simp: acquire_lock_def try_lock_sibling_def Let_def sibling_not_self [symmetric] split: if_splits)

lemma counter_open_journal:
  assumes "files f p = Some c" and "length c = JOURNAL_SIZE"
    and "counter_open sha3 K lf rdf rf p pk e f = (r, f')"
  shows "files f' p = Some c \<and> stable f' = stable f \<and>
    (\<forall>k. r = Inr k \<longrightarrow> c_path k = p \<and> newest (slot_record sha3 c 0) (slot_record sha3 c 1) = Some (current_record k)
       \<and> c_end k = e \<and> unat (c_next k) \<le> unat e + 1)"
proof -
  obtain l f1 where l: "acquire_lock lf p f = (l, f1)" by force
  note keep = acquire_lock_keeps [OF l]
  show ?thesis
  proof (cases l)
    case (Inl x)
    then show ?thesis using assms l keep by (auto simp: counter_open_def)
  next
    case (Inr u)
    have "key_tag q = key_fingerprint sha3 K pk"
      if "recover_journal sha3 c (key_fingerprint sha3 K pk) e = Inr q" for q
      using that newest_in [of "slot_record sha3 c 0" "slot_record sha3 c 1" q]
      unfolding recover_journal_iff records_of_def by (auto split: option.splits)
    then show ?thesis
      using assms l keep Inr
      by (auto simp: counter_open_def open_content_def Let_def recover_journal_iff current_record_def
          split: if_splits sum.splits)
  qed
qed

lemma step_reopen:
  assumes "crash_inv sha3 tear p s" and "mem s = None"
    and op: "counter_open sha3 K lf rdf rf p pk e (m_fs s) = (Inr k, f')"
  shows "crash_inv sha3 tear p (s\<lparr>mem := Some k, m_fs := f'\<rparr>)"
  using assms(1)
proof (rule crash_invE)
  fix c d
  assume a: "files (m_fs s) p = Some c" "stable (m_fs s) p = Some d" "length c = JOURNAL_SIZE"
    "length d = JOURNAL_SIZE" "safe_mix sha3 tear c d (issued s)" "sorted_wrt (<) (map unat (issued s))"
    and m: "case mem s of Some k \<Rightarrow> mem_inv sha3 tear p c d (issued s) k | None \<Rightarrow> idle_inv sha3 tear c d"
  note o = counter_open_journal [OF a(1,3) op]
  have new: "newest (slot_record sha3 c 0) (slot_record sha3 c 1) = Some (current_record k)"
    using o by simp
  have act: "slot_record sha3 c (active k) = Some (current_record k)"
    using newest_in [OF new] slot_record_parity [of sha3 c _ "current_record k"]
    by (auto simp: active_def current_record_def)
  have "mixed sha3 tear c d i (slot_record sha3 c i)" for i by (simp add: mixed_def)
  then have "below (issued s) (unat (c_next k))"
    using a(5) new unfolding safe_mix_def by (force simp: current_record_def)
  moreover have "idle_inv sha3 tear c d" using m assms(2) by simp
  ultimately have "mem_inv sha3 tear p c d (issued s) k"
    using o new act by (auto simp: mem_inv_def idle_inv_def current_record_def)
  then show ?thesis using a o by (simp add: crash_inv_def)
qed

lemma step_reopen_fails:
  assumes "crash_inv sha3 tear p s" and "mem s = None"
    and op: "counter_open sha3 K lf rdf rf p pk e (m_fs s) = (Inl err, f')"
  shows "crash_inv sha3 tear p (s\<lparr>m_fs := f'\<rparr>)"
  using assms(1)
proof (rule crash_invE)
  fix c d
  assume a: "files (m_fs s) p = Some c" "stable (m_fs s) p = Some d" "length c = JOURNAL_SIZE"
    "length d = JOURNAL_SIZE" "safe_mix sha3 tear c d (issued s)" "sorted_wrt (<) (map unat (issued s))"
    "case mem s of Some k \<Rightarrow> mem_inv sha3 tear p c d (issued s) k | None \<Rightarrow> idle_inv sha3 tear c d"
  then show ?thesis using assms(2) counter_open_journal [OF a(1,3) op] by (simp add: crash_inv_def)
qed

lemma fresh_journal:
  fixes nf :: u64 and tag :: "32 barr" and sha3 :: "bytes \<Rightarrow> 32 barr"
  defines "b \<equiv> write_at 0 (encode_record sha3 \<lparr>generation = 0, next_free = nf, key_tag = tag\<rparr>) (replicate JOURNAL_SIZE 0)"
  shows "length b = JOURNAL_SIZE"
    and "slot_record sha3 b 0 = Some \<lparr>generation = 0, next_free = nf, key_tag = tag\<rparr>"
    and "slot_record sha3 b 1 = None"
proof -
  have "region JOURNAL_SLOT_SIZE RECORD_SIZE (replicate JOURNAL_SIZE 0) = (replicate 128 0 :: bytes)"
    by (simp add: region_def journal_consts drop_replicate take_replicate)
  then have "slot_record sha3 (replicate JOURNAL_SIZE 0) 1 = None"
    by (simp add: slot_record_def read_record_def decode_record_def journal_consts list_all_iff)
  then show "length b = JOURNAL_SIZE" and "slot_record sha3 b 1 = None"
    and "slot_record sha3 b 0 = Some \<lparr>generation = 0, next_free = nf, key_tag = tag\<rparr>"
    using length_journal_write [of 0 "replicate JOURNAL_SIZE 0" "encode_record sha3 \<lparr>generation = 0, next_free = nf, key_tag = tag\<rparr>"]
      slot_record_write_other [of 0 1 "replicate JOURNAL_SIZE 0" "encode_record sha3 \<lparr>generation = 0, next_free = nf, key_tag = tag\<rparr>" sha3]
      slot_record_write_same [of 0 "replicate JOURNAL_SIZE 0" "\<lparr>generation = 0, next_free = nf, key_tag = tag\<rparr>" sha3]
    by (simp_all add: b_def)
qed

lemma counter_create_effect:
  assumes "counter_create sha3 K lf mf rf p pk start e f0 = (Inr k, f1)"
  shows "k = \<lparr>c_path = p, c_key_tag = key_fingerprint sha3 K pk, c_generation = 0, c_next = ucast start, c_end = e\<rparr>
    \<and> \<not> path_exists mf p f0
    \<and> (\<exists>b. files f1 p = Some b \<and> stable f1 p = Some b \<and> length b = JOURNAL_SIZE
         \<and> slot_record sha3 b 0 = Some (current_record k) \<and> slot_record sha3 b 1 = None)"
proof -
  obtain l s1 where l: "acquire_lock lf p f0 = (l, s1)" by force
  have k: "k = \<lparr>c_path = p, c_key_tag = key_fingerprint sha3 K pk, c_generation = 0, c_next = ucast start, c_end = e\<rparr>"
    and fresh: "\<not> path_exists mf p s1"
    and inst: "install_journal sha3 rf p (key_fingerprint sha3 K pk) (ucast start) s1 = (Inr (), f1)"
    using assms l by (auto simp: counter_create_def Let_def split: sum.splits if_splits prod.splits)
  have "files f1 p = Some b \<and> stable f1 p = Some b"
    if "b = write_at 0 (encode_record sha3 (current_record k)) (replicate JOURNAL_SIZE 0)" for b
    using inst replace_file_ok [of rf p b s1 f1] that k
    by (auto simp: install_journal_def Let_def current_record_def split: prod.splits)
  then show ?thesis using k fresh acquire_lock_keeps [OF l] fresh_journal by (simp add: current_record_def path_exists_def)
qed

lemma created_inv:
  assumes "counter_create sha3 K lf mf rf p pk start e f0 = (Inr k, f1)"
  shows "crash_inv sha3 tear p \<lparr>mem = Some k, m_fs = f1, issued = []\<rparr>"
proof -
  note ce = counter_create_effect [OF assms]
  obtain b where b: "files f1 p = Some b" "stable f1 p = Some b" "length b = JOURNAL_SIZE"
    "slot_record sha3 b 0 = Some (current_record k)" "slot_record sha3 b 1 = None"
    using ce by blast
  have "newest (slot_record sha3 b 0) (slot_record sha3 b 1) = Some (current_record k)" using b by simp
  then have "gens_bounded sha3 b b (unat (c_generation k))"
    using newest_idle_inv [of sha3 b b] by (simp add: current_record_def)
  then have "mem_inv sha3 tear p b b [] k"
    using ce b(4) by (simp add: mem_inv_def active_def)
  then show ?thesis using b by (simp add: crash_inv_def safe_mix_def)
qed

theorem crash_reach_inv:
  assumes "crash_reach sha3 K p pk e tear wkill s" and "\<not> (tear \<and> wkill)"
  shows "crash_inv sha3 tear p s"
  using assms(1)
proof (induction rule: crash_reach.induct)
  case created
  then show ?case by (rule created_inv)
next
  case (stepped s t)
  from stepped.hyps(2) stepped.IH assms(2) show ?case
    by (cases rule: crash_step.cases)
      (auto intro: step_grant step_refuse step_write_back step_kill step_power_loss step_reopen step_reopen_fails)
qed

lemma crash_inv_distinct: "crash_inv sha3 tear p s \<Longrightarrow> distinct (issued s)"
  unfolding crash_inv_def by (metis distinct_map strict_sorted_iff)

end
