(* ===== verification/Slot_Traces.thy ===== *)
theory Slot_Traces
  imports Slot_Crash Instances
begin

text \<open>
  The limit of the crash safety of the slot counter: a run of the crash machine in which one slot
  is issued twice. It needs both switches. The process dies between the write of a record and its
  \<open>sync_data\<close>; \<open>open\<close> (src/state/slot_counter.rs) then adopts that record from the page cache
  although it is not durable; and a power loss tears the next record, which overwrites the last
  durable frontier. What is left on disk is the record before it.
\<close>

section \<open>Machine states by their records\<close>

definition rec_of :: "32 barr \<Rightarrow> u64 \<times> u64 \<Rightarrow> journal_record" where
  "rec_of tag gn = \<lparr>generation = fst gn, next_free = snd gn, key_tag = tag\<rparr>"

definition cells :: "(bytes \<Rightarrow> 32 barr) \<Rightarrow> bytes \<Rightarrow> journal_record option \<times> journal_record option" where
  "cells sha3 b = (slot_record sha3 b 0, slot_record sha3 b 1)"

definition counter_of :: "path \<Rightarrow> 32 barr \<Rightarrow> u32 \<Rightarrow> u64 \<times> u64 \<Rightarrow> atomic_slot_counter" where
  "counter_of p tag e gn = \<lparr>c_path = p, c_key_tag = tag, c_generation = fst gn, c_next = snd gn, c_end = e\<rparr>"

text \<open>
  The state as the trace sees it: the counter in memory, the records in the cache and on disk,
  and the slots issued.
\<close>

definition shape ::
  "(bytes \<Rightarrow> 32 barr) \<Rightarrow> path \<Rightarrow> 32 barr \<Rightarrow> u32 \<Rightarrow> (u64 \<times> u64) option
    \<Rightarrow> journal_record option \<times> journal_record option \<Rightarrow> journal_record option \<times> journal_record option
    \<Rightarrow> u32 list \<Rightarrow> machine \<Rightarrow> bool" where
  "shape sha3 p tag e m cached disk xs s \<longleftrightarrow>
     mem s = map_option (counter_of p tag e) m \<and> issued s = xs
     \<and> (\<exists>c d. files (m_fs s) p = Some c \<and> stable (m_fs s) p = Some d
          \<and> length c = JOURNAL_SIZE \<and> length d = JOURNAL_SIZE
          \<and> cells sha3 c = cached \<and> cells sha3 d = disk)
     \<and> (m = None \<longrightarrow> sibling p ''lock'' \<notin> locks (m_fs s))"

definition set_cell :: "nat \<Rightarrow> 'a \<Rightarrow> 'a \<times> 'a \<Rightarrow> 'a \<times> 'a" where
  "set_cell i x ab = (if i = 0 then (x, snd ab) else (fst ab, x))"

lemma cells_put:
  assumes "length c = JOURNAL_SIZE" and "gen_room k"
  shows "cells sha3 (put sha3 k RECORD_SIZE slot c) =
    set_cell (unat (c_generation k + 1) mod 2) (Some (next_record k slot)) (cells sha3 c)"
proof -
  note pc = put_cells(3) [OF assms(1), of sha3 k RECORD_SIZE slot] put_cells(4) [OF assms, of sha3 slot]
  show ?thesis
    using less_two [OF active_less, of k] pc next_generation_parity [OF assms(2)]
    by (auto simp: cells_def set_cell_def inactive_def)
qed

lemma ucast_back: "unat (n :: u64) \<le> unat (e :: u32) \<Longrightarrow> ucast (ucast n :: u32) = n"
  by (simp add: word_unat_eq_iff unat_ucast_down)

lemma next_record_counter_of:
  "unat n \<le> unat e \<Longrightarrow> next_record (counter_of p tag e (g, n)) (ucast n) = rec_of tag (g + 1, n + 1)"
  by (simp add: next_record_def counter_of_def rec_of_def ucast_back)

lemma reserve_targets:
  "unat n \<le> unat e \<Longrightarrow> op_target (Reserve f) (counter_of p tag e (g, n)) = Some (ucast n)"
  by (simp add: op_target_def counter_of_def)

section \<open>The steps of the trace\<close>

lemma shape_grant:
  assumes "shape sha3 p tag e (Some (g, n)) C D xs s" and "unat g + 1 < 2 ^ 64" and "unat n \<le> unat e"
  defines "C' \<equiv> set_cell (unat (g + 1) mod 2) (Some (rec_of tag (g + 1, n + 1))) C"
  shows "\<exists>t. crash_step sha3 K p pk e tear wkill s t
    \<and> shape sha3 p tag e (Some (g + 1, n + 1)) C' C' (xs @ [ucast n]) t"
proof -
  let ?k = "counter_of p tag e (g, n)"
  have room: "gen_room ?k" using assms(2) by (simp add: gen_room_def counter_of_def)
  obtain c where c: "files (m_fs s) p = Some c" "length c = JOURNAL_SIZE" "cells sha3 c = C"
    and m: "mem s = Some ?k" "issued s = xs"
    using assms(1) by (auto simp: shape_def)
  obtain k' f' where st: "slot_step sha3 (Reserve PersistClean) (?k, m_fs s) = (Inr (ucast n), k', f')"
    using slot_step_burns [OF reserve_targets [OF assms(3)], of sha3 PersistClean p tag g "m_fs s"] room
    by (auto simp: op_fault_def persist_next_def checked_add_def gen_room_def Let_def)
  have k': "k' = counter_of p tag e (g + 1, n + 1)"
    using slot_step_granted [OF st] assms(3)
    by (simp add: counter_of_def ucast_back)
  have eff: "files f' p = Some (put sha3 ?k RECORD_SIZE (ucast n) c)"
    "stable f' p = Some (put sha3 ?k RECORD_SIZE (ucast n) c)"
    using granted_effect [OF st, of c] c(1) by (simp_all add: counter_of_def)
  have "cells sha3 (put sha3 ?k RECORD_SIZE (ucast n) c) = C'"
    using cells_put [OF c(2) room, of sha3 "ucast n"] next_record_counter_of [OF assms(3), of p tag g] c(3)
    by (simp add: C'_def) (simp add: counter_of_def)
  then show ?thesis
    using crash_step.grant [OF m(1) st, of K p pk e tear wkill] k' eff put_cells(1) [OF c(2)] m(2)
    by (intro exI conjI) (assumption, auto simp: shape_def)
qed

lemma shape_unsynced:
  assumes "shape sha3 p tag e (Some (g, n)) C D xs s" and "unat g + 1 < 2 ^ 64" and "unat n \<le> unat e"
  defines "C' \<equiv> set_cell (unat (g + 1) mod 2) (Some (rec_of tag (g + 1, n + 1))) C"
  shows "\<exists>t. crash_step sha3 K p pk e tear wkill s t \<and> shape sha3 p tag e (Some (g, n)) C' D xs t"
proof -
  let ?k = "counter_of p tag e (g, n)" and ?op = "Reserve SyncDataFails"
  have room: "gen_room ?k" using assms(2) by (simp add: gen_room_def counter_of_def)
  obtain c where c: "files (m_fs s) p = Some c" "length c = JOURNAL_SIZE" "cells sha3 c = C"
    and m: "mem s = Some ?k" "issued s = xs"
    using assms(1) by (auto simp: shape_def)
  note tgt = reserve_targets [OF assms(3), of SyncDataFails p tag g]
  obtain r k' f' where st: "slot_step sha3 ?op (?k, m_fs s) = (Inl r, k', f')"
    using slot_step_burns [OF tgt, of sha3 "m_fs s"] room
    by (auto simp: op_fault_def persist_next_def checked_add_def gen_room_def Let_def)
  have f': "files f' p = Some (put sha3 ?k RECORD_SIZE (ucast n) c)"
    using whole_write_effect [OF tgt room, of "m_fs s" c sha3] c(1) st by (simp add: counter_of_def)
  have k': "k' = ?k" "stable f' = stable (m_fs s)"
    using refused_effect [OF st, of c] c(1) by (simp_all add: counter_of_def)
  have wh: "slot_step sha3 (whole_write ?op) (?k, m_fs s) = (Inl r, k', f')" using st by simp
  have "cells sha3 (put sha3 ?k RECORD_SIZE (ucast n) c) = C'"
    using cells_put [OF c(2) room, of sha3 "ucast n"] next_record_counter_of [OF assms(3), of p tag g] c(3)
    by (simp add: C'_def) (simp add: counter_of_def)
  then have "shape sha3 p tag e (Some (g, n)) C' D xs (s\<lparr>mem := Some k', m_fs := f'\<rparr>)"
    using assms(1) k' f' put_cells(1) [OF c(2)] m(2) by (auto simp: shape_def)
  then show ?thesis
    using crash_step.refuse [OF m(1) st wh c(1) f' f', of tear K pk e wkill] by (auto simp: write_outcome_def)
qed

lemma shape_kill:
  assumes "shape sha3 p tag e m C D xs s"
  shows "\<exists>t. crash_step sha3 K p pk e tear True s t \<and> shape sha3 p tag e None C D xs t"
  using crash_step.kill [of True s p sha3 K pk e tear, OF disjI1 [OF TrueI]] assms
  by (intro exI conjI) (assumption, auto simp: shape_def unlock_sibling_def)

lemma shape_reopen:
  assumes "shape sha3 p tag e None C D xs s" and "tag = key_fingerprint sha3 K pk"
    and "newest (fst C) (snd C) = Some (rec_of tag gn)"
    and "\<forall>q \<in> set (records_of (fst C) (snd C)). key_tag q = tag" and "unat (snd gn) \<le> unat e + 1"
  shows "\<exists>t. crash_step sha3 K p pk e tear wkill s t \<and> shape sha3 p tag e (Some gn) C D xs t"
proof -
  obtain c where c: "files (m_fs s) p = Some c" "length c = JOURNAL_SIZE" "cells sha3 c = C"
    and m: "mem s = None" and free: "sibling p ''lock'' \<notin> locks (m_fs s)"
    using assms(1) by (auto simp: shape_def)
  obtain f1 where lock: "acquire_lock LockClean p (m_fs s) = (Inr (), f1)"
    using free by (simp add: acquire_lock_def try_lock_sibling_def Let_def)
  note keep = acquire_lock_keeps [OF lock]
  have "recover_journal sha3 c tag e = Inr (rec_of tag gn)"
    using assms(3-5) c by (auto simp: recover_journal_iff cells_def rec_of_def)
  then have op: "counter_open sha3 K LockClean ReadClean ReplaceClean p pk e (m_fs s) = (Inr (counter_of p tag e gn), f1)"
    using c lock keep assms(2) by (simp add: counter_open_def open_content_def rec_of_def counter_of_def)
  then show ?thesis using crash_step.reopen [OF m op, of tear wkill] assms(1) keep
    by (intro exI conjI) (assumption, auto simp: shape_def)
qed

text \<open>A power loss that tears the record in slot 0 and drops the unwritten one in slot 1.\<close>

lemma torn_slot:
  assumes "length d = JOURNAL_SIZE"
  defines "x \<equiv> write_at 0 (replicate RECORD_SIZE 1) d"
  shows "length x = JOURNAL_SIZE" and "slot_record sha3 x 0 = None" and "slot_bytes 1 x = slot_bytes 1 d"
proof -
  have "region 0 RECORD_SIZE x = replicate RECORD_SIZE 1"
    using region_write_at_same [of 0 "replicate RECORD_SIZE 1" d] assms by (simp add: x_def journal_consts)
  moreover have "hd JOURNAL_MAGIC \<noteq> hd (replicate 8 1)"
    by (simp add: JOURNAL_MAGIC_def as_bytes_def)
  then have "JOURNAL_MAGIC \<noteq> replicate 8 1" by metis
  ultimately show "slot_record sha3 x 0 = None"
    by (simp add: slot_record_def read_record_def decode_record_def RECORD_SIZE_def)
  show "length x = JOURNAL_SIZE" and "slot_bytes 1 x = slot_bytes 1 d"
    using length_journal_write [of 0 d "replicate RECORD_SIZE 1"] slot_bytes_write_other [of 0 1 d "replicate RECORD_SIZE 1"] assms
    by (simp_all add: slot_bytes_def x_def)
qed

lemma shape_torn:
  assumes "shape sha3 p tag e m C D xs s" and "fst C \<noteq> fst D"
  shows "\<exists>t. crash_step sha3 K p pk e True wkill s t \<and> shape sha3 p tag e None (None, snd D) (None, snd D) xs t"
proof -
  obtain c d where cd: "files (m_fs s) p = Some c" "stable (m_fs s) p = Some d" "length d = JOURNAL_SIZE"
    "cells sha3 c = C" "cells sha3 d = D"
    using assms(1) by (auto simp: shape_def)
  note torn = torn_slot [OF cd(3)]
  have "slot_bytes 0 d \<noteq> slot_bytes 0 c"
    using assms(2) cd slot_record_cong [of 0 d c sha3] by (auto simp: cells_def)
  then have "survives sha3 True d c (write_at 0 (replicate RECORD_SIZE 1) d)"
    using torn less_two by (force simp: survives_def)
  from crash_step.power_loss [OF cd(1,2) this, of K pk e wkill] show ?thesis
    using assms(1) cd torn slot_record_cong [OF torn(3), of sha3]
    by (intro exI conjI) (assumption, auto simp: shape_def cells_def)
qed

lemma shape_created:
  fixes start :: u32 and f :: fs
  assumes "files f p = None" and "sibling p ''lock'' \<notin> locks f" and "tag = key_fingerprint sha3 K pk"
  defines "C \<equiv> (Some (rec_of tag (0, ucast start)), None)"
  shows "\<exists>s. crash_reach sha3 K p pk e tear wkill s \<and> shape sha3 p tag e (Some (0, ucast start)) C C [] s"
proof -
  have lock: "fst (acquire_lock LockClean p f) = Inr ()"
    using assms(2) by (simp add: acquire_lock_def try_lock_sibling_def Let_def)
  obtain f1 where l: "acquire_lock LockClean p f = (Inr (), f1)" using lock by (metis prod.collapse)
  have "files f1 p = None" using acquire_lock_keeps [OF l] assms(1) by simp
  then obtain k f2 where cr: "counter_create sha3 K LockClean ReadClean ReplaceClean p pk start e f = (Inr k, f2)"
    using l by (simp add: counter_create_def install_journal_def Let_def replace_file_def)
  note ce = counter_create_effect [OF cr]
  have "shape sha3 p tag e (Some (0, ucast start)) C C [] \<lparr>mem = Some k, m_fs = f2, issued = []\<rparr>"
    using ce by (auto simp: shape_def counter_of_def assms(3) C_def cells_def rec_of_def current_record_def)
  then show ?thesis using crash_reach.created [OF cr] by blast
qed

text \<open>A state of this shape is reachable.\<close>

definition can_reach ::
  "(bytes \<Rightarrow> 32 barr) \<Rightarrow> 'pk ssz \<Rightarrow> path \<Rightarrow> 'pk \<Rightarrow> u32 \<Rightarrow> bool \<Rightarrow> bool \<Rightarrow> (u64 \<times> u64) option
    \<Rightarrow> (u64 \<times> u64) option \<times> (u64 \<times> u64) option \<Rightarrow> (u64 \<times> u64) option \<times> (u64 \<times> u64) option
    \<Rightarrow> u32 list \<Rightarrow> bool" where
  "can_reach sha3 K p pk e tear wkill m C D xs \<longleftrightarrow>
     (let tag = key_fingerprint sha3 K pk; recs = map_prod (map_option (rec_of tag)) (map_option (rec_of tag))
      in \<exists>s. crash_reach sha3 K p pk e tear wkill s \<and> shape sha3 p tag e m (recs C) (recs D) xs s)"

lemma recs_set_cell:
  "map_prod f f (set_cell i x C) = set_cell i (f x) (map_prod f f C)"
  by (cases C) (simp add: set_cell_def)

lemma can_grant:
  assumes "can_reach sha3 K p pk e tear wkill (Some (g, n)) C D xs" and "unat g + 1 < 2 ^ 64" and "unat n \<le> unat e"
    and "C' = set_cell (unat (g + 1) mod 2) (Some (g + 1, n + 1)) C"
  shows "can_reach sha3 K p pk e tear wkill (Some (g + 1, n + 1)) C' C' (xs @ [ucast n])"
  using assms shape_grant [where K = K and pk = pk and tear = tear and wkill = wkill, OF _ assms(2,3)]
  by (simp add: can_reach_def recs_set_cell Let_def) (meson crash_reach.stepped)

lemma can_unsynced:
  assumes "can_reach sha3 K p pk e tear wkill (Some (g, n)) C D xs" and "unat g + 1 < 2 ^ 64" and "unat n \<le> unat e"
    and "C' = set_cell (unat (g + 1) mod 2) (Some (g + 1, n + 1)) C"
  shows "can_reach sha3 K p pk e tear wkill (Some (g, n)) C' D xs"
  using assms shape_unsynced [where K = K and pk = pk and tear = tear and wkill = wkill, OF _ assms(2,3)]
  by (simp add: can_reach_def recs_set_cell Let_def) (meson crash_reach.stepped)

lemma can_kill: "can_reach sha3 K p pk e tear True m C D xs \<Longrightarrow> can_reach sha3 K p pk e tear True None C D xs"
  by (simp add: can_reach_def Let_def) (meson crash_reach.stepped shape_kill)

lemma recs_newest:
  "set (records_of (map_option (rec_of tag) a) (map_option (rec_of tag) b)) \<subseteq> range (rec_of tag)"
  by (auto simp: records_of_def split: option.splits)

lemma can_reopen:
  assumes "can_reach sha3 K p pk e tear wkill None C D xs"
    and "newest (map_option (rec_of (key_fingerprint sha3 K pk)) (fst C)) (map_option (rec_of (key_fingerprint sha3 K pk)) (snd C))
       = Some (rec_of (key_fingerprint sha3 K pk) gn)"
    and "unat (snd gn) \<le> unat e + 1"
  shows "can_reach sha3 K p pk e tear wkill (Some gn) C D xs"
proof -
  have "key_tag q = tag" if "q \<in> set (records_of (map_option (rec_of tag) a) (map_option (rec_of tag) b))" for q tag a b
    using recs_newest [of tag a b] that by (auto simp: rec_of_def)
  then have tags: "\<forall>q \<in> set (records_of (map_option (rec_of tag) (fst C)) (map_option (rec_of tag) (snd C))). key_tag q = tag" for tag
    by blast
  obtain s where s: "crash_reach sha3 K p pk e tear wkill s"
    "shape sha3 p (key_fingerprint sha3 K pk) e None
       (map_prod (map_option (rec_of (key_fingerprint sha3 K pk))) (map_option (rec_of (key_fingerprint sha3 K pk))) C)
       (map_prod (map_option (rec_of (key_fingerprint sha3 K pk))) (map_option (rec_of (key_fingerprint sha3 K pk))) D) xs s"
    using assms(1) by (auto simp: can_reach_def Let_def)
  from shape_reopen [OF s(2) refl, of gn tear wkill] assms(2,3) tags s(1) show ?thesis
    by (auto simp: can_reach_def Let_def intro: crash_reach.stepped)
qed

lemma can_torn:
  assumes "can_reach sha3 K p pk e True wkill m C D xs" and "fst C \<noteq> fst D"
  shows "can_reach sha3 K p pk e True wkill None (None, snd D) (None, snd D) xs"
proof -
  have "map_option (rec_of tag) (fst C) \<noteq> map_option (rec_of tag) (fst D)" for tag
    using assms(2) by (cases "fst C"; cases "fst D") (auto simp: rec_of_def prod_eq_iff)
  then show ?thesis using assms(1)
    by (cases C; cases D) (simp add: can_reach_def Let_def, metis shape_torn crash_reach.stepped fst_conv snd_conv)
qed

lemma can_create:
  fixes start :: u32
  shows "can_reach sha3 K p pk e tear wkill (Some (0, ucast start)) (Some (0, ucast start), None) (Some (0, ucast start), None) []"
  using shape_created [where f = no_files and p = p and ?sha3.0 = sha3 and K = K and pk = pk and e = e and start = start
    and tear = tear and wkill = wkill, OF _ _ refl]
  by (simp add: can_reach_def no_files_def Let_def)

section \<open>The trace\<close>

lemma two_grants: "can_reach sha3 K p pk 200 tear wkill (Some (2, 102)) (Some (2, 102), Some (1, 101)) (Some (2, 102), Some (1, 101)) [100, 101]"
proof -
  have "can_reach sha3 K p pk 200 tear wkill (Some (0, 100)) (Some (0, 100), None) (Some (0, 100), None) []"
    using can_create [of sha3 K p pk 200 tear wkill 100] by simp
  from can_grant [OF this] have "can_reach sha3 K p pk 200 tear wkill (Some (1, 101)) (Some (0, 100), Some (1, 101)) (Some (0, 100), Some (1, 101)) [100]"
    by (simp add: set_cell_def)
  from can_grant [OF this] show ?thesis by (simp add: set_cell_def)
qed

lemma reissue_trace:
  "can_reach sha3 K p pk 200 True True (Some (2, 102)) (Some (2, 102), Some (1, 101)) (Some (2, 102), Some (1, 101)) [100, 101, 101]"
proof -
  note two_grants [of sha3 K p pk True True]
  from can_unsynced [OF this] have "can_reach sha3 K p pk 200 True True (Some (2, 102)) (Some (2, 102), Some (3, 103)) (Some (2, 102), Some (1, 101)) [100, 101]"
    by (simp add: set_cell_def)
  from can_reopen [OF can_kill [OF this], of "(3, 103)"]
  have "can_reach sha3 K p pk 200 True True (Some (3, 103)) (Some (2, 102), Some (3, 103)) (Some (2, 102), Some (1, 101)) [100, 101]"
    by (simp add: rec_of_def)
  from can_unsynced [OF this] have "can_reach sha3 K p pk 200 True True (Some (3, 103)) (Some (4, 104), Some (3, 103)) (Some (2, 102), Some (1, 101)) [100, 101]"
    by (simp add: set_cell_def)
  from can_torn [OF this] have "can_reach sha3 K p pk 200 True True None (None, Some (1, 101)) (None, Some (1, 101)) [100, 101]"
    by simp
  from can_reopen [OF this, of "(1, 101)"]
  have "can_reach sha3 K p pk 200 True True (Some (1, 101)) (None, Some (1, 101)) (None, Some (1, 101)) [100, 101]"
    by (simp add: rec_of_def)
  from can_grant [OF this] show ?thesis by (simp add: set_cell_def)
qed

section \<open>Crash safety and its limit\<close>

text \<open>
  C1. No slot is issued twice: in every run of create, reserve, \<open>reserve_at\<close>, failed system calls,
  background write-back, process death, power loss and reopening, the slots handed out are
  pairwise distinct, provided the environment does not combine torn records with a process that
  dies before its write is durable.
\<close>

theorem no_slot_issued_twice:
  assumes "crash_reach sha3 K p pk e tear wkill s" and "\<not> (tear \<and> wkill)"
  shows "distinct (issued s)"
  using crash_inv_distinct [OF crash_reach_inv [OF assms]] .

theorem no_slot_issued_twice_witness:
  "\<exists>s. crash_reach fold_hash (array_ssz :: 32 barr ssz) [''slots''] (mk_barr []) 200 True False s
     \<and> issued s = [100, 101] \<and> distinct (issued s)"
proof -
  obtain s where s: "crash_reach fold_hash (array_ssz :: 32 barr ssz) [''slots''] (mk_barr []) 200 True False s"
    and i: "issued s = [100, 101]"
    using two_grants [of fold_hash "array_ssz :: 32 barr ssz" "[''slots'']" "mk_barr []" True False]
    by (auto simp: can_reach_def shape_def Let_def)
  show ?thesis using s i no_slot_issued_twice [OF s] by blast
qed

text \<open>
  C22. Tearing and dying before the sync together defeat the journal: for every hash function, key
  and path there is a run of create, reservations, an unsynced write followed by the death of the
  process, a reopening, and a power loss that tears the next record, after which slot 101 has been
  issued twice.
\<close>

theorem slot_reissued_after_unsynced_reopen:
  "\<exists>s. crash_reach sha3 K p pk 200 True True s \<and> issued s = [100, 101, 101]"
  using reissue_trace [of sha3 K p pk] by (auto simp: can_reach_def shape_def Let_def)

end
