(* ===== verification/Slot_Api.thy ===== *)
theory Slot_Api
  imports Slot_Traces
begin

text \<open>
  The slot counter as its callers see it (src/state/slot_counter.rs): what \<open>create\<close>, \<open>open\<close>,
  \<open>reserve\<close> and \<open>reserve_at\<close> promise one after the other, without crashes in between.
\<close>

section \<open>Reservations\<close>

text \<open>
  Slots increase strictly: over any sequence of \<open>reserve\<close> and \<open>reserve_at\<close> calls, whichever of
  them fail and however they fail, every slot returned is larger than all slots returned before.
\<close>

theorem reservations_strictly_increase:
  "sorted_wrt (<) (map unat (oks (fst (run_steps (slot_step sha3) ops (c, s)))))"
  by (rule counter_alloc.run_strictly_increasing)

lemma recover_after_put:
  assumes len: "length b = JOURNAL_SIZE" and act: "slot_record sha3 b (active c) = Some (current_record c)"
    and room: "gen_room c" and tgt: "op_target op c = Some slot"
  shows "recover_journal sha3 (put sha3 c RECORD_SIZE slot b) (c_key_tag c) (c_end c) = Inr (next_record c slot)"
proof -
  let ?b = "put sha3 c RECORD_SIZE slot b"
  have "slot_record sha3 ?b (inactive c) = Some (next_record c slot)"
    "slot_record sha3 ?b (active c) = Some (current_record c)"
    using put_cells(3,4) [OF len] act room by simp_all
  then have "\<forall>q \<in> set (records_of (slot_record sha3 ?b 0) (slot_record sha3 ?b 1)). key_tag q = c_key_tag c"
    using less_two [OF active_less, of c]
    by (auto simp: records_of_def inactive_def next_record_def current_record_def)
  then show ?thesis
    using newest_after_put [OF len room tgt act] put_cells(1) [OF len] op_target_bounds [OF tgt]
    by (simp add: recover_journal_iff next_record_next)
qed

definition file_shows :: "(bytes \<Rightarrow> 32 barr) \<Rightarrow> atomic_slot_counter \<Rightarrow> fs \<Rightarrow> bool" where
  "file_shows sha3 c s = (case files s (c_path c) of None \<Rightarrow> False
     | Some b \<Rightarrow> length b = JOURNAL_SIZE \<and> slot_record sha3 b (active c) = Some (current_record c))"

text \<open>
  Burn before use: when a reservation returns a slot, the file that would survive a power loss
  already recovers to a frontier one past that slot, so no later \<open>open\<close> can offer it again.
\<close>

theorem granted_slot_is_durably_burned:
  assumes "file_shows sha3 c s" and "slot_step sha3 op (c, s) = (Inr slot, c', s')"
  shows "\<exists>b r. stable s' (c_path c) = Some b \<and> files s' (c_path c) = Some b
    \<and> recover_journal sha3 b (c_key_tag c) (c_end c) = Inr r \<and> unat (next_free r) = unat slot + 1
    \<and> file_shows sha3 c' s'"
proof -
  obtain b where b: "files s (c_path c) = Some b" "length b = JOURNAL_SIZE"
    "slot_record sha3 b (active c) = Some (current_record c)"
    using assms(1) by (auto simp: file_shows_def split: option.splits)
  note eff = granted_effect [OF assms(2) b(1)]
  let ?b = "put sha3 c RECORD_SIZE slot b"
  have cells: "slot_record sha3 ?b (inactive c) = Some (next_record c slot)"
    using put_cells(4) [OF b(2)] eff by simp
  have "recover_journal sha3 ?b (c_key_tag c) (c_end c) = Inr (next_record c slot)"
    using recover_after_put [OF b(2,3)] eff by blast
  moreover have "active c' = inactive c"
    using eff next_record_parity [of c slot] by (metis active_def current_record_def journal_record.select_convs(1))
  ultimately show ?thesis
    using eff cells put_cells(1) [OF b(2)] by (simp add: file_shows_def next_record_next)
qed

text \<open>
  What a refused reservation leaves: the counter and the durable file as they were, its record in the
  visible file, and at most a slot written ahead of the counter, which a failed \<open>sync_data\<close> leaves
  complete.
\<close>

lemma refused_step_leaves:
  assumes "slot_step sha3 op (c, s) = (Inl e, c', s')" and "file_shows sha3 c s"
  shows "c' = c \<and> stable s' = stable s \<and> file_shows sha3 c s'
    \<and> (case e of
         Io _ \<Rightarrow> \<exists>slot. op_target op c = Some slot \<and> (op_fault op = SyncDataFails \<longrightarrow>
           (\<exists>b q. files s' (c_path c) = Some b \<and> recover_journal sha3 b (c_key_tag c) (c_end c) = Inr q \<and> unat (next_free q) = unat slot + 1))
       | _ \<Rightarrow> s' = s)"
proof -
  obtain b where b: "files s (c_path c) = Some b" "length b = JOURNAL_SIZE" "slot_record sha3 b (active c) = Some (current_record c)"
    using assms(2) by (auto simp: file_shows_def split: option.splits)
  note eff = refused_effect [OF assms(1) b(1)]
  have kept: "file_shows sha3 c s'" using eff b put_cells(1,3) [OF b(2)] assms(2) by (auto simp: file_shows_def)
  show ?thesis
  proof (cases "op_target op c")
    case None
    then have "s' = s \<and> (\<forall>x. e \<noteq> Io x)"
      using assms(1) by (cases op) (auto simp: op_target_def slot_step_def reserve_def reserve_at_def Let_def
          word_less_nat_alt word_le_nat_alt split: if_splits)
    then show ?thesis using eff kept by (simp split: counter_error.splits)
  next
    case (Some slot)
    have p: "persist_next sha3 (op_fault op) (ucast slot + 1) c s = (Inl e, c', s')"
      using assms(1) slot_step_burns [OF Some, of sha3 s] by (auto split: prod.splits sum.splits)
    show ?thesis
    proof (cases "gen_room c")
      case True
      have io: "e = Io OtherIo"
        using p True by (auto simp: persist_next_def checked_add_def gen_room_def Let_def split: persist_fault.splits)
      have "files s' (c_path c) = Some (put sha3 c RECORD_SIZE slot b)" if "op_fault op = SyncDataFails"
        using p True that b(1) next_generation_parity [OF True]
        by (auto simp: persist_next_def checked_add_def gen_room_def overwrite_def put_def next_record_def)
      then show ?thesis using eff kept io Some recover_after_put [OF b(2,3) True Some] by (auto simp: next_record_next)
    next
      case False
      then have "s' = s \<and> e = State GenerationExhausted"
        using p by (auto simp: persist_next_def checked_add_def gen_room_def Let_def split: persist_fault.splits if_splits)
      then show ?thesis using eff kept by simp
    qed
  qed
qed

lemma create_succeeds:
  assumes "files f p = None" and "sibling p ''lock'' \<notin> locks f"
  obtains f' where "counter_create sha3 K LockClean ReadClean ReplaceClean p pk start e f =
    (Inr (counter_of p (key_fingerprint sha3 K pk) e (0, ucast start)), f')"
proof -
  obtain f1 where l: "acquire_lock LockClean p f = (Inr (), f1)"
    using assms(2) by (simp add: acquire_lock_def try_lock_sibling_def Let_def)
  then have "files f1 p = None" using acquire_lock_keeps [OF l] assms(1) by simp
  then show ?thesis using that l
    by (simp add: counter_create_def install_journal_def Let_def replace_file_def counter_of_def)
qed

lemma create_shows:
  assumes "counter_create sha3 K lf mf rf p pk start e f = (Inr k, f')"
  shows "file_shows sha3 k f'"
  using counter_create_effect [OF assms] by (auto simp: file_shows_def active_def)

lemma reserve_grants:
  assumes "unat n \<le> unat e" and "unat g + 1 < 2 ^ 64"
  shows "\<exists>k' f'. slot_step sha3 (Reserve PersistClean) (counter_of p tag e (g, n), f) = (Inr (ucast n), k', f')"
  using slot_step_burns [OF reserve_targets [OF assms(1)], of sha3 PersistClean p tag g f] assms(2)
  by (auto simp: op_fault_def persist_next_def checked_add_def counter_of_def Let_def)

text \<open>The counter of the witnesses: slots 100 to 200, freshly created in an empty file system.\<close>

definition example_key :: "32 barr" where "example_key = mk_barr []"

definition example_counter :: atomic_slot_counter where
  "example_counter = counter_of [''slots''] (key_fingerprint fold_hash array_ssz example_key) 200 (0, 100)"

lemma example_created:
  "\<exists>f. counter_create fold_hash array_ssz LockClean ReadClean ReplaceClean [''slots''] example_key 100 200 no_files
     = (Inr example_counter, f)"
  using create_succeeds [of no_files "[''slots'']" fold_hash array_ssz example_key 100 200]
  by (simp add: no_files_def example_counter_def) metis

lemma example_reserves:
  "\<exists>k' f'. slot_step fold_hash (Reserve PersistClean) (example_counter, f) = (Inr 100, k', f')"
  using reserve_grants [of 100 200 0 fold_hash "[''slots'']" "key_fingerprint fold_hash array_ssz example_key" f]
  by (simp add: example_counter_def)

theorem granted_slot_is_durably_burned_witness:
  "\<exists>c s c' s' b r. file_shows fold_hash c s
     \<and> slot_step fold_hash (Reserve PersistClean) (c, s) = (Inr 100, c', s')
     \<and> stable s' (c_path c) = Some b \<and> recover_journal fold_hash b (c_key_tag c) (c_end c) = Inr r
     \<and> unat (next_free r) = 101"
proof -
  obtain f where cr: "counter_create fold_hash array_ssz LockClean ReadClean ReplaceClean [''slots''] example_key 100 200 no_files
      = (Inr example_counter, f)"
    using example_created by blast
  obtain k' f' where st: "slot_step fold_hash (Reserve PersistClean) (example_counter, f) = (Inr 100, k', f')"
    using example_reserves by blast
  have "unat (100 :: u32) + 1 = 101" by simp
  then show ?thesis
    using granted_slot_is_durably_burned [OF create_shows [OF cr] st] create_shows [OF cr] st by metis
qed

section \<open>Locking\<close>

lemma acquire_lock_holds: "acquire_lock lf p f = (Inr u, f') \<Longrightarrow> sibling p ''lock'' \<in> locks f'"
  by (auto simp: acquire_lock_def try_lock_sibling_def Let_def split: if_splits)

lemma acquire_lock_busy: "sibling p ''lock'' \<in> locks f \<Longrightarrow> fst (acquire_lock LockClean p f) = Inl Busy"
  by (simp add: acquire_lock_def try_lock_sibling_def Let_def)

lemma install_journal_locks: "locks (snd (install_journal sha3 rf p tag nf f)) = locks f"
  by (simp add: install_journal_def Let_def split_beta)

lemma create_holds_lock: "counter_create sha3 K lf mf rf p pk start e f = (Inr k, f') \<Longrightarrow> sibling p ''lock'' \<in> locks f'"
  using install_journal_locks
  by (auto simp: counter_create_def Let_def dest!: acquire_lock_holds split: prod.splits sum.splits if_splits)
    (metis snd_conv)

lemma open_content_locks: "locks (snd (open_content sha3 rf p tag e raw f)) = locks f"
  using install_journal_locks [of sha3 rf p tag _ f]
  by (auto simp: open_content_def split: sum.splits option.splits prod.splits) (metis snd_conv)+

lemma open_holds_lock: "counter_open sha3 K lf rdf rf p pk e f = (Inr k, f') \<Longrightarrow> sibling p ''lock'' \<in> locks f'"
  using open_content_locks
  by (auto simp: counter_open_def Let_def dest!: acquire_lock_holds split: prod.splits sum.splits option.splits if_splits)
    (metis snd_conv)+

lemma reserve_locks: "slot_step sha3 op (c, f) = (r, c', f') \<Longrightarrow> locks f' = locks f"
  by (cases "op_target op c")
    (auto simp: slot_step_burns persist_next_def Let_def overwrite_def sync_data_def
      dest: slot_step_refuses [of op c sha3 f] split: prod.splits sum.splits option.splits persist_fault.splits)

text \<open>
  One live counter per path: while a counter that \<open>create\<close> or \<open>open\<close> returned has not been
  dropped, and after any number of reservations on it, a second \<open>create\<close> or \<open>open\<close> of the same
  path fails with \<open>Busy\<close> and leaves the journal as it is.
\<close>

theorem second_opener_is_refused:
  assumes "counter_open sha3 K lf rdf rf p pk e f = (Inr k, f1)
         \<or> counter_create sha3 K lf mf rf p pk start e f = (Inr k, f1)"
    and "snd (run_steps (slot_step sha3) ops (k, f1)) = (k', f2)"
  shows "fst (counter_open sha3 K' LockClean rdf' rf' p pk' e' f2) = Inl Busy
    \<and> fst (counter_create sha3 K' LockClean mf' rf' p pk' start' e' f2) = Inl Busy
    \<and> files (snd (counter_open sha3 K' LockClean rdf' rf' p pk' e' f2)) p = files f2 p"
proof -
  have "sibling p ''lock'' \<in> locks (snd (snd (run_steps (slot_step sha3) ops (c, f))))"
    if "sibling p ''lock'' \<in> locks f" for c f
    using that
  proof (induction ops arbitrary: c f)
    case (Cons op ops)
    obtain r c' f' where st: "slot_step sha3 op (c, f) = (r, c', f')" by (metis prod.exhaust)
    then show ?case using Cons reserve_locks [OF st] by simp
  qed simp
  then have "sibling p ''lock'' \<in> locks f2"
    using assms open_holds_lock create_holds_lock by (metis snd_conv)
  then have "\<exists>f3. acquire_lock LockClean p f2 = (Inl Busy, f3)" using acquire_lock_busy by (metis prod.collapse)
  then obtain f3 where "acquire_lock LockClean p f2 = (Inl Busy, f3)" by blast
  then show ?thesis
    using acquire_lock_keeps [of LockClean p f2] by (simp add: counter_open_def counter_create_def Let_def)
qed

theorem second_opener_is_refused_witness:
  "\<exists>f1. counter_create fold_hash array_ssz LockClean ReadClean ReplaceClean [''slots''] example_key 100 200 no_files
       = (Inr example_counter, f1)
     \<and> fst (counter_open fold_hash (array_ssz :: 32 barr ssz) LockClean ReadClean ReplaceClean [''slots''] example_key 200 f1)
       = Inl Busy"
proof -
  obtain f where cr: "counter_create fold_hash array_ssz LockClean ReadClean ReplaceClean [''slots''] example_key 100 200 no_files
      = (Inr example_counter, f)"
    using example_created by blast
  have run: "snd (run_steps (slot_step fold_hash) [] (example_counter, f)) = (example_counter, f)" by simp
  show ?thesis using cr second_opener_is_refused [OF disjI2 [OF cr] run, where K' = "array_ssz :: 32 barr ssz"] by blast
qed

text \<open>
  A metadata error defeats the refusal to reset: \<open>create\<close> asks \<open>Path::exists\<close>, which takes an error for a
  missing file, and then renames a new journal over a live one, so a counter whose lock is free
  starts again at the bottom of its window. The freshness file asks \<open>try_exists\<close> instead.
\<close>

theorem create_resets_after_metadata_error:
  assumes "files f p = Some live" and "sibling p ''lock'' \<notin> locks f"
  shows "\<exists>f'. counter_create sha3 K LockClean ReadFails ReplaceClean p pk start e f
      = (Inr (counter_of p (key_fingerprint sha3 K pk) e (0, ucast start)), f')
    \<and> fst (counter_create sha3 K LockClean ReadClean ReplaceClean p pk start e f) = Inl (State (CounterExists p))"
  using assms by (auto simp: counter_create_def acquire_lock_def try_lock_sibling_def install_journal_def replace_file_def counter_of_def
    sibling_not_self [symmetric] sibling_not_self Let_def)

theorem create_resets_after_metadata_error_witness:
  "\<exists>f'. counter_create fold_hash array_ssz LockClean ReadFails ReplaceClean [''slots''] example_key 100 200
       (no_files\<lparr>files := [[''slots''] \<mapsto> [1]]\<rparr>) = (Inr example_counter, f')"
proof -
  have "files (no_files\<lparr>files := [[''slots''] \<mapsto> [1]]\<rparr>) [''slots''] = Some [1]"
    "sibling [''slots''] ''lock'' \<notin> locks (no_files\<lparr>files := [[''slots''] \<mapsto> [1]]\<rparr>)" by (simp_all add: no_files_def)
  from create_resets_after_metadata_error [OF this, of fold_hash array_ssz example_key 100 200]
  show ?thesis by (auto simp: example_counter_def)
qed

section \<open>Reopening\<close>

lemma acquire_lock_free:
  assumes "sibling p ''lock'' \<notin> locks f"
  obtains f1 where "acquire_lock LockClean p f = (Inr (), f1)" and "files f1 p = files f p" and "stable f1 = stable f"
proof -
  obtain f1 where l: "acquire_lock LockClean p f = (Inr (), f1)"
    using assms by (simp add: acquire_lock_def try_lock_sibling_def Let_def)
  then show ?thesis using that acquire_lock_keeps [OF l] by blast
qed

text \<open>
  Create, reserve, drop, open: reopening after a successful reservation resumes at exactly the
  frontier and generation the dropped counter had, whatever the reservation was.
\<close>

theorem reopen_resumes_frontier:
  assumes "file_shows sha3 c s" and "slot_step sha3 op (c, s) = (Inr slot, c', s')"
    and "c_key_tag c = key_fingerprint sha3 K pk"
  shows "\<exists>s2. counter_open sha3 K LockClean ReadClean rf (c_path c) pk (c_end c) (counter_drop c' s') = (Inr c', s2)"
proof -
  obtain b where b: "files s (c_path c) = Some b" "length b = JOURNAL_SIZE"
    "slot_record sha3 b (active c) = Some (current_record c)"
    using assms(1) by (auto simp: file_shows_def split: option.splits)
  note eff = granted_effect [OF assms(2) b(1)] and g = slot_step_granted [OF assms(2)]
  have rec: "recover_journal sha3 (put sha3 c RECORD_SIZE slot b) (c_key_tag c) (c_end c) = Inr (next_record c slot)"
    using recover_after_put [OF b(2,3)] eff by blast
  let ?s = "counter_drop c' s'"
  have "sibling (c_path c) ''lock'' \<notin> locks ?s" and "files ?s = files s'"
    using g by (simp_all add: counter_drop_def unlock_sibling_def)
  then obtain f1 where "acquire_lock LockClean (c_path c) ?s = (Inr (), f1)"
    and "files f1 (c_path c) = Some (put sha3 c RECORD_SIZE slot b)"
    using acquire_lock_free [of "c_path c" ?s] eff by metis
  then show ?thesis
    using rec assms(3) g put_cells(1) [OF b(2)]
    by (simp add: counter_open_def open_content_def next_record_def)
qed

theorem reopen_resumes_frontier_witness:
  "\<exists>s k' s' s2. slot_step fold_hash (Reserve PersistClean) (example_counter, s) = (Inr 100, k', s')
     \<and> counter_open fold_hash array_ssz LockClean ReadClean ReplaceClean [''slots''] example_key 200 (counter_drop k' s')
       = (Inr k', s2)"
proof -
  obtain f where cr: "counter_create fold_hash array_ssz LockClean ReadClean ReplaceClean [''slots''] example_key 100 200 no_files
      = (Inr example_counter, f)"
    using example_created by blast
  obtain k' f' where st: "slot_step fold_hash (Reserve PersistClean) (example_counter, f) = (Inr 100, k', f')"
    using example_reserves by blast
  show ?thesis
    using reopen_resumes_frontier [OF create_shows [OF cr] st, of array_ssz example_key ReplaceClean] st
    by (auto simp: example_counter_def counter_of_def)
qed

section \<open>Migration\<close>

definition v2_line :: "32 barr \<Rightarrow> u64 \<Rightarrow> string" where
  "v2_line tag n = ''v2 '' @ key_fingerprint_hex tag @ '' '' @ show_nat (unat n) @ [char_of (10 :: nat)]"

lemma v2_line_ascii: "c \<in> set (v2_line tag n) \<Longrightarrow> of_char c < (128 :: nat)"
  using hex_chars [of c "bytes_of tag"] show_nat_digits [of "unat n"]
  by (fastforce simp: v2_line_def key_fingerprint_hex_def)

lemma length_v2_line: "length (v2_line tag n) < JOURNAL_SIZE"
proof -
  have "unat n < 10 ^ 20" using unat_u64_bound [of n] by simp
  then have "length (show_nat (unat n)) \<le> 20" by (rule length_show_nat) simp
  then show ?thesis by (simp add: v2_line_def key_fingerprint_hex_def journal_consts)
qed

lemma parse_v2_line: "parse_legacy (text_of (v2_line tag n)) tag = Inr (n, False)"
proof -
  let ?h = "text_of (key_fingerprint_hex tag)" and ?n = "text_of (show_nat (unat n))"
  have t: "text_of (v2_line tag n) = text_of ''v2 '' @ ?h @ [32] @ ?n @ [10]"
    by (simp add: v2_line_def text_of_def of_char_of)
  have "length ?h = 64" by (simp add: key_fingerprint_hex_def text_of_def)
  then have ne: "?h \<noteq> []" "?n \<noteq> []" by (auto simp: text_of_def)
  have "split_whitespace (?h @ [32] @ ?n @ [10]) = [?h, ?n]"
    using hex_text_not_ws digit_text_not_ws ne
    by (intro split_whitespace_two) (auto simp: key_fingerprint_hex_def is_whitespace_def)
  then show ?thesis
    by (simp add: parse_legacy_def t strip_prefix_def)
qed

text \<open>
  Migration keeps the frontier: opening a textual version 2 state file of this key whose frontier
  lies in the window installs a durable journal and resumes at exactly that frontier.
\<close>

theorem migration_keeps_frontier:
  assumes "files f p = Some (as_bytes (v2_line (key_fingerprint sha3 K pk) n))"
    and "unat n \<le> unat e + 1" and "sibling p ''lock'' \<notin> locks f"
  shows "\<exists>k f' b. counter_open sha3 K LockClean ReadClean ReplaceClean p pk e f = (Inr k, f')
    \<and> c_next k = n \<and> stable f' p = Some b
    \<and> recover_journal sha3 b (key_fingerprint sha3 K pk) e
        = Inr \<lparr>generation = 0, next_free = n, key_tag = key_fingerprint sha3 K pk\<rparr>"
proof -
  let ?tag = "key_fingerprint sha3 K pk"
  let ?b = "write_at 0 (encode_record sha3 \<lparr>generation = 0, next_free = n, key_tag = ?tag\<rparr>) (replicate JOURNAL_SIZE 0)"
  obtain f1 where l: "acquire_lock LockClean p f = (Inr (), f1)" "files f1 p = files f p"
    using acquire_lock_free [OF assms(3)] by metis
  obtain f2 where r: "replace_file ReplaceClean p ?b f1 = (Inr (), f2)"
    using replace_file_result [of ReplaceClean p ?b f1] by (metis prod.collapse)
  have u: "from_utf8 (as_bytes (v2_line ?tag n)) = Some (text_of (v2_line ?tag n))"
    using v2_line_ascii by (intro from_utf8_ascii) blast
  have "counter_open sha3 K LockClean ReadClean ReplaceClean p pk e f =
      (Inr \<lparr>c_path = p, c_key_tag = ?tag, c_generation = 0, c_next = n, c_end = e\<rparr>, f2)"
    using assms l u r length_v2_line [of ?tag n]
    by (simp add: counter_open_def open_content_def parse_v2_line install_journal_def Let_def as_bytes_def)
  moreover have "recover_journal sha3 ?b ?tag e = Inr \<lparr>generation = 0, next_free = n, key_tag = ?tag\<rparr>"
    using assms(2) fresh_journal [of sha3 n ?tag] by (simp add: recover_journal_iff records_of_def)
  ultimately show ?thesis using replace_file_ok [OF r] by auto
qed

theorem migration_keeps_frontier_witness:
  "\<exists>k f'. counter_open fold_hash array_ssz LockClean ReadClean ReplaceClean [''slots''] example_key 200
      (no_files\<lparr>files := [[''slots''] \<mapsto> as_bytes (v2_line (key_fingerprint fold_hash array_ssz example_key) 150)]\<rparr>)
      = (Inr k, f') \<and> c_next k = 150"
  using migration_keeps_frontier [where p = "[''slots'']" and ?sha3.0 = fold_hash and K = array_ssz and pk = example_key
      and n = 150 and e = 200
      and f = "no_files\<lparr>files := [[''slots''] \<mapsto> as_bytes (v2_line (key_fingerprint fold_hash array_ssz example_key) 150)]\<rparr>"]
  by (auto simp: no_files_def)

section \<open>The journal\<close>

text \<open>
  The journal record is a checksummed canonical format: a 128-byte string decodes to a record in
  a journal slot exactly when it is the encoding of that record and the record's generation
  belongs to that slot. Nothing else decodes, including a record copied into the other slot.
\<close>

theorem journal_record_is_canonical:
  "decode_record sha3 bs slot = Inr (Some r) \<longleftrightarrow> bs = encode_record sha3 r \<and> unat (generation r) mod 2 = slot"
  using journal_codec.dec_iff [of sha3 slot bs r] by (auto simp: read_record_Some)

text \<open>
  C26. Recovery returns a record exactly when the file has the journal's size, its two slots determine a
  newest record (the only one, or the later of two consecutive generations whose frontier
  advanced), every record present belongs to this key, and the frontier lies in the key's window.
\<close>

theorem recovery_is_exact:
  "recover_journal sha3 bs tag slot_end = Inr r \<longleftrightarrow>
     length bs = JOURNAL_SIZE
     \<and> newest (slot_record sha3 bs 0) (slot_record sha3 bs 1) = Some r
     \<and> (\<forall>q \<in> set (records_of (slot_record sha3 bs 0) (slot_record sha3 bs 1)). key_tag q = tag)
     \<and> unat (next_free r) \<le> unat slot_end + 1"
  by (rule recover_journal_iff)

lemma fresh_recovers:
  fixes sha3 :: "bytes \<Rightarrow> 32 barr" and tag :: "32 barr"
  defines "b \<equiv> write_at 0 (encode_record sha3 \<lparr>generation = 0, next_free = 100, key_tag = tag\<rparr>) (replicate JOURNAL_SIZE 0)"
  shows "length b = JOURNAL_SIZE"
    and "newest (slot_record sha3 b 0) (slot_record sha3 b 1) = Some \<lparr>generation = 0, next_free = 100, key_tag = tag\<rparr>"
    and "\<forall>q \<in> set (records_of (slot_record sha3 b 0) (slot_record sha3 b 1)). key_tag q = tag"
  using fresh_journal [of sha3 100 tag] by (simp_all add: b_def records_of_def)

theorem recovery_is_exact_witness:
  "recover_journal fold_hash (write_at 0 (encode_record fold_hash \<lparr>generation = 0, next_free = 100, key_tag = example_key\<rparr>)
      (replicate JOURNAL_SIZE 0)) example_key 200 = Inr \<lparr>generation = 0, next_free = 100, key_tag = example_key\<rparr>"
  using recovery_is_exact fresh_recovers [of fold_hash example_key] by simp

end
