(* ===== verification/Signer_Node.thy ===== *)
theory Signer_Node
  imports Slot_Api
begin

text \<open>
  A committee member (src/node/signer.rs): one XMSS key behind its slot counter. Every call of the
  key goes through a reservation, so the slot is burned before the key touches it. The field
  \<open>n_uses\<close> is a ghost: the calls of XMSS signing made so far, as pairs of slot and message.
\<close>

section \<open>The node\<close>

text \<open>\<open>ExpectTimings\<close> stands for the panic of an \<open>expect\<close>.\<close>

datatype signer_node_error = SlotError counter_error | SignError string | ExpectTimings

record ('pk, 'sk) signer_node =
  n_pk :: 'pk
  n_sk :: 'sk
  n_counter :: atomic_slot_counter
  n_uses :: "(u32 \<times> 32 barr) list"

definition signer_node_new :: "'pk \<Rightarrow> 'sk \<Rightarrow> atomic_slot_counter \<Rightarrow> ('pk, 'sk) signer_node" where
  "signer_node_new pk sk c = \<lparr>n_pk = pk, n_sk = sk, n_counter = c, n_uses = []\<rparr>"

definition signer_next_slot :: "('pk, 'sk) signer_node \<Rightarrow> u64" where
  "signer_next_slot n = next_slot (n_counter n)"

definition remaining_slots :: "('pk, 'sk) signer_node \<Rightarrow> nat" where
  "remaining_slots n = remaining (n_counter n)"

text \<open>The one call of the key: it is recorded whether it succeeds or not.\<close>

definition use_key ::
  "('pk, 'sk, 'sig, 'rng) xmss \<Rightarrow> 'rng \<Rightarrow> 32 barr \<Rightarrow> u32 \<Rightarrow> ('pk, 'sk) signer_node
    \<Rightarrow> (signer_node_error, 'sig) result \<times> ('pk, 'sk) signer_node" where
  "use_key X rng msg slot n =
     (case xmss_sign X rng (n_sk n) msg slot of
        Inl e \<Rightarrow> (Inl (SignError (e @ '' at slot '' @ show_nat (unat slot))), n\<lparr>n_uses := n_uses n @ [(slot, msg)]\<rparr>)
      | Inr sig \<Rightarrow> (Inr sig, n\<lparr>n_uses := n_uses n @ [(slot, msg)]\<rparr>))"

definition signer_sign ::
  "(bytes \<Rightarrow> 32 barr) \<Rightarrow> ('pk, 'sk, 'sig, 'rng) xmss \<Rightarrow> persist_fault \<Rightarrow> 'rng \<Rightarrow> 32 barr \<Rightarrow> ('pk, 'sk) signer_node \<Rightarrow> fs
    \<Rightarrow> (signer_node_error, u32 \<times> 'sig) result \<times> ('pk, 'sk) signer_node \<times> fs" where
  "signer_sign sha3 X f rng msg n s =
     (case reserve sha3 f (n_counter n) s of
        (Inl e, c', s') \<Rightarrow> (Inl (SlotError e), n\<lparr>n_counter := c'\<rparr>, s')
      | (Inr slot, c', s') \<Rightarrow>
          (case use_key X rng msg slot (n\<lparr>n_counter := c'\<rparr>) of
             (Inl e, n') \<Rightarrow> (Inl e, n', s')
           | (Inr sig, n') \<Rightarrow> (Inr (slot, sig), n', s')))"

text \<open>The readings of the clock that a measured call takes, as instants.\<close>

record sign_at_timings =
  t_reserve :: nat
  t_crypto :: nat

definition sign_at_inner ::
  "(bytes \<Rightarrow> 32 barr) \<Rightarrow> ('pk, 'sk, 'sig, 'rng) xmss \<Rightarrow> persist_fault \<Rightarrow> 'rng \<Rightarrow> nat \<times> nat \<times> nat \<times> nat \<Rightarrow> 32 barr \<Rightarrow> u32 \<Rightarrow> bool
    \<Rightarrow> ('pk, 'sk) signer_node \<Rightarrow> fs
    \<Rightarrow> (signer_node_error, 'sig \<times> sign_at_timings option) result \<times> ('pk, 'sk) signer_node \<times> fs" where
  "sign_at_inner sha3 X f rng clock msg slot timed n s =
     (case clock of (t0, t1, t2, t3) \<Rightarrow>
        case reserve_at sha3 f slot (n_counter n) s of
          (Inl e, c', s') \<Rightarrow> (Inl (SlotError e), n\<lparr>n_counter := c'\<rparr>, s')
        | (Inr _, c', s') \<Rightarrow>
            (case use_key X rng msg slot (n\<lparr>n_counter := c'\<rparr>) of
               (Inl e, n') \<Rightarrow> (Inl e, n', s')
             | (Inr sig, n') \<Rightarrow>
                 (Inr (sig, if timed then Some \<lparr>t_reserve = t1 - t0, t_crypto = t3 - t2\<rparr> else None), n', s')))"

definition sign_at ::
  "(bytes \<Rightarrow> 32 barr) \<Rightarrow> ('pk, 'sk, 'sig, 'rng) xmss \<Rightarrow> persist_fault \<Rightarrow> 'rng \<Rightarrow> 32 barr \<Rightarrow> u32
    \<Rightarrow> ('pk, 'sk) signer_node \<Rightarrow> fs \<Rightarrow> (signer_node_error, 'sig) result \<times> ('pk, 'sk) signer_node \<times> fs" where
  "sign_at sha3 X f rng msg slot n s =
     (case sign_at_inner sha3 X f rng (0, 0, 0, 0) msg slot False n s of
        (Inl e, n', s') \<Rightarrow> (Inl e, n', s')
      | (Inr (sig, _), n', s') \<Rightarrow> (Inr sig, n', s'))"

definition sign_at_timed ::
  "(bytes \<Rightarrow> 32 barr) \<Rightarrow> ('pk, 'sk, 'sig, 'rng) xmss \<Rightarrow> persist_fault \<Rightarrow> 'rng \<Rightarrow> nat \<times> nat \<times> nat \<times> nat \<Rightarrow> 32 barr \<Rightarrow> u32
    \<Rightarrow> ('pk, 'sk) signer_node \<Rightarrow> fs
    \<Rightarrow> (signer_node_error, 'sig \<times> sign_at_timings) result \<times> ('pk, 'sk) signer_node \<times> fs" where
  "sign_at_timed sha3 X f rng clock msg slot n s =
     (case sign_at_inner sha3 X f rng clock msg slot True n s of
        (Inl e, n', s') \<Rightarrow> (Inl e, n', s')
      | (Inr (sig, None), n', s') \<Rightarrow> (Inl ExpectTimings, n', s')
      | (Inr (sig, Some t), n', s') \<Rightarrow> (Inr (sig, t), n', s'))"

section \<open>Uses of the key\<close>

text \<open>The public signing calls as one operation.\<close>

datatype 'rng sign_op = Sign persist_fault 'rng "32 barr" | SignAt persist_fault 'rng "32 barr" u32

definition sign_step ::
  "(bytes \<Rightarrow> 32 barr) \<Rightarrow> ('pk, 'sk, 'sig, 'rng) xmss \<Rightarrow> 'rng sign_op \<Rightarrow> ('pk, 'sk) signer_node \<times> fs
    \<Rightarrow> (signer_node_error, 'sig) result \<times> ('pk, 'sk) signer_node \<times> fs" where
  "sign_step sha3 X op ns =
     (case op of
        Sign f rng msg \<Rightarrow>
          (case signer_sign sha3 X f rng msg (fst ns) (snd ns) of
             (Inl e, n', s') \<Rightarrow> (Inl e, n', s') | (Inr (_, sig), n', s') \<Rightarrow> (Inr sig, n', s'))
      | SignAt f rng msg slot \<Rightarrow> sign_at sha3 X f rng msg slot (fst ns) (snd ns))"

definition reservation :: "'rng sign_op \<Rightarrow> slot_op" where
  "reservation op = (case op of Sign f _ _ \<Rightarrow> Reserve f | SignAt f _ _ slot \<Rightarrow> ReserveAt f slot)"

definition op_message :: "'rng sign_op \<Rightarrow> 32 barr" where
  "op_message op = (case op of Sign _ _ m \<Rightarrow> m | SignAt _ _ m _ \<Rightarrow> m)"

lemma use_key_node: "snd (use_key X rng msg slot n) = n\<lparr>n_uses := n_uses n @ [(slot, msg)]\<rparr>"
  by (simp add: use_key_def split: sum.splits)

lemma reserve_at_returns: "reserve_at sha3 f slot c s = (Inr a, c', s') \<Longrightarrow> a = slot"
  by (auto simp: reserve_at_def Let_def split: if_splits prod.splits sum.splits)

text \<open>A signing call is its reservation, and on success one use of the key at the reserved slot.\<close>

lemma sign_step_reserves:
  assumes "slot_step sha3 (reservation op) (n_counter n, s) = (r, c', s')"
  shows "snd (sign_step sha3 X op (n, s)) =
    (case r of Inl e \<Rightarrow> (n\<lparr>n_counter := c'\<rparr>, s')
     | Inr slot \<Rightarrow> (n\<lparr>n_counter := c', n_uses := n_uses n @ [(slot, op_message op)]\<rparr>, s'))"
    and "\<And>e. r = Inl e \<Longrightarrow> fst (sign_step sha3 X op (n, s)) = Inl (SlotError e)"
proof -
  have "(case op of Sign f rng m \<Rightarrow> reserve sha3 f (n_counter n) s | SignAt f rng m sl \<Rightarrow> reserve_at sha3 f sl (n_counter n) s) = (r, c', s')"
    using assms by (cases op) (simp_all add: slot_step_def reservation_def)
  then show "snd (sign_step sha3 X op (n, s)) =
    (case r of Inl e \<Rightarrow> (n\<lparr>n_counter := c'\<rparr>, s')
     | Inr slot \<Rightarrow> (n\<lparr>n_counter := c', n_uses := n_uses n @ [(slot, op_message op)]\<rparr>, s'))"
    by (cases op; cases r)
      (auto simp: sign_step_def signer_sign_def sign_at_def sign_at_inner_def use_key_def op_message_def
        dest: reserve_at_returns split: sum.splits prod.splits)
  show "fst (sign_step sha3 X op (n, s)) = Inl (SlotError e)" if "r = Inl e" for e
    using that \<open>(case op of Sign f rng m \<Rightarrow> _ | SignAt f rng m sl \<Rightarrow> _) = (r, c', s')\<close>
    by (cases op) (auto simp: sign_step_def signer_sign_def sign_at_def sign_at_inner_def split: sum.splits prod.splits)
qed

definition uses_ok :: "('pk, 'sk) signer_node \<Rightarrow> bool" where
  "uses_ok n \<longleftrightarrow> sorted_wrt (<) (map (\<lambda>u. unat (fst u)) (n_uses n))
     \<and> (\<forall>u \<in> set (n_uses n). unat (fst u) < unat (c_next (n_counter n)))"

lemma uses_ok_step:
  assumes "uses_ok n"
  shows "uses_ok (fst (snd (sign_step sha3 X op (n, s))))"
proof -
  obtain r c' s' where st: "slot_step sha3 (reservation op) (n_counter n, s) = (r, c', s')" by (metis prod.exhaust)
  note step = sign_step_reserves(1) [OF st, of X]
  show ?thesis
  proof (cases r)
    case (Inl e)
    then show ?thesis using step slot_step_error st assms by (fastforce simp: uses_ok_def)
  next
    case (Inr slot)
    have "unat (c_next (n_counter n)) \<le> unat slot" "unat (c_next c') = unat slot + 1"
      using st Inr slot_step_granted [of sha3 "reservation op" "n_counter n" s slot c' s']
        op_target_bounds [of "reservation op" "n_counter n" slot] by auto
    then show ?thesis using step Inr assms
      by (fastforce simp: uses_ok_def sorted_wrt_append)
  qed
qed

lemma uses_ok_run: "uses_ok n \<Longrightarrow> uses_ok (fst (snd (run_steps (sign_step sha3 X) ops (n, s))))"
proof (induction ops arbitrary: n s)
  case (Cons op ops)
  obtain n1 s1 where "snd (sign_step sha3 X op (n, s)) = (n1, s1)" by force
  then show ?case using Cons.IH [of n1 s1] uses_ok_step [OF Cons.prems, of sha3 X op s] by simp
qed simp

section \<open>Properties\<close>

text \<open>
  C2. The key never signs twice at one slot: over any sequence of \<open>sign\<close> and \<open>sign_at\<close> calls on a
  member, whatever fails on disk or inside XMSS, the slots handed to the key increase strictly.
\<close>

theorem key_never_touches_a_slot_twice:
  "sorted_wrt (<) (map (\<lambda>u. unat (fst u))
     (n_uses (fst (snd (run_steps (sign_step sha3 X) ops (signer_node_new pk sk c, s))))))"
  using uses_ok_run [of "signer_node_new pk sk c" sha3 X ops s] by (simp add: uses_ok_def signer_node_new_def)

text \<open>
  C11. Burn before sign: if a signing call touched the key at all, then the durable file already
  recovers past the slot it used, even when XMSS then refused to sign.
\<close>

theorem slot_burned_before_key_is_touched:
  assumes "file_shows sha3 (n_counter n) s" and "sign_step sha3 X op (n, s) = (r, n', s')"
    and "n_uses n' \<noteq> n_uses n"
  shows "\<exists>slot b q. n_uses n' = n_uses n @ [(slot, op_message op)] \<and> stable s' (c_path (n_counter n)) = Some b
    \<and> recover_journal sha3 b (c_key_tag (n_counter n)) (c_end (n_counter n)) = Inr q
    \<and> unat (next_free q) = unat slot + 1"
proof -
  obtain q c' f' where st: "slot_step sha3 (reservation op) (n_counter n, s) = (q, c', f')" by (metis prod.exhaust)
  note step = sign_step_reserves(1) [OF st, of X]
  obtain slot where q: "q = Inr slot" using step assms(2,3) by (cases q) auto
  then have n': "n_uses n' = n_uses n @ [(slot, op_message op)]" "s' = f'" using step assms(2) by auto
  obtain b where b: "files s (c_path (n_counter n)) = Some b" "length b = JOURNAL_SIZE"
    "slot_record sha3 b (active (n_counter n)) = Some (current_record (n_counter n))"
    using assms(1) by (auto simp: file_shows_def split: option.splits)
  note eff = granted_effect [OF st [unfolded q] b(1)]
  show ?thesis
    using n' eff recover_after_put [OF b(2,3)] by (auto simp: next_record_next)
qed

text \<open>The member of the witnesses, with the example key and counter.\<close>

definition example_member :: "(32 barr, 32 barr) signer_node" where
  "example_member = signer_node_new example_key example_key example_counter"

lemma example_signs:
  "\<exists>n' s'. sign_step fold_hash plain_xmss (Sign PersistClean () example_key) (example_member, s)
     = (Inr (example_key, example_key, 100), n', s') \<and> n_uses n' = [(100, example_key)]"
proof -
  obtain k' f' where "slot_step fold_hash (Reserve PersistClean) (example_counter, s) = (Inr 100, k', f')"
    using example_reserves by blast
  then show ?thesis
    by (auto simp: sign_step_def signer_sign_def use_key_def plain_xmss_def example_member_def signer_node_new_def slot_step_def)
qed

theorem slot_burned_before_key_is_touched_witness:
  "\<exists>s n' s' b q. sign_step fold_hash plain_xmss (Sign PersistClean () example_key) (example_member, s)
       = (Inr (example_key, example_key, 100), n', s') \<and> n_uses n' = [(100, example_key)]
     \<and> stable s' [''slots''] = Some b
     \<and> recover_journal fold_hash b (c_key_tag example_counter) 200 = Inr q \<and> unat (next_free q) = 101"
proof -
  obtain s where cr: "counter_create fold_hash array_ssz LockClean ReadClean ReplaceClean [''slots''] example_key 100 200 no_files
      = (Inr example_counter, s)"
    using example_created by blast
  have fs: "file_shows fold_hash (n_counter example_member) s"
    using create_shows [OF cr] by (simp add: example_member_def signer_node_new_def)
  obtain n' s' where st: "sign_step fold_hash plain_xmss (Sign PersistClean () example_key) (example_member, s)
      = (Inr (example_key, example_key, 100), n', s')" and u: "n_uses n' = [(100, example_key)]"
    using example_signs by blast
  have "n_uses n' \<noteq> n_uses example_member" using u by (simp add: example_member_def signer_node_new_def)
  from slot_burned_before_key_is_touched [OF fs st this] obtain b q where "stable s' [''slots''] = Some b"
    "recover_journal fold_hash b (c_key_tag example_counter) 200 = Inr q" "unat (next_free q) = 101"
    using u by (auto simp: example_member_def signer_node_new_def example_counter_def counter_of_def)
  then show ?thesis using st u by blast
qed

text \<open>
  C35. A refused reservation spends no signature and loses no slot: when a signing call fails with a slot
  error, the member is exactly as it was, its key unused; the durable file is untouched and the
  visible one still holds the counter's record. Unless the error is an I/O error on a slot the
  window had to offer, nothing on disk changed at all; and when it was \<open>sync_data\<close> that failed, the
  visible file recovers past that slot, so a reopening skips a slot at which nothing was signed.
\<close>

theorem slot_error_leaves_the_counter:
  assumes "file_shows sha3 (n_counter n) s" and "sign_step sha3 X op (n, s) = (Inl (SlotError e), n', s')"
  shows "n' = n \<and> stable s' = stable s \<and> file_shows sha3 (n_counter n) s'
    \<and> (case e of
         Io _ \<Rightarrow> \<exists>slot. op_target (reservation op) (n_counter n) = Some slot \<and> (op_fault (reservation op) = SyncDataFails \<longrightarrow>
           (\<exists>b q. files s' (c_path (n_counter n)) = Some b
              \<and> recover_journal sha3 b (c_key_tag (n_counter n)) (c_end (n_counter n)) = Inr q \<and> unat (next_free q) = unat slot + 1))
       | _ \<Rightarrow> s' = s)"
proof -
  obtain q c' f' where st: "slot_step sha3 (reservation op) (n_counter n, s) = (q, c', f')" by (metis prod.exhaust)
  show ?thesis
  proof (cases q)
    case (Inl e')
    have "e' = e" "n' = n\<lparr>n_counter := c'\<rparr>" "s' = f'" using sign_step_reserves(1) [OF st, of X] sign_step_reserves(2) [OF st Inl, of X] assms(2) Inl by auto
    then show ?thesis using refused_step_leaves [OF st [unfolded Inl] assms(1)] by auto
  next
    case (Inr slot)
    then have False using assms(2) st
      by (cases op)
        (auto simp: sign_step_def signer_sign_def sign_at_def sign_at_inner_def use_key_def reservation_def slot_step_def
          split: sum.splits prod.splits)
    then show ?thesis ..
  qed
qed

theorem slot_error_leaves_the_counter_witness:
  "\<exists>s s' b q. sign_step fold_hash plain_xmss (SignAt SyncDataFails () example_key 150) (example_member, s)
       = (Inl (SlotError (Io OtherIo)), example_member, s') \<and> files s' [''slots''] = Some b
     \<and> recover_journal fold_hash b (c_key_tag example_counter) 200 = Inr q \<and> unat (next_free q) = 151"
proof -
  obtain s where cr: "counter_create fold_hash array_ssz LockClean ReadClean ReplaceClean [''slots''] example_key 100 200 no_files
      = (Inr example_counter, s)" using example_created by blast
  have fs: "file_shows fold_hash (n_counter example_member) s"
    using create_shows [OF cr] by (simp add: example_member_def signer_node_new_def)
  obtain b0 where b0: "files s [''slots''] = Some b0"
    using fs by (auto simp: file_shows_def example_member_def signer_node_new_def example_counter_def counter_of_def split: option.splits)
  obtain n' s' where st: "sign_step fold_hash plain_xmss (SignAt SyncDataFails () example_key 150) (example_member, s)
      = (Inl (SlotError (Io OtherIo)), n', s')"
    by (simp add: sign_step_def sign_at_def sign_at_inner_def reserve_at_def persist_next_def checked_add_def example_member_def
        signer_node_new_def example_counter_def counter_of_def Let_def)
  let ?op = "SignAt SyncDataFails () example_key 150"
  have "op_target (reservation ?op) (n_counter example_member) = Some 150" "op_fault (reservation ?op) = SyncDataFails"
    by (simp_all add: op_target_def op_fault_def reservation_def example_member_def signer_node_new_def example_counter_def counter_of_def)
  moreover note slot_error_leaves_the_counter [OF fs st]
  ultimately show ?thesis using st
    by (auto simp: example_member_def signer_node_new_def example_counter_def counter_of_def)
qed

text \<open>
  Measuring changes nothing: the timed call has the same effects and outcome as the plain one,
  with the clock differences added, and its \<open>expect\<close> never fires.
\<close>

theorem timed_signing_is_signing:
  "sign_at_timed sha3 X f rng (t0, t1, t2, t3) msg slot n s =
     (map_sum id (\<lambda>sig. (sig, \<lparr>t_reserve = t1 - t0, t_crypto = t3 - t2\<rparr>)) (fst (sign_at sha3 X f rng msg slot n s)),
      snd (sign_at sha3 X f rng msg slot n s))"
  by (auto simp: sign_at_timed_def sign_at_def sign_at_inner_def split: sum.splits prod.splits)

end
