(* ===== verification/Signer_Bits.thy ===== *)
theory Signer_Bits
  imports Externals
begin

text \<open>
  Signer bitmaps, shared by the XMSS records (src/protocol/status_list.rs) and the ML-DSA records
  (mldsa/src/status_list.rs): sorting signatures by index, refusing repeated ones, setting their
  bits, and reading the set bits back in ascending order.
\<close>

section \<open>Operations\<close>

fun adjacent_equal :: "('i \<times> 'a) list \<Rightarrow> bool" where
  "adjacent_equal (a # b # rest) \<longleftrightarrow> fst a = fst b \<or> adjacent_equal (b # rest)"
| "adjacent_equal _ \<longleftrightarrow> False"

fun set_bits :: "'b bitlist \<Rightarrow> usize list \<Rightarrow> 'b \<Rightarrow> 'b option" where
  "set_bits B [] bits = Some bits"
| "set_bits B (i # is) bits = (case bl_set B bits i True of None \<Rightarrow> None | Some bits' \<Rightarrow> set_bits B is bits')"

definition bit_indices :: "'b bitlist \<Rightarrow> 'b \<Rightarrow> usize list" where
  "bit_indices B bits = map fst (filter snd (enumerate 0 (bl_iter B bits)))"

section \<open>Reading bits\<close>

lemma indices_of_bits:
  "map fst (filter snd (enumerate k bs)) = filter (\<lambda>j. bs ! (j - k)) [k..<k + length bs]"
proof (induction bs arbitrary: k)
  case (Cons b bs)
  have "filter (\<lambda>j. (b # bs) ! (j - k)) [Suc k..<Suc k + length bs] = filter (\<lambda>j. bs ! (j - Suc k)) [Suc k..<Suc k + length bs]"
    by (rule filter_cong) (auto simp: nth_Cons' Suc_diff_Suc)
  moreover have "[k..<k + length (b # bs)] = k # [Suc k..<Suc k + length bs]" by (simp add: upt_conv_Cons del: upt_Suc)
  ultimately show ?case using Cons [of "Suc k"] by (cases b) (simp_all del: upt_Suc)
qed simp

lemma bit_indices_filter:
  "bit_indices B bits = filter (\<lambda>j. bl_iter B bits ! j) [0..<length (bl_iter B bits)]"
  using indices_of_bits [of 0] by (simp add: bit_indices_def)

lemma bit_indices_sorted: "sorted_wrt (<) (bit_indices B bits)"
  unfolding bit_indices_filter by (rule sorted_wrt_filter) simp

lemma bit_indices_distinct: "distinct (bit_indices B bits)"
  unfolding bit_indices_filter by (rule distinct_filter) simp

lemma bit_indices_bound: "bitlist_laws N B \<Longrightarrow> i \<in> set (bit_indices B bits) \<Longrightarrow> i < bl_len B bits"
  by (auto simp: bit_indices_filter bitlist_lenD)

lemma length_bit_indices: "bitlist_laws N B \<Longrightarrow> length (bit_indices B bits) = bl_num_set_bits B bits"
proof -
  have "length (filter snd (enumerate k bs)) = length (filter id bs)" for k and bs :: "bool list"
    by (induction bs arbitrary: k) auto
  then show "bitlist_laws N B \<Longrightarrow> length (bit_indices B bits) = bl_num_set_bits B bits"
    by (simp add: bit_indices_def bitlist_countD)
qed

section \<open>Setting bits\<close>

lemma set_bits_result:
  assumes "bitlist_laws N B" and "\<forall>i \<in> set is. i < length (bl_iter B bits)"
  shows "\<exists>bits'. set_bits B is bits = Some bits' \<and> length (bl_iter B bits') = length (bl_iter B bits)
    \<and> (\<forall>j < length (bl_iter B bits). bl_iter B bits' ! j \<longleftrightarrow> bl_iter B bits ! j \<or> j \<in> set is)"
  using assms(2)
proof (induction "is" arbitrary: bits)
  case (Cons i "is")
  then obtain bits1 where b1: "bl_set B bits i True = Some bits1" "bl_iter B bits1 = (bl_iter B bits)[i := True]"
    using bitlist_setD [OF assms(1), of i bits True] by auto
  with Cons.prems have "\<forall>i \<in> set is. i < length (bl_iter B bits1)" by simp
  from Cons.IH [OF this] obtain bits' where b': "set_bits B is bits1 = Some bits'"
    "length (bl_iter B bits') = length (bl_iter B bits)"
    "\<forall>j < length (bl_iter B bits). bl_iter B bits' ! j \<longleftrightarrow> (bl_iter B bits)[i := True] ! j \<or> j \<in> set is"
    using b1(2) by auto
  have "(bl_iter B bits)[i := True] ! j \<longleftrightarrow> bl_iter B bits ! j \<or> j = i" if "j < length (bl_iter B bits)" for j
    using that by (cases "j = i") auto
  with b' b1 show ?case by auto
qed simp

lemma adjacent_equal_sorted:
  "sorted (map fst (ps :: (nat \<times> 'a) list)) \<Longrightarrow> \<not> adjacent_equal ps \<longleftrightarrow> distinct (map fst ps)"
proof (induction ps rule: adjacent_equal.induct)
  case (1 a b rest)
  then show ?case by fastforce
qed auto

lemma sorted_last_bound:
  assumes "sorted (map fst (ps :: (nat \<times> 'a) list))"
  shows "(ps \<noteq> [] \<longrightarrow> fst (last ps) < n) \<longleftrightarrow> (\<forall>p \<in> set ps. fst p < n)"
proof (cases ps rule: rev_cases)
  case (snoc qs q)
  then show ?thesis using assms by (fastforce simp: sorted_append)
qed simp

text \<open>A bitmap of \<open>n\<close> bits whose set bits are the given ascending indices.\<close>

lemma bitmap_of_indices:
  assumes laws: "bitlist_laws N B" and n: "n \<le> N" and is_ok: "sorted_wrt (<) is" "\<forall>i \<in> set is. i < n"
  shows "\<exists>bits b'. bl_with_capacity B n = Some bits \<and> set_bits B is bits = Some b' \<and> bl_len B b' = n \<and> bit_indices B b' = is"
proof -
  obtain bits where bits: "bl_with_capacity B n = Some bits" "bl_iter B bits = replicate n False"
    using bitlist_capacityD [OF laws n] by auto
  obtain b' where b': "set_bits B is bits = Some b'" "length (bl_iter B b') = n"
    "\<forall>j < n. bl_iter B b' ! j \<longleftrightarrow> j \<in> set is"
    using set_bits_result [OF laws, of "is" bits] bits is_ok(2) by auto
  have "set (bit_indices B b') = set is" using b' is_ok(2) by (auto simp: bit_indices_filter)
  then have "bit_indices B b' = is"
    using is_ok(1) bit_indices_distinct [of B b'] bit_indices_sorted [of B b']
    by (intro sorted_distinct_set_unique) (auto simp: strict_sorted_iff)
  then show ?thesis using bits b' bitlist_lenD [OF laws] by auto
qed

text \<open>The checks of the constructors, on pairs sorted by index.\<close>

lemma sorted_pairs_checks:
  fixes ps :: "(nat \<times> 'a) list"
  shows "\<not> adjacent_equal (sort_key fst ps) \<longleftrightarrow> distinct (map fst ps)"
    and "(sort_key fst ps \<noteq> [] \<and> fst (last (sort_key fst ps)) \<ge> n) \<longleftrightarrow> (\<exists>p \<in> set ps. fst p \<ge> n)"
    and "distinct (map fst ps) \<Longrightarrow> sorted_wrt (<) (map fst (sort_key fst ps))"
proof -
  have dist: "distinct (map fst (sort_key fst ps)) \<longleftrightarrow> distinct (map fst ps)" by (simp add: distinct_map)
  then show "\<not> adjacent_equal (sort_key fst ps) \<longleftrightarrow> distinct (map fst ps)"
    using adjacent_equal_sorted [OF sorted_sort_key, of ps] by simp
  show "(sort_key fst ps \<noteq> [] \<and> fst (last (sort_key fst ps)) \<ge> n) \<longleftrightarrow> (\<exists>p \<in> set ps. fst p \<ge> n)"
    using sorted_last_bound [OF sorted_sort_key, of ps n] by (metis not_less set_sort)
  show "distinct (map fst ps) \<Longrightarrow> sorted_wrt (<) (map fst (sort_key fst ps))"
    using dist by (simp add: strict_sorted_iff)
qed

section \<open>From indices to members\<close>

text \<open>Ascending indices into a list of distinct members name as many distinct members.\<close>

lemma distinct_keys_of_pairs:
  fixes ps :: "(nat \<times> 'sig) list"
  assumes "sorted_wrt (<) (map fst ps)" and "distinct ms"
    and ok: "\<forall>(i, sig) \<in> set ps. i < length ms \<and> V (ms ! i) sig"
  shows "\<exists>ks. distinct ks \<and> set ks \<subseteq> set ms \<and> length ks = length ps \<and> (\<forall>k \<in> set ks. \<exists>sig \<in> set (map snd ps). V k sig)"
proof -
  let ?ks = "map (\<lambda>p. ms ! fst p) ps"
  have lt: "\<forall>i \<in> set (map fst ps). i < length ms" using ok by auto
  have "distinct (map fst ps)" using assms(1) by (simp add: strict_sorted_iff)
  moreover have "inj_on ((!) ms) (set (map fst ps))"
    using lt assms(2) by (meson inj_onI nth_eq_iff_index_eq)
  ultimately have "distinct (map ((!) ms) (map fst ps))" by (simp add: distinct_map comp_inj_on)
  then have "distinct ?ks" by (simp add: comp_def)
  moreover have "set ?ks \<subseteq> set ms" using lt by auto
  moreover have "\<exists>sig \<in> set (map snd ps). V k sig" if "k \<in> set ?ks" for k
    using that ok by (auto simp: case_prod_unfold)
  ultimately show ?thesis by (metis length_map)
qed

end
