(* ===== verification/Status_List.thy ===== *)
theory Status_List
  imports Signer_Bits Rust_Text Interfaces Instances
begin

text \<open>
  Published status-list records (src/protocol/status_list.rs): the signed message and its trust
  domain, the raw record with its signer bitmap, the SNARK record with its aggregate, their wire
  forms and their printed form.

  The lemmas show that the message binds the domain, the version and every entry, that a record
  built from signatures names exactly their signers in the order of the signatures, and that the
  wire forms round-trip and are canonical wherever the SSZ codec is.
\<close>

section \<open>Algorithms, domains, messages\<close>

definition MAX_COMMITTEE_SIZE :: usize where "MAX_COMMITTEE_SIZE = 2048"

datatype algorithms = WotsXmss

datatype status_list_error =
    NotSsz string
  | RetiredTag
  | UnknownTag u8
  | DuplicateSignerIndex
  | SignerIndexOutside usize usize
  | CommitteeCeiling usize
  | BitmapMismatch usize usize
  | ProofNotDeserializable string
  | ProofNotCanonical
  | ExpectIndexBounded

definition algorithm_tag :: "algorithms \<Rightarrow> u8" where
  "algorithm_tag alg = (case alg of WotsXmss \<Rightarrow> 1)"

definition algorithm_from_tag :: "u8 \<Rightarrow> (status_list_error, algorithms) result" where
  "algorithm_from_tag tag = (if tag = 1 then Inr WotsXmss else if tag = 0 then Inl RetiredTag else Inl (UnknownTag tag))"

definition hash_any :: "(bytes \<Rightarrow> 32 barr) \<Rightarrow> bytes \<Rightarrow> 32 barr" where
  "hash_any sha3 bs = sha3 bs"

definition MESSAGE_FORMAT :: u32 where "MESSAGE_FORMAT = 2"
definition DOMAIN_CONTEXT :: bytes where
  "DOMAIN_CONTEXT = as_bytes ''decentralized-root-of-trust/status-list-domain''"
definition MESSAGE_CONTEXT :: bytes where
  "MESSAGE_CONTEXT = as_bytes ''decentralized-root-of-trust/status-list-message''"

datatype domain = Domain (domain_bytes: "32 barr")

text \<open>A streaming hasher absorbs the concatenation of its updates.\<close>

definition domain_preimage :: "32 barr \<Rightarrow> algorithms \<Rightarrow> bytes" where
  "domain_preimage fp alg = DOMAIN_CONTEXT @ u32_to_le MESSAGE_FORMAT @ [algorithm_tag alg] @ bytes_of fp"

definition domain_new :: "(bytes \<Rightarrow> 32 barr) \<Rightarrow> 32 barr \<Rightarrow> algorithms \<Rightarrow> domain" where
  "domain_new blake fp alg = Domain (blake (domain_preimage fp alg))"

definition message_preimage :: "domain \<Rightarrow> 32 barr list \<Rightarrow> u32 \<Rightarrow> bytes" where
  "message_preimage d xs version = MESSAGE_CONTEXT @ bytes_of (domain_bytes d) @ u32_to_le version
     @ u64_to_le (word_of_nat (length xs)) @ concat (map bytes_of xs)"

definition status_list_message :: "(bytes \<Rightarrow> 32 barr) \<Rightarrow> domain \<Rightarrow> 32 barr list \<Rightarrow> u32 \<Rightarrow> 32 barr" where
  "status_list_message blake d xs version = blake (message_preimage d xs version)"

section \<open>The SNARK form\<close>

record snark_wire =
  sw_alg :: u8
  sw_status_list :: "32 barr list"
  sw_version :: u32
  sw_zk_proof :: bytes

record snark_status_list =
  ss_alg :: algorithms
  ss_status_list :: "32 barr list"
  ss_version :: u32
  ss_zk_proof :: bytes

definition snark_new :: "algorithms \<Rightarrow> 32 barr list \<Rightarrow> u32 \<Rightarrow> bytes \<Rightarrow> snark_status_list" where
  "snark_new alg xs version p = \<lparr>ss_alg = alg, ss_status_list = xs, ss_version = version, ss_zk_proof = p\<rparr>"

definition snark_proof :: "('pk, 'sig, 'sph, 'agg) leanvm \<Rightarrow> snark_status_list \<Rightarrow> (status_list_error, 'agg) result" where
  "snark_proof L r =
     (case agg_from_bytes L (ss_zk_proof r) of
        Inl e \<Rightarrow> Inl (ProofNotDeserializable e)
      | Inr v \<Rightarrow> if agg_to_bytes L v \<noteq> ss_zk_proof r then Inl ProofNotCanonical else Inr v)"

record 'agg decoded_snark =
  ds_record :: snark_status_list
  ds_aggregate :: 'agg

definition snark_decode ::
  "('pk, 'sig, 'sph, 'agg) leanvm \<Rightarrow> snark_status_list \<Rightarrow> (status_list_error, 'agg decoded_snark) result" where
  "snark_decode L r = (case snark_proof L r of Inl e \<Rightarrow> Inl e | Inr a \<Rightarrow> Inr \<lparr>ds_record = r, ds_aggregate = a\<rparr>)"

definition snark_to_bytes :: "snark_wire ssz \<Rightarrow> snark_status_list \<Rightarrow> bytes" where
  "snark_to_bytes W r = as_ssz_bytes W
     \<lparr>sw_alg = algorithm_tag (ss_alg r), sw_status_list = ss_status_list r,
      sw_version = ss_version r, sw_zk_proof = ss_zk_proof r\<rparr>"

definition snark_from_bytes :: "snark_wire ssz \<Rightarrow> bytes \<Rightarrow> (status_list_error, snark_status_list) result" where
  "snark_from_bytes W bs =
     (case from_ssz_bytes W bs of
        Inl e \<Rightarrow> Inl (NotSsz e)
      | Inr v \<Rightarrow>
          (case algorithm_from_tag (sw_alg v) of
             Inl e \<Rightarrow> Inl e
           | Inr alg \<Rightarrow> Inr \<lparr>ss_alg = alg, ss_status_list = sw_status_list v,
                            ss_version = sw_version v, ss_zk_proof = sw_zk_proof v\<rparr>))"

section \<open>The raw form\<close>

record ('b, 'sig) raw_wire =
  rw_alg :: u8
  rw_status_list :: "32 barr list"
  rw_version :: u32
  rw_signers :: 'b
  rw_signatures :: "'sig list"

record ('b, 'sig) status_list =
  sl_alg :: algorithms
  sl_status_list :: "32 barr list"
  sl_version :: u32
  sl_signers :: 'b
  sl_signatures :: "'sig list"

definition status_list_new ::
  "'b bitlist \<Rightarrow> algorithms \<Rightarrow> 32 barr list \<Rightarrow> u32 \<Rightarrow> usize \<Rightarrow> (usize \<times> 'sig) list
    \<Rightarrow> (status_list_error, ('b, 'sig) status_list) result" where
  "status_list_new B alg xs version n signatures =
     (let sorted = sort_key fst signatures
      in if adjacent_equal sorted then Inl DuplicateSignerIndex
         else if sorted \<noteq> [] \<and> fst (last sorted) \<ge> n then Inl (SignerIndexOutside (fst (last sorted)) n)
         else case bl_with_capacity B n of
                None \<Rightarrow> Inl (CommitteeCeiling n)
              | Some bits \<Rightarrow>
                  (case set_bits B (map fst sorted) bits of
                     None \<Rightarrow> Inl ExpectIndexBounded
                   | Some signers \<Rightarrow>
                       Inr \<lparr>sl_alg = alg, sl_status_list = xs, sl_version = version,
                            sl_signers = signers, sl_signatures = map snd sorted\<rparr>))"

definition signer_slots :: "'b bitlist \<Rightarrow> ('b, 'sig) status_list \<Rightarrow> usize" where
  "signer_slots B r = bl_len B (sl_signers r)"

definition signer_count :: "'b bitlist \<Rightarrow> ('b, 'sig) status_list \<Rightarrow> usize" where
  "signer_count B r = bl_num_set_bits B (sl_signers r)"

definition signer_indices :: "'b bitlist \<Rightarrow> ('b, 'sig) status_list \<Rightarrow> usize list" where
  "signer_indices B r = bit_indices B (sl_signers r)"

definition status_list_to_bytes :: "('b, 'sig) raw_wire ssz \<Rightarrow> ('b, 'sig) status_list \<Rightarrow> bytes" where
  "status_list_to_bytes W r = as_ssz_bytes W
     \<lparr>rw_alg = algorithm_tag (sl_alg r), rw_status_list = sl_status_list r, rw_version = sl_version r,
      rw_signers = sl_signers r, rw_signatures = sl_signatures r\<rparr>"

definition status_list_from_bytes ::
  "'b bitlist \<Rightarrow> ('b, 'sig) raw_wire ssz \<Rightarrow> bytes \<Rightarrow> (status_list_error, ('b, 'sig) status_list) result" where
  "status_list_from_bytes B W bs =
     (case from_ssz_bytes W bs of
        Inl e \<Rightarrow> Inl (NotSsz e)
      | Inr v \<Rightarrow>
          (case algorithm_from_tag (rw_alg v) of
             Inl e \<Rightarrow> Inl e
           | Inr alg \<Rightarrow>
               let r = \<lparr>sl_alg = alg, sl_status_list = rw_status_list v, sl_version = rw_version v,
                        sl_signers = rw_signers v, sl_signatures = rw_signatures v\<rparr>
               in if signer_count B r \<noteq> length (sl_signatures r)
                  then Inl (BitmapMismatch (signer_count B r) (length (sl_signatures r)))
                  else Inr r))"

section \<open>Printing\<close>

definition nl :: string where "nl = [char_of (10 :: nat)]"

definition show_algorithm :: "algorithms \<Rightarrow> string" where
  "show_algorithm alg = (case alg of WotsXmss \<Rightarrow> ''WOTS-XMSS-BLAKE2s'')"

definition write_common :: "algorithms \<Rightarrow> u32 \<Rightarrow> 32 barr list \<Rightarrow> string" where
  "write_common alg version entries =
     ''  alg        : '' @ show_algorithm alg @ nl
     @ ''  version    : '' @ show_nat (unat version) @ nl
     @ ''  status_list: '' @ show_nat (length entries) @ '' entr''
       @ (if length entries = 1 then ''y'' else ''ies'') @ nl
     @ concat (map (\<lambda>(i, entry). ''      ['' @ show_nat i @ ''] 0x'' @ hex (bytes_of entry) @ nl) (enumerate 0 entries))"

definition show_snark :: "snark_status_list \<Rightarrow> string" where
  "show_snark r = ''SnarkStatusList {'' @ nl
     @ write_common (ss_alg r) (ss_version r) (ss_status_list r)
     @ ''  proof      : '' @ show_nat (length (ss_zk_proof r)) @ '' bytes 0x'' @ hex (ss_zk_proof r) @ nl @ ''}''"

fun comma_separated :: "string list \<Rightarrow> string" where
  "comma_separated [] = []"
| "comma_separated [x] = x"
| "comma_separated (x # xs) = x @ '', '' @ comma_separated xs"

definition show_status_list :: "'b bitlist \<Rightarrow> ('b, 'sig) status_list \<Rightarrow> string" where
  "show_status_list B r = ''StatusList {'' @ nl
     @ write_common (sl_alg r) (sl_version r) (sl_status_list r)
     @ ''  signers    : '' @ show_nat (signer_count B r) @ '' of ''
     @ show_nat (bl_len B (sl_signers r)) @ '' members ['' @ nl
     @ ''      '' @ comma_separated (map show_nat (signer_indices B r))
     @ nl @ ''  ]'' @ nl
     @ ''  signatures : '' @ show_nat (length (sl_signatures r)) @ nl @ ''}''"

section \<open>Binding\<close>

lemma algorithm_tag_roundtrip [simp]: "algorithm_from_tag (algorithm_tag alg) = Inr alg"
  by (cases alg) (simp add: algorithm_from_tag_def algorithm_tag_def)

lemma algorithm_from_tag_Inr: "algorithm_from_tag tag = Inr alg \<longleftrightarrow> tag = algorithm_tag alg"
  by (cases alg) (auto simp: algorithm_from_tag_def algorithm_tag_def)

lemma domain_preimage_inj: "domain_preimage fp alg = domain_preimage fp' alg' \<longleftrightarrow> fp = fp' \<and> alg = alg'"
  by (cases alg; cases alg') (auto simp: domain_preimage_def)

lemma message_preimage_inj:
  "message_preimage d xs v = message_preimage d' xs' v' \<longleftrightarrow> d = d' \<and> xs = xs' \<and> v = v'"
proof
  assume eq: "message_preimage d xs v = message_preimage d' xs' v'"
  have len: "length (message_preimage d xs v) = length MESSAGE_CONTEXT + 44 + 32 * length xs" for d xs v
    using length_concat_fixed [of "map bytes_of xs" 32] by (simp add: message_preimage_def)
  have "length xs = length xs'" using arg_cong [OF eq, of length] by (simp add: len)
  then show "d = d' \<and> xs = xs' \<and> v = v'"
    using eq concat_bytes_of_inj [of xs xs'] by (cases d; cases d') (simp add: message_preimage_def)
qed simp

lemma status_list_message_binds:
  assumes "status_list_message blake d xs v = status_list_message blake d' xs' v'"
  shows "d = d' \<and> xs = xs' \<and> v = v' \<or> collides blake (message_preimage d xs v) (message_preimage d' xs' v')"
  using assms hash_eq_cases [of blake] message_preimage_inj unfolding status_list_message_def by metis

lemma domain_new_binds:
  assumes "domain_new blake fp alg = domain_new blake fp' alg'"
  shows "fp = fp' \<and> alg = alg' \<or> collides blake (domain_preimage fp alg) (domain_preimage fp' alg')"
  using assms hash_eq_cases [of blake] domain_preimage_inj unfolding domain_new_def by blast

section \<open>Signer bitmaps\<close>

lemma signer_indices_sorted: "sorted_wrt (<) (signer_indices B r)"
  by (simp add: signer_indices_def bit_indices_sorted)

lemma signer_indices_bound:
  "bitlist_laws N B \<Longrightarrow> i \<in> set (signer_indices B r) \<Longrightarrow> i < signer_slots B r"
  by (simp add: signer_indices_def signer_slots_def bit_indices_bound)

lemma length_signer_indices: "bitlist_laws N B \<Longrightarrow> length (signer_indices B r) = signer_count B r"
  by (simp add: signer_indices_def signer_count_def length_bit_indices)

text \<open>
  When \<open>StatusList::new\<close> succeeds, and what it builds: the pairs in ascending order of their index,
  the indices as the set bits of a bitmap of exactly \<open>n\<close> bits. The \<open>expect\<close> never fires.
\<close>

definition valid_pairs :: "usize \<Rightarrow> (usize \<times> 'sig) list \<Rightarrow> bool" where
  "valid_pairs n ps \<longleftrightarrow> n \<le> MAX_COMMITTEE_SIZE \<and> distinct (map fst ps) \<and> (\<forall>p \<in> set ps. fst p < n)"

lemma status_list_new_ok:
  assumes laws: "bitlist_laws MAX_COMMITTEE_SIZE B" and ps: "valid_pairs n ps"
  shows "\<exists>r. status_list_new B alg xs v n ps = Inr r \<and> sl_alg r = alg \<and> sl_status_list r = xs \<and> sl_version r = v
    \<and> signer_slots B r = n \<and> signer_indices B r = map fst (sort_key fst ps) \<and> sl_signatures r = map snd (sort_key fst ps)"
proof -
  let ?s = "sort_key fst ps"
  note checks = sorted_pairs_checks [of ps]
  have adj: "\<not> adjacent_equal ?s" and lst: "\<not> (?s \<noteq> [] \<and> fst (last ?s) \<ge> n)"
    using ps checks(1) checks(2) [of n] by (auto simp: valid_pairs_def)
  obtain bits b' where b: "bl_with_capacity B n = Some bits" "set_bits B (map fst ?s) bits = Some b'"
    "bl_len B b' = n" "bit_indices B b' = map fst ?s"
    using bitmap_of_indices [OF laws, of n "map fst ?s"] ps checks(3) by (auto simp: valid_pairs_def)
  have "status_list_new B alg xs v n ps = Inr \<lparr>sl_alg = alg, sl_status_list = xs, sl_version = v, sl_signers = b',
      sl_signatures = map snd ?s\<rparr>"
    using adj lst b(1,2) by (simp add: status_list_new_def Let_def)
  then show ?thesis using b(3,4) by (simp add: signer_slots_def signer_indices_def)
qed

lemma status_list_new_error:
  assumes laws: "bitlist_laws MAX_COMMITTEE_SIZE B" and "\<not> valid_pairs n ps"
  shows "status_list_new B alg xs v n ps \<in> {Inl DuplicateSignerIndex, Inl (CommitteeCeiling n)} \<union> {Inl (SignerIndexOutside i n) |i. i \<ge> n}"
proof (cases "distinct (map fst ps) \<and> (\<forall>p \<in> set ps. fst p < n)")
  case True
  then have "bl_with_capacity B n = None"
    using assms bitlist_capacity_None [OF laws] by (auto simp: valid_pairs_def)
  then show ?thesis by (simp add: status_list_new_def Let_def)
next
  case False
  then have "adjacent_equal (sort_key fst ps) \<or> (sort_key fst ps \<noteq> [] \<and> fst (last (sort_key fst ps)) \<ge> n)"
    using sorted_pairs_checks(1) [of ps] sorted_pairs_checks(2) [of ps n] by (auto simp: not_le not_less)
  then show ?thesis by (auto simp: status_list_new_def Let_def)
qed

section \<open>Wire forms\<close>

lemma status_list_from_bytes_Inr:
  assumes "ssz_canonical W" and "status_list_from_bytes B W bs = Inr r"
  shows "status_list_to_bytes W r = bs \<and> signer_count B r = length (sl_signatures r)"
  using assms ssz_canonicalD [OF assms(1)]
  by (auto simp: status_list_from_bytes_def status_list_to_bytes_def Let_def algorithm_from_tag_Inr
      split: sum.splits if_splits)

lemma status_list_roundtrip:
  assumes "ssz_roundtrip W" and "length (status_list_to_bytes W r) < 2 ^ 32"
    and "signer_count B r = length (sl_signatures r)"
  shows "status_list_from_bytes B W (status_list_to_bytes W r) = Inr r"
  using assms(3) ssz_roundtripD [OF assms(1)] assms(2)
  by (simp add: status_list_from_bytes_def status_list_to_bytes_def Let_def signer_count_def)

lemma snark_from_bytes_Inr:
  assumes "ssz_canonical W" and "snark_from_bytes W bs = Inr r"
  shows "snark_to_bytes W r = bs"
  using assms ssz_canonicalD [OF assms(1)]
  by (auto simp: snark_from_bytes_def snark_to_bytes_def algorithm_from_tag_Inr split: sum.splits)

lemma snark_roundtrip:
  assumes "ssz_roundtrip W" and "length (snark_to_bytes W r) < 2 ^ 32"
  shows "snark_from_bytes W (snark_to_bytes W r) = Inr r"
  using ssz_roundtripD [OF assms(1)] assms(2) by (simp add: snark_from_bytes_def snark_to_bytes_def)

lemma snark_proof_Inr:
  "snark_proof L r = Inr a \<Longrightarrow> agg_from_bytes L (ss_zk_proof r) = Inr a \<and> agg_to_bytes L a = ss_zk_proof r"
  by (auto simp: snark_proof_def split: sum.splits if_splits)

section \<open>Properties\<close>

text \<open>
  C24. A record names exactly its signers: \<open>StatusList::new\<close> succeeds precisely on distinct in-range
  indices of a committee within the ceiling. The bitmap it builds is exactly as wide as the committee, its
  set bits are the given indices, and zipping them with the stored signatures gives back the
  given pairs in ascending order. On anything else it returns one of its three errors and never
  panics.
\<close>

theorem record_names_exactly_its_signers:
  assumes "bitlist_laws MAX_COMMITTEE_SIZE B"
  shows "if valid_pairs n ps
    then (\<exists>r. status_list_new B alg xs v n ps = Inr r \<and> signer_slots B r = n
            \<and> signer_indices B r = map fst (sort_key fst ps) \<and> signer_count B r = length ps
            \<and> zip (signer_indices B r) (sl_signatures r) = sort_key fst ps)
    else status_list_new B alg xs v n ps \<in>
      {Inl DuplicateSignerIndex, Inl (CommitteeCeiling n)} \<union> {Inl (SignerIndexOutside i n) |i. i \<ge> n}"
proof (cases "valid_pairs n ps")
  case True
  obtain r where r: "status_list_new B alg xs v n ps = Inr r" "signer_slots B r = n"
    "signer_indices B r = map fst (sort_key fst ps)" "sl_signatures r = map snd (sort_key fst ps)"
    using status_list_new_ok [OF assms True] by blast
  then have "signer_count B r = length ps" using length_signer_indices [OF assms, of r] by simp
  then show ?thesis using r True by (simp add: zip_map_fst_snd)
next
  case False
  then show ?thesis using status_list_new_error [OF assms False] by simp
qed

theorem record_names_exactly_its_signers_witness:
  "\<exists>r. status_list_new (bools_bitlist MAX_COMMITTEE_SIZE) WotsXmss [] 7 4 [(3, ''c''), (0, ''a''), (2, ''b'')] = Inr r
     \<and> signer_indices (bools_bitlist MAX_COMMITTEE_SIZE) r = [0, 2, 3]"
  using record_names_exactly_its_signers [OF bools_bitlist_laws, of 4 "[(3, ''c''), (0, ''a''), (2, ''b'')]" WotsXmss "[]" 7]
  by (auto simp: valid_pairs_def MAX_COMMITTEE_SIZE_def)

end
