(* ===== verification/Committee.thy ===== *)
theory Committee
  imports Status_List
begin

text \<open>
  The trust anchor (src/protocol/committee.rs): members, threshold and genesis slot, the cached
  fingerprint of its canonical encoding, and the two derivations every participant shares, the
  slot of a round and the message of a record.

  The lemmas show that every way of building an anchor yields a well-formed one, that the wire
  form is a codec of well-formed anchors, that distinct versions have distinct slots, and that the
  message binds the anchor, the algorithm, the entries and the version up to an explicit hash
  collision.
\<close>

section \<open>The anchor\<close>

record 'pk committee_wire =
  cw_members :: "'pk list"
  cw_t :: u64
  cw_genesis_slot :: u32

definition COMMITTEE_FIXED_WIRE_BYTES :: usize where "COMMITTEE_FIXED_WIRE_BYTES = 4 + 8 + 4"
definition XMSS_PUBLIC_KEY_WIRE_BYTES :: usize where "XMSS_PUBLIC_KEY_WIRE_BYTES = 32"
definition MAX_COMMITTEE_WIRE_BYTES :: usize where
  "MAX_COMMITTEE_WIRE_BYTES = COMMITTEE_FIXED_WIRE_BYTES + MAX_COMMITTEE_SIZE * XMSS_PUBLIC_KEY_WIRE_BYTES"

record 'pk committee =
  members :: "'pk list"
  threshold :: usize
  genesis_slot :: u32
  anchor_fingerprint :: "32 barr"

datatype committee_error =
    AssertThreshold usize usize
  | AssertCeiling usize
  | AssertDistinct
  | WireTooLarge usize
  | CommitteeNotSsz string
  | ThresholdTooLarge u64
  | TooManyMembers usize
  | ThresholdOutside usize usize
  | DuplicateMembers

text \<open>The external codecs the anchor uses: of one public key and of the container.\<close>

record 'pk anchor_codecs =
  key_ssz :: "'pk ssz"
  wire_ssz :: "'pk committee_wire ssz"

fun duplicate_scan :: "bytes list \<Rightarrow> bytes list \<Rightarrow> bool" where
  "duplicate_scan seen [] = False"
| "duplicate_scan seen (m # ms) = (m \<in> set seen \<or> duplicate_scan (m # seen) ms)"

definition has_duplicate_members :: "'pk ssz \<Rightarrow> 'pk list \<Rightarrow> bool" where
  "has_duplicate_members K ms = duplicate_scan [] (map (as_ssz_bytes K) ms)"

definition ensure_member_count_is_supported :: "usize \<Rightarrow> (committee_error, unit) result" where
  "ensure_member_count_is_supported n = (if n > MAX_COMMITTEE_SIZE then Inl (TooManyMembers n) else Inr ())"

definition fingerprint_bytes :: "(bytes \<Rightarrow> 32 barr) \<Rightarrow> bytes \<Rightarrow> 32 barr" where
  "fingerprint_bytes sha3 bs = sha3 bs"

definition fingerprint_of :: "(bytes \<Rightarrow> 32 barr) \<Rightarrow> 'pk committee_wire ssz \<Rightarrow> 'pk list \<Rightarrow> usize \<Rightarrow> u32 \<Rightarrow> 32 barr" where
  "fingerprint_of sha3 W ms t g =
     fingerprint_bytes sha3 (as_ssz_bytes W \<lparr>cw_members = ms, cw_t = word_of_nat t, cw_genesis_slot = g\<rparr>)"

definition committee_new ::
  "(bytes \<Rightarrow> 32 barr) \<Rightarrow> 'pk anchor_codecs \<Rightarrow> 'pk list \<Rightarrow> usize \<Rightarrow> u32 \<Rightarrow> (committee_error, 'pk committee) result" where
  "committee_new sha3 A ms t g =
     (if \<not> (1 \<le> t \<and> t \<le> length ms) then Inl (AssertThreshold t (length ms))
      else if \<not> length ms \<le> MAX_COMMITTEE_SIZE then Inl (AssertCeiling (length ms))
      else if has_duplicate_members (key_ssz A) ms then Inl AssertDistinct
      else Inr \<lparr>members = ms, threshold = t, genesis_slot = g,
                anchor_fingerprint = fingerprint_of sha3 (wire_ssz A) ms t g\<rparr>)"

fun position :: "'a \<Rightarrow> 'a list \<Rightarrow> usize option" where
  "position x [] = None"
| "position x (y # ys) = (if y = x then Some 0 else map_option Suc (position x ys))"

definition index_of :: "'pk committee \<Rightarrow> 'pk \<Rightarrow> usize option" where
  "index_of c m = position m (members c)"

definition slot_for :: "'pk committee \<Rightarrow> u32 \<Rightarrow> u32 option" where
  "slot_for c version = checked_add (genesis_slot c) version"

definition committee_to_bytes :: "'pk anchor_codecs \<Rightarrow> 'pk committee \<Rightarrow> bytes" where
  "committee_to_bytes A c = as_ssz_bytes (wire_ssz A)
     \<lparr>cw_members = members c, cw_t = word_of_nat (threshold c), cw_genesis_slot = genesis_slot c\<rparr>"

definition committee_from_bytes ::
  "(bytes \<Rightarrow> 32 barr) \<Rightarrow> 'pk anchor_codecs \<Rightarrow> bytes \<Rightarrow> (committee_error, 'pk committee) result" where
  "committee_from_bytes sha3 A bs =
     (if length bs > MAX_COMMITTEE_WIRE_BYTES then Inl (WireTooLarge (length bs))
      else case from_ssz_bytes (wire_ssz A) bs of
        Inl e \<Rightarrow> Inl (CommitteeNotSsz e)
      | Inr v \<Rightarrow>
          if unat (cw_t v) > usize_max then Inl (ThresholdTooLarge (cw_t v))
          else let t = unat (cw_t v); n = length (cw_members v)
          in case ensure_member_count_is_supported n of
               Inl e \<Rightarrow> Inl e
             | Inr _ \<Rightarrow>
                 if \<not> (1 \<le> t \<and> t \<le> n) then Inl (ThresholdOutside t n)
                 else if has_duplicate_members (key_ssz A) (cw_members v) then Inl DuplicateMembers
                 else Inr \<lparr>members = cw_members v, threshold = t, genesis_slot = cw_genesis_slot v,
                           anchor_fingerprint = fingerprint_bytes sha3 bs\<rparr>)"

definition committee_domain :: "(bytes \<Rightarrow> 32 barr) \<Rightarrow> 'pk committee \<Rightarrow> algorithms \<Rightarrow> domain" where
  "committee_domain blake c alg = domain_new blake (anchor_fingerprint c) alg"

definition message_for :: "(bytes \<Rightarrow> 32 barr) \<Rightarrow> 'pk committee \<Rightarrow> algorithms \<Rightarrow> 32 barr list \<Rightarrow> u32 \<Rightarrow> 32 barr" where
  "message_for blake c alg xs version = status_list_message blake (committee_domain blake c alg) xs version"

section \<open>Well-formed anchors\<close>

definition wf_committee :: "(bytes \<Rightarrow> 32 barr) \<Rightarrow> 'pk anchor_codecs \<Rightarrow> 'pk committee \<Rightarrow> bool" where
  "wf_committee sha3 A c \<longleftrightarrow>
     1 \<le> threshold c \<and> threshold c \<le> length (members c) \<and> length (members c) \<le> MAX_COMMITTEE_SIZE
     \<and> distinct (map (as_ssz_bytes (key_ssz A)) (members c))
     \<and> anchor_fingerprint c = sha3 (committee_to_bytes A c)"

lemma duplicate_scan_iff: "duplicate_scan seen ms \<longleftrightarrow> \<not> distinct ms \<or> set seen \<inter> set ms \<noteq> {}"
  by (induction ms arbitrary: seen) auto

lemma has_duplicate_members_iff: "has_duplicate_members K ms \<longleftrightarrow> \<not> distinct (map (as_ssz_bytes K) ms)"
  by (simp add: has_duplicate_members_def duplicate_scan_iff)

lemma wf_committee_distinct: "wf_committee sha3 A c \<Longrightarrow> distinct (members c)"
  by (simp add: wf_committee_def distinct_map)

lemma committee_new_wf:
  "committee_new sha3 A ms t g = Inr c \<Longrightarrow>
     wf_committee sha3 A c \<and> members c = ms \<and> threshold c = t \<and> genesis_slot c = g"
  by (auto simp: committee_new_def wf_committee_def has_duplicate_members_iff committee_to_bytes_def
      fingerprint_of_def fingerprint_bytes_def split: if_splits)

lemma committee_new_ok:
  "1 \<le> t \<Longrightarrow> t \<le> length ms \<Longrightarrow> length ms \<le> MAX_COMMITTEE_SIZE \<Longrightarrow>
     distinct (map (as_ssz_bytes (key_ssz A)) ms) \<Longrightarrow> \<exists>c. committee_new sha3 A ms t g = Inr c"
  by (auto simp: committee_new_def has_duplicate_members_iff)

lemma committee_from_bytes_wf:
  assumes "ssz_canonical (wire_ssz A)" and "committee_from_bytes sha3 A bs = Inr c"
  shows "wf_committee sha3 A c \<and> committee_to_bytes A c = bs"
proof -
  obtain v where v: "from_ssz_bytes (wire_ssz A) bs = Inr v"
    using assms(2) by (auto simp: committee_from_bytes_def split: if_splits sum.splits)
  have c: "c = \<lparr>members = cw_members v, threshold = unat (cw_t v), genesis_slot = cw_genesis_slot v,
      anchor_fingerprint = sha3 bs\<rparr>"
    and wf: "1 \<le> unat (cw_t v)" "unat (cw_t v) \<le> length (cw_members v)" "length (cw_members v) \<le> MAX_COMMITTEE_SIZE"
      "distinct (map (as_ssz_bytes (key_ssz A)) (cw_members v))"
    using assms(2) v
    by (auto simp: committee_from_bytes_def Let_def has_duplicate_members_iff
        ensure_member_count_is_supported_def fingerprint_bytes_def split: if_splits)
  have "committee_to_bytes A c = bs"
    using ssz_canonicalD [OF assms(1) v] by (cases v) (simp add: c committee_to_bytes_def)
  then show ?thesis using wf by (simp add: wf_committee_def c)
qed

text \<open>What the derived encoder of the container documents: fixed widths throughout.\<close>

definition committee_wire_size :: "'pk committee_wire ssz \<Rightarrow> bool" where
  "committee_wire_size W \<longleftrightarrow> (\<forall>w. length (as_ssz_bytes W w)
     = COMMITTEE_FIXED_WIRE_BYTES + XMSS_PUBLIC_KEY_WIRE_BYTES * length (cw_members w))"

lemmas wire_consts = COMMITTEE_FIXED_WIRE_BYTES_def XMSS_PUBLIC_KEY_WIRE_BYTES_def
  MAX_COMMITTEE_WIRE_BYTES_def MAX_COMMITTEE_SIZE_def

lemma committee_roundtrip:
  assumes laws: "ssz_roundtrip (wire_ssz A)" "committee_wire_size (wire_ssz A)"
    and wf: "wf_committee sha3 A c"
  shows "committee_from_bytes sha3 A (committee_to_bytes A c) = Inr c"
proof -
  let ?w = "\<lparr>cw_members = members c, cw_t = word_of_nat (threshold c) :: u64, cw_genesis_slot = genesis_slot c\<rparr>"
  have t: "unat (word_of_nat (threshold c) :: u64) = threshold c"
    using wf by (simp add: wf_committee_def MAX_COMMITTEE_SIZE_def unat_of_nat)
  have len: "length (committee_to_bytes A c) \<le> MAX_COMMITTEE_WIRE_BYTES"
    using wf laws(2) by (simp add: committee_wire_size_def wf_committee_def committee_to_bytes_def wire_consts)
  then have "length (as_ssz_bytes (wire_ssz A) ?w) < 2 ^ 32"
    by (simp add: committee_to_bytes_def wire_consts)
  then have "from_ssz_bytes (wire_ssz A) (committee_to_bytes A c) = Inr ?w"
    using ssz_roundtripD [OF laws(1)] by (simp add: committee_to_bytes_def)
  then show ?thesis using wf t len
    by (simp add: committee_from_bytes_def wf_committee_def Let_def ensure_member_count_is_supported_def
        has_duplicate_members_iff fingerprint_bytes_def usize_max_def MAX_COMMITTEE_SIZE_def)
qed

section \<open>Derivations\<close>

lemma slot_for_Some: "slot_for c v = Some s \<longleftrightarrow> unat s = unat (genesis_slot c) + unat v"
  using unat_u32_bound [of s] checked_add_Some [of "genesis_slot c" v s] checked_add_unat [of "genesis_slot c" v s]
  by (auto simp: slot_for_def checked_add_def word_unat_eq_iff unat_word_ariths)

lemma slot_for_inj: "slot_for c v = Some s \<Longrightarrow> slot_for c w = Some s \<Longrightarrow> v = w"
  by (simp add: slot_for_Some word_unat_eq_iff)

lemma position_Some: "position x ys = Some i \<Longrightarrow> i < length ys \<and> ys ! i = x \<and> (\<forall>j < i. ys ! j \<noteq> x)"
proof (induction ys arbitrary: i)
  case (Cons y ys)
  then show ?case by (cases i) (auto simp: nth_Cons' split: if_splits)
qed simp

lemma position_nth: "distinct ys \<Longrightarrow> i < length ys \<Longrightarrow> position (ys ! i) ys = Some i"
proof (induction ys arbitrary: i)
  case (Cons y ys)
  then show ?case by (cases i) auto
qed simp

lemma position_None: "position x ys = None \<longleftrightarrow> x \<notin> set ys"
  by (induction ys) auto

lemma committee_to_bytes_inj:
  assumes "ssz_roundtrip (wire_ssz A)" "committee_wire_size (wire_ssz A)" and "wf_committee sha3 A c" "wf_committee sha3 A c'"
    and "committee_to_bytes A c = committee_to_bytes A c'"
  shows "c = c'"
  using committee_roundtrip [OF assms(1,2,3)] committee_roundtrip [OF assms(1,2,4)] assms(5) by (metis Inr_inject)

lemma message_for_binds:
  assumes "message_for blake c alg xs v = message_for blake c' alg' xs' v'"
  shows "anchor_fingerprint c = anchor_fingerprint c' \<and> alg = alg' \<and> xs = xs' \<and> v = v'
    \<or> collides blake (message_preimage (committee_domain blake c alg) xs v) (message_preimage (committee_domain blake c' alg') xs' v')
    \<or> collides blake (domain_preimage (anchor_fingerprint c) alg) (domain_preimage (anchor_fingerprint c') alg')"
  using status_list_message_binds [OF assms [unfolded message_for_def]]
    domain_new_binds [of blake "anchor_fingerprint c" alg "anchor_fingerprint c'" alg']
  by (auto simp: committee_domain_def)

section \<open>A reference encoding\<close>

definition reference_wire :: "32 barr committee_wire ssz" where
  "reference_wire = \<lparr>
     as_ssz_bytes = (\<lambda>w. u32_to_le 16 @ u64_to_le (cw_t w) @ u32_to_le (cw_genesis_slot w) @ concat (map bytes_of (cw_members w))),
     from_ssz_bytes = (\<lambda>b.
       if length b < 16 \<or> 32 * ((length b - 16) div 32) \<noteq> length b - 16 then Inl ''InvalidByteLength''
       else if take 4 b \<noteq> u32_to_le 16 then Inl ''OffsetSkipsVariableBytes''
       else Inr \<lparr>cw_members = arrays (drop 16 b), cw_t = u64_from_le (region 4 8 b), cw_genesis_slot = u32_from_le (region 12 4 b)\<rparr>)\<rparr>"

definition reference_codecs :: "32 barr anchor_codecs" where
  "reference_codecs = \<lparr>key_ssz = array_ssz, wire_ssz = reference_wire\<rparr>"

lemma reference_wire_roundtrip: "ssz_roundtrip reference_wire"
  by (simp add: ssz_roundtrip_def reference_wire_def region_def length_concat_arrays arrays_concat)

lemma split_16: "(b :: bytes) = take 4 b @ region 4 8 b @ region 12 4 b @ drop 16 b"
proof -
  have "take 16 b = take 4 b @ take 8 (drop 4 b) @ take 4 (drop 12 b)"
    using take_add [of 4 8 b] take_add [of 12 4 b] by simp
  then show ?thesis by (metis append_assoc append_take_drop_id region_def)
qed

lemma reference_wire_canonical: "ssz_canonical reference_wire"
proof -
  have "as_ssz_bytes reference_wire w = b" if "from_ssz_bytes reference_wire b = Inr w" for b w
  proof -
    have len: "16 \<le> length b" "32 * ((length b - 16) div 32) = length (drop 16 b)" and off: "take 4 b = u32_to_le 16"
      and w: "w = \<lparr>cw_members = arrays (drop 16 b), cw_t = u64_from_le (region 4 8 b), cw_genesis_slot = u32_from_le (region 12 4 b)\<rparr>"
      using that by (auto simp: reference_wire_def split: if_splits)
    show ?thesis
      using split_16 [of b] len off concat_arrays [OF len(2)]
      by (simp add: w reference_wire_def u64_to_from_le u32_to_from_le)
  qed
  then show ?thesis by (simp add: ssz_canonical_def)
qed

lemma reference_wire_size: "committee_wire_size reference_wire"
  by (simp add: committee_wire_size_def reference_wire_def wire_consts length_concat_arrays)

lemmas reference_laws = reference_wire_roundtrip reference_wire_canonical reference_wire_size

text \<open>Three members, threshold two, genesis slot 43.\<close>

definition example_members :: "32 barr list" where
  "example_members = [numbered_key 0, numbered_key 1, numbered_key 2]"

definition example_committee :: "32 barr committee" where
  "example_committee = \<lparr>members = example_members, threshold = 2, genesis_slot = 43,
     anchor_fingerprint = fingerprint_of fold_hash reference_wire example_members 2 43\<rparr>"

lemma example_members_distinct: "distinct (map (as_ssz_bytes array_ssz) example_members)"
  using numbered_key_inj [of 0 1] numbered_key_inj [of 0 2] numbered_key_inj [of 1 2]
  by (auto simp: example_members_def array_ssz_def)

lemma example_committee_new: "committee_new fold_hash reference_codecs example_members 2 43 = Inr example_committee"
  using example_members_distinct
  by (simp add: committee_new_def has_duplicate_members_iff reference_codecs_def example_committee_def MAX_COMMITTEE_SIZE_def)
    (simp add: example_members_def)

lemma example_committee_wf: "wf_committee fold_hash reference_codecs example_committee"
  using committee_new_wf [OF example_committee_new] by simp

section \<open>Properties\<close>

text \<open>
  C6. The signed message binds everything: if two well-formed anchors derive the same message, then
  the anchors have the same members, threshold and genesis slot, and the algorithm, the list and
  the version agree; the only other way is one of three explicit collisions, of BLAKE2s on the two
  message preimages or the two domain preimages, or of SHA3 on the two anchor encodings.
\<close>

theorem message_binds_anchor_algorithm_list_and_version:
  assumes "ssz_roundtrip (wire_ssz A)" and "committee_wire_size (wire_ssz A)"
    and "wf_committee sha3 A c" and "wf_committee sha3 A c'"
    and "message_for blake c alg xs v = message_for blake c' alg' xs' v'"
  shows "c = c' \<and> alg = alg' \<and> xs = xs' \<and> v = v'
    \<or> collides blake (message_preimage (committee_domain blake c alg) xs v) (message_preimage (committee_domain blake c' alg') xs' v')
    \<or> collides blake (domain_preimage (anchor_fingerprint c) alg) (domain_preimage (anchor_fingerprint c') alg')
    \<or> collides sha3 (committee_to_bytes A c) (committee_to_bytes A c')"
proof -
  have "c = c' \<or> collides sha3 (committee_to_bytes A c) (committee_to_bytes A c')"
    if "anchor_fingerprint c = anchor_fingerprint c'"
    using that committee_to_bytes_inj [OF assms(1-4)] hash_eq_cases [of sha3 "committee_to_bytes A c" "committee_to_bytes A c'"]
      assms(3,4) by (auto simp: wf_committee_def)
  then show ?thesis using message_for_binds [OF assms(5)] by blast
qed

theorem message_binds_anchor_algorithm_list_and_version_witness:
  "\<exists>c c' :: 32 barr committee. committee_new fold_hash reference_codecs example_members 2 43 = Inr c
     \<and> committee_from_bytes fold_hash reference_codecs (committee_to_bytes reference_codecs example_committee) = Inr c'
     \<and> message_for fold_hash c WotsXmss [numbered_key 9] 1 = message_for fold_hash c' WotsXmss [numbered_key 9] 1
     \<and> c = c'"
proof -
  have laws: "ssz_roundtrip (wire_ssz reference_codecs)" "committee_wire_size (wire_ssz reference_codecs)"
    using reference_laws by (simp_all add: reference_codecs_def)
  have c': "committee_from_bytes fold_hash reference_codecs (committee_to_bytes reference_codecs example_committee) = Inr example_committee"
    using committee_roundtrip [OF laws example_committee_wf] .
  have "example_committee = example_committee"
    using message_binds_anchor_algorithm_list_and_version [OF laws example_committee_wf example_committee_wf refl]
    by (auto simp: collides_def)
  then show ?thesis using example_committee_new c' by blast
qed

text \<open>
  C25. The anchor has one wire form: decoding inverts encoding on every well-formed anchor; whatever
  decodes is well formed, is the encoding of the anchor it decodes to, and carries the fingerprint
  of exactly those bytes.
\<close>

theorem anchor_has_one_wire_form:
  assumes "ssz_roundtrip (wire_ssz A)" and "ssz_canonical (wire_ssz A)" and "committee_wire_size (wire_ssz A)"
  shows "committee_from_bytes sha3 A bs = Inr c \<longleftrightarrow> wf_committee sha3 A c \<and> bs = committee_to_bytes A c"
  using committee_roundtrip [OF assms(1,3)] committee_from_bytes_wf [OF assms(2)] by blast

theorem anchor_has_one_wire_form_witness:
  "committee_from_bytes fold_hash reference_codecs (committee_to_bytes reference_codecs example_committee) = Inr example_committee"
  using anchor_has_one_wire_form [of reference_codecs fold_hash] reference_laws example_committee_wf
  by (simp add: reference_codecs_def)

text \<open>
  C27. One slot per round: every version with a slot has the slot genesis plus version without
  wrap-around, no two versions share one, and the versions without a slot are exactly those that
  would overflow \<open>u32\<close>.
\<close>

theorem one_slot_per_round:
  "(slot_for c v = None \<longleftrightarrow> 2 ^ 32 \<le> unat (genesis_slot c) + unat v)
   \<and> (\<forall>s. slot_for c v = Some s \<longrightarrow> unat s = unat (genesis_slot c) + unat v)
   \<and> (\<forall>w s. slot_for c v = Some s \<longrightarrow> slot_for c w = Some s \<longrightarrow> v = w)"
proof -
  have "slot_for c v = None \<longleftrightarrow> 2 ^ 32 \<le> unat (genesis_slot c) + unat v"
    by (auto simp: slot_for_def checked_add_def not_less)
  then show ?thesis using slot_for_Some [of c v] slot_for_inj [of c v] by blast
qed

theorem one_slot_per_round_witness:
  "slot_for example_committee 1 = Some 44 \<and> unat (44 :: u32) = unat (genesis_slot example_committee) + unat (1 :: u32)"
proof -
  have "slot_for example_committee 1 = Some 44" by (simp add: slot_for_Some example_committee_def)
  then show ?thesis using one_slot_per_round [of example_committee 1] by blast
qed

text \<open>
  C30. Every anchor that exists is well-formed, whatever the codecs do: the constructor either panics or
  returns a committee with these members, a threshold between one and their number, at most the
  supported number of members and no key twice; the decoder either fails or returns one with the same
  guarantees, fingerprinted over exactly the bytes it read; and an index names its own key.
\<close>

theorem anchors_are_well_formed:
  "(case committee_new sha3 A ms t g of
      Inl _ \<Rightarrow> True
    | Inr c \<Rightarrow> wf_committee sha3 A c \<and> members c = ms \<and> threshold c = t \<and> genesis_slot c = g)
   \<and> (case committee_from_bytes sha3 A bs of
        Inl _ \<Rightarrow> True
      | Inr c \<Rightarrow> 1 \<le> threshold c \<and> threshold c \<le> length (members c) \<and> length (members c) \<le> MAX_COMMITTEE_SIZE
          \<and> distinct (map (as_ssz_bytes (key_ssz A)) (members c)) \<and> anchor_fingerprint c = sha3 bs)
   \<and> (case index_of c k of None \<Rightarrow> k \<notin> set (members c) | Some i \<Rightarrow> i < length (members c) \<and> members c ! i = k)"
proof (intro conjI)
  show "case committee_new sha3 A ms t g of Inl _ \<Rightarrow> True
    | Inr c \<Rightarrow> wf_committee sha3 A c \<and> members c = ms \<and> threshold c = t \<and> genesis_slot c = g"
    using committee_new_wf [of sha3 A ms t g] by (auto split: sum.splits)
  show "case committee_from_bytes sha3 A bs of Inl _ \<Rightarrow> True
    | Inr c \<Rightarrow> 1 \<le> threshold c \<and> threshold c \<le> length (members c) \<and> length (members c) \<le> MAX_COMMITTEE_SIZE
        \<and> distinct (map (as_ssz_bytes (key_ssz A)) (members c)) \<and> anchor_fingerprint c = sha3 bs"
    by (auto simp: committee_from_bytes_def Let_def has_duplicate_members_iff ensure_member_count_is_supported_def
        fingerprint_bytes_def split: sum.splits if_splits)
  show "case index_of c k of None \<Rightarrow> k \<notin> set (members c) | Some i \<Rightarrow> i < length (members c) \<and> members c ! i = k"
    using position_Some [of k "members c"] position_None [of k "members c"] by (auto simp: index_of_def split: option.splits)
qed

end
