(* ===== verification/Relying_Party.thy ===== *)
theory Relying_Party
  imports Freshness
begin

text \<open>
  What a relying party does with a record (src/node/mod.rs): the three outcomes, the one place a
  mark moves, and the contract of a node that decodes, then authenticates, and only then offers
  the version to its gate. The raw and the SNARK node meet the contract in their own theories.
\<close>

section \<open>Outcomes\<close>

datatype outcome = OutAccepted u32 | OutStale u32 u32 | OutRefused

definition outcome_accepted :: "outcome \<Rightarrow> u32 option" where
  "outcome_accepted out = (case out of OutAccepted v \<Rightarrow> Some v | _ \<Rightarrow> None)"

definition outcome_advance :: "replace_fault \<Rightarrow> high_water_mark \<Rightarrow> u32 \<Rightarrow> fs \<Rightarrow> outcome \<times> high_water_mark \<times> fs" where
  "outcome_advance rf m v s =
     (case try_advance rf v m s of
        (Inr Accepted, m', s') \<Rightarrow> (OutAccepted v, m', s')
      | (Inr (Stale k), m', s') \<Rightarrow> (OutStale v k, m', s')
      | (Inl _, m', s') \<Rightarrow> (OutRefused, m', s'))"

lemma outcome_advance_accepted:
  "outcome_advance rf m v s = (OutAccepted w, m', s') \<longleftrightarrow> w = v \<and> try_advance rf v m s = (Inr Accepted, m', s')"
  by (auto simp: outcome_advance_def split: prod.splits sum.splits decision.splits)

lemma outcome_advance_kept:
  "outcome_advance rf m v s = (out, m', s') \<Longrightarrow> outcome_accepted out = None \<Longrightarrow> m' = m"
  using try_advance_kept [of rf v m s]
  by (auto simp: outcome_advance_def outcome_accepted_def split: prod.splits sum.splits decision.splits)

lemma outcome_advance_stale:
  "outcome_advance rf m v s = (OutStale w k, m', s') \<longleftrightarrow>
     w = v \<and> m_have m \<and> k = m_current m \<and> v \<le> k \<and> m' = m \<and> s' = s"
  by (auto simp: outcome_advance_def try_advance_def split: prod.splits sum.splits decision.splits if_splits)

section \<open>The contract\<close>

text \<open>
  \<open>judge\<close> is the version of a byte string that decodes and verifies under the node's anchor, and
  nothing otherwise. A node accepts a message by judging it and offering the judged version.
\<close>

locale relying_party =
  fixes accept :: "replace_fault \<Rightarrow> bytes \<Rightarrow> 'n \<Rightarrow> fs \<Rightarrow> outcome \<times> 'n \<times> fs"
    and judge :: "'n \<Rightarrow> bytes \<Rightarrow> u32 option"
    and mark_of :: "'n \<Rightarrow> high_water_mark"
    and with_mark :: "high_water_mark \<Rightarrow> 'n \<Rightarrow> 'n"
  assumes refuses: "judge n b = None \<Longrightarrow> accept rf b n s = (OutRefused, n, s)"
    and offers: "judge n b = Some v \<Longrightarrow> accept rf b n s =
      (case outcome_advance rf (mark_of n) v s of (out, m', s') \<Rightarrow> (out, with_mark m' n, s'))"
    and mark_with_mark: "mark_of (with_mark m n) = m"
    and same_mark: "with_mark (mark_of n) n = n"
    and judge_with_mark: "judge (with_mark m n) = judge n"
begin

text \<open>An accepted version was authenticated, is above the mark, and is durable.\<close>

lemma accepted_sound:
  assumes "accept rf b n s = (OutAccepted v, n', s')"
  shows "judge n b = Some v \<and> mark_floor (mark_of n) \<le> unat v \<and> mark_floor (mark_of n') = unat v + 1
    \<and> files s' (m_path (mark_of n)) = Some (as_bytes (mark_line (m_fingerprint (mark_of n)) (Some v)))
    \<and> stable s' (m_path (mark_of n)) = Some (as_bytes (mark_line (m_fingerprint (mark_of n)) (Some v)))
    \<and> judge n' = judge n"
proof (cases "judge n b")
  case None
  then show ?thesis using refuses [OF None, of rf s] assms by simp
next
  case (Some w)
  obtain out m' s1 where o: "outcome_advance rf (mark_of n) w s = (out, m', s1)" by (metis prod.exhaust)
  with offers [OF Some, of rf s] assms have eq: "out = OutAccepted v" "n' = with_mark m' n" "s1 = s'" by simp_all
  then have t: "w = v" "try_advance rf v (mark_of n) s = (Inr Accepted, m', s')"
    using o outcome_advance_accepted [of rf "mark_of n" w s v m' s'] by auto
  let ?c = "as_bytes (mark_line (m_fingerprint (mark_of n)) (Some v))"
  have f: "s' = snd (replace_file ReplaceClean (m_path (mark_of n)) ?c s)"
    "mark_floor (mark_of n) \<le> unat v" "m' = (mark_of n)\<lparr>m_current := v, m_have := True\<rparr>"
    using t(2) by (simp_all add: try_advance_accepted)
  then show ?thesis
    using Some t(1) eq(2) replace_file_target [of ReplaceClean "m_path (mark_of n)" ?c s]
    by (simp add: mark_with_mark judge_with_mark mark_floor_def)
qed

lemma not_accepted_keeps:
  assumes "accept rf b n s = (out, n', s')" and "outcome_accepted out = None"
  shows "n' = n"
proof (cases "judge n b")
  case None
  then show ?thesis using refuses [OF None, of rf s] assms by simp
next
  case (Some w)
  obtain o1 m' s1 where o: "outcome_advance rf (mark_of n) w s = (o1, m', s1)" by (metis prod.exhaust)
  with offers [OF Some, of rf s] assms have "o1 = out" "n' = with_mark m' n" by simp_all
  then show ?thesis using outcome_advance_kept [OF o] assms(2) same_mark by simp
qed

text \<open>An authentic record above the mark is accepted when the disk works.\<close>

lemma accepts_fresh:
  assumes "judge n b = Some v" and "mark_floor (mark_of n) \<le> unat v"
  shows "\<exists>n' s'. accept ReplaceClean b n s = (OutAccepted v, n', s')"
proof -
  have "\<exists>m' s'. try_advance ReplaceClean v (mark_of n) s = (Inr Accepted, m', s')"
    using assms(2) by (simp add: try_advance_accepted)
  then obtain m' s' where "outcome_advance ReplaceClean (mark_of n) v s = (OutAccepted v, m', s')"
    by (auto simp: outcome_advance_accepted)
  with offers [OF assms(1), of ReplaceClean s] show ?thesis by simp
qed

end

definition deliver ::
  "(replace_fault \<Rightarrow> bytes \<Rightarrow> 'n \<Rightarrow> fs \<Rightarrow> outcome \<times> 'n \<times> fs) \<Rightarrow> replace_fault \<times> bytes \<Rightarrow> 'n \<times> fs \<Rightarrow> outcome \<times> 'n \<times> fs" where
  "deliver accept fb ns = accept (fst fb) (snd fb) (fst ns) (snd ns)"

definition delivered_version :: "replace_fault \<times> bytes \<Rightarrow> outcome \<Rightarrow> nat option" where
  "delivered_version fb out = map_option unat (outcome_accepted out)"

sublocale relying_party \<subseteq> node_gate: gate "deliver accept" delivered_version "\<lambda>ns. mark_floor (mark_of (fst ns))"
proof
  fix x :: "replace_fault \<times> bytes" and ns ns' :: "'n \<times> fs" and out and v :: nat
  assume d: "deliver accept x ns = (out, ns')"
  then have a: "accept (fst x) (snd x) (fst ns) (snd ns) = (out, fst ns', snd ns')"
    by (simp add: deliver_def)
  show "mark_floor (mark_of (fst ns)) \<le> v \<and> mark_floor (mark_of (fst ns')) = v + 1"
    if "delivered_version x out = Some v"
  proof -
    from that obtain w where "out = OutAccepted w" "v = unat w"
      by (auto simp: delivered_version_def outcome_accepted_def split: outcome.splits)
    with a show ?thesis using accepted_sound [of "fst x" "snd x" "fst ns" "snd ns" w "fst ns'" "snd ns'"] by simp
  qed
  show "mark_floor (mark_of (fst ns')) = mark_floor (mark_of (fst ns))" if "delivered_version x out = None"
    using not_accepted_keeps [OF a] that by (simp add: delivered_version_def)
qed

end
