(* ===== verification/Raw_Verifier.thy ===== *)
theory Raw_Verifier
  imports Committee Relying_Party
begin

text \<open>
  The raw path: the stateless predicate (src/node/raw_verifier.rs) and the relying party that puts
  it in front of a freshness gate (src/node/raw_node.rs).

  The lemmas show that the predicate accepts exactly the records that carry a quorum of distinct
  members' valid signatures on the anchor's own message at the slot of the version, and that the
  node meets the contract of a relying party.
\<close>

section \<open>The predicate\<close>

datatype verifier_error = SignatureVerificationError | NoCommittee | NotAMemberOfCommittee

record 'pk verifier_node =
  v_committee :: "'pk committee"

definition verify_signature ::
  "('pk, 'sk, 'sig, 'rng) xmss \<Rightarrow> 'pk verifier_node \<Rightarrow> 'pk \<Rightarrow> 'sig \<Rightarrow> 32 barr \<Rightarrow> u32 \<Rightarrow> (verifier_error, unit) result" where
  "verify_signature X n pk sig msg slot =
     (if pk \<notin> set (members (v_committee n)) then Inl NotAMemberOfCommittee
      else if xmss_verify X pk msg sig slot then Inr () else Inl SignatureVerificationError)"

text \<open>
  The indexing of \<open>members\<close> is in range whenever it is reached: the bitmap is exactly as wide as the
  committee there, and \<open>signer_indices_bound\<close> bounds its indices.
\<close>

definition verify_status_list ::
  "'b bitlist \<Rightarrow> ('pk, 'sk, 'sig, 'rng) xmss \<Rightarrow> (bytes \<Rightarrow> 32 barr) \<Rightarrow> 'pk verifier_node \<Rightarrow> ('b, 'sig) status_list \<Rightarrow> bool" where
  "verify_status_list B X blake n r =
     (let c = v_committee n; ms = members c
      in if threshold c = 0 then False
         else if signer_slots B r \<noteq> length ms then False
         else let count = signer_count B r
              in if count < threshold c \<or> count \<noteq> length (sl_signatures r) then False
                 else case slot_for c (sl_version r) of
                        None \<Rightarrow> False
                      | Some slot \<Rightarrow>
                          let message = message_for blake c (sl_alg r) (sl_status_list r) (sl_version r)
                          in list_all (\<lambda>(i, sig). xmss_verify X (ms ! i) message sig slot)
                               (zip (signer_indices B r) (sl_signatures r)))"

section \<open>The node\<close>

record 'pk raw_node =
  rn_verifier :: "'pk verifier_node"
  rn_mark :: high_water_mark

definition raw_node_new :: "'pk committee \<Rightarrow> high_water_mark \<Rightarrow> 'pk raw_node" where
  "raw_node_new c m = \<lparr>rn_verifier = \<lparr>v_committee = c\<rparr>, rn_mark = m\<rparr>"

definition raw_high_water :: "'pk raw_node \<Rightarrow> u32 option" where
  "raw_high_water n = mark_current (rn_mark n)"

definition raw_accept_record ::
  "'b bitlist \<Rightarrow> ('pk, 'sk, 'sig, 'rng) xmss \<Rightarrow> (bytes \<Rightarrow> 32 barr) \<Rightarrow> replace_fault \<Rightarrow> ('b, 'sig) status_list
    \<Rightarrow> 'pk raw_node \<Rightarrow> fs \<Rightarrow> outcome \<times> 'pk raw_node \<times> fs" where
  "raw_accept_record B X blake rf r n s =
     (if \<not> verify_status_list B X blake (rn_verifier n) r then (OutRefused, n, s)
      else case outcome_advance rf (rn_mark n) (sl_version r) s of
             (out, m', s') \<Rightarrow> (out, n\<lparr>rn_mark := m'\<rparr>, s'))"

definition raw_accept ::
  "'b bitlist \<Rightarrow> ('b, 'sig) raw_wire ssz \<Rightarrow> ('pk, 'sk, 'sig, 'rng) xmss \<Rightarrow> (bytes \<Rightarrow> 32 barr) \<Rightarrow> replace_fault \<Rightarrow> bytes
    \<Rightarrow> 'pk raw_node \<Rightarrow> fs \<Rightarrow> outcome \<times> 'pk raw_node \<times> fs" where
  "raw_accept B W X blake rf b n s =
     (case status_list_from_bytes B W b of
        Inl e \<Rightarrow> (OutRefused, n, s)
      | Inr r \<Rightarrow> raw_accept_record B X blake rf r n s)"

section \<open>What a verified record carries\<close>

text \<open>
  The quorum a record must show: a strictly ascending list of member indices, at least the
  threshold of them, each with a signature of that member's key on the anchor's message at the
  slot of the version.
\<close>

definition quorum_signed ::
  "('pk, 'sk, 'sig, 'rng) xmss \<Rightarrow> (bytes \<Rightarrow> 32 barr) \<Rightarrow> 'pk committee \<Rightarrow> algorithms \<Rightarrow> 32 barr list \<Rightarrow> u32 \<Rightarrow> (usize \<times> 'sig) list \<Rightarrow> bool" where
  "quorum_signed X blake c alg xs v ps \<longleftrightarrow>
     sorted_wrt (<) (map fst ps) \<and> 0 < threshold c \<and> threshold c \<le> length ps
     \<and> (\<exists>slot. slot_for c v = Some slot
          \<and> (\<forall>(i, sig) \<in> set ps. i < length (members c)
               \<and> xmss_verify X (members c ! i) (message_for blake c alg xs v) sig slot))"

definition record_pairs :: "'b bitlist \<Rightarrow> ('b, 'sig) status_list \<Rightarrow> (usize \<times> 'sig) list" where
  "record_pairs B r = zip (signer_indices B r) (sl_signatures r)"

lemma verify_status_list_iff:
  assumes laws: "bitlist_laws N B"
  shows "verify_status_list B X blake n r \<longleftrightarrow>
    signer_slots B r = length (members (v_committee n)) \<and> signer_count B r = length (sl_signatures r)
    \<and> quorum_signed X blake (v_committee n) (sl_alg r) (sl_status_list r) (sl_version r) (record_pairs B r)"
proof -
  have len: "length (signer_indices B r) = signer_count B r" using length_signer_indices [OF laws] .
  have fst: "map fst (record_pairs B r) = signer_indices B r" if "signer_count B r = length (sl_signatures r)"
    using that len by (simp add: record_pairs_def)
  have bound: "i < signer_slots B r" if "(i, sig) \<in> set (record_pairs B r)" for i sig
    using that signer_indices_bound [OF laws] by (auto simp: record_pairs_def dest: set_zip_leftD)
  show ?thesis
  proof (cases "signer_slots B r = length (members (v_committee n)) \<and> signer_count B r = length (sl_signatures r)")
    case True
    then show ?thesis using fst bound len signer_indices_sorted [of B r]
      by (auto simp: verify_status_list_def quorum_signed_def Let_def list_all_iff record_pairs_def split: option.splits)
  next
    case False
    then show ?thesis by (auto simp: verify_status_list_def Let_def)
  qed
qed

text \<open>In a well-formed committee the indices are distinct keys, so the quorum is of distinct members.\<close>

lemma quorum_distinct_keys:
  assumes "quorum_signed X blake c alg xs v ps" and "distinct (members c)"
  shows "\<exists>ks slot. distinct ks \<and> set ks \<subseteq> set (members c) \<and> threshold c \<le> length ks \<and> slot_for c v = Some slot
    \<and> (\<forall>k \<in> set ks. \<exists>sig \<in> set (map snd ps). xmss_verify X k (message_for blake c alg xs v) sig slot)"
proof -
  obtain slot where q: "sorted_wrt (<) (map fst ps)" "threshold c \<le> length ps" "slot_for c v = Some slot"
    "\<forall>(i, sig) \<in> set ps. i < length (members c) \<and> xmss_verify X (members c ! i) (message_for blake c alg xs v) sig slot"
    using assms(1) by (auto simp: quorum_signed_def)
  show ?thesis
    using distinct_keys_of_pairs [OF q(1) assms(2) q(4)] q(2,3) by metis
qed

lemma honest_record_pairs:
  assumes laws: "bitlist_laws MAX_COMMITTEE_SIZE B" and ps: "valid_pairs n ps"
    and new: "status_list_new B alg xs v n ps = Inr r"
  shows "record_pairs B r = sort_key fst ps \<and> signer_slots B r = n \<and> signer_count B r = length (sl_signatures r)
    \<and> sl_alg r = alg \<and> sl_status_list r = xs \<and> sl_version r = v"
proof -
  obtain r' where r': "status_list_new B alg xs v n ps = Inr r'" "sl_alg r' = alg" "sl_status_list r' = xs" "sl_version r' = v"
    "signer_slots B r' = n" "signer_indices B r' = map fst (sort_key fst ps)" "sl_signatures r' = map snd (sort_key fst ps)"
    using status_list_new_ok [OF laws ps] by blast
  then have "r' = r" using new by simp
  with r' show ?thesis
    using length_signer_indices [OF laws, of r] by (simp add: record_pairs_def zip_map_fst_snd)
qed

section \<open>The node is a relying party\<close>

definition raw_judge ::
  "'b bitlist \<Rightarrow> ('b, 'sig) raw_wire ssz \<Rightarrow> ('pk, 'sk, 'sig, 'rng) xmss \<Rightarrow> (bytes \<Rightarrow> 32 barr) \<Rightarrow> 'pk raw_node \<Rightarrow> bytes \<Rightarrow> u32 option" where
  "raw_judge B W X blake n b =
     (case status_list_from_bytes B W b of
        Inl e \<Rightarrow> None
      | Inr r \<Rightarrow> if verify_status_list B X blake (rn_verifier n) r then Some (sl_version r) else None)"

interpretation raw_party: relying_party "raw_accept B W X blake" "raw_judge B W X blake" rn_mark "\<lambda>m n. n\<lparr>rn_mark := m\<rparr>"
  for B W X blake
  by unfold_locales
    (auto simp: raw_accept_def raw_accept_record_def raw_judge_def fun_eq_iff split: sum.splits if_splits)

section \<open>An honest round\<close>

definition example_verifier :: "32 barr verifier_node" where
  "example_verifier = \<lparr>v_committee = example_committee\<rparr>"

definition example_message :: "u32 \<Rightarrow> 32 barr" where
  "example_message v = message_for fold_hash example_committee WotsXmss [numbered_key 9] v"

text \<open>Members 2 and 0 of the example committee sign round 1, at slot 44.\<close>

definition example_pairs :: "(usize \<times> 32 barr \<times> 32 barr \<times> u32) list" where
  "example_pairs = [(2, numbered_key 2, example_message 1, 44), (0, numbered_key 0, example_message 1, 44)]"

lemma example_round:
  "valid_pairs (length (members (v_committee example_verifier))) example_pairs"
  "threshold (v_committee example_verifier) \<le> length example_pairs"
  "slot_for (v_committee example_verifier) 1 = Some 44"
  "\<forall>(i, sig) \<in> set example_pairs. xmss_verify plain_xmss (members (v_committee example_verifier) ! i)
     (message_for fold_hash (v_committee example_verifier) WotsXmss [numbered_key 9] 1) sig 44"
  by (simp_all add: valid_pairs_def example_verifier_def example_committee_def example_pairs_def MAX_COMMITTEE_SIZE_def
      slot_for_Some plain_xmss_def example_message_def example_members_def)

section \<open>Properties\<close>

text \<open>
  C5. What the raw predicate authorizes: a record that verifies under a well-formed anchor carries
  valid signatures of at least \<open>t\<close> distinct committee keys, all on this anchor's message for
  exactly this algorithm, list and version, and all at the slot the version derives to.
\<close>

theorem verified_record_has_quorum_of_distinct_members:
  assumes "bitlist_laws N B" and "wf_committee sha3 A (v_committee n)" and "verify_status_list B X blake n r"
  shows "\<exists>ks slot. distinct ks \<and> set ks \<subseteq> set (members (v_committee n)) \<and> threshold (v_committee n) \<le> length ks
    \<and> 1 \<le> length ks \<and> slot_for (v_committee n) (sl_version r) = Some slot
    \<and> (\<forall>k \<in> set ks. \<exists>sig \<in> set (sl_signatures r).
         xmss_verify X k (message_for blake (v_committee n) (sl_alg r) (sl_status_list r) (sl_version r)) sig slot)"
proof -
  have q: "quorum_signed X blake (v_committee n) (sl_alg r) (sl_status_list r) (sl_version r) (record_pairs B r)"
    using assms(3) verify_status_list_iff [OF assms(1)] by blast
  have sub: "set (map snd (record_pairs B r)) \<subseteq> set (sl_signatures r)"
    by (auto simp: record_pairs_def dest: set_zip_rightD)
  have "1 \<le> threshold (v_committee n)" using assms(2) by (simp add: wf_committee_def)
  then show ?thesis
    using quorum_distinct_keys [OF q wf_committee_distinct [OF assms(2)]] sub
    by (meson dual_order.trans subsetD)
qed

lemma honest_record_verifies:
  assumes laws: "bitlist_laws MAX_COMMITTEE_SIZE B" and wf: "wf_committee sha3 A (v_committee n)"
    and ps: "valid_pairs (length (members (v_committee n))) ps" and t: "threshold (v_committee n) \<le> length ps"
    and slot: "slot_for (v_committee n) v = Some slot"
    and sigs: "\<forall>(i, sig) \<in> set ps. xmss_verify X (members (v_committee n) ! i) (message_for blake (v_committee n) alg xs v) sig slot"
  shows "\<exists>r. status_list_new B alg xs v (length (members (v_committee n))) ps = Inr r \<and> verify_status_list B X blake n r
    \<and> sl_version r = v \<and> signer_count B r = length (sl_signatures r)"
proof -
  let ?n = "length (members (v_committee n))"
  obtain r where r: "status_list_new B alg xs v ?n ps = Inr r" using status_list_new_ok [OF laws ps] by blast
  note hr = honest_record_pairs [OF laws ps r]
  have "sorted_wrt (<) (map fst (sort_key fst ps))"
    using ps by (auto simp: valid_pairs_def strict_sorted_iff distinct_map)
  then have "quorum_signed X blake (v_committee n) alg xs v (sort_key fst ps)"
    using slot sigs t ps wf by (auto simp: quorum_signed_def valid_pairs_def wf_committee_def)
  then show ?thesis using r hr verify_status_list_iff [OF laws, of X blake n r] by auto
qed

theorem verified_record_has_quorum_of_distinct_members_witness:
  "\<exists>r ks slot. verify_status_list (bools_bitlist MAX_COMMITTEE_SIZE) plain_xmss fold_hash example_verifier r
     \<and> distinct ks \<and> 2 \<le> length ks \<and> (\<forall>k \<in> set ks. \<exists>sig \<in> set (sl_signatures r).
          xmss_verify plain_xmss k (message_for fold_hash example_committee (sl_alg r) (sl_status_list r) (sl_version r)) sig slot)"
proof -
  have wf: "wf_committee fold_hash reference_codecs (v_committee example_verifier)"
    using example_committee_wf by (simp add: example_verifier_def)
  obtain r where r: "verify_status_list (bools_bitlist MAX_COMMITTEE_SIZE) plain_xmss fold_hash example_verifier r"
    using honest_record_verifies [OF bools_bitlist_laws wf example_round] by blast
  have "threshold example_committee = 2" by (simp add: example_committee_def)
  then show ?thesis
    using verified_record_has_quorum_of_distinct_members [OF bools_bitlist_laws wf r] r
    by (auto simp: example_verifier_def)
qed

text \<open>
  An honest quorum verifies: from valid signatures of at least \<open>t\<close> members, each named once by
  its index, in any order, \<open>StatusList::new\<close> builds a record and the predicate accepts it.
\<close>

theorem honest_quorum_verifies:
  assumes "bitlist_laws MAX_COMMITTEE_SIZE B" and "wf_committee sha3 A (v_committee n)"
    and "valid_pairs (length (members (v_committee n))) ps" and "threshold (v_committee n) \<le> length ps"
    and "slot_for (v_committee n) v = Some slot"
    and "\<forall>(i, sig) \<in> set ps. xmss_verify X (members (v_committee n) ! i) (message_for blake (v_committee n) alg xs v) sig slot"
  shows "\<exists>r. status_list_new B alg xs v (length (members (v_committee n))) ps = Inr r \<and> verify_status_list B X blake n r"
  using honest_record_verifies [OF assms] by blast

theorem honest_quorum_verifies_witness:
  "\<exists>r. status_list_new (bools_bitlist MAX_COMMITTEE_SIZE) WotsXmss [numbered_key 9] 1 3 example_pairs = Inr r
     \<and> verify_status_list (bools_bitlist MAX_COMMITTEE_SIZE) plain_xmss fold_hash example_verifier r"
proof -
  have wf: "wf_committee fold_hash reference_codecs (v_committee example_verifier)"
    using example_committee_wf by (simp add: example_verifier_def)
  have "length (members (v_committee example_verifier)) = 3"
    by (simp add: example_verifier_def example_committee_def example_members_def)
  then show ?thesis
    using honest_quorum_verifies [OF bools_bitlist_laws wf example_round] by simp
qed

text \<open>
  C12. The raw node acts only on authentic, fresh records: an accepted version comes from bytes that
  decode to a record which verifies under the node's anchor, it is above the mark, and the mark is
  on disk, durably, when the node answers.
\<close>

theorem raw_node_accepts_only_authentic_fresh:
  assumes "raw_accept B W X blake rf b n s = (OutAccepted v, n', s')"
  shows "(\<exists>r. status_list_from_bytes B W b = Inr r \<and> verify_status_list B X blake (rn_verifier n) r \<and> sl_version r = v)
    \<and> mark_floor (rn_mark n) \<le> unat v \<and> mark_floor (rn_mark n') = unat v + 1
    \<and> stable s' (m_path (rn_mark n)) = Some (as_bytes (mark_line (m_fingerprint (rn_mark n)) (Some v)))"
proof -
  note acc = raw_party.accepted_sound [OF assms]
  then have "raw_judge B W X blake n b = Some v" by simp
  then show ?thesis using acc by (auto simp: raw_judge_def split: sum.splits if_splits)
qed

text \<open>A wire format for the witnesses: one known record behind one known byte.\<close>

definition one_record_wire :: "('b, 'sig) status_list \<Rightarrow> ('b, 'sig) raw_wire ssz" where
  "one_record_wire r = \<lparr>as_ssz_bytes = (\<lambda>_. [7]),
     from_ssz_bytes = (\<lambda>b. if b = [7] then Inr \<lparr>rw_alg = algorithm_tag (sl_alg r), rw_status_list = sl_status_list r,
        rw_version = sl_version r, rw_signers = sl_signers r, rw_signatures = sl_signatures r\<rparr> else Inl ''InvalidByteLength'')\<rparr>"

lemma one_record_decodes:
  "signer_count B r = length (sl_signatures r) \<Longrightarrow> status_list_from_bytes B (one_record_wire r) [7] = Inr r"
  by (simp add: status_list_from_bytes_def one_record_wire_def Let_def signer_count_def)

theorem raw_node_accepts_only_authentic_fresh_witness:
  "\<exists>r n' s'. raw_accept (bools_bitlist MAX_COMMITTEE_SIZE) (one_record_wire r) plain_xmss fold_hash ReplaceClean [7]
       (raw_node_new example_committee \<lparr>m_path = [''mark''], m_fingerprint = ''00'', m_current = 0, m_have = True\<rparr>) no_files
     = (OutAccepted 1, n', s')
     \<and> mark_floor (rn_mark n') = 2 \<and> stable s' [''mark''] = Some (as_bytes (mark_line ''00'' (Some 1)))"
proof -
  let ?B = "bools_bitlist MAX_COMMITTEE_SIZE"
  let ?n = "raw_node_new example_committee \<lparr>m_path = [''mark''], m_fingerprint = ''00'', m_current = 0, m_have = True\<rparr>"
  have wf: "wf_committee fold_hash reference_codecs (v_committee example_verifier)"
    using example_committee_wf by (simp add: example_verifier_def)
  obtain r where r: "verify_status_list ?B plain_xmss fold_hash example_verifier r"
    "sl_version r = 1" "signer_count ?B r = length (sl_signatures r)"
    using honest_record_verifies [OF bools_bitlist_laws wf example_round] by blast
  have j: "raw_judge ?B (one_record_wire r) plain_xmss fold_hash ?n [7] = Some 1"
    using r by (simp add: raw_judge_def one_record_decodes raw_node_new_def example_verifier_def)
  have "mark_floor (rn_mark ?n) \<le> unat (1 :: u32)" by (simp add: raw_node_new_def mark_floor_def)
  from raw_party.accepts_fresh [OF j this, of no_files]
  obtain n' s' where a: "raw_accept ?B (one_record_wire r) plain_xmss fold_hash ReplaceClean [7] ?n no_files = (OutAccepted 1, n', s')"
    by blast
  show ?thesis
    using a raw_node_accepts_only_authentic_fresh [OF a]
    by (intro exI [of _ r] exI [of _ n'] exI [of _ s']) (simp add: raw_node_new_def)
qed

text \<open>
  C23. Replays and rollbacks are never accepted by the raw node: over any sequence of delivered byte
  strings, with any disk failures, the accepted versions increase strictly.
\<close>

theorem raw_node_versions_increase:
  "sorted_wrt (<) (accepted_versions (deliver (raw_accept B W X blake)) delivered_version deliveries (n, s))"
  by (rule raw_party.node_gate.accepted_increase)

text \<open>
  Bytes that do not decode to a record that verifies leave the node and the disk exactly as they
  were: a forged version cannot move the mark.
\<close>

theorem raw_node_ignores_forgeries:
  assumes "\<And>r. status_list_from_bytes B W b = Inr r \<Longrightarrow> \<not> verify_status_list B X blake (rn_verifier n) r"
  shows "raw_accept B W X blake rf b n s = (OutRefused, n, s)"
proof (rule raw_party.refuses)
  show "raw_judge B W X blake n b = None"
    using assms by (auto simp: raw_judge_def split: sum.splits)
qed

theorem raw_node_ignores_forgeries_witness:
  "raw_accept (bools_bitlist MAX_COMMITTEE_SIZE)
      (one_record_wire \<lparr>sl_alg = WotsXmss, sl_status_list = [], sl_version = 4000000000, sl_signers = [True, False, False],
         sl_signatures = [(numbered_key 0, numbered_key 0, 43)]\<rparr>)
      plain_xmss fold_hash ReplaceClean [7] (raw_node_new example_committee
         \<lparr>m_path = [''mark''], m_fingerprint = ''00'', m_current = 0, m_have = False\<rparr>) no_files
    = (OutRefused, raw_node_new example_committee \<lparr>m_path = [''mark''], m_fingerprint = ''00'', m_current = 0, m_have = False\<rparr>, no_files)"
  by (rule raw_node_ignores_forgeries)
    (auto simp: status_list_from_bytes_def one_record_wire_def Let_def verify_status_list_def raw_node_new_def
      signer_count_def example_committee_def bools_bitlist_def split: if_splits)

end
