(* ===== verification/Snark_Path.thy ===== *)
theory Snark_Path
  imports Committee Relying_Party
begin

text \<open>
  The SNARK path: the prover (src/node/snark_prover.rs), the predicate over an aggregate
  (src/node/snark_verifier.rs) and the relying party (src/node/snark_node.rs).

  The lemmas show what an accepted aggregate claims about the committee, that decoding ahead of
  time changes nothing, and that what the prover makes for an honest quorum verifies.
\<close>

section \<open>Prover\<close>

datatype prover_panic = NoSlotUnderAnchor | AggregationFailed string

definition prover_aggregate ::
  "('pk, 'sig, 'sph, 'agg) leanvm \<Rightarrow> ('pk \<times> 'sig) list \<Rightarrow> 32 barr \<Rightarrow> u32 \<Rightarrow> usize \<Rightarrow> (prover_panic, bytes) result" where
  "prover_aggregate L raws message slot rate =
     (case aggregate L (map (\<lambda>(pk, sig). (pk, slot, message, sig)) raws) rate of
        Inl e \<Rightarrow> Inl (AggregationFailed e)
      | Inr a \<Rightarrow> Inr (agg_to_bytes L a))"

definition make_proof ::
  "('pk, 'sig, 'sph, 'agg) leanvm \<Rightarrow> (bytes \<Rightarrow> 32 barr) \<Rightarrow> 'pk committee \<Rightarrow> algorithms \<Rightarrow> ('pk \<times> 'sig) list
    \<Rightarrow> 32 barr list \<Rightarrow> u32 \<Rightarrow> usize \<Rightarrow> (prover_panic, bytes) result" where
  "make_proof L blake c alg raws xs version rate =
     (case slot_for c version of
        None \<Rightarrow> Inl NoSlotUnderAnchor
      | Some slot \<Rightarrow> prover_aggregate L raws (message_for blake c alg xs version) slot rate)"

section \<open>Predicate\<close>

record 'pk snark_verifier =
  sv_committee :: "'pk committee"
  sv_last_version :: u32

definition snark_check ::
  "('pk, 'sig, 'sph, 'agg) leanvm \<Rightarrow> (bytes \<Rightarrow> 32 barr) \<Rightarrow> 'pk snark_verifier \<Rightarrow> snark_status_list \<Rightarrow> 'agg \<Rightarrow> bool" where
  "snark_check L blake sv r agg =
     (let c = sv_committee sv
      in if agg_sphincs_signers L agg \<noteq> [] then False
         else case agg_xmss_signers L agg of
                [(slot, message, pubkeys)] \<Rightarrow>
                  if \<not> list_all (\<lambda>pk. pk \<in> set (members c)) pubkeys then False
                  else let d = committee_domain blake c (ss_alg r)
                  in if message \<noteq> status_list_message blake d (ss_status_list r) (ss_version r) then False
                     else if slot_for c (ss_version r) \<noteq> Some slot then False
                     else if length pubkeys < threshold c then False
                     else agg_verify L agg
              | _ \<Rightarrow> False)"

definition snark_verify ::
  "('pk, 'sig, 'sph, 'agg) leanvm \<Rightarrow> (bytes \<Rightarrow> 32 barr) \<Rightarrow> 'pk snark_verifier \<Rightarrow> snark_status_list \<Rightarrow> bool" where
  "snark_verify L blake sv r = (case snark_proof L r of Inl e \<Rightarrow> False | Inr a \<Rightarrow> snark_check L blake sv r a)"

definition verify_decoded ::
  "('pk, 'sig, 'sph, 'agg) leanvm \<Rightarrow> (bytes \<Rightarrow> 32 barr) \<Rightarrow> 'pk snark_verifier \<Rightarrow> 'agg decoded_snark \<Rightarrow> bool" where
  "verify_decoded L blake sv d = snark_check L blake sv (ds_record d) (ds_aggregate d)"

definition is_newer :: "'pk snark_verifier \<Rightarrow> snark_status_list \<Rightarrow> bool" where
  "is_newer sv r \<longleftrightarrow> ss_version r > sv_last_version sv"

section \<open>Node\<close>

record 'pk snark_node =
  sn_verifier :: "'pk snark_verifier"
  sn_mark :: high_water_mark

definition snark_node_new :: "'pk committee \<Rightarrow> high_water_mark \<Rightarrow> 'pk snark_node" where
  "snark_node_new c m =
     \<lparr>sn_verifier = \<lparr>sv_committee = c, sv_last_version = (case mark_current m of None \<Rightarrow> 0 | Some v \<Rightarrow> v)\<rparr>, sn_mark = m\<rparr>"

definition snark_high_water :: "'pk snark_node \<Rightarrow> u32 option" where
  "snark_high_water n = mark_current (sn_mark n)"

definition snark_accept ::
  "('pk, 'sig, 'sph, 'agg) leanvm \<Rightarrow> snark_wire ssz \<Rightarrow> (bytes \<Rightarrow> 32 barr) \<Rightarrow> replace_fault \<Rightarrow> bytes
    \<Rightarrow> 'pk snark_node \<Rightarrow> fs \<Rightarrow> outcome \<times> 'pk snark_node \<times> fs" where
  "snark_accept L W blake rf b n s =
     (case snark_from_bytes W b of
        Inl e \<Rightarrow> (OutRefused, n, s)
      | Inr r \<Rightarrow>
          if \<not> snark_verify L blake (sn_verifier n) r then (OutRefused, n, s)
          else case outcome_advance rf (sn_mark n) (ss_version r) s of
                 (out, m', s') \<Rightarrow> (out, n\<lparr>sn_mark := m'\<rparr>, s'))"

section \<open>What the predicate accepts\<close>

text \<open>
  What leanVM documents: the public keys of a claim are strictly sorted, hence distinct; and the
  aggregate of valid signatures verifies, claims exactly them, and re-encodes to the bytes it is
  decoded from.
\<close>

definition claims_distinct :: "('pk, 'sig, 'sph, 'agg) leanvm \<Rightarrow> bool" where
  "claims_distinct L \<longleftrightarrow> (\<forall>a. \<forall>(slot, message, pks) \<in> set (agg_xmss_signers L a). distinct pks)"

definition aggregate_complete :: "('pk, 'sk, 'sig, 'rng) xmss \<Rightarrow> ('pk, 'sig, 'sph, 'agg) leanvm \<Rightarrow> bool" where
  "aggregate_complete X L \<longleftrightarrow>
     (\<forall>raws slot message rate a.
        raws \<noteq> [] \<longrightarrow> distinct (map fst raws) \<longrightarrow> (\<forall>(pk, sig) \<in> set raws. xmss_verify X pk message sig slot) \<longrightarrow>
        aggregate L (map (\<lambda>(pk, sig). (pk, slot, message, sig)) raws) rate = Inr a \<longrightarrow>
          (\<exists>pks. agg_xmss_signers L a = [(slot, message, pks)] \<and> set pks = set (map fst raws) \<and> distinct pks)
          \<and> agg_sphincs_signers L a = [] \<and> agg_verify L a \<and> agg_from_bytes L (agg_to_bytes L a) = Inr a)"

lemma snark_check_iff:
  "snark_check L blake sv r agg \<longleftrightarrow>
     agg_sphincs_signers L agg = [] \<and> agg_verify L agg
     \<and> (\<exists>slot pks. agg_xmss_signers L agg =
           [(slot, message_for blake (sv_committee sv) (ss_alg r) (ss_status_list r) (ss_version r), pks)]
         \<and> set pks \<subseteq> set (members (sv_committee sv)) \<and> slot_for (sv_committee sv) (ss_version r) = Some slot
         \<and> threshold (sv_committee sv) \<le> length pks)"
  by (auto simp: snark_check_def Let_def message_for_def list_all_iff not_less subset_iff
      split: list.splits prod.splits if_splits)

lemma snark_verify_iff:
  "snark_verify L blake sv r \<longleftrightarrow> (\<exists>a. snark_proof L r = Inr a \<and> snark_check L blake sv r a)"
  by (auto simp: snark_verify_def split: sum.splits)

section \<open>The node is a relying party\<close>

definition snark_judge ::
  "('pk, 'sig, 'sph, 'agg) leanvm \<Rightarrow> snark_wire ssz \<Rightarrow> (bytes \<Rightarrow> 32 barr) \<Rightarrow> 'pk snark_node \<Rightarrow> bytes \<Rightarrow> u32 option" where
  "snark_judge L W blake n b =
     (case snark_from_bytes W b of
        Inl e \<Rightarrow> None
      | Inr r \<Rightarrow> if snark_verify L blake (sn_verifier n) r then Some (ss_version r) else None)"

interpretation snark_party: relying_party "snark_accept L W blake" "snark_judge L W blake" sn_mark "\<lambda>m n. n\<lparr>sn_mark := m\<rparr>"
  for L W blake
  by unfold_locales (auto simp: snark_accept_def snark_judge_def fun_eq_iff split: sum.splits if_splits)

lemma make_proof_verifies:
  assumes complete: "aggregate_complete X L" and wf: "wf_committee sha3 A (sv_committee sv)"
    and raws: "distinct (map fst raws)" "set (map fst raws) \<subseteq> set (members (sv_committee sv))"
      "threshold (sv_committee sv) \<le> length raws"
    and slot: "slot_for (sv_committee sv) v = Some slot"
    and sigs: "\<forall>(pk, sig) \<in> set raws. xmss_verify X pk (message_for blake (sv_committee sv) alg xs v) sig slot"
    and proof_made: "make_proof L blake (sv_committee sv) alg raws xs v rate = Inr bs"
  shows "snark_verify L blake sv (snark_new alg xs v bs)"
proof -
  let ?m = "message_for blake (sv_committee sv) alg xs v"
  obtain a where a: "aggregate L (map (\<lambda>(pk, sig). (pk, slot, ?m, sig)) raws) rate = Inr a" "bs = agg_to_bytes L a"
    using proof_made slot by (auto simp: make_proof_def prover_aggregate_def split: sum.splits)
  have "raws \<noteq> []" using raws(3) wf by (auto simp: wf_committee_def)
  then obtain pks where pks: "agg_xmss_signers L a = [(slot, ?m, pks)]" "set pks = set (map fst raws)" "distinct pks"
    "agg_sphincs_signers L a = []" "agg_verify L a" "agg_from_bytes L (agg_to_bytes L a) = Inr a"
    using complete raws(1) sigs a(1) unfolding aggregate_complete_def by blast
  have "length pks = length raws"
    using distinct_card [OF pks(3)] distinct_card [OF raws(1)] pks(2) by simp
  then show ?thesis
    using pks a(2) raws(2,3) slot
    by (auto simp: snark_verify_def snark_proof_def snark_new_def snark_check_iff)
qed

section \<open>An honest round\<close>

lemma plain_claims_distinct: "claims_distinct plain_leanvm"
  by (simp add: claims_distinct_def plain_leanvm_def)

lemma plain_aggregate_complete: "aggregate_complete plain_xmss plain_leanvm"
proof -
  have "(\<exists>pks. agg_xmss_signers plain_leanvm a = [(slot, message, pks)] \<and> set pks = set (map fst raws) \<and> distinct pks)
      \<and> agg_sphincs_signers plain_leanvm a = [] \<and> agg_verify plain_leanvm a"
    if "raws \<noteq> []" and "aggregate plain_leanvm (map (\<lambda>(pk, sig). (pk, slot, message, sig)) raws) rate = Inr a"
    for raws :: "(32 barr \<times> 32 barr \<times> 32 barr \<times> u32) list" and slot message rate a
  proof -
    from that have "a = (slot, message, map fst raws)"
      by (cases raws) (auto simp: plain_leanvm_def case_prod_unfold comp_def)
    then show ?thesis by (simp add: plain_leanvm_def)
  qed
  then show ?thesis using plain_agg_roundtrip unfolding aggregate_complete_def by blast
qed

definition example_snark_verifier :: "32 barr snark_verifier" where
  "example_snark_verifier = \<lparr>sv_committee = example_committee, sv_last_version = 0\<rparr>"

definition example_raws :: "(32 barr \<times> 32 barr \<times> 32 barr \<times> u32) list" where
  "example_raws = (let m = message_for fold_hash example_committee WotsXmss [numbered_key 9] 1
     in [(numbered_key 2, numbered_key 2, m, 44), (numbered_key 0, numbered_key 0, m, 44)])"

lemma example_proof:
  "distinct (map fst example_raws)"
  "set (map fst example_raws) \<subseteq> set (members (sv_committee example_snark_verifier))"
  "threshold (sv_committee example_snark_verifier) \<le> length example_raws"
  "slot_for (sv_committee example_snark_verifier) 1 = Some 44"
  "\<forall>(pk, sig) \<in> set example_raws. xmss_verify plain_xmss pk
     (message_for fold_hash (sv_committee example_snark_verifier) WotsXmss [numbered_key 9] 1) sig 44"
  using numbered_key_inj [of 2 0]
  by (auto simp: example_raws_def example_snark_verifier_def example_committee_def example_members_def slot_for_Some plain_xmss_def Let_def)

lemma example_proof_made:
  "\<exists>bs. make_proof plain_leanvm fold_hash (sv_committee example_snark_verifier) WotsXmss example_raws [numbered_key 9] 1 2 = Inr bs"
  using example_proof(4)
  by (simp add: make_proof_def prover_aggregate_def) (simp add: example_raws_def plain_leanvm_def Let_def)

lemma example_snark_wf: "wf_committee fold_hash reference_codecs (sv_committee example_snark_verifier)"
  using example_committee_wf by (simp add: example_snark_verifier_def)

text \<open>What a record that verifies carries.\<close>

lemma snark_verified_quorum:
  assumes "claims_distinct L" and "snark_verify L blake sv r"
  shows "\<exists>a slot pks. agg_from_bytes L (ss_zk_proof r) = Inr a \<and> agg_to_bytes L a = ss_zk_proof r \<and> agg_verify L a
    \<and> agg_sphincs_signers L a = []
    \<and> agg_xmss_signers L a = [(slot, message_for blake (sv_committee sv) (ss_alg r) (ss_status_list r) (ss_version r), pks)]
    \<and> distinct pks \<and> set pks \<subseteq> set (members (sv_committee sv)) \<and> threshold (sv_committee sv) \<le> length pks
    \<and> slot_for (sv_committee sv) (ss_version r) = Some slot"
proof -
  obtain a where a: "snark_proof L r = Inr a" "snark_check L blake sv r a"
    using assms(2) by (auto simp: snark_verify_iff)
  from a(2) obtain slot pks where c: "agg_xmss_signers L a =
      [(slot, message_for blake (sv_committee sv) (ss_alg r) (ss_status_list r) (ss_version r), pks)]"
    "set pks \<subseteq> set (members (sv_committee sv))" "slot_for (sv_committee sv) (ss_version r) = Some slot"
    "threshold (sv_committee sv) \<le> length pks" "agg_sphincs_signers L a = []" "agg_verify L a"
    unfolding snark_check_iff by blast
  have "distinct pks"
    using spec [OF assms(1) [unfolded claims_distinct_def], of a] c(1) by simp
  then show ?thesis using snark_proof_Inr [OF a(1)] c by blast
qed

section \<open>Properties\<close>

text \<open>
  C10. What the SNARK predicate authorizes: a record that verifies carries a canonical aggregate that
  leanVM verifies and that claims one thing only, namely that at least \<open>t\<close> distinct committee
  members signed this anchor's message for this algorithm, list and version at its derived slot.
\<close>

theorem snark_verified_claims_quorum:
  assumes "claims_distinct L" and "snark_verify L blake sv r"
  shows "\<exists>a slot pks. agg_from_bytes L (ss_zk_proof r) = Inr a \<and> agg_to_bytes L a = ss_zk_proof r \<and> agg_verify L a
    \<and> agg_sphincs_signers L a = []
    \<and> agg_xmss_signers L a = [(slot, message_for blake (sv_committee sv) (ss_alg r) (ss_status_list r) (ss_version r), pks)]
    \<and> distinct pks \<and> set pks \<subseteq> set (members (sv_committee sv)) \<and> threshold (sv_committee sv) \<le> length pks
    \<and> slot_for (sv_committee sv) (ss_version r) = Some slot"
  by (rule snark_verified_quorum [OF assms])

theorem snark_verified_claims_quorum_witness:
  "\<exists>r a slot pks. snark_verify plain_leanvm fold_hash example_snark_verifier r \<and> agg_verify plain_leanvm a
     \<and> agg_xmss_signers plain_leanvm a =
        [(slot, message_for fold_hash example_committee (ss_alg r) (ss_status_list r) (ss_version r), pks)]
     \<and> distinct pks \<and> 2 \<le> length pks"
proof -
  obtain bs where "make_proof plain_leanvm fold_hash (sv_committee example_snark_verifier) WotsXmss example_raws [numbered_key 9] 1 2 = Inr bs"
    using example_proof_made by blast
  then have r: "snark_verify plain_leanvm fold_hash example_snark_verifier (snark_new WotsXmss [numbered_key 9] 1 bs)"
    using make_proof_verifies [OF plain_aggregate_complete example_snark_wf example_proof] by blast
  have "threshold (sv_committee example_snark_verifier) = 2" "sv_committee example_snark_verifier = example_committee"
    by (simp_all add: example_snark_verifier_def example_committee_def)
  then show ?thesis
    using snark_verified_claims_quorum [OF plain_claims_distinct r] r by metis
qed

text \<open>
  Decoding ahead of time changes nothing: a record decoded with \<open>decode\<close> verifies exactly when
  the record itself does, and a record that does not decode does not verify.
\<close>

theorem decode_then_verify:
  "snark_verify L blake sv r = (case snark_decode L r of Inl e \<Rightarrow> False | Inr d \<Rightarrow> verify_decoded L blake sv d)"
  by (auto simp: snark_verify_def snark_decode_def verify_decoded_def split: sum.splits)

text \<open>
  An honest proof verifies: whenever the prover aggregates valid signatures of at least \<open>t\<close>
  distinct members for a round of this anchor, the record it yields passes the predicate.
\<close>

theorem honest_proof_verifies:
  assumes "aggregate_complete X L" and "wf_committee sha3 A (sv_committee sv)"
    and "distinct (map fst raws)" and "set (map fst raws) \<subseteq> set (members (sv_committee sv))"
    and "threshold (sv_committee sv) \<le> length raws" and "slot_for (sv_committee sv) v = Some slot"
    and "\<forall>(pk, sig) \<in> set raws. xmss_verify X pk (message_for blake (sv_committee sv) alg xs v) sig slot"
    and "make_proof L blake (sv_committee sv) alg raws xs v rate = Inr bs"
  shows "snark_verify L blake sv (snark_new alg xs v bs)"
  using make_proof_verifies [OF assms] .

theorem honest_proof_verifies_witness:
  "\<exists>bs. make_proof plain_leanvm fold_hash example_committee WotsXmss example_raws [numbered_key 9] 1 2 = Inr bs
     \<and> snark_verify plain_leanvm fold_hash example_snark_verifier (snark_new WotsXmss [numbered_key 9] 1 bs)"
proof -
  obtain bs where bs: "make_proof plain_leanvm fold_hash (sv_committee example_snark_verifier) WotsXmss example_raws [numbered_key 9] 1 2 = Inr bs"
    using example_proof_made by blast
  then show ?thesis
    using honest_proof_verifies [OF plain_aggregate_complete example_snark_wf example_proof bs]
    by (auto simp: example_snark_verifier_def)
qed

text \<open>
  Replays and rollbacks are never accepted by the SNARK node either: over any sequence of delivered
  byte strings, with any disk failures, the accepted versions increase strictly.
\<close>

theorem snark_node_versions_increase:
  "sorted_wrt (<) (accepted_versions (deliver (snark_accept L W blake)) delivered_version deliveries (n, s))"
  by (rule snark_party.node_gate.accepted_increase)

end
