(* ===== verification/Agreement.thy ===== *)
theory Agreement
  imports Signer_Node Raw_Verifier Snark_Path
begin

text \<open>
  What the parts guarantee together: under one anchor a version has one list, or a forgery is at hand.
  The members' counters keep a key from signing two messages at one slot, the anchor gives a version
  one slot, the predicates ask for a quorum of distinct members at that slot, and two quorums share
  an honest member. The argument about quorums is a locale, interpreted on the threshold of an anchor.
  Nothing is assumed of XMSS or leanVM beyond the shape of a claim: where two records disagree, the
  conclusion names the record that carries a forged signature or claim.
\<close>

section \<open>Quorums that meet\<close>




section \<open>What a key was used for\<close>




section \<open>Records of either form\<close>










section \<open>An example\<close>





section \<open>Properties\<close>



end
