(* ===== verification/Demo_Wire.thy ===== *)
theory Demo_Wire
  imports Status_List Interfaces File_System Committee
begin

text \<open>
  The library of the demo network (demo/src): its fixed layout (config.rs), the messages and their
  framing (wire.rs), the credentials and the validity list (vc.rs), and the shared volumes
  (storage.rs). The SSZ codecs of the messages and the issuing of a credential, which is JSON
  canonicalised by \<open>serde_jcs\<close>, are parameters.

  The lemmas show that a frame is read back exactly as it was sent and that an announced length over
  the ceiling is refused on the header alone, that issuing and revoking refine the insertion into
  and the removal from a set of fingerprints, and that waiting for a file always ends.
\<close>

section \<open>Layout\<close>

definition DEMO_N_MEMBERS :: usize where "DEMO_N_MEMBERS = 10"
definition THRESHOLD :: usize where "THRESHOLD = 7"
definition ALL_MEMBER_INDICES :: "usize list" where "ALL_MEMBER_INDICES = [0, 1, 2, 3, 4, 5, 6, 7, 8, 9]"
definition SNARK_AGGREGATOR_INDICES :: "usize list" where "SNARK_AGGREGATOR_INDICES = [0, 4, 8]"

definition MEMBER_IPS :: "string list" where
  "MEMBER_IPS = [''172.28.0.11'', ''172.28.0.12'', ''172.28.0.13'', ''172.28.0.14'', ''172.28.0.15'',
     ''172.28.0.16'', ''172.28.0.17'', ''172.28.0.18'', ''172.28.0.19'', ''172.28.0.20'']"

definition MEMBER_PORT :: nat where "MEMBER_PORT = 9000"
definition HOLDER_IP :: string where "HOLDER_IP = ''172.28.0.30''"
definition HOLDER_PORT :: nat where "HOLDER_PORT = 9100"

datatype mode = Raw | Snark

text \<open>An unset variable, or one that is not Unicode, is \<open>None\<close>; a panic is \<open>None\<close> of the result.\<close>

definition mode_from_env :: "ustr option \<Rightarrow> mode option" where
  "mode_from_env var =
     (case var of
        None \<Rightarrow> Some Raw
      | Some v \<Rightarrow> if v = text_of ''snark'' then Some Snark else if v = text_of ''raw'' then Some Raw else None)"

definition mode_as_str :: "mode \<Rightarrow> string" where
  "mode_as_str m = (case m of Raw \<Rightarrow> ''raw'' | Snark \<Rightarrow> ''snark'')"

text \<open>The address is given as the text \<open>to_string\<close> renders; an address is a host and a port.\<close>

definition index_of_ip :: "string \<Rightarrow> usize option" where
  "index_of_ip ip = position ip MEMBER_IPS"

definition member_addr :: "usize \<Rightarrow> (string \<times> nat) option" where
  "member_addr i = (if i < length MEMBER_IPS then Some (MEMBER_IPS ! i, MEMBER_PORT) else None)"

definition holder_addr :: "string \<times> nat" where
  "holder_addr = (HOLDER_IP, HOLDER_PORT)"

definition aggregator_indices :: "mode \<Rightarrow> usize list" where
  "aggregator_indices m = (case m of Raw \<Rightarrow> ALL_MEMBER_INDICES | Snark \<Rightarrow> SNARK_AGGREGATOR_INDICES)"

definition can_aggregate :: "mode \<Rightarrow> usize \<Rightarrow> bool" where
  "can_aggregate m i = List.member (aggregator_indices m) i"

definition format_indices :: "usize list \<Rightarrow> string" where
  "format_indices is = comma_separated (map show_nat is)"

definition env_u64 :: "ustr option \<Rightarrow> u64 \<Rightarrow> u64" where
  "env_u64 var fallback =
     (case var of None \<Rightarrow> fallback | Some v \<Rightarrow> (case parse_u64 v of Inl e \<Rightarrow> fallback | Inr n \<Rightarrow> n))"

text \<open>In milliseconds and in seconds.\<close>

definition sign_window :: "ustr option \<Rightarrow> u64" where
  "sign_window var = env_u64 var 5000"

definition request_timeout :: "ustr option \<Rightarrow> u64" where
  "request_timeout var = env_u64 var 900"

section \<open>Messages\<close>

definition MSG_STATUS_REQUEST :: u8 where "MSG_STATUS_REQUEST = 1"
definition MSG_PROPOSAL :: u8 where "MSG_PROPOSAL = 2"
definition MSG_SIGNATURE :: u8 where "MSG_SIGNATURE = 3"
definition MSG_STATUS_UPDATED :: u8 where "MSG_STATUS_UPDATED = 4"
definition MSG_FAILURE :: u8 where "MSG_FAILURE = 5"
definition MSG_ROUND_REQUEST :: u8 where "MSG_ROUND_REQUEST = 6"
definition MSG_ROUND_RESULT :: u8 where "MSG_ROUND_RESULT = 7"
definition ACTION_VERIFY :: u8 where "ACTION_VERIFY = 0"
definition ACTION_ISSUE :: u8 where "ACTION_ISSUE = 1"
definition ACTION_REVOKE :: u8 where "ACTION_REVOKE = 2"

lemmas message_types = MSG_STATUS_REQUEST_def MSG_PROPOSAL_def MSG_SIGNATURE_def MSG_STATUS_UPDATED_def
  MSG_FAILURE_def MSG_ROUND_REQUEST_def MSG_ROUND_RESULT_def

lemmas action_types = ACTION_VERIFY_def ACTION_ISSUE_def ACTION_REVOKE_def

record status_request =
  sr_action :: u8
  sr_data :: bytes

record proposal =
  pr_version :: u32
  pr_list :: "32 barr list"

record 'sig signature_reply =
  rp_signature :: "'sig list"
  rp_reason :: bytes

record status_updated =
  su_version :: u32
  su_credential :: bytes

record failure =
  fl_reason :: bytes

text \<open>The derived codecs of the messages.\<close>

record 'sig message_codecs =
  request_ssz :: "status_request ssz"
  proposal_ssz :: "proposal ssz"
  reply_ssz :: "'sig signature_reply ssz"
  updated_ssz :: "status_updated ssz"
  failure_ssz :: "failure ssz"

definition failure_of :: "failure ssz \<Rightarrow> string \<Rightarrow> bytes" where
  "failure_of F reason = as_ssz_bytes F \<lparr>fl_reason = as_bytes reason\<rparr>"

text \<open>\<open>from_utf8_lossy\<close> is the parameter \<open>lossy\<close>: it is only ever printed.\<close>

definition failure_text :: "failure ssz \<Rightarrow> (bytes \<Rightarrow> string) \<Rightarrow> bytes \<Rightarrow> string" where
  "failure_text F lossy bs =
     (case from_ssz_bytes F bs of Inl e \<Rightarrow> ''undecodable failure message'' | Inr f \<Rightarrow> lossy (fl_reason f))"

section \<open>Framing\<close>

definition MAX_FRAME :: usize where "MAX_FRAME = 8 * 1024 * 1024"

datatype wire_error = OutboundTooLarge usize | InboundTooLarge usize | StreamIo io_error

datatype write_fault = WriteClean | WriteFailsAfter nat | FlushFails

text \<open>The result of a send and the bytes that reached the stream.\<close>

definition send :: "write_fault \<Rightarrow> u8 \<Rightarrow> bytes \<Rightarrow> (wire_error, unit) result \<times> bytes" where
  "send f kind payload =
     (if length payload > MAX_FRAME then (Inl (OutboundTooLarge (length payload)), [])
      else let framed = kind # u32_to_le (word_of_nat (length payload)) @ payload
           in case f of
                WriteFailsAfter k \<Rightarrow> (Inl (StreamIo OtherIo), take k framed)
              | FlushFails \<Rightarrow> (Inl (StreamIo OtherIo), framed)
              | WriteClean \<Rightarrow> (Inr (), framed))"

text \<open>
  Reading from a stream that will deliver the given bytes and then end or time out. On success the
  rest of the stream is returned.
\<close>

definition recv :: "bytes \<Rightarrow> (wire_error, (u8 \<times> bytes) \<times> bytes) result" where
  "recv stream =
     (if length stream < 5 then Inl (StreamIo OtherIo)
      else let header = take 5 stream;
               len = unat (u32_from_le (drop 1 header));
               rest = drop 5 stream
           in if len > MAX_FRAME then Inl (InboundTooLarge len)
              else if length rest < len then Inl (StreamIo OtherIo)
              else Inr ((header ! 0, take len rest), drop len rest))"

text \<open>
  One exchange: whether the connection and its timeouts can be set up, how the write goes, and what
  the peer answers to the bytes it got.
\<close>

record connection =
  cn_setup :: "(io_error, unit) result"
  cn_write :: write_fault
  cn_peer :: "bytes \<Rightarrow> bytes"

definition request :: "connection \<Rightarrow> u8 \<Rightarrow> bytes \<Rightarrow> (wire_error, u8 \<times> bytes) result" where
  "request c kind payload =
     (case cn_setup c of
        Inl e \<Rightarrow> Inl (StreamIo e)
      | Inr _ \<Rightarrow>
          (case send (cn_write c) kind payload of
             (Inl e, _) \<Rightarrow> Inl e
           | (Inr _, sent) \<Rightarrow> map_sum id fst (recv (cn_peer c sent))))"

section \<open>Credentials\<close>

definition vc_fingerprint :: "(bytes \<Rightarrow> 32 barr) \<Rightarrow> bytes \<Rightarrow> 32 barr" where
  "vc_fingerprint sha3 credential = hash_any sha3 credential"

definition is_valid :: "(bytes \<Rightarrow> 32 barr) \<Rightarrow> 32 barr list \<Rightarrow> bytes \<Rightarrow> bool" where
  "is_valid sha3 xs credential = List.member xs (vc_fingerprint sha3 credential)"

definition add_valid :: "(bytes \<Rightarrow> 32 barr) \<Rightarrow> bytes \<Rightarrow> 32 barr list \<Rightarrow> bool \<times> 32 barr list" where
  "add_valid sha3 credential xs =
     (let entry = vc_fingerprint sha3 credential
      in if List.member xs entry then (False, xs) else (True, xs @ [entry]))"

definition revoke :: "(bytes \<Rightarrow> 32 barr) \<Rightarrow> bytes \<Rightarrow> 32 barr list \<Rightarrow> bool \<times> 32 barr list" where
  "revoke sha3 credential xs =
     (let entry = vc_fingerprint sha3 credential;
          ys = filter (\<lambda>candidate. candidate \<noteq> entry) xs
      in (length ys \<noteq> length xs, ys))"

section \<open>Volumes\<close>

definition RUN_ID :: string where "RUN_ID = ''run-id''"
definition ANCHOR :: string where "ANCHOR = ''anchor.bin''"
definition CURRENT_RECORD :: string where "CURRENT_RECORD = ''status-current.ssz''"

text \<open>\<open>pk-{index:02}.ssz\<close>\<close>

definition member_key_file :: "path \<Rightarrow> usize \<Rightarrow> path" where
  "member_key_file dir i =
     dir @ [''pk-'' @ (if i < 10 then ''0'' @ show_nat i else show_nat i) @ ''.ssz'']"

definition write_atomic :: "replace_fault \<Rightarrow> path \<Rightarrow> bytes \<Rightarrow> fs \<Rightarrow> (io_error, unit) result \<times> fs" where
  "write_atomic f p bs s = replace_file f p bs s"

text \<open>
  The waiting loop (\<open>wait_for\<close>) as it meets the world, with instants and durations in nanoseconds: the
  clock when the deadline is set, what the reads of the file return (nothing for an error), how long
  each turn takes up to its look at the clock, and how much longer than asked each sleep lasts.
\<close>

record watch =
  wt_start :: nat
  wt_reads :: "nat \<Rightarrow> bytes option"
  wt_takes :: "nat \<Rightarrow> nat"
  wt_oversleeps :: "nat \<Rightarrow> nat"

definition POLL_INTERVAL :: nat where
  "POLL_INTERVAL = 200000000"

function wait_loop :: "watch \<Rightarrow> nat \<Rightarrow> nat \<Rightarrow> nat \<Rightarrow> (unit, bytes) result" where
  "wait_loop w deadline turn clock =
     (case wt_reads w turn of
        Some (b # bs) \<Rightarrow> Inr (b # bs)
      | _ \<Rightarrow>
          let clock' = clock + wt_takes w turn
          in if clock' \<ge> deadline then Inl ()
             else wait_loop w deadline (turn + 1) (clock' + (POLL_INTERVAL + wt_oversleeps w turn)))"
  by pat_completeness auto
termination
  by (relation "measure (\<lambda>(w, deadline, turn, clock). deadline - clock)") (auto simp: POLL_INTERVAL_def)

declare wait_loop.simps [simp del]

definition wait_for :: "watch \<Rightarrow> nat \<Rightarrow> (unit, bytes) result" where
  "wait_for w timeout = wait_loop w (wt_start w + timeout) 0 (wt_start w)"

text \<open>A duration of whole seconds.\<close>

definition from_secs :: "nat \<Rightarrow> nat" where
  "from_secs n = n * 1000000000"

definition seed_preimage :: "string \<Rightarrow> bytes \<Rightarrow> usize \<Rightarrow> bytes" where
  "seed_preimage secret run_id i =
     as_bytes ''drot-demo/member-seed/v1'' @ as_bytes secret @ run_id @ u64_to_le (word_of_nat i)"

definition member_seed :: "(bytes \<Rightarrow> 32 barr) \<Rightarrow> string \<Rightarrow> bytes \<Rightarrow> usize \<Rightarrow> 32 barr" where
  "member_seed sha3 secret run_id i = sha3 (seed_preimage secret run_id i)"

definition publish :: "replace_fault \<Rightarrow> path \<Rightarrow> bytes \<Rightarrow> fs \<Rightarrow> (io_error, path) result \<times> fs" where
  "publish f dir bs s =
     (case write_atomic f (dir @ [CURRENT_RECORD]) bs s of
        (Inl e, s') \<Rightarrow> (Inl e, s') | (Inr _, s') \<Rightarrow> (Inr (dir @ [CURRENT_RECORD]), s'))"

definition published_record :: "read_fault \<Rightarrow> path \<Rightarrow> fs \<Rightarrow> bytes option" where
  "published_record rdf dir s = (if rdf = ReadFails then None else files s (dir @ [CURRENT_RECORD]))"

section \<open>Lemmas on the layout\<close>

lemma member_addr_index: "member_addr i = Some (ip, port) \<Longrightarrow> index_of_ip ip = Some i"
proof -
  assume "member_addr i = Some (ip, port)"
  then have "ip = MEMBER_IPS ! i" "i \<in> set [0..<10]"
    by (auto simp: member_addr_def MEMBER_IPS_def split: if_splits)
  then show ?thesis by (auto simp: index_of_ip_def MEMBER_IPS_def upt_rec)
qed

lemma aggregators_are_members: "can_aggregate m i \<Longrightarrow> i < DEMO_N_MEMBERS"
  by (cases m) (auto simp: can_aggregate_def aggregator_indices_def ALL_MEMBER_INDICES_def
      SNARK_AGGREGATOR_INDICES_def DEMO_N_MEMBERS_def List.member_iff)

section \<open>Lemmas on frames\<close>

lemma length_prefix: "length payload \<le> MAX_FRAME \<Longrightarrow> unat (word_of_nat (length payload) :: u32) = length payload"
  by (simp add: unat_of_nat MAX_FRAME_def)

lemma send_Inr: "send f kind payload = (Inr (), sent) \<longleftrightarrow>
    length payload \<le> MAX_FRAME \<and> f = WriteClean \<and> sent = kind # u32_to_le (word_of_nat (length payload)) @ payload"
  by (cases f) (auto simp: send_def Let_def)

lemma recv_frame:
  assumes "length payload \<le> MAX_FRAME"
  shows "recv ((kind # u32_to_le (word_of_nat (length payload)) @ payload) @ rest) = Inr ((kind, payload), rest)"
proof -
  let ?l = "u32_to_le (word_of_nat (length payload))"
  have "take 5 ((kind # ?l @ payload) @ rest) = kind # ?l" "drop 5 ((kind # ?l @ payload) @ rest) = payload @ rest"
    by simp_all
  then show ?thesis using assms length_prefix [OF assms] by (simp add: recv_def Let_def)
qed

lemma recv_Inr:
  assumes "recv stream = Inr ((kind, payload), rest)"
  shows "length payload \<le> MAX_FRAME
    \<and> stream = (kind # u32_to_le (word_of_nat (length payload)) @ payload) @ rest"
proof -
  let ?h = "drop 1 (take 5 stream)"
  have long: "5 \<le> length stream" and len: "unat (u32_from_le ?h) \<le> MAX_FRAME"
    and fit: "unat (u32_from_le ?h) \<le> length (drop 5 stream)"
    and eq: "kind = take 5 stream ! 0" "payload = take (unat (u32_from_le ?h)) (drop 5 stream)"
      "rest = drop (unat (u32_from_le ?h)) (drop 5 stream)"
    using assms by (auto simp: recv_def Let_def split: if_splits)
  have "length payload = unat (u32_from_le ?h)" using eq(2) fit by simp
  then have "word_of_nat (length payload) = u32_from_le ?h" by simp
  then have "u32_to_le (word_of_nat (length payload)) = ?h" using u32_to_from_le [of ?h] long by simp
  moreover have "take 5 stream = kind # ?h" using long eq(1) by (cases stream) auto
  moreover have "drop 5 stream = payload @ rest" unfolding eq(2,3) by (rule append_take_drop_id [symmetric])
  ultimately show ?thesis
    using len \<open>length payload = unat (u32_from_le ?h)\<close> append_take_drop_id [of 5 stream] by (metis append_Cons append_assoc)
qed

text \<open>Frames are a codec: of a type byte and a payload within the ceiling, read with nothing left over.\<close>

definition frame_enc :: "u8 \<times> bytes \<Rightarrow> bytes" where
  "frame_enc m = snd (send WriteClean (fst m) (snd m))"

definition frame_dec :: "bytes \<Rightarrow> (u8 \<times> bytes) option" where
  "frame_dec b = (case recv b of Inr (m, []) \<Rightarrow> Some m | _ \<Rightarrow> None)"

interpretation frames: codec frame_enc frame_dec "\<lambda>m. length (snd m) \<le> MAX_FRAME"
proof
  fix m :: "u8 \<times> bytes"
  assume "length (snd m) \<le> MAX_FRAME"
  then show "frame_dec (frame_enc m) = Some m"
    using recv_frame [of "snd m" "fst m" "[]"] by (simp add: frame_enc_def frame_dec_def send_def Let_def)
next
  fix b m
  assume "frame_dec b = Some m"
  then have "recv b = Inr ((fst m, snd m), [])"
    by (auto simp: frame_dec_def split: sum.splits prod.splits list.splits)
  from recv_Inr [OF this] show "length (snd m) \<le> MAX_FRAME \<and> frame_enc m = b"
    by (simp add: frame_enc_def send_def Let_def)
qed

section \<open>Lemmas on the validity list\<close>

lemma add_valid_set:
  "set (snd (add_valid sha3 cr xs)) = insert (vc_fingerprint sha3 cr) (set xs)"
  "distinct (snd (add_valid sha3 cr xs)) = distinct xs"
  "fst (add_valid sha3 cr xs) \<longleftrightarrow> vc_fingerprint sha3 cr \<notin> set xs"
  by (auto simp: add_valid_def Let_def List.member_iff)

lemma revoke_set:
  "set (snd (revoke sha3 cr xs)) = set xs - {vc_fingerprint sha3 cr}"
  "distinct xs \<Longrightarrow> distinct (snd (revoke sha3 cr xs))"
  "fst (revoke sha3 cr xs) \<longleftrightarrow> vc_fingerprint sha3 cr \<in> set xs"
proof -
  show "set (snd (revoke sha3 cr xs)) = set xs - {vc_fingerprint sha3 cr}" by (auto simp: revoke_def Let_def)
  show "distinct xs \<Longrightarrow> distinct (snd (revoke sha3 cr xs))" by (simp add: revoke_def Let_def)
  have "length (filter (\<lambda>c. c \<noteq> e) xs) \<noteq> length xs \<longleftrightarrow> e \<in> set xs" for e :: "32 barr"
    by (metis (mono_tags) filter_True length_filter_less less_irrefl)
  then show "fst (revoke sha3 cr xs) \<longleftrightarrow> vc_fingerprint sha3 cr \<in> set xs" by (simp add: revoke_def Let_def)
qed

lemma is_valid_set: "is_valid sha3 xs cr \<longleftrightarrow> vc_fingerprint sha3 cr \<in> set xs"
  by (simp add: is_valid_def List.member_iff)

section \<open>Lemmas on the volumes\<close>

lemma seed_preimage_inj:
  assumes "seed_preimage secret run_id i = seed_preimage secret' run_id' i'" and "length run_id = length run_id'"
    and "i \<le> usize_max" and "i' \<le> usize_max"
  shows "as_bytes secret = as_bytes secret' \<and> run_id = run_id' \<and> i = i'"
proof -
  have e: "(as_bytes secret @ run_id) @ u64_to_le (word_of_nat i) = (as_bytes secret' @ run_id') @ u64_to_le (word_of_nat i')"
    using assms(1) by (simp add: seed_preimage_def)
  have "length (u64_to_le (word_of_nat i)) = length (u64_to_le (word_of_nat i'))" by simp
  then have "as_bytes secret @ run_id = as_bytes secret' @ run_id' \<and> u64_to_le (word_of_nat i) = u64_to_le (word_of_nat i')"
    using iffD1 [OF append_eq_append_conv e] by blast
  then have "as_bytes secret @ run_id = as_bytes secret' @ run_id'" and w: "(word_of_nat i :: u64) = word_of_nat i'"
    by simp_all
  moreover have "i = i'" using arg_cong [OF w, of unat] assms(3,4) by (simp add: unat_of_nat usize_max_def)
  ultimately show ?thesis using assms(2) by (simp add: append_eq_append_conv)
qed

lemma publish_effect:
  assumes "publish f dir bs s = (Inr p, s')"
  shows "published_record ReadClean dir s' = Some bs \<and> stable s' (dir @ [CURRENT_RECORD]) = Some bs"
  using assms replace_file_ok [of f "dir @ [CURRENT_RECORD]" bs s s']
  by (auto simp: publish_def write_atomic_def published_record_def split: prod.splits sum.splits)

section \<open>Properties\<close>

text \<open>
  C28. Frames are read as sent: receiving from a stream yields a message and a rest exactly when the
  stream starts with what sending that message writes; every other stream is an error, and a header
  that announces more than the ceiling is refused whatever follows it.
\<close>

theorem frames_are_read_as_sent:
  "(recv stream = Inr ((kind, payload), rest) \<longleftrightarrow>
      length payload \<le> MAX_FRAME \<and> stream = snd (send WriteClean kind payload) @ rest)
   \<and> (recv (kind # u32_to_le n @ rest) = Inl (InboundTooLarge (unat n)) \<longleftrightarrow> MAX_FRAME < unat n)"
proof
  have s: "snd (send WriteClean kind payload) = kind # u32_to_le (word_of_nat (length payload)) @ payload"
    if "length payload \<le> MAX_FRAME" using that by (simp add: send_def Let_def)
  show "recv stream = Inr ((kind, payload), rest) \<longleftrightarrow>
      length payload \<le> MAX_FRAME \<and> stream = snd (send WriteClean kind payload) @ rest"
    using recv_frame [of payload kind rest] recv_Inr [of stream kind payload rest] s by auto
  have "take 5 (kind # u32_to_le n @ rest) = kind # u32_to_le n" by simp
  then show "recv (kind # u32_to_le n @ rest) = Inl (InboundTooLarge (unat n)) \<longleftrightarrow> MAX_FRAME < unat n"
    by (simp add: recv_def Let_def)
qed

text \<open>
  C29. The validity list is a set of fingerprints: issuing inserts the credential's fingerprint and
  reports whether it was new, revoking removes exactly that fingerprint and reports whether it was
  there, a lookup asks for membership, and issuing never creates a duplicate.
\<close>

theorem validity_list_is_a_set:
  "set (snd (add_valid sha3 cr xs)) = insert (vc_fingerprint sha3 cr) (set xs)
   \<and> fst (add_valid sha3 cr xs) = (\<not> is_valid sha3 xs cr)
   \<and> set (snd (revoke sha3 cr xs)) = set xs - {vc_fingerprint sha3 cr}
   \<and> fst (revoke sha3 cr xs) = is_valid sha3 xs cr
   \<and> is_valid sha3 xs cr = (vc_fingerprint sha3 cr \<in> set xs)
   \<and> distinct (snd (add_valid sha3 cr xs)) = distinct xs"
  using add_valid_set [where ?sha3.0 = sha3 and cr = cr and xs = xs] revoke_set [where ?sha3.0 = sha3 and cr = cr and xs = xs] by (auto simp: is_valid_set)

text \<open>The instant of a turn, were it reached, and of its look at the clock.\<close>

primrec turn_begins :: "watch \<Rightarrow> nat \<Rightarrow> nat" where
  "turn_begins w 0 = wt_start w"
| "turn_begins w (Suc n) = turn_begins w n + wt_takes w n + (POLL_INTERVAL + wt_oversleeps w n)"

definition turn_checks :: "watch \<Rightarrow> nat \<Rightarrow> nat" where
  "turn_checks w n = turn_begins w n + wt_takes w n"

text \<open>A read that gives the loop nothing to return.\<close>

definition nothing_yet :: "watch \<Rightarrow> nat \<Rightarrow> bool" where
  "nothing_yet w n \<longleftrightarrow> wt_reads w n = None \<or> wt_reads w n = Some []"

lemma turns_take_time: "wt_start w + n * POLL_INTERVAL \<le> turn_begins w n"
  by (induction n) simp_all

text \<open>The turn that ends the loop, counted from any turn the loop has reached.\<close>

lemma wait_loop_ends:
  assumes "list_all (\<lambda>k. nothing_yet w k \<and> turn_checks w k < deadline) [0..<m]"
  shows "\<exists>n. list_all (\<lambda>k. nothing_yet w k \<and> turn_checks w k < deadline) [0..<n]
    \<and> (if nothing_yet w n then deadline \<le> turn_checks w n \<and> wait_loop w deadline m (turn_begins w m) = Inl ()
       else wait_loop w deadline m (turn_begins w m) = Inr (the (wt_reads w n)))"
  using assms
proof (induction "deadline - turn_begins w m" arbitrary: m rule: less_induct)
  case less
  show ?case
  proof (cases "nothing_yet w m \<and> turn_checks w m < deadline")
    case True
    then have step: "wait_loop w deadline m (turn_begins w m) = wait_loop w deadline (Suc m) (turn_begins w (Suc m))"
      by (subst wait_loop.simps) (auto simp: nothing_yet_def turn_checks_def Let_def)
    have "deadline - turn_begins w (Suc m) < deadline - turn_begins w m"
      using True by (intro diff_less_mono2) (auto simp: turn_checks_def POLL_INTERVAL_def)
    moreover have "list_all (\<lambda>k. nothing_yet w k \<and> turn_checks w k < deadline) [0..<Suc m]"
      using less.prems True by simp
    ultimately show ?thesis using less.hyps [of "Suc m"] unfolding step by blast
  next
    case False
    have "if nothing_yet w m then deadline \<le> turn_checks w m \<and> wait_loop w deadline m (turn_begins w m) = Inl ()
        else wait_loop w deadline m (turn_begins w m) = Inr (the (wt_reads w m))"
      using False by (subst (1 2) wait_loop.simps) (auto simp: nothing_yet_def turn_checks_def Let_def split: option.splits list.splits)
    then show ?thesis using less.prems by blast
  qed
qed

text \<open>
  C31. Waiting for a file ends, at the right moment: whatever the reads return, however long a turn takes
  and however late a sleep ends, there is a last turn. In every turn before it the read gave nothing
  and the clock was short of the start plus the timeout, so there are at most the timeout over the
  200 ms interval plus one of them. The last turn either finds the file non-empty, whose content is
  returned even past the deadline, or finds nothing and the deadline reached, which is the timeout.
\<close>

theorem waiting_ends_at_the_deadline:
  "\<exists>n. list_all (\<lambda>k. nothing_yet w k \<and> turn_checks w k < wt_start w + timeout) [0..<n]
     \<and> n * POLL_INTERVAL < timeout + POLL_INTERVAL
     \<and> (if nothing_yet w n then wt_start w + timeout \<le> turn_checks w n \<and> wait_for w timeout = Inl ()
        else wait_for w timeout = Inr (the (wt_reads w n)))"
proof -
  have "list_all (\<lambda>k. nothing_yet w k \<and> turn_checks w k < wt_start w + timeout) [0..<0]" by simp
  from wait_loop_ends [OF this, unfolded turn_begins.simps(1), folded wait_for_def]
  obtain n where n: "list_all (\<lambda>k. nothing_yet w k \<and> turn_checks w k < wt_start w + timeout) [0..<n]"
    "if nothing_yet w n then wt_start w + timeout \<le> turn_checks w n \<and> wait_for w timeout = Inl ()
     else wait_for w timeout = Inr (the (wt_reads w n))" by blast
  have "n * POLL_INTERVAL < timeout + POLL_INTERVAL"
  proof (cases n)
    case (Suc k)
    then have "turn_checks w k < wt_start w + timeout" using n(1) by simp
    then show ?thesis using turns_take_time [of w k] Suc by (simp add: turn_checks_def)
  qed (simp add: POLL_INTERVAL_def)
  then show ?thesis using n by blast
qed

end
