(* ===== verification/Demo_Round.thy ===== *)
theory Demo_Round
  imports Demo_Wire Relying_Party
begin

text \<open>
  What node A does in one round, common to its two binaries (demo/src/bin/holder.rs and
  demo/src/bin/mldsa_holder.rs): ask for an update if the action needs one, fetch the published
  record, let the relying party judge it, and only then interpret membership. The two binaries
  differ in how a record is accepted and listed, in whom they ask, and in their texts, which are
  arguments here and are given by the theories of the two holders.

  The lemmas, in a locale that extends the contract of a relying party, show what a round that
  reports success has established.
\<close>

section \<open>Actions and texts\<close>

text \<open>A subject is the bytes of its UTF-8 text.\<close>

datatype action = Issue bytes | Revoke | Verify

text \<open>\<open>ExpectIssuedCredential\<close> stands for the panic of an \<open>expect\<close>.\<close>

datatype round_error = RoundFailed string | ExpectIssuedCredential

record round_texts =
  rt_refused :: string
  rt_stale :: "u32 \<Rightarrow> string"
  rt_version :: "u32 \<Rightarrow> u32 \<Rightarrow> string"
  rt_absent :: "u32 \<Rightarrow> string"
  rt_present :: "u32 \<Rightarrow> string"
  rt_store :: "io_error \<Rightarrow> string"
  rt_no_credential :: "io_error \<Rightarrow> string"

text \<open>What a round meets outside its node.\<close>

record holder_io =
  ho_target :: "string option"
  ho_random :: u64
  ho_answer :: "usize \<Rightarrow> bytes \<Rightarrow> (wire_error, u8 \<times> bytes) result"
  ho_published :: "bytes option"
  ho_gate :: replace_fault
  ho_store :: replace_fault
  ho_read :: read_fault

section \<open>One round\<close>

definition credential_path :: "path \<Rightarrow> path" where
  "credential_path state_dir = state_dir @ [''credential.bin'']"

definition load_credential :: "read_fault \<Rightarrow> path \<Rightarrow> fs \<Rightarrow> (io_error, bytes) result" where
  "load_credential rdf state_dir s =
     (if rdf = ReadFails then Inl OtherIo
      else case files s (credential_path state_dir) of None \<Rightarrow> Inl NotFound | Some credential \<Rightarrow> Inr credential)"

definition load_credential_if_present :: "read_fault \<Rightarrow> path \<Rightarrow> fs \<Rightarrow> bytes option" where
  "load_credential_if_present rdf state_dir s = ok (load_credential rdf state_dir s)"

text \<open>The request to an aggregator, and whether the credential must end up in the list.\<close>

fun start_round ::
  "(u8 \<Rightarrow> bytes \<Rightarrow> (string, status_updated) result) \<Rightarrow> (io_error \<Rightarrow> string) \<Rightarrow> (io_error, bytes) result \<Rightarrow> action
    \<Rightarrow> (string, status_updated option \<times> bool option) result" where
  "start_round ask no_credential saved (Issue subject) = map_sum id (\<lambda>u. (Some u, Some True)) (ask ACTION_ISSUE subject)"
| "start_round ask no_credential saved Revoke =
     (case saved of
        Inl e \<Rightarrow> Inl (no_credential e)
      | Inr credential \<Rightarrow> map_sum id (\<lambda>u. (Some u, Some False)) (ask ACTION_REVOKE credential))"
| "start_round ask no_credential saved Verify = Inr (None, None)"

definition summary :: "u32 \<Rightarrow> string \<Rightarrow> string \<Rightarrow> string" where
  "summary version operation note = ''v'' @ show_nat (unat version) @ '' verified, '' @ operation @ '', '' @ note"

definition version_mismatch :: "status_updated option \<Rightarrow> u32 \<Rightarrow> u32 option" where
  "version_mismatch updated version =
     (case updated of None \<Rightarrow> None | Some u \<Rightarrow> if su_version u \<noteq> version then Some (su_version u) else None)"

text \<open>From an authenticated version to the verdict.\<close>

definition conclude ::
  "round_texts \<Rightarrow> (bytes \<Rightarrow> 32 barr) \<Rightarrow> holder_io \<Rightarrow> path \<Rightarrow> status_updated option \<Rightarrow> bool option \<Rightarrow> 32 barr list \<Rightarrow> u32 \<Rightarrow> string \<Rightarrow> fs
    \<Rightarrow> (round_error, string) result \<times> fs" where
  "conclude tx sha3 io state_dir updated expected xs version note s =
     (case version_mismatch updated version of
        Some reported \<Rightarrow> (Inl (RoundFailed (rt_version tx reported version)), s)
      | None \<Rightarrow>
          let credential = (case updated of Some u \<Rightarrow> Some (su_credential u) | None \<Rightarrow> load_credential_if_present (ho_read io) state_dir s);
              membership = map_option (is_valid sha3 xs) credential
          in if expected = Some True \<and> membership = Some False then (Inl (RoundFailed (rt_absent tx version)), s)
             else if expected = Some False \<and> membership = Some True then (Inl (RoundFailed (rt_present tx version)), s)
             else case expected of
                    Some True \<Rightarrow>
                      (case credential of
                         None \<Rightarrow> (Inl ExpectIssuedCredential, s)
                       | Some cr \<Rightarrow>
                           (case write_atomic (ho_store io) (credential_path state_dir) cr s of
                              (Inl e, s') \<Rightarrow> (Inl (RoundFailed (rt_store tx e)), s')
                            | (Inr _, s') \<Rightarrow> (Inr (summary version ''credential issued and present: valid'' note), s')))
                  | Some False \<Rightarrow> (Inr (summary version ''credential removed: revoked'' note), s)
                  | None \<Rightarrow>
                      (Inr (summary version (case membership of
                          Some True \<Rightarrow> ''saved credential is present: valid''
                        | Some False \<Rightarrow> ''saved credential is absent: revoked''
                        | None \<Rightarrow> ''no saved credential to query'') note), s))"

text \<open>
  The round, over the node's own \<open>accept\<close> and \<open>listing\<close>: a refused record ends it, an accepted and
  a stale one go on to the verdict.
\<close>

definition run_round ::
  "(replace_fault \<Rightarrow> bytes \<Rightarrow> 'n \<Rightarrow> fs \<Rightarrow> outcome \<times> 'n \<times> fs) \<Rightarrow> ('n \<Rightarrow> bytes \<Rightarrow> 32 barr list)
    \<Rightarrow> (u8 \<Rightarrow> bytes \<Rightarrow> (string, status_updated) result) \<Rightarrow> round_texts \<Rightarrow> (bytes \<Rightarrow> 32 barr) \<Rightarrow> holder_io \<Rightarrow> path \<Rightarrow> action \<Rightarrow> 'n \<Rightarrow> fs
    \<Rightarrow> (round_error, string) result \<times> 'n \<times> fs" where
  "run_round accept listing ask tx sha3 io state_dir act n s =
     (case start_round ask (rt_no_credential tx) (load_credential (ho_read io) state_dir s) act of
        Inl why \<Rightarrow> (Inl (RoundFailed why), n, s)
      | Inr (updated, expected) \<Rightarrow>
          (case ho_published io of
             None \<Rightarrow> (Inl (RoundFailed ''nothing is published''), n, s)
           | Some bs \<Rightarrow>
               (case accept (ho_gate io) bs n s of
                  (out, n', s1) \<Rightarrow>
                    let xs = listing n' bs
                    in case (case out of
                               OutRefused \<Rightarrow> (Inl (RoundFailed (rt_refused tx)), s1)
                             | OutAccepted v \<Rightarrow> conclude tx sha3 io state_dir updated expected xs v (''high-water now v'' @ show_nat (unat v)) s1
                             | OutStale v m \<Rightarrow> conclude tx sha3 io state_dir updated expected xs v (rt_stale tx m) s1) of
                         (r, s2) \<Rightarrow> (r, n', s2))))"

text \<open>Whom to ask: the configured target, if it is a candidate, or a random candidate.\<close>

definition choose_target :: "(string \<Rightarrow> string) \<Rightarrow> (usize \<Rightarrow> string) \<Rightarrow> usize list \<Rightarrow> holder_io \<Rightarrow> (string, usize) result" where
  "choose_target bad_number not_allowed candidates io =
     (case ho_target io of
        Some raw \<Rightarrow>
          (case parse_unsigned usize_max (text_of raw) of
             Inl e \<Rightarrow> Inl (bad_number raw)
           | Inr target \<Rightarrow> if \<not> List.member candidates target then Inl (not_allowed target) else Inr target)
      | None \<Rightarrow> Inr (candidates ! unat (ho_random io mod word_of_nat (length candidates))))"

text \<open>
  The action a trigger asks for; the word \<open>default\<close> stands for the subject node A was started with.
  The text of a malformed request differs between the binaries.
\<close>

definition decode_trigger :: "status_request ssz \<Rightarrow> string \<Rightarrow> bytes \<Rightarrow> bytes \<Rightarrow> (string, action) result" where
  "decode_trigger R malformed subject payload =
     (case from_ssz_bytes R payload of
        Inl e \<Rightarrow> Inl (malformed @ e)
      | Inr rq \<Rightarrow>
          if sr_action rq = ACTION_VERIFY then Inr Verify
          else if sr_action rq = ACTION_REVOKE then Inr Revoke
          else if sr_action rq = ACTION_ISSUE then
            (case from_utf8 (sr_data rq) of
               None \<Rightarrow> Inl ''credential subject is not UTF-8''
             | Some _ \<Rightarrow> Inr (Issue (if sr_data rq = as_bytes ''default'' then subject else sr_data rq)))
          else Inl (''unknown status action '' @ show_nat (unat (sr_action rq))))"

section \<open>What a verdict rests on\<close>

lemma conclude_Inr:
  assumes "conclude tx sha3 io state_dir updated expected xs v note s = (Inr verdict, s')"
  shows "version_mismatch updated v = None"
    and "expected = Some True \<Longrightarrow> updated = Some u \<Longrightarrow>
      is_valid sha3 xs (su_credential u) \<and> stable s' (credential_path state_dir) = Some (su_credential u)"
    and "expected = Some False \<Longrightarrow> updated = Some u \<Longrightarrow> \<not> is_valid sha3 xs (su_credential u) \<and> s' = s"
    and "expected = None \<Longrightarrow> s' = s"
  using assms replace_file_ok [of "ho_store io" "credential_path state_dir" "su_credential u" s s']
  by (auto simp: conclude_def Let_def write_atomic_def split: option.splits if_splits prod.splits sum.splits bool.splits)

lemma no_missing_credential:
  "updated \<noteq> None \<Longrightarrow> fst (conclude tx sha3 io state_dir updated expected xs v note s) \<noteq> Inl ExpectIssuedCredential"
  "expected = None \<Longrightarrow> fst (conclude tx sha3 io state_dir updated expected xs v note s) \<noteq> Inl ExpectIssuedCredential"
  by (auto simp: conclude_def Let_def split: option.splits prod.splits sum.splits bool.splits)

lemma start_round_Inr:
  assumes "start_round ask none saved act = Inr (updated, expected)"
  shows "(case act of
      Issue subject \<Rightarrow> \<exists>u. ask ACTION_ISSUE subject = Inr u \<and> updated = Some u \<and> expected = Some True
    | Revoke \<Rightarrow> \<exists>cr u. saved = Inr cr \<and> ask ACTION_REVOKE cr = Inr u \<and> updated = Some u \<and> expected = Some False
    | Verify \<Rightarrow> updated = None \<and> expected = None)"
  using assms by (cases act) (auto simp: map_sum_eq_Inr split: sum.splits)

section \<open>Holders\<close>

text \<open>
  A relying party that can also list what it judged: for every record it judges authentic, \<open>listing\<close>
  is the list that record carries.
\<close>

locale listing_party = relying_party +
  fixes listing :: "'a \<Rightarrow> bytes \<Rightarrow> 32 barr list"
    and authentic :: "'a \<Rightarrow> u32 \<Rightarrow> 32 barr list \<Rightarrow> bytes \<Rightarrow> bool"
  assumes listing_authentic: "judge n b = Some v \<Longrightarrow> authentic n v (listing n b) b"
    and listing_with_mark: "listing (with_mark m n) = listing n"
begin

lemma accept_judged:
  assumes "accept rf b n s = (out, n', s')" and "out \<noteq> OutRefused"
  shows "\<exists>v. judge n b = Some v \<and> listing n' = listing n \<and> (out = OutAccepted v \<or> (\<exists>k. out = OutStale v k \<and> v \<le> k \<and> n' = n))"
proof (cases "judge n b")
  case None
  then show ?thesis using refuses [OF None, of rf s] assms by simp
next
  case (Some v)
  obtain o1 m' s1 where o: "outcome_advance rf (mark_of n) v s = (o1, m', s1)" by (metis prod.exhaust)
  with offers [OF Some, of rf s] assms have eq: "o1 = out" "n' = with_mark m' n" by simp_all
  then show ?thesis
    using Some o assms(2) outcome_advance_stale [of rf "mark_of n" v s] outcome_advance_accepted [of rf "mark_of n" v s]
    by (cases out) (auto simp: listing_with_mark same_mark)
qed

text \<open>
  A round that reports success interpreted an authentic record: its list, and no other, decided.
\<close>

lemma round_success:
  assumes "run_round accept listing ask tx sha3 io state_dir act n s = (Inr verdict, n', s')"
  shows "\<exists>bs v. ho_published io = Some bs \<and> judge n bs = Some v \<and> authentic n v (listing n bs) bs
    \<and> (case act of
         Issue subject \<Rightarrow> \<exists>u. ask ACTION_ISSUE subject = Inr u \<and> su_version u = v
           \<and> vc_fingerprint sha3 (su_credential u) \<in> set (listing n bs)
           \<and> stable s' (credential_path state_dir) = Some (su_credential u)
       | Revoke \<Rightarrow> \<exists>cr u. load_credential (ho_read io) state_dir s = Inr cr \<and> ask ACTION_REVOKE cr = Inr u \<and> su_version u = v
           \<and> vc_fingerprint sha3 (su_credential u) \<notin> set (listing n bs)
       | Verify \<Rightarrow> True)"
proof -
  obtain updated expected where st: "start_round ask (rt_no_credential tx) (load_credential (ho_read io) state_dir s) act = Inr (updated, expected)"
    using assms by (auto simp: run_round_def split: sum.splits)
  obtain bs where bs: "ho_published io = Some bs" using assms st by (auto simp: run_round_def split: option.splits)
  obtain out n1 s1 where ac: "accept (ho_gate io) bs n s = (out, n1, s1)" by (metis prod_cases3)
  have "out \<noteq> OutRefused" using assms st bs ac by (auto simp: run_round_def Let_def)
  then obtain v where v: "judge n bs = Some v" "listing n1 = listing n" "out = OutAccepted v \<or> (\<exists>k. out = OutStale v k)"
    using accept_judged [OF ac] by blast
  obtain nt where c: "conclude tx sha3 io state_dir updated expected (listing n bs) v nt s1 = (Inr verdict, s')"
    using assms st bs ac v by (auto simp: run_round_def Let_def split: prod.splits)
  have upd: "su_version u = v" if "updated = Some u" for u
    using conclude_Inr(1) [OF c] that by (simp add: version_mismatch_def split: if_splits)
  show ?thesis
    using bs v(1) listing_authentic [OF v(1)] start_round_Inr [OF st] upd conclude_Inr(2,3) [OF c]
    by (cases act) (auto simp: is_valid_set)
qed

text \<open>The \<open>expect\<close> never fires.\<close>

lemma round_no_panic: "fst (run_round accept listing ask tx sha3 io state_dir act n s) \<noteq> Inl ExpectIssuedCredential"
proof -
  have never: False
    if "conclude tx sha3 io state_dir updated expected xs v nt s1 = (Inl ExpectIssuedCredential, s2)"
      "start_round ask none saved act = Inr (updated, expected)" for updated expected xs v nt s1 s2 none saved
    using start_round_Inr [OF that(2)] no_missing_credential that(1) by (cases act) (auto, (metis fst_conv option.distinct(1))+)
  then show ?thesis
    by (auto simp: run_round_def Let_def split: sum.splits option.splits prod.splits outcome.splits)
qed

text \<open>A record at or below the mark is still interpreted, and nothing moves.\<close>

lemma stale_verify:
  assumes "ho_published io = Some bs" and "judge n bs = Some v" and "m_have (mark_of n)" and "v \<le> m_current (mark_of n)"
  shows "run_round accept listing ask tx sha3 io state_dir Verify n s =
    (Inr (summary v (case map_option (is_valid sha3 (listing n bs)) (load_credential_if_present (ho_read io) state_dir s) of
        Some True \<Rightarrow> ''saved credential is present: valid''
      | Some False \<Rightarrow> ''saved credential is absent: revoked''
      | None \<Rightarrow> ''no saved credential to query'') (rt_stale tx (m_current (mark_of n)))), n, s)"
proof -
  have "outcome_advance (ho_gate io) (mark_of n) v s = (OutStale v (m_current (mark_of n)), mark_of n, s)"
    using assms(3,4) by (simp add: outcome_advance_stale)
  then have "accept (ho_gate io) bs n s = (OutStale v (m_current (mark_of n)), n, s)"
    using offers [OF assms(2), of "ho_gate io" s] by (simp add: same_mark)
  then show ?thesis
    using assms(1) by (simp add: run_round_def conclude_def version_mismatch_def Let_def)
qed

text \<open>A revocation is confirmed on the credential of the answer, not on the one that was sent.\<close>

lemma revoke_judges_answer:
  assumes "ho_published io = Some bs" and "judge n bs = Some v" and "fst (accept (ho_gate io) bs n s) \<noteq> OutRefused"
    and "load_credential (ho_read io) state_dir s = Inr cr" and "ask ACTION_REVOKE cr = Inr u" and "su_version u = v"
    and "vc_fingerprint sha3 (su_credential u) \<notin> set (listing n bs)"
  shows "\<exists>why. fst (run_round accept listing ask tx sha3 io state_dir Revoke n s) = Inr (summary v ''credential removed: revoked'' why)"
proof -
  obtain out n' s' where a: "accept (ho_gate io) bs n s = (out, n', s')" by (metis prod_cases3)
  then have "out \<noteq> OutRefused" using assms(3) by simp
  from accept_judged [OF a this] show ?thesis
    using assms a by (auto simp: run_round_def conclude_def version_mismatch_def Let_def is_valid_set)
qed

text \<open>An issuance that is in the authentic record is reported and saved.\<close>

lemma issue_judges_answer:
  assumes "ho_published io = Some bs" and "judge n bs = Some v" and "fst (accept (ho_gate io) bs n s) \<noteq> OutRefused"
    and "ho_store io = ReplaceClean" and "ask ACTION_ISSUE subject = Inr u" and "su_version u = v"
    and "vc_fingerprint sha3 (su_credential u) \<in> set (listing n bs)"
  shows "\<exists>why n' s'. run_round accept listing ask tx sha3 io state_dir (Issue subject) n s =
    (Inr (summary v ''credential issued and present: valid'' why), n', s')"
proof -
  obtain out n' s' where a: "accept (ho_gate io) bs n s = (out, n', s')" by (metis prod_cases3)
  then have "out \<noteq> OutRefused" using assms(3) by simp
  from accept_judged [OF a this] show ?thesis
    using assms a by (auto simp: run_round_def conclude_def version_mismatch_def Let_def is_valid_set write_atomic_def
        replace_file_def)
qed

end

end
