(* ===== verification/Params.thy ===== *)
theory Params
  imports Rust_Text
begin

text \<open>
  The build parameters (src/params.rs): the constants, the compile-time parser of the two benchmark
  overrides, and the assertions that must hold for the crate to build at all. A failed assertion or
  a panic during constant evaluation is a build error.

  The lemmas show that the parser is exact on canonical decimals and refuses everything else it is
  meant to refuse, and that a crate that builds has a satisfiable threshold and slots for its
  updates and its forgeries that are pairwise distinct and inside the key window.
\<close>

section \<open>Constants\<close>

definition SLOT :: u32 where "SLOT = 43"
definition DEFAULT_N_MEMBERS :: usize where "DEFAULT_N_MEMBERS = 200"
definition DEFAULT_T :: usize where "DEFAULT_T = 128"
definition N_UPDATES :: usize where "N_UPDATES = 20"
definition KEY_SLOTS :: u32 where "KEY_SLOTS = 64"
definition LOG_INV_RATE :: usize where "LOG_INV_RATE = 2"

section \<open>The parser of the overrides\<close>

datatype build_error = ParameterEmpty | ParameterNotDecimal | ParameterOverflow | ForgerySlotsCollide | ThresholdUnsatisfiable

fun benchmark_digits :: "usize \<Rightarrow> bytes \<Rightarrow> (build_error, usize) result" where
  "benchmark_digits acc [] = Inr acc"
| "benchmark_digits acc (digit # rest) =
     (if \<not> (digit \<ge> 48 \<and> digit \<le> 57) then Inl ParameterNotDecimal
      else case usize_checked_mul acc 10 of
             None \<Rightarrow> Inl ParameterOverflow
           | Some tens \<Rightarrow>
               (case usize_checked_add tens (unat (digit - 48)) of
                  None \<Rightarrow> Inl ParameterOverflow
                | Some v \<Rightarrow> benchmark_digits v rest))"

definition benchmark_usize :: "bytes option \<Rightarrow> usize \<Rightarrow> (build_error, usize) result" where
  "benchmark_usize val fallback =
     (case val of
        None \<Rightarrow> Inr fallback
      | Some bs \<Rightarrow> if bs = [] then Inl ParameterEmpty else benchmark_digits 0 bs)"

text \<open>
  The two parameters of a build, from the environment the compiler sees, and the two assertions on
  them: the forgery slots of the security tests stay apart, and the threshold is satisfiable.
\<close>

record build =
  N_MEMBERS :: usize
  T :: usize

definition build_params :: "bytes option \<Rightarrow> bytes option \<Rightarrow> (build_error, build) result" where
  "build_params env_n env_t =
     (case benchmark_usize env_n DEFAULT_N_MEMBERS of
        Inl e \<Rightarrow> Inl e
      | Inr n \<Rightarrow>
          (case benchmark_usize env_t DEFAULT_T of
             Inl e \<Rightarrow> Inl e
           | Inr t \<Rightarrow>
               if \<not> N_UPDATES + 1 < unat KEY_SLOTS then Inl ForgerySlotsCollide
               else if \<not> (t \<ge> 1 \<and> t \<le> n) then Inl ThresholdUnsatisfiable
               else Inr \<lparr>N_MEMBERS = n, T = t\<rparr>))"

section \<open>Lemmas\<close>

lemma digit_value: "48 \<le> d \<Longrightarrow> d \<le> 57 \<Longrightarrow> unat (d - 48 :: u8) = unat d - 48"
  by (simp add: word_le_nat_alt unat_sub)

lemma benchmark_digits_step:
  assumes "48 \<le> d" and "d \<le> 57"
  shows "benchmark_digits acc (d # bs) =
    (if acc * 10 + (unat d - 48) \<le> usize_max then benchmark_digits (acc * 10 + (unat d - 48)) bs else Inl ParameterOverflow)"
proof -
  obtain k where "unat d - 48 = k" "unat (d - 48) = k" using digit_value [OF assms] by simp
  then show ?thesis using assms by (simp add: usize_checked_mul_def usize_checked_add_def)
qed

lemma parse_digits_step:
  assumes "48 \<le> c" and "c \<le> 57"
  shows "parse_digits m acc (c # cs) =
    (if acc * 10 + (c - 48) \<le> m then parse_digits m (acc * 10 + (c - 48)) cs else Inl PosOverflow)"
proof -
  obtain k where "c - 48 = k" by simp
  then show ?thesis using assms by simp
qed

text \<open>The parser agrees with the standard library's, digit by digit.\<close>

lemma benchmark_digits_parse:
  "benchmark_digits acc bs = Inr v \<longleftrightarrow> parse_digits usize_max acc (map unat bs) = Inr v"
proof (induction bs arbitrary: acc)
  case (Cons d bs)
  show ?case
  proof (cases "48 \<le> d \<and> d \<le> 57")
    case True
    then have "48 \<le> unat d" "unat d \<le> 57" by (simp_all add: word_le_nat_alt)
    then show ?thesis
      using True Cons [of "acc * 10 + (unat d - 48)"]
      by (simp only: list.map benchmark_digits_step parse_digits_step) simp
  next
    case False
    then show ?thesis by (simp add: word_le_nat_alt)
  qed
qed simp

lemma map_unat_as_bytes: "\<forall>c \<in> set s. of_char c < (128 :: nat) \<Longrightarrow> map unat (as_bytes s) = text_of s"
  by (simp add: as_bytes_def text_of_def unat_of_nat)

lemma show_nat_ascii: "\<forall>c \<in> set (show_nat n). of_char c < (128 :: nat)"
  using show_nat_digits [of n] by fastforce

lemma benchmark_usize_show: "n \<le> usize_max \<Longrightarrow> benchmark_usize (Some (as_bytes (show_nat n))) d = Inr n"
  using parse_digits_show_nat [of n usize_max] map_unat_as_bytes [OF show_nat_ascii [of n]]
  by (simp add: benchmark_usize_def benchmark_digits_parse) (simp add: as_bytes_def)

lemma benchmark_digits_decimal:
  "benchmark_digits acc bs = Inr v \<Longrightarrow> \<forall>b \<in> set bs. 48 \<le> b \<and> b \<le> 57"
  by (induction bs arbitrary: acc) (auto split: if_splits option.splits)

lemma benchmark_digits_bound: "acc \<le> usize_max \<Longrightarrow> benchmark_digits acc bs = Inr v \<Longrightarrow> v \<le> usize_max"
  by (induction bs arbitrary: acc)
    (auto simp: usize_checked_add_def split: if_splits option.splits)

text \<open>The value denoted by a decimal string.\<close>

fun decimal_value :: "nat \<Rightarrow> bytes \<Rightarrow> nat" where
  "decimal_value acc [] = acc"
| "decimal_value acc (d # ds) = decimal_value (acc * 10 + (unat d - 48)) ds"

lemma decimal_value_ge: "acc \<le> decimal_value acc bs"
proof (induction bs arbitrary: acc)
  case (Cons d bs)
  have "acc \<le> acc * 10 + (unat d - 48)" by simp
  also have "\<dots> \<le> decimal_value (acc * 10 + (unat d - 48)) bs" by (rule Cons)
  finally show ?case by simp
qed simp

lemma benchmark_digits_exact:
  assumes "\<forall>b \<in> set bs. 48 \<le> b \<and> b \<le> 57"
  shows "benchmark_digits acc bs =
    (if bs = [] \<or> decimal_value acc bs \<le> usize_max then Inr (decimal_value acc bs) else Inl ParameterOverflow)"
  using assms
proof (induction bs arbitrary: acc)
  case (Cons d bs)
  let ?v = "acc * 10 + (unat d - 48)"
  have "48 \<le> d" "d \<le> 57" using Cons.prems by auto
  note step = benchmark_digits_step [OF this, of acc bs]
  show ?case using Cons.IH [of ?v] Cons.prems step decimal_value_ge [of ?v bs] by (cases bs) auto
qed simp

section \<open>Properties\<close>

text \<open>
  The build-time parser is exact: an override is accepted exactly when it is a non-empty string
  of decimal digits whose value fits a \<open>usize\<close>, and then it is that value; there is no fallback to
  the default.
\<close>

theorem benchmark_override_is_exact:
  "benchmark_usize (Some bs) d = Inr v \<longleftrightarrow>
     bs \<noteq> [] \<and> list_all (\<lambda>b. 48 \<le> b \<and> b \<le> 57) bs \<and> decimal_value 0 bs = v \<and> v \<le> usize_max"
proof (cases "list_all (\<lambda>b. 48 \<le> b \<and> b \<le> 57) bs")
  case True
  then show ?thesis using benchmark_digits_exact [of bs 0] by (auto simp: benchmark_usize_def list_all_iff)
next
  case False
  then show ?thesis using benchmark_digits_decimal [of 0 bs v] by (auto simp: benchmark_usize_def list_all_iff)
qed

text \<open>The slots of a run: one per update, and three for the forgeries of the security tests.\<close>

definition run_slots :: "u32 list" where
  "run_slots = map (\<lambda>i. SLOT + word_of_nat i) [0..<N_UPDATES]
     @ [SLOT + word_of_nat N_UPDATES, SLOT + word_of_nat N_UPDATES + 1, SLOT + KEY_SLOTS]"

lemma run_slots_apart: "distinct run_slots" "\<forall>s \<in> set run_slots. SLOT \<le> s \<and> s \<le> SLOT + KEY_SLOTS"
  by (simp_all add: run_slots_def SLOT_def KEY_SLOTS_def N_UPDATES_def upt_rec)

lemma build_params_satisfiable: "build_params env_n env_t = Inr b \<Longrightarrow> 1 \<le> T b \<and> T b \<le> N_MEMBERS b"
  by (auto simp: build_params_def split: sum.splits if_splits)

lemma build_params_bounded: "build_params env_n env_t = Inr b \<Longrightarrow> N_MEMBERS b \<le> usize_max"
proof -
  assume b: "build_params env_n env_t = Inr b"
  then have "benchmark_usize env_n DEFAULT_N_MEMBERS = Inr (N_MEMBERS b)"
    by (auto simp: build_params_def split: sum.splits if_splits)
  then show ?thesis
    using benchmark_digits_bound [of 0] by (auto simp: benchmark_usize_def DEFAULT_N_MEMBERS_def usize_max_def split: option.splits if_splits)
qed

lemma build_params_default: "build_params None None = Inr \<lparr>N_MEMBERS = 200, T = 128\<rparr>"
  by (simp add: build_params_def benchmark_usize_def DEFAULT_N_MEMBERS_def DEFAULT_T_def N_UPDATES_def KEY_SLOTS_def)

end
