(* ===== verification/Demo_Member.thy ===== *)
theory Demo_Member
  imports Demo_Wire Params Signer_Node Raw_Verifier Snark_Path
begin

text \<open>
  A committee member of the demo network, who may also aggregate (demo/src/bin/signer.rs): start-up,
  the answer to a proposal, and the aggregator's round from a status request to the published
  record. A member keeps its slot counter on a private volume and shares the volume of the published
  record with everybody.

  What other members answer, and in which order their answers arrive before the signing window
  closes, are inputs of a round, as is the state of the shared volume when the record is published:
  other nodes run while the round collects. A panic is a value.

  The lemmas show that a member's key signs the versions in order and one list per version, that a
  proposal for any version but the next burns nothing, and that whatever the peers answer, a round
  that reports success has published a record the relying parties' predicate accepts.
\<close>

section \<open>Environment\<close>

text \<open>How errors of the libraries and of the parsers print; the texts only travel as reasons.\<close>

record demo_texts =
  tx_status :: "status_list_error \<Rightarrow> string"
  tx_state :: "state_reason \<Rightarrow> string"
  tx_io :: "io_error \<Rightarrow> string"
  tx_wire :: "wire_error \<Rightarrow> string"
  tx_lossy :: "bytes \<Rightarrow> string"

text \<open>The libraries a node links, the codecs of its messages, and the issuing of a credential.\<close>

record ('b, 'pk, 'sk, 'sig, 'rng, 'sph, 'agg) demo_env =
  e_hashes :: hashes
  e_bits :: "'b bitlist"
  e_raw_ssz :: "('b, 'sig) raw_wire ssz"
  e_snark_ssz :: "snark_wire ssz"
  e_anchor :: "'pk anchor_codecs"
  e_xmss :: "('pk, 'sk, 'sig, 'rng) xmss"
  e_leanvm :: "('pk, 'sig, 'sph, 'agg) leanvm"
  e_messages :: "'sig message_codecs"
  e_key_gen :: "32 barr \<Rightarrow> u32 \<Rightarrow> u32 \<Rightarrow> (string, 'sk \<times> 'pk) result"
  e_issue :: "'rng \<Rightarrow> ustr \<Rightarrow> u32 \<Rightarrow> usize \<Rightarrow> bytes"
  e_texts :: demo_texts

text \<open>
  A member. \<open>mb_round_poisoned\<close> is the state of the round lock: a thread that panics while it coordinates a
  round leaves it poisoned.
\<close>

record ('pk, 'sk) member =
  mb_index :: usize
  mb_mode :: mode
  mb_committee :: "'pk committee"
  mb_signer :: "('pk, 'sk) signer_node"
  mb_can_aggregate :: bool
  mb_prover :: bool
  mb_round_poisoned :: bool
  mb_rounds_served :: usize

section \<open>Texts\<close>

definition show_counter_error :: "demo_texts \<Rightarrow> counter_error \<Rightarrow> string" where
  "show_counter_error tx e =
     (case e of
        Exhausted nxt stop \<Rightarrow> ''slot window exhausted (next '' @ show_nat (unat nxt) @ '' > end '' @ show_nat (unat stop)
          @ ''); re-key required''
      | AlreadySpent requested nxt \<Rightarrow> ''slot '' @ show_nat (unat requested) @ '' already spent (next free ''
          @ show_nat (unat nxt) @ ''); abstaining from this round''
      | State m \<Rightarrow> ''unusable slot state: '' @ tx_state tx m
      | Busy \<Rightarrow> ''another process holds this key''
      | Io io \<Rightarrow> ''slot state I/O failed: '' @ tx_io tx io)"

definition show_signer_error :: "demo_texts \<Rightarrow> signer_node_error \<Rightarrow> string" where
  "show_signer_error tx e =
     (case e of
        SlotError c \<Rightarrow> show_counter_error tx c
      | SignError m \<Rightarrow> ''signing failed: '' @ m
      | ExpectTimings \<Rightarrow> [])"

text \<open>\<open>Debug\<close> of a duration of whole milliseconds.\<close>

definition drop_trailing_zeros :: "string \<Rightarrow> string" where
  "drop_trailing_zeros s = rev (dropWhile (\<lambda>c. c = CHR ''0'') (rev s))"

definition three_digits :: "nat \<Rightarrow> string" where
  "three_digits n = (if n < 10 then ''00'' else if n < 100 then ''0'' else []) @ show_nat n"

definition show_millis :: "nat \<Rightarrow> string" where
  "show_millis ms =
     (if ms = 0 then ''0ns''
      else if ms < 1000 then show_nat ms @ ''ms''
      else show_nat (ms div 1000)
        @ (if ms mod 1000 = 0 then [] else ''.'' @ drop_trailing_zeros (three_digits (ms mod 1000))) @ ''s'')"

section \<open>Answering a proposal\<close>

definition abstain :: "('b, 'pk, 'sk, 'sig, 'rng, 'sph, 'agg) demo_env \<Rightarrow> string \<Rightarrow> bytes" where
  "abstain E reason = as_ssz_bytes (reply_ssz (e_messages E)) \<lparr>rp_signature = [], rp_reason = as_bytes reason\<rparr>"

definition fail_with :: "('b, 'pk, 'sk, 'sig, 'rng, 'sph, 'agg) demo_env \<Rightarrow> string \<Rightarrow> u8 \<times> bytes" where
  "fail_with E reason = (MSG_FAILURE, failure_of (failure_ssz (e_messages E)) reason)"

definition decode_list ::
  "('b, 'pk, 'sk, 'sig, 'rng, 'sph, 'agg) demo_env \<Rightarrow> mode \<Rightarrow> bytes \<Rightarrow> (status_list_error, u32 \<times> 32 barr list) result" where
  "decode_list E m bs =
     (case m of
        Raw \<Rightarrow> map_sum id (\<lambda>r. (sl_version r, sl_status_list r)) (status_list_from_bytes (e_bits E) (e_raw_ssz E) bs)
      | Snark \<Rightarrow> map_sum id (\<lambda>r. (ss_version r, ss_status_list r)) (snark_from_bytes (e_snark_ssz E) bs))"

text \<open>
  The version that follows the published record and the list it starts from, or why there is none.
  Both handlers begin with it.
\<close>

definition next_version ::
  "('b, 'pk, 'sk, 'sig, 'rng, 'sph, 'agg) demo_env \<Rightarrow> mode \<Rightarrow> bytes option \<Rightarrow> (string, u32 \<times> 32 barr list) result" where
  "next_version E m published =
     (case published of
        None \<Rightarrow> Inr (0, [])
      | Some bs \<Rightarrow>
          (case decode_list E m bs of
             Inl e \<Rightarrow> Inl (''published record is unreadable: '' @ tx_status (e_texts E) e)
           | Inr (v, xs) \<Rightarrow>
               (case checked_add v 1 of
                  None \<Rightarrow> Inl ''the status-list version is exhausted''
                | Some nxt \<Rightarrow> Inr (nxt, xs))))"

definition on_proposal ::
  "('b, 'pk, 'sk, 'sig, 'rng, 'sph, 'agg) demo_env \<Rightarrow> persist_fault \<Rightarrow> 'rng \<Rightarrow> bytes option \<Rightarrow> bytes
    \<Rightarrow> ('pk, 'sk) member \<Rightarrow> fs \<Rightarrow> (u8 \<times> bytes) \<times> ('pk, 'sk) member \<times> fs" where
  "on_proposal E f rng published payload mb s =
     (case from_ssz_bytes (proposal_ssz (e_messages E)) payload of
        Inl e \<Rightarrow> (fail_with E (''malformed proposal: '' @ e), mb, s)
      | Inr p \<Rightarrow>
          (case next_version E (mb_mode mb) published of
             Inl why \<Rightarrow> ((MSG_SIGNATURE, abstain E why), mb, s)
           | Inr (expected, _) \<Rightarrow>
               if pr_version p \<noteq> expected
               then ((MSG_SIGNATURE, abstain E (''version '' @ show_nat (unat (pr_version p)) @ '' is not the next version ''
                        @ show_nat (unat expected))), mb, s)
               else case slot_for (mb_committee mb) (pr_version p) of
                      None \<Rightarrow> ((MSG_SIGNATURE, abstain E ''version has no slot under this anchor''), mb, s)
                    | Some slot \<Rightarrow>
                        let message = message_for (blake2s_256 (e_hashes E)) (mb_committee mb) WotsXmss (pr_list p) (pr_version p)
                        in case sign_at (sha3_256 (e_hashes E)) (e_xmss E) f rng message slot (mb_signer mb) s of
                             (Inr sig, n', s') \<Rightarrow>
                               ((MSG_SIGNATURE, as_ssz_bytes (reply_ssz (e_messages E)) \<lparr>rp_signature = [sig], rp_reason = []\<rparr>),
                                mb\<lparr>mb_signer := n'\<rparr>, s')
                           | (Inl e, n', s') \<Rightarrow>
                               ((MSG_SIGNATURE, abstain E (show_signer_error (e_texts E) e)), mb\<lparr>mb_signer := n'\<rparr>, s')))"

section \<open>Collecting signatures\<close>

datatype member_panic = RoundLockPoisoned | ExpectCheckedByCaller | AssertFreshCredential | MemberIndexOutOfRange usize | ProverPanicked prover_panic

text \<open>What the thread that asked one member sends to the channel, if anything.\<close>

definition member_signature :: "'sig message_codecs \<Rightarrow> (wire_error, u8 \<times> bytes) result \<Rightarrow> 'sig option" where
  "member_signature M answer =
     (case answer of
        Inl e \<Rightarrow> None
      | Inr (kind, payload) \<Rightarrow>
          if kind = MSG_SIGNATURE
          then case from_ssz_bytes (reply_ssz M) payload of
                 Inl e \<Rightarrow> None
               | Inr reply \<Rightarrow> (case rp_signature reply of [] \<Rightarrow> None | sig # _ \<Rightarrow> Some sig)
          else None)"

fun arrivals :: "'sig message_codecs \<Rightarrow> (usize \<Rightarrow> (wire_error, u8 \<times> bytes) result) \<Rightarrow> usize list \<Rightarrow> (usize \<times> 'sig) list" where
  "arrivals M answers [] = []"
| "arrivals M answers (i # is) =
     (case member_signature M (answers i) of None \<Rightarrow> arrivals M answers is | Some sig \<Rightarrow> (i, sig) # arrivals M answers is)"

text \<open>The receiving loop; the end of the list is the closed channel or the closed window.\<close>

fun count_signatures ::
  "('pk, 'sk, 'sig, 'rng) xmss \<Rightarrow> 'pk committee \<Rightarrow> 32 barr \<Rightarrow> u32 \<Rightarrow> (usize \<times> 'sig) list \<Rightarrow> (usize \<times> 'sig) list
    \<Rightarrow> (member_panic, (usize \<times> 'sig) list) result" where
  "count_signatures X c message slot [] quorum = Inr quorum"
| "count_signatures X c message slot ((i, sig) # channel) quorum =
     (if length quorum \<ge> THRESHOLD then Inr quorum
      else if i \<ge> length (members c) then Inl (MemberIndexOutOfRange i)
      else case verify_signature X \<lparr>v_committee = c\<rparr> (members c ! i) sig message slot of
             Inl e \<Rightarrow> count_signatures X c message slot channel quorum
           | Inr _ \<Rightarrow> count_signatures X c message slot channel (quorum @ [(i, sig)]))"

definition collect_signatures ::
  "('b, 'pk, 'sk, 'sig, 'rng, 'sph, 'agg) demo_env \<Rightarrow> 'pk committee \<Rightarrow> proposal \<Rightarrow> (usize \<Rightarrow> (wire_error, u8 \<times> bytes) result) \<Rightarrow> usize list
    \<Rightarrow> (member_panic, (usize \<times> 'sig) list) result" where
  "collect_signatures E c p answers order =
     (let message = message_for (blake2s_256 (e_hashes E)) c WotsXmss (pr_list p) (pr_version p)
      in case slot_for c (pr_version p) of
           None \<Rightarrow> Inl ExpectCheckedByCaller
         | Some slot \<Rightarrow> count_signatures (e_xmss E) c message slot (arrivals (e_messages E) answers order) [])"

section \<open>The record\<close>

definition build_record ::
  "('b, 'pk, 'sk, 'sig, 'rng, 'sph, 'agg) demo_env \<Rightarrow> ('pk, 'sk) member \<Rightarrow> 32 barr list \<Rightarrow> u32 \<Rightarrow> (usize \<times> 'sig) list
    \<Rightarrow> (member_panic, (string, bytes) result) result" where
  "build_record E mb xs version quorum =
     (case mb_mode mb of
        Raw \<Rightarrow>
          (case status_list_new (e_bits E) WotsXmss xs version DEMO_N_MEMBERS quorum of
             Inl e \<Rightarrow> Inr (Inl (tx_status (e_texts E) e))
           | Inr r \<Rightarrow> Inr (Inr (status_list_to_bytes (e_raw_ssz E) r)))
      | Snark \<Rightarrow>
          let ms = members (mb_committee mb); raws = map (\<lambda>(i, sig). (ms ! i, sig)) quorum
          in if \<not> mb_prover mb
             then Inr (Inl (''member '' @ show_nat (mb_index mb) @ '' is not a configured SNARK aggregator''))
             else case make_proof (e_leanvm E) (blake2s_256 (e_hashes E)) (mb_committee mb) WotsXmss raws xs version LOG_INV_RATE of
                    Inl e \<Rightarrow> Inl (ProverPanicked e)
                  | Inr bs \<Rightarrow> Inr (Inr (snark_to_bytes (e_snark_ssz E) (snark_new WotsXmss xs version bs))))"

section \<open>The aggregator's round\<close>

text \<open>The snapshot the request asks for, with the credential it is about.\<close>

definition apply_request ::
  "('b, 'pk, 'sk, 'sig, 'rng, 'sph, 'agg) demo_env \<Rightarrow> 'rng \<Rightarrow> usize \<Rightarrow> status_request \<Rightarrow> u32 \<Rightarrow> 32 barr list
    \<Rightarrow> (member_panic, (string, bytes \<times> 32 barr list) result) result" where
  "apply_request E rng index rq version xs =
     (if sr_action rq = ACTION_ISSUE then
        case from_utf8 (sr_data rq) of
          None \<Rightarrow> Inr (Inl ''credential subject is not UTF-8'')
        | Some subject \<Rightarrow>
            if subject = [] then Inr (Inl ''credential subject is empty'')
            else let credential = e_issue E rng subject version index;
                     (added, ys) = add_valid (sha3_256 (e_hashes E)) credential xs
                 in if \<not> added then Inl AssertFreshCredential else Inr (Inr (credential, ys))
      else if sr_action rq = ACTION_REVOKE then
        if sr_data rq = [] then Inr (Inl ''revocation requires the canonical credential bytes'')
        else let (removed, ys) = revoke (sha3_256 (e_hashes E)) (sr_data rq) xs
             in if \<not> removed then Inr (Inl ''credential is not valid in the current snapshot'')
                else Inr (Inr (sr_data rq, ys))
      else Inr (Inl (''unknown status action '' @ show_nat (unat (sr_action rq)))))"

text \<open>What a round meets outside its node.\<close>

record 'rng round_io =
  ri_published :: "bytes option"
  ri_rng :: 'rng
  ri_answers :: "usize \<Rightarrow> (wire_error, u8 \<times> bytes) result"
  ri_order :: "usize list"
  ri_window :: "ustr option"
  ri_publish :: replace_fault

definition on_status_request ::
  "('b, 'pk, 'sk, 'sig, 'rng, 'sph, 'agg) demo_env \<Rightarrow> 'rng round_io \<Rightarrow> path \<Rightarrow> bytes \<Rightarrow> ('pk, 'sk) member \<Rightarrow> fs
    \<Rightarrow> (member_panic, u8 \<times> bytes) result \<times> ('pk, 'sk) member \<times> fs" where
  "on_status_request E io dir payload mb vol =
     (if \<not> mb_can_aggregate mb then
        (Inr (fail_with E (''member '' @ show_nat (mb_index mb) @ '' is signer-only in '' @ mode_as_str (mb_mode mb)
           @ '' mode; ask one of ['' @ format_indices (aggregator_indices (mb_mode mb)) @ '']'')), mb, vol)
      else case from_ssz_bytes (request_ssz (e_messages E)) payload of
        Inl e \<Rightarrow> (Inr (fail_with E (''malformed request: '' @ e)), mb, vol)
      | Inr rq \<Rightarrow>
          if mb_round_poisoned mb then (Inl RoundLockPoisoned, mb, vol)
          else (case next_version E (mb_mode mb) (ri_published io) of
             Inl why \<Rightarrow> (Inr (fail_with E why), mb, vol)
           | Inr (version, xs) \<Rightarrow>
               (case apply_request E (ri_rng io) (mb_index mb) rq version xs of
                  Inl p \<Rightarrow> (Inl p, mb\<lparr>mb_round_poisoned := True\<rparr>, vol)
                | Inr (Inl why) \<Rightarrow> (Inr (fail_with E why), mb, vol)
                | Inr (Inr (credential, ys)) \<Rightarrow>
                    (case collect_signatures E (mb_committee mb) \<lparr>pr_version = version, pr_list = ys\<rparr> (ri_answers io) (ri_order io) of
                       Inl p \<Rightarrow> (Inl p, mb\<lparr>mb_round_poisoned := True\<rparr>, vol)
                     | Inr quorum \<Rightarrow>
                         if length quorum < THRESHOLD then
                           (Inr (fail_with E (''only '' @ show_nat (length quorum) @ '' of '' @ show_nat THRESHOLD
                              @ '' signatures arrived within '' @ show_millis (unat (sign_window (ri_window io))))), mb, vol)
                         else case build_record E mb ys version quorum of
                                Inl p \<Rightarrow> (Inl p, mb\<lparr>mb_round_poisoned := True\<rparr>, vol)
                              | Inr (Inl why) \<Rightarrow> (Inr (fail_with E why), mb, vol)
                              | Inr (Inr bs) \<Rightarrow>
                                  (case publish (ri_publish io) dir bs vol of
                                     (Inl e, vol') \<Rightarrow> (Inr (fail_with E (''cannot publish: '' @ tx_io (e_texts E) e)), mb, vol')
                                   | (Inr _, vol') \<Rightarrow>
                                       (Inr (MSG_STATUS_UPDATED, as_ssz_bytes (updated_ssz (e_messages E))
                                               \<lparr>su_version = version, su_credential = credential\<rparr>),
                                        mb\<lparr>mb_rounds_served := (mb_rounds_served mb + 1) mod (usize_max + 1)\<rparr>, vol'))))))"

section \<open>Serving a connection\<close>

text \<open>
  Both handlers read the published record from the shared volume first; \<open>vol_later\<close> is that volume
  when a round gets to publishing.
\<close>

definition dispatch ::
  "('b, 'pk, 'sk, 'sig, 'rng, 'sph, 'agg) demo_env \<Rightarrow> persist_fault \<Rightarrow> read_fault \<Rightarrow> 'rng round_io \<Rightarrow> path \<Rightarrow> fs \<Rightarrow> u8 \<Rightarrow> bytes
    \<Rightarrow> ('pk, 'sk) member \<Rightarrow> fs \<Rightarrow> fs \<Rightarrow> (member_panic, u8 \<times> bytes) result \<times> ('pk, 'sk) member \<times> fs \<times> fs" where
  "dispatch E f rdf io dir vol_later kind payload mb vol s =
     (let published = published_record rdf dir vol
      in if kind = MSG_PROPOSAL then
           case on_proposal E f (ri_rng io) published payload mb s of (reply, mb', s') \<Rightarrow> (Inr reply, mb', vol, s')
         else if kind = MSG_STATUS_REQUEST then
           case on_status_request E (io\<lparr>ri_published := published\<rparr>) dir payload mb vol_later of (r, mb', vol') \<Rightarrow> (r, mb', vol', s)
         else (Inr (fail_with E (''unknown message type '' @ show_nat (unat kind))), mb, vol, s))"

text \<open>The bytes written back; an unreadable request, or no read timeout, is answered by nothing.\<close>

definition serve ::
  "('b, 'pk, 'sk, 'sig, 'rng, 'sph, 'agg) demo_env \<Rightarrow> bool \<Rightarrow> write_fault \<Rightarrow> persist_fault \<Rightarrow> read_fault \<Rightarrow> 'rng round_io \<Rightarrow> path \<Rightarrow> fs \<Rightarrow> bytes
    \<Rightarrow> ('pk, 'sk) member \<Rightarrow> fs \<Rightarrow> fs \<Rightarrow> (member_panic, bytes) result \<times> ('pk, 'sk) member \<times> fs \<times> fs" where
  "serve E timeout_set wr f rdf io dir vol_later stream mb vol s =
     (if \<not> timeout_set then (Inr [], mb, vol, s)
      else case recv stream of
        Inl e \<Rightarrow> (Inr [], mb, vol, s)
      | Inr ((kind, payload), _) \<Rightarrow>
          (case dispatch E f rdf io dir vol_later kind payload mb vol s of
             (Inl p, mb', vol', s') \<Rightarrow> (Inl p, mb', vol', s')
           | (Inr (k, reply), mb', vol', s') \<Rightarrow> (Inr (snd (send wr k reply)), mb', vol', s')))"

section \<open>Start-up\<close>

datatype start_panic = IndexOutside usize | WrongAddress string | NoRunId | KeyGenFailed string | CannotPublishKey io_error
  | CounterState counter_error | NoAnchor | BadAnchor committee_error | AnchorDoesNotNameKey

record start_io =
  si_own_ip :: string
  si_secret :: string
  si_run_id :: watch
  si_key_meta :: read_fault
  si_key_publish :: replace_fault
  si_state_meta :: read_fault
  si_lock :: lock_fault
  si_create_meta :: read_fault
  si_read :: read_fault
  si_replace :: replace_fault
  si_anchor :: watch

text \<open>\<open>create\<close> on a first start, \<open>open\<close> on a restart.\<close>

definition start_counter ::
  "(bytes \<Rightarrow> 32 barr) \<Rightarrow> 'pk ssz \<Rightarrow> start_io \<Rightarrow> path \<Rightarrow> 'pk \<Rightarrow> fs \<Rightarrow> (counter_error, atomic_slot_counter) result \<times> fs" where
  "start_counter sha3 K io p pk s =
     (if path_exists (si_state_meta io) p s then counter_open sha3 K (si_lock io) (si_read io) (si_replace io) p pk (SLOT + KEY_SLOTS) s
      else counter_create sha3 K (si_lock io) (si_create_meta io) (si_replace io) p pk SLOT (SLOT + KEY_SLOTS) s)"

text \<open>How long a start waits for the bootstrap step.\<close>

definition BOOTSTRAP_WAIT :: nat where
  "BOOTSTRAP_WAIT = from_secs 300"

definition start_member ::
  "('b, 'pk, 'sk, 'sig, 'rng, 'sph, 'agg) demo_env \<Rightarrow> start_io \<Rightarrow> path \<Rightarrow> path \<Rightarrow> mode \<Rightarrow> usize \<Rightarrow> fs \<Rightarrow> fs
    \<Rightarrow> (start_panic, ('pk, 'sk) member) result \<times> fs \<times> fs" where
  "start_member E io committee_dir state_dir m index vol s =
     (if \<not> index < DEMO_N_MEMBERS then (Inl (IndexOutside index), vol, s)
      else if si_own_ip io \<noteq> MEMBER_IPS ! index then (Inl (WrongAddress (si_own_ip io)), vol, s)
      else case wait_for (si_run_id io) BOOTSTRAP_WAIT of
        Inl _ \<Rightarrow> (Inl NoRunId, vol, s)
      | Inr run_id \<Rightarrow>
          let sha3 = sha3_256 (e_hashes E)
          in case e_key_gen E (member_seed sha3 (si_secret io) run_id index) SLOT (SLOT + KEY_SLOTS) of
               Inl e \<Rightarrow> (Inl (KeyGenFailed e), vol, s)
             | Inr (sk, pk) \<Rightarrow>
                 let key_file = member_key_file committee_dir index;
                     (published, vol1) =
                       (if path_exists (si_key_meta io) key_file vol then (Inr (), vol)
                        else write_atomic (si_key_publish io) key_file (as_ssz_bytes (key_ssz (e_anchor E)) pk) vol)
                 in case published of
                      Inl e \<Rightarrow> (Inl (CannotPublishKey e), vol1, s)
                    | Inr _ \<Rightarrow>
                        (case start_counter sha3 (key_ssz (e_anchor E)) io (state_dir @ [''slot-counter'']) pk s of
                           (Inl e, s1) \<Rightarrow> (Inl (CounterState e), vol1, s1)
                         | (Inr c, s1) \<Rightarrow>
                             (case wait_for (si_anchor io) BOOTSTRAP_WAIT of
                                Inl _ \<Rightarrow> (Inl NoAnchor, vol1, s1)
                              | Inr bs \<Rightarrow>
                                  (case committee_from_bytes sha3 (e_anchor E) bs of
                                     Inl e \<Rightarrow> (Inl (BadAnchor e), vol1, s1)
                                   | Inr committee \<Rightarrow>
                                       if index_of committee pk \<noteq> Some index then (Inl AnchorDoesNotNameKey, vol1, s1)
                                       else (Inr \<lparr>mb_index = index, mb_mode = m, mb_committee = committee,
                                                       mb_signer = signer_node_new pk sk c,
                                                       mb_can_aggregate = can_aggregate m index,
                                                       mb_prover = (m = Snark \<and> can_aggregate m index),
                                                       mb_round_poisoned = False,
                                                       mb_rounds_served = 0\<rparr>, vol1, s1)))))"

section \<open>Proposals\<close>

text \<open>What a proposal must be for the key to be asked at all.\<close>

definition proposal_due ::
  "('b, 'pk, 'sk, 'sig, 'rng, 'sph, 'agg) demo_env \<Rightarrow> bytes option \<Rightarrow> bytes \<Rightarrow> ('pk, 'sk) member \<Rightarrow> (proposal \<times> u32) option" where
  "proposal_due E published payload mb =
     (case from_ssz_bytes (proposal_ssz (e_messages E)) payload of
        Inl e \<Rightarrow> None
      | Inr p \<Rightarrow>
          (case next_version E (mb_mode mb) published of
             Inl why \<Rightarrow> None
           | Inr (expected, _) \<Rightarrow>
               if pr_version p \<noteq> expected then None
               else map_option (Pair p) (slot_for (mb_committee mb) (pr_version p))))"

definition proposal_message ::
  "('b, 'pk, 'sk, 'sig, 'rng, 'sph, 'agg) demo_env \<Rightarrow> ('pk, 'sk) member \<Rightarrow> proposal \<Rightarrow> 32 barr" where
  "proposal_message E mb p = message_for (blake2s_256 (e_hashes E)) (mb_committee mb) WotsXmss (pr_list p) (pr_version p)"

text \<open>Either nothing happens, or exactly one signing call at the slot of the proposed version.\<close>

lemma on_proposal_effect:
  "snd (on_proposal E f rng published payload mb s) =
     (case proposal_due E published payload mb of
        None \<Rightarrow> (mb, s)
      | Some (p, slot) \<Rightarrow>
          (case sign_step (sha3_256 (e_hashes E)) (e_xmss E) (SignAt f rng (proposal_message E mb p) slot) (mb_signer mb, s) of
             (r, n', s') \<Rightarrow> (mb\<lparr>mb_signer := n'\<rparr>, s')))"
  by (auto simp: on_proposal_def proposal_due_def proposal_message_def sign_step_def Let_def fail_with_def
      split: sum.splits prod.splits option.splits)

lemma proposal_due_version:
  "proposal_due E published payload mb = Some (p, slot) \<Longrightarrow>
     \<exists>xs. next_version E (mb_mode mb) published = Inr (pr_version p, xs) \<and> slot_for (mb_committee mb) (pr_version p) = Some slot"
  by (auto simp: proposal_due_def split: sum.splits prod.splits if_splits)

section \<open>Runs of proposals\<close>

text \<open>A proposal as it reaches a member: the fault of the journal write, the randomness, what is published, the payload.\<close>

type_synonym 'rng incoming = "persist_fault \<times> 'rng \<times> bytes option \<times> bytes"

definition proposal_step ::
  "('b, 'pk, 'sk, 'sig, 'rng, 'sph, 'agg) demo_env \<Rightarrow> 'rng incoming \<Rightarrow> ('pk, 'sk) member \<times> fs
    \<Rightarrow> (u8 \<times> bytes) \<times> ('pk, 'sk) member \<times> fs" where
  "proposal_step E inc ms =
     (case inc of (f, rng, published, payload) \<Rightarrow> on_proposal E f rng published payload (fst ms) (snd ms))"

text \<open>The proposals behind the uses of a key, oldest first.\<close>

definition uses_come_from ::
  "('b, 'pk, 'sk, 'sig, 'rng, 'sph, 'agg) demo_env \<Rightarrow> 'pk committee \<Rightarrow> (u32 \<times> 32 barr) list \<Rightarrow> proposal list \<Rightarrow> bool" where
  "uses_come_from E c uses ps \<longleftrightarrow>
     map (\<lambda>p. (slot_for c (pr_version p), message_for (blake2s_256 (e_hashes E)) c WotsXmss (pr_list p) (pr_version p))) ps
       = map (\<lambda>u. (Some (fst u), snd u)) uses"

definition decoded :: "('b, 'pk, 'sk, 'sig, 'rng, 'sph, 'agg) demo_env \<Rightarrow> 'rng incoming list \<Rightarrow> proposal set" where
  "decoded E incs = {p. \<exists>(f, rng, published, payload) \<in> set incs. from_ssz_bytes (proposal_ssz (e_messages E)) payload = Inr p}"

lemma proposal_step_inv:
  assumes "proposal_step E inc (mb, s) = (r, mb', s')" and "uses_ok (mb_signer mb)"
    and "uses_come_from E (mb_committee mb) (n_uses (mb_signer mb)) ps"
  shows "uses_ok (mb_signer mb') \<and> mb_committee mb' = mb_committee mb
    \<and> (\<exists>qs. uses_come_from E (mb_committee mb) (n_uses (mb_signer mb')) (ps @ qs) \<and> set qs \<subseteq> decoded E [inc])"
proof -
  obtain f rng published payload where inc: "inc = (f, rng, published, payload)" by (metis prod_cases4)
  have eff: "(mb', s') = snd (on_proposal E f rng published payload mb s)"
    using assms(1) inc by (simp add: proposal_step_def)
  show ?thesis
  proof (cases "proposal_due E published payload mb")
    case None
    then have "mb' = mb" using eff by (simp add: on_proposal_effect)
    then show ?thesis using assms(2,3) by (intro conjI exI [of _ "[]"]) simp_all
  next
    case (Some pslot)
    obtain p slot where ps: "pslot = (p, slot)" by force
    let ?op = "SignAt f rng (proposal_message E mb p) slot"
    obtain r1 n' s1 where st: "sign_step (sha3_256 (e_hashes E)) (e_xmss E) ?op (mb_signer mb, s) = (r1, n', s1)"
      by (metis prod_cases3)
    have mb': "mb' = mb\<lparr>mb_signer := n'\<rparr>" using eff Some ps st by (simp add: on_proposal_effect)
    have ok: "uses_ok n'"
      using uses_ok_step [OF assms(2), of "sha3_256 (e_hashes E)" "e_xmss E" ?op s] st by simp
    have due: "slot_for (mb_committee mb) (pr_version p) = Some slot"
      "from_ssz_bytes (proposal_ssz (e_messages E)) payload = Inr p"
      using Some ps by (auto simp: proposal_due_def split: sum.splits if_splits prod.splits)
    obtain q c' f' where rs: "slot_step (sha3_256 (e_hashes E)) (ReserveAt f slot) (n_counter (mb_signer mb), s) = (q, c', f')"
      by (metis prod_cases3)
    then have "n_uses n' = n_uses (mb_signer mb) \<or> n_uses n' = n_uses (mb_signer mb) @ [(slot, proposal_message E mb p)]"
      using sign_step_reserves(1) [of "sha3_256 (e_hashes E)" ?op "mb_signer mb" s q c' f' "e_xmss E"] st
      by (auto simp: reservation_def op_message_def slot_step_def dest: reserve_at_returns split: sum.splits)
    then show ?thesis
    proof
      assume "n_uses n' = n_uses (mb_signer mb)"
      then show ?thesis using mb' ok assms(3) by (intro conjI exI [of _ "[]"]) simp_all
    next
      assume u: "n_uses n' = n_uses (mb_signer mb) @ [(slot, proposal_message E mb p)]"
      have "p \<in> decoded E [inc]" using due(2) inc by (auto simp: decoded_def)
      moreover have "uses_come_from E (mb_committee mb) (n_uses n') (ps @ [p])"
        using assms(3) u due(1) by (simp add: uses_come_from_def proposal_message_def)
      ultimately show ?thesis using mb' ok by (intro conjI exI [of _ "[p]"]) simp_all
    qed
  qed
qed

lemma proposal_run_inv:
  assumes "uses_ok (mb_signer mb)" and "uses_come_from E (mb_committee mb) (n_uses (mb_signer mb)) ps"
    and "snd (run_steps (proposal_step E) incs (mb, s)) = (mb', s')"
  shows "uses_ok (mb_signer mb') \<and> mb_committee mb' = mb_committee mb
    \<and> (\<exists>qs. uses_come_from E (mb_committee mb) (n_uses (mb_signer mb')) (ps @ qs) \<and> set qs \<subseteq> decoded E incs)"
  using assms
proof (induction incs arbitrary: mb s ps)
  case Nil
  then show ?case by (auto intro: exI [of _ "[]"])
next
  case (Cons inc incs)
  obtain r mb1 s1 where st: "proposal_step E inc (mb, s) = (r, mb1, s1)" by (metis prod_cases3)
  obtain qs where qs: "uses_ok (mb_signer mb1)" "mb_committee mb1 = mb_committee mb"
    "uses_come_from E (mb_committee mb) (n_uses (mb_signer mb1)) (ps @ qs)" "set qs \<subseteq> decoded E [inc]"
    using proposal_step_inv [OF st Cons.prems(1,2)] by blast
  obtain rs where "uses_come_from E (mb_committee mb) (n_uses (mb_signer mb')) ((ps @ qs) @ rs)" "set rs \<subseteq> decoded E incs"
    "uses_ok (mb_signer mb')" "mb_committee mb' = mb_committee mb"
    using Cons.IH [OF qs(1) qs(3) [folded qs(2)]] Cons.prems(3) st qs(2) by auto
  moreover have "decoded E (inc # incs) = decoded E [inc] \<union> decoded E incs" by (auto simp: decoded_def)
  ultimately show ?case using qs(4) by (auto intro!: exI [of _ "qs @ rs"])
qed

text \<open>Slots that increase strictly are slots of versions that increase strictly.\<close>

lemma uses_versions_increase:
  assumes "uses_come_from E c uses ps" and "sorted_wrt (<) (map (\<lambda>u. unat (fst u)) uses)"
  shows "sorted_wrt (<) (map pr_version ps)"
proof -
  have len: "length ps = length uses" using arg_cong [OF assms(1) [unfolded uses_come_from_def], of length] by simp
  have at: "unat (fst (uses ! i)) = unat (genesis_slot c) + unat (pr_version (ps ! i))" if "i < length ps" for i
    using arg_cong [OF assms(1) [unfolded uses_come_from_def], of "\<lambda>xs. xs ! i"] that len
    by (simp add: slot_for_Some)
  show ?thesis
    using assms(2) len at by (fastforce simp: sorted_wrt_iff_nth_less word_less_nat_alt)
qed

section \<open>The collected quorum\<close>

lemma arrivals_indices:
  "set (map fst (arrivals M answers order)) \<subseteq> set order"
  "distinct order \<Longrightarrow> distinct (map fst (arrivals M answers order))"
proof -
  show sub: "set (map fst (arrivals M answers order)) \<subseteq> set order" for order
    by (induction order) (auto split: option.splits)
  show "distinct order \<Longrightarrow> distinct (map fst (arrivals M answers order))"
  proof (induction order)
    case (Cons i "is")
    then show ?case using sub [of "is"] by (auto split: option.splits)
  qed simp
qed

lemma verify_signature_ok:
  "verify_signature X n pk sig msg slot = Inr u \<longleftrightarrow> pk \<in> set (members (v_committee n)) \<and> xmss_verify X pk msg sig slot"
  by (auto simp: verify_signature_def)

text \<open>Every counted contribution was checked against the key of its index, and no index counts twice.\<close>

lemma count_signatures_Inr:
  assumes "count_signatures X c message slot channel quorum = Inr q"
  shows "\<exists>zs. q = quorum @ zs \<and> set zs \<subseteq> set channel \<and> (distinct (map fst channel) \<longrightarrow> distinct (map fst zs))
    \<and> (\<forall>(i, sig) \<in> set zs. i < length (members c) \<and> xmss_verify X (members c ! i) message sig slot)"
  using assms
proof (induction channel arbitrary: quorum)
  case (Cons isig channel)
  obtain i sig where eq: "isig = (i, sig)" by force
  show ?case
  proof (cases "length quorum \<ge> THRESHOLD")
    case True
    then show ?thesis using Cons.prems eq by (intro exI [of _ "[]"]) simp
  next
    case False
    then have i: "i < length (members c)" using Cons.prems eq by (simp split: if_splits)
    show ?thesis
    proof (cases "xmss_verify X (members c ! i) message sig slot")
      case True
      then have "count_signatures X c message slot channel (quorum @ [(i, sig)]) = Inr q"
        using Cons.prems eq False i by (simp add: verify_signature_def)
      from Cons.IH [OF this] obtain zs where zs: "q = (quorum @ [(i, sig)]) @ zs" "set zs \<subseteq> set channel"
        "distinct (map fst channel) \<longrightarrow> distinct (map fst zs)"
        "\<forall>(i, sig) \<in> set zs. i < length (members c) \<and> xmss_verify X (members c ! i) message sig slot"
        by blast
      have "distinct (map fst (isig # channel)) \<longrightarrow> distinct (map fst ((i, sig) # zs))"
        using zs(2,3) eq by auto
      then show ?thesis using zs eq i True by (intro exI [of _ "(i, sig) # zs"]) auto
    next
      case False
      then have "count_signatures X c message slot channel quorum = Inr q"
        using Cons.prems eq \<open>\<not> length quorum \<ge> THRESHOLD\<close> i by (simp add: verify_signature_def)
      then show ?thesis using Cons.IH [of quorum] by auto
    qed
  qed
qed simp

lemma collect_signatures_Inr:
  assumes "collect_signatures E c p answers order = Inr quorum" and "distinct order" and "set order \<subseteq> {..<DEMO_N_MEMBERS}"
  shows "\<exists>slot. slot_for c (pr_version p) = Some slot \<and> valid_pairs DEMO_N_MEMBERS quorum
    \<and> (\<forall>(i, sig) \<in> set quorum. i < length (members c) \<and> xmss_verify (e_xmss E) (members c ! i)
         (message_for (blake2s_256 (e_hashes E)) c WotsXmss (pr_list p) (pr_version p)) sig slot)"
proof -
  let ?ch = "arrivals (e_messages E) answers order"
  obtain slot where slot: "slot_for c (pr_version p) = Some slot"
    and count: "count_signatures (e_xmss E) c (message_for (blake2s_256 (e_hashes E)) c WotsXmss (pr_list p) (pr_version p)) slot ?ch []
      = Inr quorum"
    using assms(1) by (auto simp: collect_signatures_def Let_def split: option.splits)
  obtain zs where zs: "quorum = zs" "set zs \<subseteq> set ?ch" "distinct (map fst ?ch) \<longrightarrow> distinct (map fst zs)"
    "\<forall>(i, sig) \<in> set zs. i < length (members c) \<and> xmss_verify (e_xmss E) (members c ! i)
       (message_for (blake2s_256 (e_hashes E)) c WotsXmss (pr_list p) (pr_version p)) sig slot"
    using count_signatures_Inr [OF count] by auto
  have "set (map fst zs) \<subseteq> set order" using zs(2) arrivals_indices(1) [of "e_messages E" answers order] by auto
  then have "valid_pairs DEMO_N_MEMBERS quorum"
    using zs(1,3) arrivals_indices(2) [OF assms(2), of "e_messages E" answers] assms(3)
    by (auto simp: valid_pairs_def DEMO_N_MEMBERS_def MAX_COMMITTEE_SIZE_def)
  then show ?thesis using slot zs by blast
qed

text \<open>Exactly which contributions are counted: the first valid ones, up to the threshold.\<close>

lemma count_signatures_eq:
  assumes "\<forall>p \<in> set channel. fst p < length (members c)"
  shows "count_signatures X c message slot channel quorum =
    Inr (quorum @ take (THRESHOLD - length quorum) (filter (\<lambda>(i, sig). xmss_verify X (members c ! i) message sig slot) channel))"
  using assms
proof (induction channel arbitrary: quorum)
  case (Cons isig channel)
  obtain i sig where eq: "isig = (i, sig)" by force
  have i: "i < length (members c)" using Cons.prems eq by simp
  show ?case
  proof (cases "length quorum \<ge> THRESHOLD")
    case True
    then show ?thesis using eq by simp
  next
    case False
    then have "THRESHOLD - length quorum = Suc (THRESHOLD - (length quorum + 1))" by simp
    then have "take (THRESHOLD - length quorum) ((i, sig) # zs) = (i, sig) # take (THRESHOLD - (length quorum + 1)) zs" for zs
      by (metis take_Suc_Cons)
    then show ?thesis using Cons eq i False by (auto simp: verify_signature_def)
  qed
qed simp

section \<open>The published record\<close>

text \<open>The bytes are a record of this version and list that the predicate of the mode accepts.\<close>

definition record_verifies ::
  "('b, 'pk, 'sk, 'sig, 'rng, 'sph, 'agg) demo_env \<Rightarrow> mode \<Rightarrow> 'pk committee \<Rightarrow> u32 \<Rightarrow> 32 barr list \<Rightarrow> bytes \<Rightarrow> bool" where
  "record_verifies E m c v xs bs \<longleftrightarrow>
     (case m of
        Raw \<Rightarrow> \<exists>r. bs = status_list_to_bytes (e_raw_ssz E) r \<and> sl_version r = v \<and> sl_status_list r = xs
          \<and> signer_count (e_bits E) r = length (sl_signatures r)
          \<and> verify_status_list (e_bits E) (e_xmss E) (blake2s_256 (e_hashes E)) \<lparr>v_committee = c\<rparr> r
      | Snark \<Rightarrow> \<exists>r. bs = snark_to_bytes (e_snark_ssz E) r \<and> ss_version r = v \<and> ss_status_list r = xs
          \<and> (\<forall>last. snark_verify (e_leanvm E) (blake2s_256 (e_hashes E)) \<lparr>sv_committee = c, sv_last_version = last\<rparr> r))"

text \<open>The anchor the bootstrap step assembles: ten members, seven of them a quorum.\<close>

definition demo_anchor :: "('b, 'pk, 'sk, 'sig, 'rng, 'sph, 'agg) demo_env \<Rightarrow> 'pk committee \<Rightarrow> bool" where
  "demo_anchor E c \<longleftrightarrow> wf_committee (sha3_256 (e_hashes E)) (e_anchor E) c
     \<and> length (members c) = DEMO_N_MEMBERS \<and> threshold c = THRESHOLD"

lemma quorum_keys:
  assumes "demo_anchor E c" and "valid_pairs DEMO_N_MEMBERS quorum"
  shows "distinct (map fst (map (\<lambda>(i, sig). (members c ! i, sig)) quorum))"
    and "set (map fst (map (\<lambda>(i, sig). (members c ! i, sig)) quorum)) \<subseteq> set (members c)"
proof -
  have d: "distinct (members c)" and n: "length (members c) = DEMO_N_MEMBERS"
    using assms(1) wf_committee_distinct by (auto simp: demo_anchor_def)
  have f: "map fst (map (\<lambda>(i, sig). (members c ! i, sig)) quorum) = map ((!) (members c)) (map fst quorum)"
    by (simp add: case_prod_unfold comp_def)
  have "inj_on ((!) (members c)) (set (map fst quorum))"
    using d n assms(2) by (auto simp: inj_on_def valid_pairs_def nth_eq_iff_index_eq)
  then show "distinct (map fst (map (\<lambda>(i, sig). (members c ! i, sig)) quorum))"
    using assms(2) unfolding f by (simp add: distinct_map valid_pairs_def comp_inj_on)
  show "set (map fst (map (\<lambda>(i, sig). (members c ! i, sig)) quorum)) \<subseteq> set (members c)"
    using assms(2) n unfolding f by (auto simp: valid_pairs_def)
qed

lemma build_record_verifies:
  assumes laws: "bitlist_laws MAX_COMMITTEE_SIZE (e_bits E)" "mb_mode mb = Snark \<Longrightarrow> aggregate_complete (e_xmss E) (e_leanvm E)"
    and anchor: "demo_anchor E (mb_committee mb)"
    and quorum: "valid_pairs DEMO_N_MEMBERS quorum" "THRESHOLD \<le> length quorum" "slot_for (mb_committee mb) v = Some slot"
      "\<forall>(i, sig) \<in> set quorum. i < length (members (mb_committee mb)) \<and> xmss_verify (e_xmss E) (members (mb_committee mb) ! i)
         (message_for (blake2s_256 (e_hashes E)) (mb_committee mb) WotsXmss xs v) sig slot"
    and built: "build_record E mb xs v quorum = Inr (Inr bs)"
  shows "record_verifies E (mb_mode mb) (mb_committee mb) v xs bs"
proof (cases "mb_mode mb")
  case Raw
  let ?n = "\<lparr>v_committee = mb_committee mb\<rparr>"
  have n: "length (members (mb_committee mb)) = DEMO_N_MEMBERS" "threshold (mb_committee mb) = THRESHOLD"
    "wf_committee (sha3_256 (e_hashes E)) (e_anchor E) (mb_committee mb)"
    using anchor by (simp_all add: demo_anchor_def)
  have "\<exists>r. status_list_new (e_bits E) WotsXmss xs v (length (members (v_committee ?n))) quorum = Inr r
      \<and> verify_status_list (e_bits E) (e_xmss E) (blake2s_256 (e_hashes E)) ?n r \<and> sl_version r = v
      \<and> signer_count (e_bits E) r = length (sl_signatures r)"
    using n quorum by (intro honest_record_verifies [OF laws(1)]) auto
  then obtain r where r: "status_list_new (e_bits E) WotsXmss xs v DEMO_N_MEMBERS quorum = Inr r"
    "verify_status_list (e_bits E) (e_xmss E) (blake2s_256 (e_hashes E)) ?n r" "sl_version r = v"
    "signer_count (e_bits E) r = length (sl_signatures r)"
    using n(1) by auto
  moreover have "sl_status_list r = xs" using honest_record_pairs [OF laws(1) quorum(1) r(1)] by simp
  ultimately show ?thesis using built Raw by (auto simp: build_record_def record_verifies_def)
next
  case Snark
  let ?raws = "map (\<lambda>(i, sig). (members (mb_committee mb) ! i, sig)) quorum"
  obtain p where p: "make_proof (e_leanvm E) (blake2s_256 (e_hashes E)) (mb_committee mb) WotsXmss ?raws xs v LOG_INV_RATE = Inr p"
    "bs = snark_to_bytes (e_snark_ssz E) (snark_new WotsXmss xs v p)"
    using built Snark by (auto simp: build_record_def Let_def split: if_splits sum.splits)
  have wf: "wf_committee (sha3_256 (e_hashes E)) (e_anchor E) (mb_committee mb)" "threshold (mb_committee mb) = THRESHOLD"
    using anchor by (simp_all add: demo_anchor_def)
  have "snark_verify (e_leanvm E) (blake2s_256 (e_hashes E)) \<lparr>sv_committee = mb_committee mb, sv_last_version = last\<rparr>
      (snark_new WotsXmss xs v p)" for last
    using wf quorum quorum_keys [OF anchor quorum(1)] p(1)
    by (intro make_proof_verifies [OF laws(2) [OF Snark], where raws = ?raws]) (auto simp: case_prod_unfold)
  then show ?thesis using p(2) Snark by (auto simp: record_verifies_def snark_new_def)
qed

text \<open>What a request asks of the validity list.\<close>

lemma apply_request_Inr:
  assumes "apply_request E rng index rq v xs = Inr (Inr (cr, ys))"
  shows "sr_action rq = ACTION_ISSUE \<and> vc_fingerprint (sha3_256 (e_hashes E)) cr \<notin> set xs
      \<and> set ys = insert (vc_fingerprint (sha3_256 (e_hashes E)) cr) (set xs)
    \<or> sr_action rq = ACTION_REVOKE \<and> cr = sr_data rq \<and> vc_fingerprint (sha3_256 (e_hashes E)) cr \<in> set xs
      \<and> set ys = set xs - {vc_fingerprint (sha3_256 (e_hashes E)) cr}"
proof -
  let ?h = "sha3_256 (e_hashes E)"
  consider (issue) "sr_action rq = ACTION_ISSUE" "add_valid ?h cr xs = (True, ys)"
    | (revoke) "sr_action rq = ACTION_REVOKE" "cr = sr_data rq" "revoke ?h cr xs = (True, ys)"
    using assms by (auto simp: apply_request_def Let_def split: if_splits option.splits prod.splits)
  then show ?thesis
  proof cases
    case issue
    then show ?thesis using add_valid_set [where ?sha3.0 = ?h and cr = cr and xs = xs] by simp
  next
    case revoke
    then show ?thesis using revoke_set [where ?sha3.0 = ?h and cr = cr and xs = xs] by simp
  qed
qed

lemma status_request_updated:
  assumes "on_status_request E io dir payload mb vol = (Inr (MSG_STATUS_UPDATED, reply), mb', vol')"
  shows "\<exists>rq v xs cr ys quorum bs. from_ssz_bytes (request_ssz (e_messages E)) payload = Inr rq
    \<and> next_version E (mb_mode mb) (ri_published io) = Inr (v, xs)
    \<and> apply_request E (ri_rng io) (mb_index mb) rq v xs = Inr (Inr (cr, ys))
    \<and> collect_signatures E (mb_committee mb) \<lparr>pr_version = v, pr_list = ys\<rparr> (ri_answers io) (ri_order io) = Inr quorum
    \<and> THRESHOLD \<le> length quorum \<and> build_record E mb ys v quorum = Inr (Inr bs)
    \<and> (\<exists>p. publish (ri_publish io) dir bs vol = (Inr p, vol'))
    \<and> reply = as_ssz_bytes (updated_ssz (e_messages E)) \<lparr>su_version = v, su_credential = cr\<rparr>"
  using assms
  by (auto simp: on_status_request_def fail_with_def message_types split: if_splits sum.splits prod.splits)

text \<open>A round in which enough members answer well gets through to publication.\<close>

lemma collect_enough:
  assumes "demo_anchor E c" and "slot_for c (pr_version p) = Some slot" and "distinct order" "set order \<subseteq> {..<DEMO_N_MEMBERS}"
    and "THRESHOLD \<le> length (filter (\<lambda>(i, sig). xmss_verify (e_xmss E) (members c ! i)
        (message_for (blake2s_256 (e_hashes E)) c WotsXmss (pr_list p) (pr_version p)) sig slot) (arrivals (e_messages E) answers order))"
  shows "\<exists>quorum. collect_signatures E c p answers order = Inr quorum \<and> length quorum = THRESHOLD"
proof -
  have "\<forall>q \<in> set (arrivals (e_messages E) answers order). fst q < length (members c)"
    using arrivals_indices(1) [of "e_messages E" answers order] assms(1,4) by (auto simp: demo_anchor_def)
  then show ?thesis using assms(2,5) by (simp add: collect_signatures_def Let_def count_signatures_eq)
qed

lemma build_raw_record:
  assumes "bitlist_laws MAX_COMMITTEE_SIZE (e_bits E)" and "mb_mode mb = Raw" and "valid_pairs DEMO_N_MEMBERS quorum"
  shows "\<exists>bs. build_record E mb xs v quorum = Inr (Inr bs)"
  using status_list_new_ok [OF assms(1,3), of WotsXmss xs v] assms(2) by (auto simp: build_record_def)

lemma round_with_quorum_updates:
  assumes "bitlist_laws MAX_COMMITTEE_SIZE (e_bits E)" and "demo_anchor E (mb_committee mb)"
    and "mb_mode mb = Raw" and "mb_can_aggregate mb \<and> \<not> mb_round_poisoned mb" and "from_ssz_bytes (request_ssz (e_messages E)) payload = Inr rq"
    and "next_version E Raw (ri_published io) = Inr (v, xs)"
    and "apply_request E (ri_rng io) (mb_index mb) rq v xs = Inr (Inr (cr, ys))"
    and "slot_for (mb_committee mb) v = Some slot" and "distinct (ri_order io)" and "set (ri_order io) \<subseteq> {..<DEMO_N_MEMBERS}"
    and "THRESHOLD \<le> length (filter (\<lambda>(i, sig). xmss_verify (e_xmss E) (members (mb_committee mb) ! i)
        (message_for (blake2s_256 (e_hashes E)) (mb_committee mb) WotsXmss ys v) sig slot)
        (arrivals (e_messages E) (ri_answers io) (ri_order io)))"
    and "ri_publish io = ReplaceClean"
  shows "\<exists>bs vol'. on_status_request E io dir payload mb vol =
      (Inr (MSG_STATUS_UPDATED, as_ssz_bytes (updated_ssz (e_messages E)) \<lparr>su_version = v, su_credential = cr\<rparr>),
       mb\<lparr>mb_rounds_served := (mb_rounds_served mb + 1) mod (usize_max + 1)\<rparr>, vol')
    \<and> published_record ReadClean dir vol' = Some bs \<and> stable vol' (dir @ [CURRENT_RECORD]) = Some bs
    \<and> record_verifies E Raw (mb_committee mb) v ys bs"
proof -
  let ?p = "\<lparr>pr_version = v, pr_list = ys\<rparr>"
  obtain quorum where q: "collect_signatures E (mb_committee mb) ?p (ri_answers io) (ri_order io) = Inr quorum"
    "length quorum = THRESHOLD"
    using collect_enough [OF assms(2), of ?p slot "ri_order io" "ri_answers io"] assms(8-11) by auto
  have pairs: "valid_pairs DEMO_N_MEMBERS quorum"
    "\<forall>(i, sig) \<in> set quorum. i < length (members (mb_committee mb)) \<and> xmss_verify (e_xmss E) (members (mb_committee mb) ! i)
       (message_for (blake2s_256 (e_hashes E)) (mb_committee mb) WotsXmss ys v) sig slot"
    using collect_signatures_Inr [OF q(1) assms(9,10)] assms(8) by auto
  then obtain bs where bs: "build_record E mb ys v quorum = Inr (Inr bs)"
    using build_raw_record [OF assms(1,3)] by blast
  have "record_verifies E (mb_mode mb) (mb_committee mb) v ys bs"
    using q(2) assms(3) by (intro build_record_verifies [OF assms(1) _ assms(2) pairs(1) _ assms(8) pairs(2) bs]) simp_all
  moreover obtain vol' where p: "publish ReplaceClean dir bs vol = (Inr (dir @ [CURRENT_RECORD]), vol')"
    by (simp add: publish_def write_atomic_def replace_file_def Let_def)
  ultimately show ?thesis
    using assms(3-7,12) q bs publish_effect [OF p] by (simp add: on_status_request_def)
qed

section \<open>Properties\<close>

text \<open>
  C7. A member signs one list per version, and the versions in order: over any sequence of proposals,
  from whomever, with whatever is published meanwhile and whatever fails on disk, the uses of the key
  are the messages of proposals it received whose versions increase strictly, each at the slot its
  version derives to.
\<close>

theorem member_signs_one_list_per_version:
  assumes "n_uses (mb_signer mb) = []" and "snd (run_steps (proposal_step E) incs (mb, s)) = (mb', s')"
  shows "\<exists>ps. uses_come_from E (mb_committee mb) (n_uses (mb_signer mb')) ps \<and> sorted_wrt (<) (map pr_version ps)
    \<and> set ps \<subseteq> decoded E incs"
proof -
  have ok: "uses_ok (mb_signer mb)" and none: "uses_come_from E (mb_committee mb) (n_uses (mb_signer mb)) []"
    using assms(1) by (simp_all add: uses_ok_def uses_come_from_def)
  obtain ps where ps: "uses_come_from E (mb_committee mb) (n_uses (mb_signer mb')) ps" "set ps \<subseteq> decoded E incs"
    and ok': "uses_ok (mb_signer mb')"
    using proposal_run_inv [OF ok none assms(2)] by auto
  show ?thesis using ps uses_versions_increase [OF ps(1)] ok' by (auto simp: uses_ok_def)
qed

text \<open>
  A proposal for any version but the next one burns nothing: unless the proposal decodes and names
  exactly the version that follows the published record, the member, its counter and its private
  volume stay as they are, so no peer can exhaust the key window with a far-future version.
\<close>

theorem only_the_next_version_is_signed:
  assumes "\<not> (\<exists>p xs. from_ssz_bytes (proposal_ssz (e_messages E)) payload = Inr p
      \<and> next_version E (mb_mode mb) published = Inr (pr_version p, xs))"
  shows "snd (on_proposal E f rng published payload mb s) = (mb, s)"
proof -
  have "proposal_due E published payload mb = None"
    using assms by (auto simp: proposal_due_def split: sum.splits prod.splits)
  then show ?thesis by (simp add: on_proposal_effect)
qed

text \<open>
  C8. A round that reports success has published a record that verifies: whatever the other members
  answer and in whichever order, if an aggregator of the demo committee answers a status request
  with an update, then the shared volume durably holds a record of exactly the reported version,
  the successor of the published one, that the predicate of its mode accepts under the anchor, and
  its list is the published one with the credential's fingerprint inserted or removed.
\<close>

theorem aggregator_publishes_only_verifying_records:
  assumes "bitlist_laws MAX_COMMITTEE_SIZE (e_bits E)" and "aggregate_complete (e_xmss E) (e_leanvm E)"
    and "demo_anchor E (mb_committee mb)" and "distinct (ri_order io)" and "set (ri_order io) \<subseteq> {..<DEMO_N_MEMBERS}"
    and "on_status_request E io dir payload mb vol = (Inr (MSG_STATUS_UPDATED, reply), mb', vol')"
  shows "\<exists>v xs ys cr bs. next_version E (mb_mode mb) (ri_published io) = Inr (v, xs)
    \<and> reply = as_ssz_bytes (updated_ssz (e_messages E)) \<lparr>su_version = v, su_credential = cr\<rparr>
    \<and> set ys \<in> {insert (vc_fingerprint (sha3_256 (e_hashes E)) cr) (set xs), set xs - {vc_fingerprint (sha3_256 (e_hashes E)) cr}}
    \<and> published_record ReadClean dir vol' = Some bs \<and> stable vol' (dir @ [CURRENT_RECORD]) = Some bs
    \<and> record_verifies E (mb_mode mb) (mb_committee mb) v ys bs"
proof -
  obtain rq v xs cr ys quorum bs p where r: "next_version E (mb_mode mb) (ri_published io) = Inr (v, xs)"
    "apply_request E (ri_rng io) (mb_index mb) rq v xs = Inr (Inr (cr, ys))"
    "collect_signatures E (mb_committee mb) \<lparr>pr_version = v, pr_list = ys\<rparr> (ri_answers io) (ri_order io) = Inr quorum"
    "THRESHOLD \<le> length quorum" "build_record E mb ys v quorum = Inr (Inr bs)"
    "publish (ri_publish io) dir bs vol = (Inr p, vol')"
    "reply = as_ssz_bytes (updated_ssz (e_messages E)) \<lparr>su_version = v, su_credential = cr\<rparr>"
    using status_request_updated [OF assms(6)] by blast
  obtain slot where q: "slot_for (mb_committee mb) v = Some slot" "valid_pairs DEMO_N_MEMBERS quorum"
    "\<forall>(i, sig) \<in> set quorum. i < length (members (mb_committee mb)) \<and> xmss_verify (e_xmss E) (members (mb_committee mb) ! i)
       (message_for (blake2s_256 (e_hashes E)) (mb_committee mb) WotsXmss ys v) sig slot"
    using collect_signatures_Inr [OF r(3) assms(4,5)] by auto
  have "record_verifies E (mb_mode mb) (mb_committee mb) v ys bs"
    by (rule build_record_verifies [OF assms(1,2,3) q(2) r(4) q(1,3) r(5)])
  moreover have "set ys \<in> {insert (vc_fingerprint (sha3_256 (e_hashes E)) cr) (set xs), set xs - {vc_fingerprint (sha3_256 (e_hashes E)) cr}}"
    using apply_request_Inr [OF r(2)] by blast
  ultimately show ?thesis using r(1,7) publish_effect [OF r(6)] by blast
qed

text \<open>
  C14. A round with enough honest answers succeeds: in raw mode, on an aggregator whose round lock is not
  poisoned, if the request decodes and applies to the published list, the next version exists and
  has a slot, at least seven of the answers that arrive within the window carry a valid signature of
  the member asked, and the disk works, then the aggregator reports the update, having durably
  published a record of the new list and version that the predicate accepts under the anchor, and
  has served one more round; silent, unreachable and lying members among the rest do not matter.
\<close>

theorem honest_round_succeeds:
  assumes "bitlist_laws MAX_COMMITTEE_SIZE (e_bits E)" and "demo_anchor E (mb_committee mb)"
    and "mb_mode mb = Raw" and "mb_can_aggregate mb \<and> \<not> mb_round_poisoned mb" and "from_ssz_bytes (request_ssz (e_messages E)) payload = Inr rq"
    and "next_version E Raw (ri_published io) = Inr (v, xs)"
    and "apply_request E (ri_rng io) (mb_index mb) rq v xs = Inr (Inr (cr, ys))"
    and "slot_for (mb_committee mb) v = Some slot" and "distinct (ri_order io)" and "set (ri_order io) \<subseteq> {..<DEMO_N_MEMBERS}"
    and "THRESHOLD \<le> length (filter (\<lambda>(i, sig). xmss_verify (e_xmss E) (members (mb_committee mb) ! i)
        (message_for (blake2s_256 (e_hashes E)) (mb_committee mb) WotsXmss ys v) sig slot)
        (arrivals (e_messages E) (ri_answers io) (ri_order io)))"
    and "ri_publish io = ReplaceClean"
  shows "\<exists>bs vol'. on_status_request E io dir payload mb vol =
      (Inr (MSG_STATUS_UPDATED, as_ssz_bytes (updated_ssz (e_messages E)) \<lparr>su_version = v, su_credential = cr\<rparr>),
       mb\<lparr>mb_rounds_served := (mb_rounds_served mb + 1) mod (usize_max + 1)\<rparr>, vol')
    \<and> published_record ReadClean dir vol' = Some bs \<and> stable vol' (dir @ [CURRENT_RECORD]) = Some bs
    \<and> record_verifies E Raw (mb_committee mb) v ys bs"
  using round_with_quorum_updates [OF assms] .

text \<open>
  C32. A version without a slot ends the aggregator: the round never asks whether the next version has a
  slot, so the signature collection panics while it holds the round lock, and from then on every
  status request that decodes panics on the poisoned lock, whatever it asks.
\<close>

theorem version_without_slot_poisons_the_round:
  assumes "mb_can_aggregate mb \<and> \<not> mb_round_poisoned mb" and "from_ssz_bytes (request_ssz (e_messages E)) payload = Inr rq"
    and "next_version E (mb_mode mb) (ri_published io) = Inr (v, xs)"
    and "apply_request E (ri_rng io) (mb_index mb) rq v xs = Inr (Inr (cr, ys))"
    and "slot_for (mb_committee mb) v = None" and "from_ssz_bytes (request_ssz (e_messages E)) payload' = Inr rq'"
  shows "on_status_request E io dir payload mb vol = (Inl ExpectCheckedByCaller, mb\<lparr>mb_round_poisoned := True\<rparr>, vol)
    \<and> on_status_request E io' dir payload' (mb\<lparr>mb_round_poisoned := True\<rparr>) vol'
      = (Inl RoundLockPoisoned, mb\<lparr>mb_round_poisoned := True\<rparr>, vol')"
  using assms by (simp add: on_status_request_def collect_signatures_def Let_def)

end
