(* ===== verification/Demo_Examples.thy ===== *)
theory Demo_Examples
  imports Demo_Member
begin

text \<open>
  A concrete demo network for the witnesses: simple codecs of its messages, the stand-in libraries, a
  committee of ten with a threshold of seven, and a first round in which every member answers. The
  witnesses of the member's properties are stated on it.
\<close>

section \<open>Codecs\<close>

type_synonym plain_sig = "32 barr \<times> 32 barr \<times> u32"

definition request_codec :: "status_request ssz" where
  "request_codec = \<lparr>as_ssz_bytes = (\<lambda>r. sr_action r # sr_data r),
     from_ssz_bytes = (\<lambda>b. case b of [] \<Rightarrow> Inl ''InvalidByteLength'' | a # d \<Rightarrow> Inr \<lparr>sr_action = a, sr_data = d\<rparr>)\<rparr>"

definition proposal_codec :: "proposal ssz" where
  "proposal_codec = \<lparr>as_ssz_bytes = (\<lambda>p. u32_to_le (pr_version p) @ concat (map bytes_of (pr_list p))),
     from_ssz_bytes = (\<lambda>b. if length b < 4 then Inl ''InvalidByteLength''
        else Inr \<lparr>pr_version = u32_from_le (take 4 b), pr_list = arrays (drop 4 b)\<rparr>)\<rparr>"

definition reply_codec :: "plain_sig signature_reply ssz" where
  "reply_codec = \<lparr>
     as_ssz_bytes = (\<lambda>r. case rp_signature r of [] \<Rightarrow> 0 # rp_reason r
        | (pk, m, s) # _ \<Rightarrow> 1 # bytes_of pk @ bytes_of m @ u32_to_le s @ rp_reason r),
     from_ssz_bytes = (\<lambda>b. case b of [] \<Rightarrow> Inl ''InvalidByteLength'' | t # d \<Rightarrow>
        if t = 0 then Inr \<lparr>rp_signature = [], rp_reason = d\<rparr>
        else Inr \<lparr>rp_signature = [(mk_barr (take 32 d), mk_barr (region 32 32 d), u32_from_le (region 64 4 d))],
                  rp_reason = drop 68 d\<rparr>)\<rparr>"

definition updated_codec :: "status_updated ssz" where
  "updated_codec = \<lparr>as_ssz_bytes = (\<lambda>u. u32_to_le (su_version u) @ su_credential u),
     from_ssz_bytes = (\<lambda>b. if length b < 4 then Inl ''InvalidByteLength''
        else Inr \<lparr>su_version = u32_from_le (take 4 b), su_credential = drop 4 b\<rparr>)\<rparr>"

definition failure_codec :: "failure ssz" where
  "failure_codec = \<lparr>as_ssz_bytes = fl_reason, from_ssz_bytes = (\<lambda>b. Inr \<lparr>fl_reason = b\<rparr>)\<rparr>"

definition plain_messages :: "plain_sig message_codecs" where
  "plain_messages = \<lparr>request_ssz = request_codec, proposal_ssz = proposal_codec, reply_ssz = reply_codec,
     updated_ssz = updated_codec, failure_ssz = failure_codec\<rparr>"

lemma reply_codec_signed:
  "from_ssz_bytes reply_codec (as_ssz_bytes reply_codec \<lparr>rp_signature = [sig], rp_reason = []\<rparr>)
     = Inr \<lparr>rp_signature = [sig], rp_reason = []\<rparr>"
  by (cases sig) (simp add: reply_codec_def region_def)

lemma proposal_codec_roundtrip: "from_ssz_bytes proposal_codec (as_ssz_bytes proposal_codec p) = Inr p"
  by (simp add: proposal_codec_def arrays_concat)

section \<open>Environment\<close>

text \<open>The wire of the raw record is left open: a witness that reads a record back chooses it.\<close>

definition plain_demo ::
  "(bool list, plain_sig) raw_wire ssz
    \<Rightarrow> (bool list, 32 barr, 32 barr, plain_sig, unit, unit, u32 \<times> 32 barr \<times> 32 barr list) demo_env" where
  "plain_demo W = \<lparr>e_hashes = \<lparr>sha3_256 = fold_hash, blake2s_256 = fold_hash\<rparr>, e_bits = bools_bitlist MAX_COMMITTEE_SIZE,
     e_raw_ssz = W, e_snark_ssz = \<lparr>as_ssz_bytes = (\<lambda>_. []), from_ssz_bytes = (\<lambda>_. Inl ''unused'')\<rparr>,
     e_anchor = reference_codecs, e_xmss = plain_xmss, e_leanvm = plain_leanvm, e_messages = plain_messages,
     e_key_gen = (\<lambda>seed _ _. Inr (seed, seed)), e_issue = (\<lambda>_ _ _ _. as_bytes ''credential''),
     e_texts = \<lparr>tx_status = (\<lambda>_. []), tx_state = (\<lambda>_. []), tx_io = (\<lambda>_. []), tx_wire = (\<lambda>_. []), tx_lossy = (\<lambda>_. [])\<rparr>\<rparr>"

definition ten_members :: "32 barr list" where
  "ten_members = map numbered_key [0..<10]"

definition ten_committee :: "32 barr committee" where
  "ten_committee = \<lparr>members = ten_members, threshold = 7, genesis_slot = SLOT,
     anchor_fingerprint = fingerprint_of fold_hash reference_wire ten_members 7 SLOT\<rparr>"

lemma length_ten_members [simp]: "length ten_members = 10"
  by (simp add: ten_members_def)

lemma ten_members_nth: "i < 10 \<Longrightarrow> ten_members ! i = numbered_key i"
  by (simp add: ten_members_def)

lemma ten_committee_new: "committee_new fold_hash reference_codecs ten_members 7 SLOT = Inr ten_committee"
proof -
  have "inj_on numbered_key {0..<10}" by (intro inj_onI numbered_key_inj) auto
  then have "distinct (map (as_ssz_bytes array_ssz) ten_members)"
    by (simp add: ten_members_def array_ssz_def distinct_map inj_on_def)
  then show ?thesis
    by (simp add: committee_new_def has_duplicate_members_iff reference_codecs_def ten_committee_def MAX_COMMITTEE_SIZE_def)
qed

lemma ten_committee_wf: "wf_committee fold_hash reference_codecs ten_committee"
  using committee_new_wf [OF ten_committee_new] by blast

lemma ten_is_demo_anchor: "demo_anchor (plain_demo W) ten_committee"
  using ten_committee_wf by (simp add: demo_anchor_def plain_demo_def ten_committee_def DEMO_N_MEMBERS_def THRESHOLD_def)

text \<open>Member 4, with a counter over the window of the demo's keys.\<close>

definition member_four :: "(32 barr, 32 barr) member" where
  "member_four = \<lparr>mb_index = 4, mb_mode = Raw, mb_committee = ten_committee,
     mb_signer = signer_node_new (numbered_key 4) (numbered_key 4)
       \<lparr>c_path = [''slot-counter''], c_key_tag = numbered_key 4, c_generation = 0, c_next = ucast SLOT, c_end = SLOT + KEY_SLOTS\<rparr>,
     mb_can_aggregate = True, mb_prover = False, mb_round_poisoned = False, mb_rounds_served = 0\<rparr>"

section \<open>A first round\<close>

definition first_list :: "32 barr list" where
  "first_list = [vc_fingerprint fold_hash (as_bytes ''credential'')]"

definition first_message :: "32 barr" where
  "first_message = message_for fold_hash ten_committee WotsXmss first_list 0"

definition first_round :: "unit round_io" where
  "first_round = \<lparr>ri_published = None, ri_rng = (),
     ri_answers = (\<lambda>i. Inr (MSG_SIGNATURE, as_ssz_bytes reply_codec \<lparr>rp_signature = [(numbered_key i, first_message, SLOT)], rp_reason = []\<rparr>)),
     ri_order = rev [0..<10], ri_window = None, ri_publish = ReplaceClean\<rparr>"

definition issue_request :: bytes where
  "issue_request = as_ssz_bytes request_codec \<lparr>sr_action = ACTION_ISSUE, sr_data = as_bytes ''alice''\<rparr>"

lemma first_arrivals:
  "arrivals plain_messages (ri_answers first_round) order = map (\<lambda>i. (i, numbered_key i, first_message, SLOT)) order"
  by (induction order) (simp_all add: first_round_def member_signature_def plain_messages_def reply_codec_signed)

lemma first_applies_at:
  "apply_request (plain_demo W) () 4 \<lparr>sr_action = ACTION_ISSUE, sr_data = as_bytes ''alice''\<rparr> v []
     = Inr (Inr (as_bytes ''credential'', first_list))"
proof -
  have "from_utf8 (as_bytes ''alice'') = Some (text_of ''alice'')" by (rule from_utf8_ascii) simp
  moreover have "text_of ''alice'' \<noteq> []" by (simp add: text_of_def)
  ultimately show ?thesis
    by (simp add: apply_request_def plain_demo_def add_valid_def first_list_def List.member_iff Let_def)
qed

lemma first_request: "from_ssz_bytes (request_ssz (e_messages (plain_demo W))) issue_request
    = Inr \<lparr>sr_action = ACTION_ISSUE, sr_data = as_bytes ''alice''\<rparr>"
  by (simp add: plain_demo_def plain_messages_def issue_request_def request_codec_def)

lemma first_slot: "slot_for ten_committee 0 = Some SLOT"
  by (simp add: slot_for_Some ten_committee_def)

lemma first_all_valid:
  "filter (\<lambda>(i, sig). xmss_verify (e_xmss (plain_demo W)) (members ten_committee ! i)
      (message_for (blake2s_256 (e_hashes (plain_demo W))) ten_committee WotsXmss first_list 0) sig SLOT)
     (arrivals (e_messages (plain_demo W)) (ri_answers first_round) (ri_order first_round))
   = map (\<lambda>i. (i, numbered_key i, first_message, SLOT)) (rev [0..<10])"
proof -
  have "arrivals (e_messages (plain_demo W)) (ri_answers first_round) (ri_order first_round)
      = map (\<lambda>i. (i, numbered_key i, first_message, SLOT)) (rev [0..<10])"
    using first_arrivals by (simp add: plain_demo_def first_round_def)
  then show ?thesis
    by (simp only:) (rule filter_True, auto simp: plain_demo_def plain_xmss_def first_message_def ten_committee_def ten_members_nth)
qed

lemma first_bits: "bitlist_laws MAX_COMMITTEE_SIZE (e_bits (plain_demo W))"
  by (simp add: plain_demo_def bools_bitlist_laws)

lemma first_order: "distinct (ri_order first_round)" "set (ri_order first_round) \<subseteq> {..<DEMO_N_MEMBERS}"
  by (auto simp: first_round_def DEMO_N_MEMBERS_def)

lemma first_enough:
  "THRESHOLD \<le> length (filter (\<lambda>(i, sig). xmss_verify (e_xmss (plain_demo W)) (members (mb_committee member_four) ! i)
      (message_for (blake2s_256 (e_hashes (plain_demo W))) (mb_committee member_four) WotsXmss first_list 0) sig SLOT)
     (arrivals (e_messages (plain_demo W)) (ri_answers first_round) (ri_order first_round)))"
  using first_all_valid [of W] by (simp add: member_four_def THRESHOLD_def)

lemma first_facts:
  "mb_mode member_four = Raw" "mb_can_aggregate member_four \<and> \<not> mb_round_poisoned member_four" "ri_publish first_round = ReplaceClean"
  "demo_anchor (plain_demo W) (mb_committee member_four)"
  "next_version (plain_demo W) Raw (ri_published first_round) = Inr (0, [])"
  "apply_request (plain_demo W) (ri_rng first_round) (mb_index member_four)
     \<lparr>sr_action = ACTION_ISSUE, sr_data = as_bytes ''alice''\<rparr> 0 [] = Inr (Inr (as_bytes ''credential'', first_list))"
  "slot_for (mb_committee member_four) 0 = Some SLOT"
proof -
  show "mb_mode member_four = Raw" "mb_can_aggregate member_four \<and> \<not> mb_round_poisoned member_four" "ri_publish first_round = ReplaceClean"
    "next_version (plain_demo W) Raw (ri_published first_round) = Inr (0, [])"
    by (simp_all add: member_four_def first_round_def next_version_def)
  have mb: "mb_committee member_four = ten_committee" "mb_index member_four = 4" by (simp_all add: member_four_def)
  show "demo_anchor (plain_demo W) (mb_committee member_four)" "slot_for (mb_committee member_four) 0 = Some SLOT"
    using ten_is_demo_anchor first_slot mb(1) by simp_all
  show "apply_request (plain_demo W) (ri_rng first_round) (mb_index member_four)
     \<lparr>sr_action = ACTION_ISSUE, sr_data = as_bytes ''alice''\<rparr> 0 [] = Inr (Inr (as_bytes ''credential'', first_list))"
    using first_applies_at [of W] mb(2) by simp
qed

lemmas first_hypotheses = first_bits first_facts(4) first_facts(1,2) first_request first_facts(5-7) first_order first_enough first_facts(3)

lemma first_round_runs:
  "\<exists>mb' vol'. on_status_request (plain_demo W) first_round [''storage''] issue_request member_four no_files =
     (Inr (MSG_STATUS_UPDATED, as_ssz_bytes updated_codec \<lparr>su_version = 0, su_credential = as_bytes ''credential''\<rparr>), mb', vol')"
  using round_with_quorum_updates [OF first_hypotheses, of W "[''storage'']" no_files] by (auto simp: plain_demo_def plain_messages_def)

section \<open>Witnesses\<close>

theorem honest_round_succeeds_witness:
  "\<exists>W vol' bs. on_status_request (plain_demo W) first_round [''storage''] issue_request member_four no_files =
       (Inr (MSG_STATUS_UPDATED, u32_to_le 0 @ as_bytes ''credential''), member_four\<lparr>mb_rounds_served := 1\<rparr>, vol')
     \<and> published_record ReadClean [''storage''] vol' = Some bs \<and> record_verifies (plain_demo W) Raw ten_committee 0 first_list bs"
proof -
  have mb: "mb_rounds_served member_four = 0" "mb_committee member_four = ten_committee" by (simp_all add: member_four_def)
  show ?thesis using honest_round_succeeds [OF first_hypotheses, of undefined "[''storage'']" no_files]
    unfolding mb by (auto simp: plain_demo_def plain_messages_def updated_codec_def usize_max_def)
qed

theorem aggregator_publishes_only_verifying_records_witness:
  "\<exists>W vol' bs ys. published_record ReadClean [''storage''] vol' = Some bs
     \<and> record_verifies (plain_demo W) Raw ten_committee 0 ys bs"
proof -
  fix W :: "(bool list, plain_sig) raw_wire ssz"
  obtain mb' vol' where r: "on_status_request (plain_demo W) first_round [''storage''] issue_request member_four no_files =
      (Inr (MSG_STATUS_UPDATED, as_ssz_bytes updated_codec \<lparr>su_version = 0, su_credential = as_bytes ''credential''\<rparr>), mb', vol')"
    using first_round_runs by blast
  have anchor: "demo_anchor (plain_demo W) (mb_committee member_four)"
    using ten_is_demo_anchor by (simp add: member_four_def)
  have complete: "aggregate_complete (e_xmss (plain_demo W)) (e_leanvm (plain_demo W))"
    using plain_aggregate_complete by (simp add: plain_demo_def)
  have nv: "next_version (plain_demo W) (mb_mode member_four) (ri_published first_round) = Inr (0, [])"
    by (simp add: next_version_def first_round_def)
  show ?thesis
    using aggregator_publishes_only_verifying_records [OF first_bits complete anchor first_order r] nv
    by (auto simp: member_four_def)
qed

text \<open>Member 4 signs version 0, and abstains from another list for the same version.\<close>

definition first_proposal :: bytes where
  "first_proposal = as_ssz_bytes proposal_codec \<lparr>pr_version = 0, pr_list = first_list\<rparr>"

definition second_proposal :: bytes where
  "second_proposal = as_ssz_bytes proposal_codec \<lparr>pr_version = 0, pr_list = []\<rparr>"

lemma member_four_signs:
  "\<exists>mb' s'. proposal_step (plain_demo W) (PersistClean, (), None, first_proposal) (member_four, s)
     = ((MSG_SIGNATURE, as_ssz_bytes reply_codec \<lparr>rp_signature = [(numbered_key 4, first_message, SLOT)], rp_reason = []\<rparr>), mb', s')
     \<and> n_uses (mb_signer mb') = [(SLOT, first_message)]"
proof -
  let ?n = "mb_signer member_four" and ?m = "first_message"
  have "\<exists>n' s'. sign_at fold_hash plain_xmss PersistClean () ?m SLOT ?n s = (Inr (numbered_key 4, ?m, SLOT), n', s')
      \<and> n_uses n' = [(SLOT, ?m)]"
    by (simp add: sign_at_def sign_at_inner_def reserve_at_def persist_next_def use_key_def plain_xmss_def member_four_def
        signer_node_new_def SLOT_def KEY_SLOTS_def checked_add_def Let_def)
  then obtain n' s' where sa: "sign_at fold_hash plain_xmss PersistClean () ?m SLOT ?n s = (Inr (numbered_key 4, ?m, SLOT), n', s')"
    "n_uses n' = [(SLOT, ?m)]" by blast
  have mb: "mb_committee member_four = ten_committee" "mb_mode member_four = Raw" by (simp_all add: member_four_def)
  show ?thesis
    using sa first_slot proposal_codec_roundtrip
    by (simp add: proposal_step_def on_proposal_def plain_demo_def plain_messages_def first_proposal_def next_version_def mb
        first_message_def)
qed

theorem member_signs_one_list_per_version_witness:
  "\<exists>W mb' s' ps. snd (run_steps (proposal_step (plain_demo W))
       [(PersistClean, (), None, first_proposal), (PersistClean, (), None, second_proposal)] (member_four, no_files)) = (mb', s')
     \<and> uses_come_from (plain_demo W) ten_committee (n_uses (mb_signer mb')) ps \<and> sorted_wrt (<) (map pr_version ps)
     \<and> (\<exists>r mb1 s1. proposal_step (plain_demo W) (PersistClean, (), None, first_proposal) (member_four, no_files) = (r, mb1, s1)
          \<and> n_uses (mb_signer mb1) = [(SLOT, first_message)])"
proof -
  fix W :: "(bool list, plain_sig) raw_wire ssz"
  let ?incs = "[(PersistClean, (), None, first_proposal), (PersistClean, (), None, second_proposal)]"
  obtain mb' s' where r: "snd (run_steps (proposal_step (plain_demo W)) ?incs (member_four, no_files)) = (mb', s')" by force
  have "n_uses (mb_signer member_four) = []" by (simp add: member_four_def signer_node_new_def)
  from member_signs_one_list_per_version [OF this r] obtain ps where
    "uses_come_from (plain_demo W) ten_committee (n_uses (mb_signer mb')) ps" "sorted_wrt (<) (map pr_version ps)"
    by (auto simp: member_four_def)
  then show ?thesis using r member_four_signs [of W no_files] by blast
qed

theorem only_the_next_version_is_signed_witness:
  "\<exists>W. snd (on_proposal (plain_demo W) PersistClean () None (as_ssz_bytes proposal_codec \<lparr>pr_version = 60, pr_list = []\<rparr>) member_four no_files)
     = (member_four, no_files)"
proof -
  fix W :: "(bool list, plain_sig) raw_wire ssz"
  have "\<not> (\<exists>p xs. from_ssz_bytes (proposal_ssz (e_messages (plain_demo W))) (as_ssz_bytes proposal_codec \<lparr>pr_version = 60, pr_list = []\<rparr>) = Inr p
      \<and> next_version (plain_demo W) (mb_mode member_four) None = Inr (pr_version p, xs))"
    using proposal_codec_roundtrip [of "\<lparr>pr_version = 60, pr_list = []\<rparr>"]
    by (auto simp: plain_demo_def plain_messages_def next_version_def)
  from only_the_next_version_is_signed [OF this] show ?thesis by blast
qed

text \<open>The storage shows a record of version 4294967280, and the genesis slot is 43.\<close>

definition last_record :: "(bool list, plain_sig) status_list" where
  "last_record = \<lparr>sl_alg = WotsXmss, sl_status_list = [], sl_version = 4294967280, sl_signers = [], sl_signatures = []\<rparr>"

theorem version_without_slot_poisons_the_round_witness:
  "on_status_request (plain_demo (one_record_wire last_record)) (first_round\<lparr>ri_published := Some [7]\<rparr>) [''storage''] issue_request
       member_four no_files = (Inl ExpectCheckedByCaller, member_four\<lparr>mb_round_poisoned := True\<rparr>, no_files)
   \<and> on_status_request (plain_demo (one_record_wire last_record)) first_round [''storage''] issue_request
       (member_four\<lparr>mb_round_poisoned := True\<rparr>) no_files = (Inl RoundLockPoisoned, member_four\<lparr>mb_round_poisoned := True\<rparr>, no_files)"
proof -
  let ?E = "plain_demo (one_record_wire last_record)" and ?io = "first_round\<lparr>ri_published := Some [7]\<rparr>"
  have mb: "mb_mode member_four = Raw" "mb_committee member_four = ten_committee" "mb_index member_four = 4"
    "mb_can_aggregate member_four \<and> \<not> mb_round_poisoned member_four"
    by (simp_all add: member_four_def)
  have "status_list_from_bytes (bools_bitlist MAX_COMMITTEE_SIZE) (one_record_wire last_record) [7] = Inr last_record"
    by (rule one_record_decodes) (simp add: signer_count_def bools_bitlist_def last_record_def)
  then have nv: "next_version ?E (mb_mode member_four) (ri_published ?io) = Inr (4294967281, [])"
    by (simp add: next_version_def decode_list_def mb plain_demo_def last_record_def checked_add_def)
  have ap: "apply_request ?E (ri_rng ?io) (mb_index member_four) \<lparr>sr_action = ACTION_ISSUE, sr_data = as_bytes ''alice''\<rparr> 4294967281 []
      = Inr (Inr (as_bytes ''credential'', first_list))"
    using first_applies_at mb(3) by simp
  have "slot_for (mb_committee member_four) 4294967281 = None"
    by (simp add: mb slot_for_def ten_committee_def SLOT_def checked_add_def)
  from version_without_slot_poisons_the_round [OF mb(4) first_request nv ap this first_request] show ?thesis by blast
qed

end
