(* ===== verification/Demo_Holder.thy ===== *)
theory Demo_Holder
  imports Demo_Round Demo_Examples
begin

text \<open>
  Node A of the XMSS demo (demo/src/bin/holder.rs): the relying party of either mode behind one
  interface, its start, its round, the connection handler and the trigger.

  The lemmas show that node A is a relying party that lists what it judged, so a round that reports
  success rests on an authentic record. Two limits of the round are stated as well: a revocation is
  confirmed on the credential the aggregator echoes, and a record older than the mark still yields a
  verdict.
\<close>

section \<open>The node\<close>

datatype 'pk holder_node = RawHolder "'pk raw_node" | SnarkHolder "'pk snark_node"

datatype build_panic = InvalidStateMode string | NoMark high_water_mark_error

text \<open>\<open>HOLDER_STATE_MODE\<close> defaults to \<open>open\<close>.\<close>

definition holder_build ::
  "('b, 'pk, 'sk, 'sig, 'rng, 'sph, 'agg) demo_env \<Rightarrow> lock_fault \<Rightarrow> read_fault \<Rightarrow> replace_fault \<Rightarrow> string option \<Rightarrow> path \<Rightarrow> mode \<Rightarrow> 'pk committee \<Rightarrow> fs
    \<Rightarrow> (build_panic, 'pk holder_node) result \<times> fs" where
  "holder_build E lf rdf rf var state_dir m c s =
     (let mark_path = state_dir @ [''highwater''];
          anchor = committee_to_bytes (e_anchor E) c;
          sha3 = sha3_256 (e_hashes E);
          state_mode = (case var of None \<Rightarrow> ''open'' | Some v \<Rightarrow> v)
      in if state_mode \<noteq> ''create'' \<and> state_mode \<noteq> ''open'' then (Inl (InvalidStateMode state_mode), s)
         else case (if state_mode = ''create'' then mark_create sha3 lf rdf rf mark_path anchor s
                    else mark_open sha3 lf rdf mark_path anchor s) of
                (Inl e, s') \<Rightarrow> (Inl (NoMark e), s')
              | (Inr mark, s') \<Rightarrow>
                  (Inr (case m of Raw \<Rightarrow> RawHolder (raw_node_new c mark) | Snark \<Rightarrow> SnarkHolder (snark_node_new c mark)), s'))"

definition holder_mode :: "'pk holder_node \<Rightarrow> mode" where
  "holder_mode n = (case n of RawHolder _ \<Rightarrow> Raw | SnarkHolder _ \<Rightarrow> Snark)"

definition holder_accept ::
  "('b, 'pk, 'sk, 'sig, 'rng, 'sph, 'agg) demo_env \<Rightarrow> replace_fault \<Rightarrow> bytes \<Rightarrow> 'pk holder_node \<Rightarrow> fs \<Rightarrow> outcome \<times> 'pk holder_node \<times> fs" where
  "holder_accept E rf b n s =
     (case n of
        RawHolder r \<Rightarrow>
          (case raw_accept (e_bits E) (e_raw_ssz E) (e_xmss E) (blake2s_256 (e_hashes E)) rf b r s of
             (out, r', s') \<Rightarrow> (out, RawHolder r', s'))
      | SnarkHolder r \<Rightarrow>
          (case snark_accept (e_leanvm E) (e_snark_ssz E) (blake2s_256 (e_hashes E)) rf b r s of
             (out, r', s') \<Rightarrow> (out, SnarkHolder r', s')))"

text \<open>The list \<open>report\<close> returns; what it prints is left out.\<close>

definition holder_listing :: "('b, 'pk, 'sk, 'sig, 'rng, 'sph, 'agg) demo_env \<Rightarrow> 'pk holder_node \<Rightarrow> bytes \<Rightarrow> 32 barr list" where
  "holder_listing E n b =
     (case n of
        RawHolder _ \<Rightarrow> (case status_list_from_bytes (e_bits E) (e_raw_ssz E) b of Inl e \<Rightarrow> [] | Inr r \<Rightarrow> sl_status_list r)
      | SnarkHolder _ \<Rightarrow> (case snark_from_bytes (e_snark_ssz E) b of Inl e \<Rightarrow> [] | Inr r \<Rightarrow> ss_status_list r))"

section \<open>Asking for an update\<close>

definition role_text :: "mode \<Rightarrow> string" where
  "role_text m = (case m of Raw \<Rightarrow> ''member'' | Snark \<Rightarrow> ''SNARK aggregator'')"

definition request_status_update ::
  "('b, 'pk, 'sk, 'sig, 'rng, 'sph, 'agg) demo_env \<Rightarrow> holder_io \<Rightarrow> mode \<Rightarrow> u8 \<Rightarrow> bytes \<Rightarrow> (string, status_updated) result" where
  "request_status_update E io m act data =
     (let candidates = aggregator_indices m
      in case choose_target (\<lambda>raw. ''TARGET_MEMBER must be a committee index, got `'' @ raw @ ''`'')
                (\<lambda>target. ''member '' @ show_nat target @ '' cannot aggregate in '' @ mode_as_str m
                   @ '' mode; allowed targets: ['' @ format_indices candidates @ '']'') candidates io of
           Inl why \<Rightarrow> Inl why
         | Inr target \<Rightarrow>
             if act \<noteq> ACTION_ISSUE \<and> act \<noteq> ACTION_REVOKE then Inl (''unsupported status action '' @ show_nat (unat act))
             else case ho_answer io target (as_ssz_bytes (request_ssz (e_messages E)) \<lparr>sr_action = act, sr_data = data\<rparr>) of
                    Inl e \<Rightarrow> Inl (role_text m @ '' '' @ show_nat target @ '' did not answer: '' @ tx_wire (e_texts E) e)
                  | Inr (kind, reply) \<Rightarrow>
                      if kind = MSG_STATUS_UPDATED
                      then map_sum (\<lambda>_. ''malformed status-update response'') id (from_ssz_bytes (updated_ssz (e_messages E)) reply)
                      else Inl (role_text m @ '' '' @ show_nat target @ '' failed the round: ''
                             @ failure_text (failure_ssz (e_messages E)) (tx_lossy (e_texts E)) reply))"

section \<open>The round\<close>

definition holder_texts :: "demo_texts \<Rightarrow> round_texts" where
  "holder_texts tx = \<lparr>rt_refused = ''the canonical record did not verify, refusing it'',
     rt_stale = (\<lambda>m. ''already seen, high-water stays at v'' @ show_nat (unat m)),
     rt_version = (\<lambda>u v. ''aggregator reported v'' @ show_nat (unat u) @ '' but storage returned v'' @ show_nat (unat v)),
     rt_absent = (\<lambda>v. ''v'' @ show_nat (unat v) @ '' verified, but the issued credential is absent''),
     rt_present = (\<lambda>v. ''v'' @ show_nat (unat v) @ '' verified, but the revoked credential is still present''),
     rt_store = (\<lambda>e. ''cannot persist the issued credential: '' @ tx_io tx e),
     rt_no_credential = (\<lambda>e. ''no issued credential is available to revoke: '' @ tx_io tx e)\<rparr>"

definition holder_round ::
  "('b, 'pk, 'sk, 'sig, 'rng, 'sph, 'agg) demo_env \<Rightarrow> holder_io \<Rightarrow> path \<Rightarrow> action \<Rightarrow> 'pk holder_node \<Rightarrow> fs
    \<Rightarrow> (round_error, string) result \<times> 'pk holder_node \<times> fs" where
  "holder_round E io state_dir act n s =
     run_round (holder_accept E) (holder_listing E) (request_status_update E io (holder_mode n)) (holder_texts (e_texts E))
       (sha3_256 (e_hashes E)) io state_dir act n s"

text \<open>One trigger on the resident node; the result is the bytes written back.\<close>

definition holder_handle ::
  "('b, 'pk, 'sk, 'sig, 'rng, 'sph, 'agg) demo_env \<Rightarrow> bool \<Rightarrow> write_fault \<Rightarrow> holder_io \<Rightarrow> path \<Rightarrow> bytes \<Rightarrow> bytes \<Rightarrow> 'pk holder_node \<Rightarrow> fs
    \<Rightarrow> (round_error, bytes) result \<times> 'pk holder_node \<times> fs" where
  "holder_handle E timeout_set wr io state_dir subject stream n s =
     (if \<not> timeout_set then (Inr [], n, s)
      else let answer = (\<lambda>kind txt. snd (send wr kind (failure_of (failure_ssz (e_messages E)) txt)))
      in case recv stream of
        Inl e \<Rightarrow> (Inr [], n, s)
      | Inr ((kind, payload), _) \<Rightarrow>
          if kind \<noteq> MSG_ROUND_REQUEST then (Inr (answer MSG_FAILURE ''not a round request''), n, s)
          else case decode_trigger (request_ssz (e_messages E)) ''malformed status request: '' subject payload of
                 Inl why \<Rightarrow> (Inr (answer MSG_FAILURE why), n, s)
               | Inr act \<Rightarrow>
                   (case holder_round E io state_dir act n s of
                      (Inr txt, n', s') \<Rightarrow> (Inr (answer MSG_ROUND_RESULT txt), n', s')
                    | (Inl (RoundFailed why), n', s') \<Rightarrow> (Inr (answer MSG_FAILURE why), n', s')
                    | (Inl ExpectIssuedCredential, n', s') \<Rightarrow> (Inl ExpectIssuedCredential, n', s')))"

text \<open>
  The trigger: the exit status, or \<open>None\<close> when node A cannot be reached, which is a panic. The
  answer of the resident node to the framed payload is an input.
\<close>

definition trigger_payload :: "string \<Rightarrow> bytes \<Rightarrow> status_request option" where
  "trigger_payload kind subject =
     (if kind = ''round'' then Some \<lparr>sr_action = ACTION_ISSUE, sr_data = subject\<rparr>
      else if kind = ''revoke'' then Some \<lparr>sr_action = ACTION_REVOKE, sr_data = []\<rparr>
      else if kind = ''verify'' then Some \<lparr>sr_action = ACTION_VERIFY, sr_data = []\<rparr>
      else None)"

definition trigger :: "status_request ssz \<Rightarrow> connection \<Rightarrow> string \<Rightarrow> bytes \<Rightarrow> nat option" where
  "trigger R c kind subject =
     (case trigger_payload kind subject of
        None \<Rightarrow> Some 2
      | Some rq \<Rightarrow>
          (case request c MSG_ROUND_REQUEST (as_ssz_bytes R rq) of
             Inl e \<Rightarrow> None
           | Inr (k, reply) \<Rightarrow> Some (if k \<noteq> MSG_ROUND_RESULT then 1 else 0)))"

section \<open>Node A is a relying party\<close>

definition holder_judge :: "('b, 'pk, 'sk, 'sig, 'rng, 'sph, 'agg) demo_env \<Rightarrow> 'pk holder_node \<Rightarrow> bytes \<Rightarrow> u32 option" where
  "holder_judge E n b =
     (case n of
        RawHolder r \<Rightarrow> raw_judge (e_bits E) (e_raw_ssz E) (e_xmss E) (blake2s_256 (e_hashes E)) r b
      | SnarkHolder r \<Rightarrow> snark_judge (e_leanvm E) (e_snark_ssz E) (blake2s_256 (e_hashes E)) r b)"

definition holder_mark :: "'pk holder_node \<Rightarrow> high_water_mark" where
  "holder_mark n = (case n of RawHolder r \<Rightarrow> rn_mark r | SnarkHolder r \<Rightarrow> sn_mark r)"

definition holder_with_mark :: "high_water_mark \<Rightarrow> 'pk holder_node \<Rightarrow> 'pk holder_node" where
  "holder_with_mark m n = (case n of RawHolder r \<Rightarrow> RawHolder (r\<lparr>rn_mark := m\<rparr>) | SnarkHolder r \<Rightarrow> SnarkHolder (r\<lparr>sn_mark := m\<rparr>))"

text \<open>The bytes decode to a record of this version and list that the node's predicate accepts.\<close>

definition holder_authentic ::
  "('b, 'pk, 'sk, 'sig, 'rng, 'sph, 'agg) demo_env \<Rightarrow> 'pk holder_node \<Rightarrow> u32 \<Rightarrow> 32 barr list \<Rightarrow> bytes \<Rightarrow> bool" where
  "holder_authentic E n v xs b \<longleftrightarrow>
     (case n of
        RawHolder h \<Rightarrow> \<exists>r. status_list_from_bytes (e_bits E) (e_raw_ssz E) b = Inr r \<and> sl_version r = v \<and> sl_status_list r = xs
          \<and> verify_status_list (e_bits E) (e_xmss E) (blake2s_256 (e_hashes E)) (rn_verifier h) r
      | SnarkHolder h \<Rightarrow> \<exists>r. snark_from_bytes (e_snark_ssz E) b = Inr r \<and> ss_version r = v \<and> ss_status_list r = xs
          \<and> snark_verify (e_leanvm E) (blake2s_256 (e_hashes E)) (sn_verifier h) r)"

interpretation holder_party: listing_party "holder_accept E" "holder_judge E" holder_mark holder_with_mark
    "holder_listing E" "holder_authentic E"
  for E
proof
  fix n b rf s v m
  show "holder_judge E n b = None \<Longrightarrow> holder_accept E rf b n s = (OutRefused, n, s)"
    by (cases n) (simp_all add: holder_judge_def holder_accept_def raw_party.refuses snark_party.refuses)
  show "holder_judge E n b = Some v \<Longrightarrow> holder_accept E rf b n s =
      (case outcome_advance rf (holder_mark n) v s of (out, m', s') \<Rightarrow> (out, holder_with_mark m' n, s'))"
    by (cases n) (auto simp: holder_judge_def holder_accept_def holder_mark_def holder_with_mark_def
        raw_party.offers snark_party.offers split: prod.splits)
  show "holder_mark (holder_with_mark m n) = m" "holder_with_mark (holder_mark n) n = n"
    by (cases n; simp add: holder_mark_def holder_with_mark_def)+
  show "holder_judge E (holder_with_mark m n) = holder_judge E n"
    by (cases n) (auto simp: holder_judge_def holder_with_mark_def raw_party.judge_with_mark snark_party.judge_with_mark fun_eq_iff)
  show "holder_listing E (holder_with_mark m n) = holder_listing E n"
    by (cases n) (auto simp: holder_listing_def holder_with_mark_def fun_eq_iff)
  show "holder_judge E n b = Some v \<Longrightarrow> holder_authentic E n v (holder_listing E n b) b"
    by (cases n) (auto simp: holder_judge_def raw_judge_def snark_judge_def holder_authentic_def holder_listing_def
        split: sum.splits if_splits)
qed

section \<open>A published record\<close>

text \<open>The record of the first round of the example committee, behind the byte 7, and a node A that reads it.\<close>

definition first_pairs :: "(usize \<times> plain_sig) list" where
  "first_pairs = map (\<lambda>i. (i, numbered_key i, first_message, SLOT)) (rev [3..<10])"

lemma first_record:
  "\<exists>r. verify_status_list (bools_bitlist MAX_COMMITTEE_SIZE) plain_xmss fold_hash \<lparr>v_committee = ten_committee\<rparr> r
     \<and> sl_version r = 0 \<and> sl_status_list r = first_list
     \<and> signer_count (bools_bitlist MAX_COMMITTEE_SIZE) r = length (sl_signatures r)"
proof -
  let ?n = "\<lparr>v_committee = ten_committee\<rparr>"
  have wf: "wf_committee fold_hash reference_codecs (v_committee ?n)" using ten_committee_wf by simp
  have ps: "valid_pairs (length (members (v_committee ?n))) first_pairs"
    by (auto simp: valid_pairs_def first_pairs_def ten_committee_def MAX_COMMITTEE_SIZE_def comp_def)
  have t: "threshold (v_committee ?n) \<le> length first_pairs" by (simp add: ten_committee_def first_pairs_def)
  have slot: "slot_for (v_committee ?n) 0 = Some SLOT" using first_slot by simp
  have sigs: "\<forall>(i, sig) \<in> set first_pairs. xmss_verify plain_xmss (members (v_committee ?n) ! i)
      (message_for fold_hash (v_committee ?n) WotsXmss first_list 0) sig SLOT"
    by (auto simp: first_pairs_def plain_xmss_def ten_committee_def ten_members_nth first_message_def)
  obtain r where r: "status_list_new (bools_bitlist MAX_COMMITTEE_SIZE) WotsXmss first_list 0 (length (members (v_committee ?n))) first_pairs = Inr r"
    "verify_status_list (bools_bitlist MAX_COMMITTEE_SIZE) plain_xmss fold_hash ?n r"
    using honest_record_verifies [OF bools_bitlist_laws wf ps t slot sigs] by blast
  then show ?thesis using honest_record_pairs [OF bools_bitlist_laws ps r(1)] by auto
qed

definition node_a :: "u32 \<Rightarrow> bool \<Rightarrow> 32 barr holder_node" where
  "node_a current have = RawHolder (raw_node_new ten_committee
     \<lparr>m_path = [''state'', ''highwater''], m_fingerprint = ''00'', m_current = current, m_have = have\<rparr>)"

definition with_credential :: fs where
  "with_credential = no_files\<lparr>files := [[''state'', ''credential.bin''] \<mapsto> as_bytes ''credential'']\<rparr>"

text \<open>Member 4 answers every request with the credential \<open>echo\<close>.\<close>

definition echoing :: "bytes \<Rightarrow> holder_io" where
  "echoing echo = \<lparr>ho_target = Some ''4'', ho_random = 0,
     ho_answer = (\<lambda>_ _. Inr (MSG_STATUS_UPDATED, as_ssz_bytes updated_codec \<lparr>su_version = 0, su_credential = echo\<rparr>)),
     ho_published = Some [7], ho_gate = ReplaceClean, ho_store = ReplaceClean, ho_read = ReadClean\<rparr>"

lemma echo_received:
  "act = ACTION_ISSUE \<or> act = ACTION_REVOKE \<Longrightarrow>
     request_status_update (plain_demo W) (echoing echo) Raw act data = Inr \<lparr>su_version = 0, su_credential = echo\<rparr>"
proof -
  assume act: "act = ACTION_ISSUE \<or> act = ACTION_REVOKE"
  have "parse_unsigned usize_max (text_of ''4'') = Inr 4"
    by (simp add: parse_unsigned_def text_of_def usize_max_def)
  then have "choose_target bad other (aggregator_indices Raw) (echoing echo) = Inr 4" for bad other
    by (simp add: choose_target_def echoing_def aggregator_indices_def ALL_MEMBER_INDICES_def List.member_iff)
  then show ?thesis
    using act by (auto simp: request_status_update_def plain_demo_def plain_messages_def updated_codec_def echoing_def Let_def)
qed

lemma node_a_judges:
  assumes "verify_status_list (bools_bitlist MAX_COMMITTEE_SIZE) plain_xmss fold_hash \<lparr>v_committee = ten_committee\<rparr> r"
    and "sl_version r = 0" and "sl_status_list r = first_list"
    and "signer_count (bools_bitlist MAX_COMMITTEE_SIZE) r = length (sl_signatures r)"
  shows "holder_judge (plain_demo (one_record_wire r)) (node_a current have) [7] = Some 0"
    and "holder_listing (plain_demo (one_record_wire r)) (node_a current have) [7] = first_list"
  using assms
  by (simp_all add: holder_judge_def node_a_def plain_demo_def raw_judge_def one_record_decodes raw_node_new_def holder_listing_def)

lemma node_a_accepts:
  assumes "holder_judge E (node_a current have) [7] = Some 0"
  shows "fst (holder_accept E ReplaceClean [7] (node_a current have) s) \<noteq> OutRefused"
  using holder_party.offers [OF assms, of ReplaceClean s]
  by (auto simp: outcome_advance_def try_advance_def mark_persist_def replace_file_def Let_def
      split: prod.splits sum.splits decision.splits if_splits)

lemma credential_saved: "load_credential ReadClean [''state''] with_credential = Inr (as_bytes ''credential'')"
  by (simp add: load_credential_def credential_path_def with_credential_def)

lemma echo_differs: "vc_fingerprint fold_hash [] \<notin> set first_list" "vc_fingerprint fold_hash (as_bytes ''credential'') \<in> set first_list"
proof -
  have "foldl (\<lambda>h b. 31 * h + ucast b + 7) 0 (as_bytes ''credential'') \<noteq> (0 :: u64)"
    by (simp add: as_bytes_def)
  then have "u64_to_le 0 \<noteq> u64_to_le (foldl (\<lambda>h b. 31 * h + ucast b + 7) 0 (as_bytes ''credential''))"
    by simp
  then have "bytes_of (fold_hash []) \<noteq> bytes_of (fold_hash (as_bytes ''credential''))"
    by (simp add: fold_hash_def)
  then have "fold_hash [] \<noteq> fold_hash (as_bytes ''credential'')" by metis
  then show "vc_fingerprint fold_hash [] \<notin> set first_list" "vc_fingerprint fold_hash (as_bytes ''credential'') \<in> set first_list"
    by (simp_all add: first_list_def vc_fingerprint_def hash_any_def)
qed

section \<open>Properties\<close>

text \<open>
  C9. A verdict of node A rests on an authentic record: when a round reports success, in either mode
  and whatever the aggregator answered, the published bytes decode to a record that verifies under
  the pinned anchor; an issuance was reported for exactly this version, its credential is in the
  signed list and is saved durably; the credential echoed for a revocation is not in the signed list.
\<close>

theorem holder_success_is_authentic:
  assumes "holder_round E io state_dir act n s = (Inr verdict, n', s')"
  shows "\<exists>bs v. ho_published io = Some bs \<and> holder_authentic E n v (holder_listing E n bs) bs
    \<and> (case act of
         Issue subject \<Rightarrow> \<exists>u. request_status_update E io (holder_mode n) ACTION_ISSUE subject = Inr u \<and> su_version u = v
           \<and> vc_fingerprint (sha3_256 (e_hashes E)) (su_credential u) \<in> set (holder_listing E n bs)
           \<and> stable s' (credential_path state_dir) = Some (su_credential u)
       | Revoke \<Rightarrow> \<exists>cr u. load_credential (ho_read io) state_dir s = Inr cr
           \<and> request_status_update E io (holder_mode n) ACTION_REVOKE cr = Inr u \<and> su_version u = v
           \<and> vc_fingerprint (sha3_256 (e_hashes E)) (su_credential u) \<notin> set (holder_listing E n bs)
       | Verify \<Rightarrow> True)"
  using holder_party.round_success [OF assms [unfolded holder_round_def]] by blast

theorem holder_success_is_authentic_witness:
  "\<exists>r verdict n' s'. holder_round (plain_demo (one_record_wire r)) (echoing (as_bytes ''credential'')) [''state'']
       (Issue (as_bytes ''alice'')) (node_a 0 False) no_files = (Inr verdict, n', s')
     \<and> stable s' [''state'', ''credential.bin''] = Some (as_bytes ''credential'')"
proof -
  obtain r where r: "verify_status_list (bools_bitlist MAX_COMMITTEE_SIZE) plain_xmss fold_hash \<lparr>v_committee = ten_committee\<rparr> r"
    "sl_version r = 0" "sl_status_list r = first_list"
    "signer_count (bools_bitlist MAX_COMMITTEE_SIZE) r = length (sl_signatures r)"
    using first_record by blast
  let ?E = "plain_demo (one_record_wire r)" and ?io = "echoing (as_bytes ''credential'')"
  have mode: "holder_mode (node_a 0 False) = Raw" by (simp add: node_a_def holder_mode_def)
  have sha3: "sha3_256 (e_hashes ?E) = fold_hash" by (simp add: plain_demo_def)
  note j = node_a_judges [OF r, of 0 False]
  obtain why n' s' where run: "holder_round ?E ?io [''state''] (Issue (as_bytes ''alice'')) (node_a 0 False) no_files
      = (Inr (summary 0 ''credential issued and present: valid'' why), n', s')"
    using holder_party.issue_judges_answer [of ?io "[7]" ?E "node_a 0 False" 0 no_files
        "request_status_update ?E ?io Raw" "as_bytes ''alice''" "\<lparr>su_version = 0, su_credential = as_bytes ''credential''\<rparr>" fold_hash
        "holder_texts (e_texts ?E)" "[''state'']"]
      j node_a_accepts [OF j(1)] echo_received echo_differs(2) mode sha3
    by (auto simp: holder_round_def echoing_def)
  from holder_success_is_authentic [OF run] show ?thesis
    using run echo_received [of ACTION_ISSUE] mode by (fastforce simp: credential_path_def)
qed

text \<open>
  C34. A record at or below the mark still yields a verdict: verifying it again, or verifying a record
  the storage rolled back to, answers with the membership in that old list as a result and not as a
  failure, and moves neither the mark nor the disk. Only the closing words tell it apart.
\<close>

theorem stale_record_is_answered_not_refused:
  assumes "ho_published io = Some bs" and "holder_judge E n bs = Some v"
    and "m_have (holder_mark n)" and "v \<le> m_current (holder_mark n)"
  shows "holder_round E io state_dir Verify n s =
    (Inr (summary v
      (case map_option (is_valid (sha3_256 (e_hashes E)) (holder_listing E n bs)) (load_credential_if_present (ho_read io) state_dir s) of
         Some True \<Rightarrow> ''saved credential is present: valid''
       | Some False \<Rightarrow> ''saved credential is absent: revoked''
       | None \<Rightarrow> ''no saved credential to query'')
      (''already seen, high-water stays at v'' @ show_nat (unat (m_current (holder_mark n))))), n, s)"
  using holder_party.stale_verify [OF assms] by (simp add: holder_round_def holder_texts_def)

text \<open>The mark of node A is at version 3, and the storage shows version 0 again.\<close>

theorem stale_record_is_answered_not_refused_witness:
  "\<exists>r. holder_round (plain_demo (one_record_wire r)) (echoing []) [''state''] Verify (node_a 3 True) with_credential =
     (Inr (summary 0 ''saved credential is present: valid'' (''already seen, high-water stays at v'' @ show_nat 3)), node_a 3 True, with_credential)"
proof -
  obtain r where r: "verify_status_list (bools_bitlist MAX_COMMITTEE_SIZE) plain_xmss fold_hash \<lparr>v_committee = ten_committee\<rparr> r"
    "sl_version r = 0" "sl_status_list r = first_list"
    "signer_count (bools_bitlist MAX_COMMITTEE_SIZE) r = length (sl_signatures r)"
    using first_record by blast
  let ?E = "plain_demo (one_record_wire r)"
  have sha3: "sha3_256 (e_hashes ?E) = fold_hash" by (simp add: plain_demo_def)
  have mark: "m_have (holder_mark (node_a 3 True))" "m_current (holder_mark (node_a 3 True)) = 3"
    by (simp_all add: node_a_def holder_mark_def raw_node_new_def)
  note j = node_a_judges [OF r, of 3 True]
  show ?thesis
    using stale_record_is_answered_not_refused [OF _ j(1) mark(1), of "echoing []" "[''state'']" with_credential]
      j(2) mark(2) sha3 echo_differs(2) credential_saved
    by (intro exI [of _ r]) (simp add: echoing_def load_credential_if_present_def ok_def is_valid_set)
qed

text \<open>
  C33. A revocation is confirmed on the credential the aggregator sent back: if that credential is
  absent from the authentic list, node A reports its own credential as revoked, whether or not the
  credential it asked to revoke is still in that list.
\<close>

theorem revocation_is_confirmed_on_the_echo:
  assumes "ho_published io = Some bs" and "holder_judge E n bs = Some v" and "fst (holder_accept E (ho_gate io) bs n s) \<noteq> OutRefused"
    and "load_credential (ho_read io) state_dir s = Inr cr"
    and "request_status_update E io (holder_mode n) ACTION_REVOKE cr = Inr u" and "su_version u = v"
    and "vc_fingerprint (sha3_256 (e_hashes E)) (su_credential u) \<notin> set (holder_listing E n bs)"
  shows "\<exists>why. fst (holder_round E io state_dir Revoke n s) = Inr (summary v ''credential removed: revoked'' why)"
  unfolding holder_round_def
  by (rule holder_party.revoke_judges_answer [where ask = "request_status_update E io (holder_mode n)", OF assms])

text \<open>The saved credential is in the signed list, and the aggregator echoes nothing.\<close>

theorem revocation_is_confirmed_on_the_echo_witness:
  "\<exists>r why. fst (holder_round (plain_demo (one_record_wire r)) (echoing []) [''state''] Revoke (node_a 0 False) with_credential)
       = Inr (summary 0 ''credential removed: revoked'' why)
     \<and> load_credential ReadClean [''state''] with_credential = Inr (as_bytes ''credential'')
     \<and> is_valid fold_hash (holder_listing (plain_demo (one_record_wire r)) (node_a 0 False) [7]) (as_bytes ''credential'')"
proof -
  obtain r where r: "verify_status_list (bools_bitlist MAX_COMMITTEE_SIZE) plain_xmss fold_hash \<lparr>v_committee = ten_committee\<rparr> r"
    "sl_version r = 0" "sl_status_list r = first_list"
    "signer_count (bools_bitlist MAX_COMMITTEE_SIZE) r = length (sl_signatures r)"
    using first_record by blast
  let ?E = "plain_demo (one_record_wire r)" and ?n = "node_a 0 False" and ?u = "\<lparr>su_version = 0, su_credential = []\<rparr>"
  note j = node_a_judges [OF r, of 0 False]
  have io: "ho_published (echoing []) = Some [7]" "ho_gate (echoing []) = ReplaceClean" "ho_read (echoing []) = ReadClean"
    by (simp_all add: echoing_def)
  have mode: "holder_mode ?n = Raw" by (simp add: node_a_def holder_mode_def)
  have sha3: "sha3_256 (e_hashes ?E) = fold_hash" by (simp add: plain_demo_def)
  have "\<exists>why. fst (holder_round ?E (echoing []) [''state''] Revoke ?n with_credential) = Inr (summary 0 ''credential removed: revoked'' why)"
    by (rule revocation_is_confirmed_on_the_echo [OF io(1) j(1), of with_credential "[''state'']" "as_bytes ''credential''" ?u])
      (simp_all add: io node_a_accepts [OF j(1)] credential_saved echo_received mode sha3 j(2) echo_differs)
  then show ?thesis using credential_saved j(2) echo_differs(2) by (auto simp: is_valid_set)
qed

end
