(* ===== verification/Mldsa.thy ===== *)
theory Mldsa
  imports Signer_Bits Rust_Text Instances Committee
begin

text \<open>
  The ML-DSA-65 baseline (mldsa/src): the anchor (committee.rs), the record and the statement its
  members sign (status_list.rs), the stateless signer (signer.rs) and the predicate (verifier.rs),
  over the \<open>ml_dsa\<close> library, the hash functions and the SSZ codecs as parameters.

  The lemmas show that whatever decodes is canonical without relying on the codec, because the code
  re-encodes and compares, that a verified record carries a quorum of distinct members' signatures
  on the statement of this anchor, list and version, and that the statement binds all three.
\<close>

section \<open>The library\<close>

text \<open>Decoding a public key is total on arrays of its length; decoding a signature may fail.\<close>

record ('pk, 'sk, 'sig, 'rng) mldsa =
  pk_encode :: "'pk \<Rightarrow> 1952 barr"
  pk_decode :: "1952 barr \<Rightarrow> 'pk"
  sig_encode :: "'sig \<Rightarrow> 3309 barr"
  sig_decode :: "3309 barr \<Rightarrow> 'sig option"
  verify_with_context :: "'pk \<Rightarrow> bytes \<Rightarrow> bytes \<Rightarrow> 'sig \<Rightarrow> bool"
  sign_randomized :: "'rng \<Rightarrow> 'sk \<Rightarrow> bytes \<Rightarrow> bytes \<Rightarrow> (string, 'sig) result"
  verifying_key :: "'sk \<Rightarrow> 'pk"
  sk_from_seed :: "32 barr \<Rightarrow> 'sk"
  sk_to_seed :: "'sk \<Rightarrow> 32 barr"
  try_generate :: "'rng \<Rightarrow> (string, 'sk) result"

record 'b ml_wire =
  mw_alg :: u8
  mw_status_list :: "32 barr list"
  mw_version :: u32
  mw_signers :: 'b
  mw_signatures :: "3309 barr list"

record statement_wire =
  st_alg :: u8
  st_anchor_id :: "48 barr"
  st_version :: u32
  st_status_list :: "32 barr list"

record ml_committee_wire =
  mcw_members :: "1952 barr list"
  mcw_threshold :: u64

text \<open>The hash functions and codecs one build of the crate links.\<close>

record 'b ml_env =
  sha3_384 :: "bytes \<Rightarrow> 48 barr"
  shake256 :: "bytes \<Rightarrow> 64 barr"
  ml_bits :: "'b bitlist"
  ml_record_ssz :: "'b ml_wire ssz"
  ml_statement_ssz :: "statement_wire ssz"
  ml_committee_ssz :: "ml_committee_wire ssz"

datatype ml_error =
    NonCanonicalKey
  | EmptyCommittee
  | MlTooManyMembers usize
  | MlDuplicateMembers
  | MlThresholdOutside usize usize
  | MlWireTooLarge usize
  | MlNotSsz string
  | MlThresholdTooLarge u64
  | MlNonCanonicalSsz
  | MemberCountOutside usize
  | MoreSignaturesThanMembers
  | RecordTooLarge
  | MlDuplicateSigner
  | MlSignerOutside usize
  | MlBitmapLimit
  | MlExpectIndices
  | UnexpectedTag u8
  | PopulationDiffers
  | MalformedSignature
  | NonCanonicalSignature

section \<open>Statements\<close>

definition PUBLIC_KEY_BYTES :: usize where "PUBLIC_KEY_BYTES = 1952"
definition ML_MAX_COMMITTEE_SIZE :: usize where "ML_MAX_COMMITTEE_SIZE = 2048"
definition MAX_RECORD_BYTES :: usize where "MAX_RECORD_BYTES = 64 * 1024 * 1024"
definition SIGNATURE_BYTES :: usize where "SIGNATURE_BYTES = 3309"
definition ALGORITHM_TAG :: u8 where "ALGORITHM_TAG = 2"
definition STATEMENT_DOMAIN :: bytes where
  "STATEMENT_DOMAIN = as_bytes ''decentralized-root-of-trust/ml-dsa-65/status-list/v2'' @ [0]"
definition ANCHOR_ID_DOMAIN :: bytes where
  "ANCHOR_ID_DOMAIN = as_bytes ''decentralized-root-of-trust/ml-dsa-65/anchor-id/v1'' @ [0]"
definition ML_COMMITTEE_FIXED_WIRE_BYTES :: usize where "ML_COMMITTEE_FIXED_WIRE_BYTES = 4 + 8"
definition ML_MAX_COMMITTEE_WIRE_BYTES :: usize where
  "ML_MAX_COMMITTEE_WIRE_BYTES = ML_COMMITTEE_FIXED_WIRE_BYTES + ML_MAX_COMMITTEE_SIZE * PUBLIC_KEY_BYTES"

definition statement_preimage :: "'b ml_env \<Rightarrow> 48 barr \<Rightarrow> 32 barr list \<Rightarrow> u32 \<Rightarrow> bytes" where
  "statement_preimage E anchor xs version =
     STATEMENT_DOMAIN @ as_ssz_bytes (ml_statement_ssz E)
       \<lparr>st_alg = ALGORITHM_TAG, st_anchor_id = anchor, st_version = version, st_status_list = xs\<rparr>"

definition statement_digest :: "'b ml_env \<Rightarrow> 48 barr \<Rightarrow> 32 barr list \<Rightarrow> u32 \<Rightarrow> 64 barr" where
  "statement_digest E anchor xs version = shake256 E (statement_preimage E anchor xs version)"

section \<open>The anchor\<close>

record 'pk ml_committee =
  ml_members :: "'pk list"
  ml_threshold :: usize
  ml_anchor_id :: "48 barr"

definition encode_public_key :: "('pk, 'sk, 'sig, 'rng) mldsa \<Rightarrow> 'pk \<Rightarrow> 1952 barr" where
  "encode_public_key M pk = pk_encode M pk"

definition decode_public_key :: "('pk, 'sk, 'sig, 'rng) mldsa \<Rightarrow> 1952 barr \<Rightarrow> (ml_error, 'pk) result" where
  "decode_public_key M bs =
     (let pk = pk_decode M bs in if encode_public_key M pk \<noteq> bs then Inl NonCanonicalKey else Inr pk)"

definition validate_members :: "('pk, 'sk, 'sig, 'rng) mldsa \<Rightarrow> 'pk list \<Rightarrow> (ml_error, unit) result" where
  "validate_members M ms =
     (if ms = [] then Inl EmptyCommittee
      else if length ms > ML_MAX_COMMITTEE_SIZE then Inl (MlTooManyMembers (length ms))
      else if duplicate_scan [] (map (\<lambda>pk. bytes_of (encode_public_key M pk)) ms) then Inl MlDuplicateMembers
      else Inr ())"

definition validate_threshold :: "usize \<Rightarrow> usize \<Rightarrow> (ml_error, unit) result" where
  "validate_threshold t n = (if \<not> (1 \<le> t \<and> t \<le> n) then Inl (MlThresholdOutside t n) else Inr ())"

definition wire_bytes :: "'b ml_env \<Rightarrow> ('pk, 'sk, 'sig, 'rng) mldsa \<Rightarrow> 'pk list \<Rightarrow> usize \<Rightarrow> bytes" where
  "wire_bytes E M ms t = as_ssz_bytes (ml_committee_ssz E)
     \<lparr>mcw_members = map (encode_public_key M) ms, mcw_threshold = word_of_nat t\<rparr>"

definition anchor_id_from_canonical_bytes :: "'b ml_env \<Rightarrow> bytes \<Rightarrow> 48 barr" where
  "anchor_id_from_canonical_bytes E bs = sha3_384 E (ANCHOR_ID_DOMAIN @ bs)"

definition ml_committee_new ::
  "'b ml_env \<Rightarrow> ('pk, 'sk, 'sig, 'rng) mldsa \<Rightarrow> 'pk list \<Rightarrow> usize \<Rightarrow> (ml_error, 'pk ml_committee) result" where
  "ml_committee_new E M ms t =
     (case validate_members M ms of
        Inl e \<Rightarrow> Inl e
      | Inr _ \<Rightarrow>
          (case validate_threshold t (length ms) of
             Inl e \<Rightarrow> Inl e
           | Inr _ \<Rightarrow> Inr \<lparr>ml_members = ms, ml_threshold = t,
                           ml_anchor_id = anchor_id_from_canonical_bytes E (wire_bytes E M ms t)\<rparr>))"

definition ml_committee_from_bytes ::
  "'b ml_env \<Rightarrow> ('pk, 'sk, 'sig, 'rng) mldsa \<Rightarrow> bytes \<Rightarrow> (ml_error, 'pk ml_committee) result" where
  "ml_committee_from_bytes E M bs =
     (if length bs > ML_MAX_COMMITTEE_WIRE_BYTES then Inl (MlWireTooLarge (length bs))
      else case from_ssz_bytes (ml_committee_ssz E) bs of
        Inl e \<Rightarrow> Inl (MlNotSsz e)
      | Inr w \<Rightarrow>
          if unat (mcw_threshold w) > usize_max then Inl (MlThresholdTooLarge (mcw_threshold w))
          else let t = unat (mcw_threshold w)
          in case collect_results (decode_public_key M) (mcw_members w) of
               Inl e \<Rightarrow> Inl e
             | Inr ms \<Rightarrow>
                 (case validate_members M ms of
                    Inl e \<Rightarrow> Inl e
                  | Inr _ \<Rightarrow>
                      (case validate_threshold t (length ms) of
                         Inl e \<Rightarrow> Inl e
                       | Inr _ \<Rightarrow>
                           if wire_bytes E M ms t \<noteq> bs then Inl MlNonCanonicalSsz
                           else Inr \<lparr>ml_members = ms, ml_threshold = t,
                                     ml_anchor_id = anchor_id_from_canonical_bytes E bs\<rparr>)))"

definition ml_committee_to_bytes :: "'b ml_env \<Rightarrow> ('pk, 'sk, 'sig, 'rng) mldsa \<Rightarrow> 'pk ml_committee \<Rightarrow> bytes" where
  "ml_committee_to_bytes E M c = wire_bytes E M (ml_members c) (ml_threshold c)"

definition ml_index_of :: "'pk ml_committee \<Rightarrow> 'pk \<Rightarrow> usize option" where
  "ml_index_of c m = position m (ml_members c)"

definition statement_for :: "'b ml_env \<Rightarrow> 'pk ml_committee \<Rightarrow> 32 barr list \<Rightarrow> u32 \<Rightarrow> 64 barr" where
  "statement_for E c xs version = statement_digest E (ml_anchor_id c) xs version"

section \<open>Records\<close>

record ('b, 'sig) ml_status_list =
  ms_status_list :: "32 barr list"
  ms_version :: u32
  ms_signers :: 'b
  ms_signatures :: "'sig list"

definition record_len :: "usize \<Rightarrow> usize \<Rightarrow> usize \<Rightarrow> usize option" where
  "record_len n_members list_len signature_count =
     (case usize_checked_mul list_len 32 of
        None \<Rightarrow> None
      | Some l \<Rightarrow>
          (case usize_checked_add 17 l of
             None \<Rightarrow> None
           | Some a \<Rightarrow>
               (case usize_checked_add a ((n_members + 8) div 8) of
                  None \<Rightarrow> None
                | Some b \<Rightarrow>
                    (case usize_checked_mul signature_count SIGNATURE_BYTES of
                       None \<Rightarrow> None
                     | Some s \<Rightarrow> usize_checked_add b s))))"

definition check_member_count :: "usize \<Rightarrow> (ml_error, unit) result" where
  "check_member_count n = (if 1 \<le> n \<and> n \<le> ML_MAX_COMMITTEE_SIZE then Inr () else Inl (MemberCountOutside n))"

definition ml_new ::
  "'b ml_env \<Rightarrow> 32 barr list \<Rightarrow> u32 \<Rightarrow> usize \<Rightarrow> (usize \<times> 'sig) list \<Rightarrow> (ml_error, ('b, 'sig) ml_status_list) result" where
  "ml_new E xs version n signatures =
     (case check_member_count n of
        Inl e \<Rightarrow> Inl e
      | Inr _ \<Rightarrow>
          if length signatures > n then Inl MoreSignaturesThanMembers
          else if (case record_len n (length xs) (length signatures) of None \<Rightarrow> True | Some len \<Rightarrow> len > MAX_RECORD_BYTES)
          then Inl RecordTooLarge
          else let sorted = sort_key fst signatures
          in if adjacent_equal sorted then Inl MlDuplicateSigner
             else if sorted \<noteq> [] \<and> fst (last sorted) \<ge> n then Inl (MlSignerOutside (fst (last sorted)))
             else case bl_with_capacity (ml_bits E) n of
                    None \<Rightarrow> Inl MlBitmapLimit
                  | Some bits \<Rightarrow>
                      (case set_bits (ml_bits E) (map fst sorted) bits of
                         None \<Rightarrow> Inl MlExpectIndices
                       | Some signers \<Rightarrow>
                           Inr \<lparr>ms_status_list = xs, ms_version = version, ms_signers = signers,
                                ms_signatures = map snd sorted\<rparr>))"

definition ml_signer_slots :: "'b ml_env \<Rightarrow> ('b, 'sig) ml_status_list \<Rightarrow> usize" where
  "ml_signer_slots E r = bl_len (ml_bits E) (ms_signers r)"

definition ml_signer_count :: "'b ml_env \<Rightarrow> ('b, 'sig) ml_status_list \<Rightarrow> usize" where
  "ml_signer_count E r = bl_num_set_bits (ml_bits E) (ms_signers r)"

definition ml_signer_indices :: "'b ml_env \<Rightarrow> ('b, 'sig) ml_status_list \<Rightarrow> usize list" where
  "ml_signer_indices E r = bit_indices (ml_bits E) (ms_signers r)"

definition ml_to_wire :: "('pk, 'sk, 'sig, 'rng) mldsa \<Rightarrow> ('b, 'sig) ml_status_list \<Rightarrow> 'b ml_wire" where
  "ml_to_wire M r = \<lparr>mw_alg = ALGORITHM_TAG, mw_status_list = ms_status_list r, mw_version = ms_version r,
     mw_signers = ms_signers r, mw_signatures = map (sig_encode M) (ms_signatures r)\<rparr>"

definition ml_to_bytes :: "'b ml_env \<Rightarrow> ('pk, 'sk, 'sig, 'rng) mldsa \<Rightarrow> ('b, 'sig) ml_status_list \<Rightarrow> bytes" where
  "ml_to_bytes E M r = as_ssz_bytes (ml_record_ssz E) (ml_to_wire M r)"

definition decode_signature :: "('pk, 'sk, 'sig, 'rng) mldsa \<Rightarrow> 3309 barr \<Rightarrow> (ml_error, 'sig) result" where
  "decode_signature M raw =
     (case sig_decode M raw of
        None \<Rightarrow> Inl MalformedSignature
      | Some s \<Rightarrow> if sig_encode M s \<noteq> raw then Inl NonCanonicalSignature else Inr s)"

definition ml_from_bytes ::
  "'b ml_env \<Rightarrow> ('pk, 'sk, 'sig, 'rng) mldsa \<Rightarrow> bytes \<Rightarrow> (ml_error, ('b, 'sig) ml_status_list) result" where
  "ml_from_bytes E M bs =
     (if length bs > MAX_RECORD_BYTES then Inl RecordTooLarge
      else case from_ssz_bytes (ml_record_ssz E) bs of
        Inl e \<Rightarrow> Inl (MlNotSsz e)
      | Inr w \<Rightarrow>
          if mw_alg w \<noteq> ALGORITHM_TAG then Inl (UnexpectedTag (mw_alg w))
          else case check_member_count (bl_len (ml_bits E) (mw_signers w)) of
                 Inl e \<Rightarrow> Inl e
               | Inr _ \<Rightarrow>
                   if length (mw_signatures w) \<noteq> bl_num_set_bits (ml_bits E) (mw_signers w) then Inl PopulationDiffers
                   else if as_ssz_bytes (ml_record_ssz E) w \<noteq> bs then Inl MlNonCanonicalSsz
                   else case collect_results (decode_signature M) (mw_signatures w) of
                          Inl e \<Rightarrow> Inl e
                        | Inr sigs \<Rightarrow> Inr \<lparr>ms_status_list = mw_status_list w, ms_version = mw_version w,
                                          ms_signers = mw_signers w, ms_signatures = sigs\<rparr>)"

section \<open>Signer and predicate\<close>

record 'sk ml_signer =
  signing_key :: 'sk

definition ml_generate :: "('pk, 'sk, 'sig, 'rng) mldsa \<Rightarrow> 'rng \<Rightarrow> (string, 'sk ml_signer) result" where
  "ml_generate M rng = map_sum id (\<lambda>sk. \<lparr>signing_key = sk\<rparr>) (try_generate M rng)"

definition ml_from_seed :: "('pk, 'sk, 'sig, 'rng) mldsa \<Rightarrow> 32 barr \<Rightarrow> 'sk ml_signer" where
  "ml_from_seed M seed = \<lparr>signing_key = sk_from_seed M seed\<rparr>"

definition ml_export_seed :: "('pk, 'sk, 'sig, 'rng) mldsa \<Rightarrow> 'sk ml_signer \<Rightarrow> 32 barr" where
  "ml_export_seed M s = sk_to_seed M (signing_key s)"

definition ml_public_key :: "('pk, 'sk, 'sig, 'rng) mldsa \<Rightarrow> 'sk ml_signer \<Rightarrow> 'pk" where
  "ml_public_key M s = verifying_key M (signing_key s)"

definition ml_sign :: "('pk, 'sk, 'sig, 'rng) mldsa \<Rightarrow> 'rng \<Rightarrow> 'sk ml_signer \<Rightarrow> bytes \<Rightarrow> (string, 'sig) result" where
  "ml_sign M rng s msg = sign_randomized M rng (signing_key s) msg []"

definition ml_verify :: "('pk, 'sk, 'sig, 'rng) mldsa \<Rightarrow> 'pk \<Rightarrow> bytes \<Rightarrow> 'sig \<Rightarrow> bool" where
  "ml_verify M pk msg sig = verify_with_context M pk msg [] sig"

definition ml_verify_status_list ::
  "'b ml_env \<Rightarrow> ('pk, 'sk, 'sig, 'rng) mldsa \<Rightarrow> 'pk ml_committee \<Rightarrow> ('b, 'sig) ml_status_list \<Rightarrow> bool" where
  "ml_verify_status_list E M c r =
     (if ml_signer_slots E r \<noteq> length (ml_members c) \<or> ml_signer_count E r < ml_threshold c
         \<or> ml_signer_count E r \<noteq> length (ms_signatures r)
      then False
      else let statement = bytes_of (statement_for E c (ms_status_list r) (ms_version r))
           in list_all (\<lambda>(i, sig). ml_verify M (ml_members c ! i) statement sig)
                (zip (ml_signer_indices E r) (ms_signatures r)))"

section \<open>Well-formed anchors and canonical forms\<close>

definition ml_wf :: "'b ml_env \<Rightarrow> ('pk, 'sk, 'sig, 'rng) mldsa \<Rightarrow> 'pk ml_committee \<Rightarrow> bool" where
  "ml_wf E M c \<longleftrightarrow> 1 \<le> ml_threshold c \<and> ml_threshold c \<le> length (ml_members c)
     \<and> length (ml_members c) \<le> ML_MAX_COMMITTEE_SIZE \<and> distinct (map (pk_encode M) (ml_members c))
     \<and> ml_anchor_id c = sha3_384 E (ANCHOR_ID_DOMAIN @ ml_committee_to_bytes E M c)"

lemma collect_results_inverse:
  "collect_results f xs = Inr ys \<Longrightarrow> (\<And>x y. f x = Inr y \<Longrightarrow> g y = x) \<Longrightarrow> map g ys = xs"
  by (induction xs arbitrary: ys) (auto split: sum.splits)

lemma collect_results_map: "(\<And>y. y \<in> set ys \<Longrightarrow> f (g y) = Inr y) \<Longrightarrow> collect_results f (map g ys) = Inr ys"
  by (induction ys) auto

lemma decode_public_key_Inr: "decode_public_key M bs = Inr pk \<Longrightarrow> pk_encode M pk = bs"
  by (auto simp: decode_public_key_def encode_public_key_def Let_def split: if_splits)

lemma decode_signature_Inr: "decode_signature M raw = Inr s \<Longrightarrow> sig_encode M s = raw"
  by (auto simp: decode_signature_def split: option.splits if_splits)

lemma validate_members_iff:
  "validate_members M ms = Inr () \<longleftrightarrow> ms \<noteq> [] \<and> length ms \<le> ML_MAX_COMMITTEE_SIZE \<and> distinct (map (pk_encode M) ms)"
proof -
  have "inj (bytes_of :: 1952 barr \<Rightarrow> bytes)" by (simp add: inj_def)
  then have "distinct (map (\<lambda>pk. bytes_of (encode_public_key M pk)) ms) \<longleftrightarrow> distinct (map (pk_encode M) ms)"
    by (auto simp: distinct_map inj_on_def encode_public_key_def inj_def)
  then show ?thesis by (auto simp: validate_members_def duplicate_scan_iff)
qed

lemma ml_committee_new_wf: "ml_committee_new E M ms t = Inr c \<Longrightarrow> ml_wf E M c \<and> ml_members c = ms \<and> ml_threshold c = t"
  using validate_members_iff [of M ms]
  by (auto simp: ml_committee_new_def ml_wf_def validate_threshold_def ml_committee_to_bytes_def
      anchor_id_from_canonical_bytes_def split: sum.splits if_splits)

lemma ml_committee_from_bytes_wf:
  assumes "ml_committee_from_bytes E M bs = Inr c"
  shows "ml_wf E M c \<and> ml_committee_to_bytes E M c = bs"
proof -
  obtain t ms where "validate_members M ms = Inr ()" "validate_threshold t (length ms) = Inr ()"
    "wire_bytes E M ms t = bs"
    "c = \<lparr>ml_members = ms, ml_threshold = t, ml_anchor_id = anchor_id_from_canonical_bytes E bs\<rparr>"
    using assms by (auto simp: ml_committee_from_bytes_def Let_def split: if_splits sum.splits)
  then show ?thesis
    by (auto simp: ml_wf_def validate_members_iff validate_threshold_def ml_committee_to_bytes_def
        anchor_id_from_canonical_bytes_def split: if_splits)
qed

lemma ml_from_bytes_Inr:
  assumes "ml_from_bytes E M bs = Inr r"
  shows "ml_to_bytes E M r = bs \<and> ml_signer_count E r = length (ms_signatures r) \<and> length bs \<le> MAX_RECORD_BYTES"
proof -
  obtain w where dec: "from_ssz_bytes (ml_record_ssz E) bs = Inr w"
    using assms by (auto simp: ml_from_bytes_def split: if_splits sum.splits)
  obtain sigs where sigs: "collect_results (decode_signature M) (mw_signatures w) = Inr sigs"
    using assms dec by (simp add: ml_from_bytes_def split: if_splits sum.splits)
  have w: "as_ssz_bytes (ml_record_ssz E) w = bs" "mw_alg w = ALGORITHM_TAG" "length bs \<le> MAX_RECORD_BYTES"
    "length (mw_signatures w) = bl_num_set_bits (ml_bits E) (mw_signers w)"
    and r: "r = \<lparr>ms_status_list = mw_status_list w, ms_version = mw_version w, ms_signers = mw_signers w, ms_signatures = sigs\<rparr>"
    using assms dec sigs by (auto simp: ml_from_bytes_def split: if_splits sum.splits)
  have enc: "map (sig_encode M) sigs = mw_signatures w"
    by (rule collect_results_inverse [OF sigs]) (rule decode_signature_Inr)
  then have "length sigs = length (mw_signatures w)" by (metis length_map)
  moreover have "ml_to_wire M r = w" using r enc w(2) by (cases w) (simp add: ml_to_wire_def)
  ultimately show ?thesis using w r by (simp add: ml_to_bytes_def ml_signer_count_def)
qed

section \<open>Quorums\<close>

definition ml_record_pairs :: "'b ml_env \<Rightarrow> ('b, 'sig) ml_status_list \<Rightarrow> (usize \<times> 'sig) list" where
  "ml_record_pairs E r = zip (ml_signer_indices E r) (ms_signatures r)"

lemma ml_verify_pairs:
  assumes laws: "bitlist_laws N (ml_bits E)" and v: "ml_verify_status_list E M c r"
  shows "sorted_wrt (<) (map fst (ml_record_pairs E r)) \<and> ml_threshold c \<le> length (ml_record_pairs E r)
    \<and> (\<forall>(i, sig) \<in> set (ml_record_pairs E r). i < length (ml_members c)
         \<and> ml_verify M (ml_members c ! i) (bytes_of (statement_for E c (ms_status_list r) (ms_version r))) sig)"
proof -
  have len: "length (ml_signer_indices E r) = ml_signer_count E r"
    using length_bit_indices [OF laws] by (simp add: ml_signer_indices_def ml_signer_count_def)
  have ok: "ml_signer_slots E r = length (ml_members c)" "ml_threshold c \<le> ml_signer_count E r"
    "ml_signer_count E r = length (ms_signatures r)"
    using v by (auto simp: ml_verify_status_list_def not_less split: if_splits)
  have "i < length (ml_members c)" if "(i, sig) \<in> set (ml_record_pairs E r)" for i sig
    using bit_indices_bound [OF laws set_zip_leftD [OF that [unfolded ml_record_pairs_def ml_signer_indices_def]]] ok(1)
    by (simp add: ml_signer_slots_def)
  moreover have "map fst (ml_record_pairs E r) = ml_signer_indices E r"
    using len ok(3) by (simp add: ml_record_pairs_def)
  moreover have "list_all (\<lambda>(i, sig). ml_verify M (ml_members c ! i) (bytes_of (statement_for E c (ms_status_list r) (ms_version r))) sig)
      (ml_record_pairs E r)"
    using v by (simp add: ml_verify_status_list_def ml_record_pairs_def Let_def split: if_splits)
  ultimately show ?thesis
    using ok len bit_indices_sorted [of "ml_bits E" "ms_signers r"]
    by (auto simp: list_all_iff ml_record_pairs_def ml_signer_indices_def)
qed

lemma ml_new_ok:
  assumes laws: "bitlist_laws ML_MAX_COMMITTEE_SIZE (ml_bits E)" and n: "1 \<le> n" "n \<le> ML_MAX_COMMITTEE_SIZE"
    and ps: "distinct (map fst ps)" "\<forall>p \<in> set ps. fst p < n"
    and len: "17 + 32 * length xs + (n + 8) div 8 + SIGNATURE_BYTES * length ps \<le> MAX_RECORD_BYTES"
  shows "\<exists>r. ml_new E xs v n ps = Inr r \<and> ms_status_list r = xs \<and> ms_version r = v \<and> ml_signer_slots E r = n
    \<and> ml_signer_indices E r = map fst (sort_key fst ps) \<and> ms_signatures r = map snd (sort_key fst ps)"
proof -
  let ?s = "sort_key fst ps"
  note checks = sorted_pairs_checks [of ps]
  have "card (set (map fst ps)) \<le> card {..<n}" using ps(2) by (intro card_mono) auto
  then have cnt: "length ps \<le> n" using distinct_card [OF ps(1)] by simp
  have "record_len n (length xs) (length ps) = Some (17 + 32 * length xs + (n + 8) div 8 + SIGNATURE_BYTES * length ps)"
    using len by (auto simp: record_len_def usize_checked_add_def usize_checked_mul_def usize_max_def MAX_RECORD_BYTES_def
        SIGNATURE_BYTES_def mult.commute)
  moreover have "\<not> adjacent_equal ?s" "\<not> (?s \<noteq> [] \<and> fst (last ?s) \<ge> n)"
    using ps checks(1) checks(2) [of n] by (auto simp: not_le)
  moreover obtain bits b' where "bl_with_capacity (ml_bits E) n = Some bits" "set_bits (ml_bits E) (map fst ?s) bits = Some b'"
    "bl_len (ml_bits E) b' = n" "bit_indices (ml_bits E) b' = map fst ?s"
    using bitmap_of_indices [OF laws n(2), of "map fst ?s"] ps(2) checks(3) [OF ps(1)] by auto
  ultimately show ?thesis
    using n cnt len by (simp add: ml_new_def check_member_count_def ml_signer_slots_def ml_signer_indices_def Let_def)
qed

lemma ml_honest_record:
  assumes laws: "bitlist_laws ML_MAX_COMMITTEE_SIZE (ml_bits E)" and wf: "ml_wf E M c"
    and ps: "distinct (map fst ps)" "\<forall>p \<in> set ps. fst p < length (ml_members c)" and t: "ml_threshold c \<le> length ps"
    and len: "17 + 32 * length xs + (length (ml_members c) + 8) div 8 + SIGNATURE_BYTES * length ps \<le> MAX_RECORD_BYTES"
    and sigs: "\<forall>(i, sig) \<in> set ps. ml_verify M (ml_members c ! i) (bytes_of (statement_for E c xs v)) sig"
  shows "\<exists>r. ml_new E xs v (length (ml_members c)) ps = Inr r \<and> ml_verify_status_list E M c r
    \<and> ml_signer_count E r = length ps \<and> length (ms_signatures r) = length ps \<and> ml_signer_slots E r = length (ml_members c)
    \<and> ms_status_list r = xs \<and> ms_version r = v"
proof -
  have n: "1 \<le> length (ml_members c)" "length (ml_members c) \<le> ML_MAX_COMMITTEE_SIZE"
    using wf by (auto simp: ml_wf_def)
  obtain r where r: "ml_new E xs v (length (ml_members c)) ps = Inr r" "ms_status_list r = xs" "ms_version r = v"
    "ml_signer_slots E r = length (ml_members c)" "ml_signer_indices E r = map fst (sort_key fst ps)"
    "ms_signatures r = map snd (sort_key fst ps)"
    using ml_new_ok [OF laws n ps len] by blast
  have cnt: "ml_signer_count E r = length ps"
    using length_bit_indices [OF laws, of "ms_signers r"] r(5) by (simp add: ml_signer_indices_def ml_signer_count_def)
  have "zip (ml_signer_indices E r) (ms_signatures r) = sort_key fst ps"
    using r(5,6) by (simp add: zip_map_fst_snd)
  then have "ml_verify_status_list E M c r"
    using r cnt t sigs by (auto simp: ml_verify_status_list_def Let_def list_all_iff)
  then show ?thesis using r cnt by simp
qed

section \<open>A reference instance\<close>

text \<open>A signature that spells out its key and message, in the widths of ML-DSA-65.\<close>

definition plain_mldsa :: "(1952 barr, 1952 barr, 3309 barr, unit) mldsa" where
  "plain_mldsa = \<lparr>pk_encode = id, pk_decode = id, sig_encode = id, sig_decode = Some,
     verify_with_context = (\<lambda>pk msg ctx sig. sig = mk_barr (bytes_of pk @ msg @ ctx)),
     sign_randomized = (\<lambda>rng sk msg ctx. Inr (mk_barr (bytes_of sk @ msg @ ctx))),
     verifying_key = id, sk_from_seed = (\<lambda>seed. mk_barr (bytes_of seed)), sk_to_seed = (\<lambda>sk. mk_barr (take 32 (bytes_of sk))),
     try_generate = (\<lambda>rng. Inr (mk_barr []))\<rparr>"

definition statement_enc :: "statement_wire \<Rightarrow> bytes" where
  "statement_enc w = [st_alg w] @ bytes_of (st_anchor_id w) @ u32_to_le (st_version w) @ concat (map bytes_of (st_status_list w))"

definition ml_committee_enc :: "ml_committee_wire \<Rightarrow> bytes" where
  "ml_committee_enc w = u64_to_le (mcw_threshold w) @ concat (map bytes_of (mcw_members w))"

text \<open>The record codec of the instance knows one record, behind as many bytes as the record has.\<close>

definition plain_env :: "bool list ml_wire \<Rightarrow> bool list ml_env" where
  "plain_env w = \<lparr>sha3_384 = (\<lambda>b. mk_barr (bytes_of (fold_hash b))), shake256 = (\<lambda>b. mk_barr (bytes_of (fold_hash b))),
     ml_bits = bools_bitlist ML_MAX_COMMITTEE_SIZE,
     ml_record_ssz = \<lparr>as_ssz_bytes = (\<lambda>v. replicate (17 + 32 * length (mw_status_list v) + (length (mw_signers v) + 8) div 8
         + SIGNATURE_BYTES * length (mw_signatures v)) 0),
       from_ssz_bytes = (\<lambda>_. Inr w)\<rparr>,
     ml_statement_ssz = \<lparr>as_ssz_bytes = statement_enc, from_ssz_bytes = (\<lambda>_. Inl ''not decoded'')\<rparr>,
     ml_committee_ssz = \<lparr>as_ssz_bytes = ml_committee_enc, from_ssz_bytes = (\<lambda>_. Inl ''not decoded'')\<rparr>\<rparr>"

lemma statement_enc_inj: "inj statement_enc"
proof (rule injI)
  fix x y assume "statement_enc x = statement_enc y"
  then show "x = y"
    by (cases x; cases y) (simp add: statement_enc_def concat_bytes_of_inj)
qed

lemma ml_committee_enc_inj: "inj ml_committee_enc"
proof (rule injI)
  fix x y assume "ml_committee_enc x = ml_committee_enc y"
  then show "x = y"
    by (cases x; cases y) (simp add: ml_committee_enc_def concat_bytes_of_inj)
qed

definition ml_example_key :: "u8 \<Rightarrow> 1952 barr" where
  "ml_example_key i = mk_barr (i # replicate 1951 0)"

definition ml_example_members :: "1952 barr list" where
  "ml_example_members = [ml_example_key 0, ml_example_key 1, ml_example_key 2]"

lemma ml_example_key_eq: "ml_example_key i = ml_example_key j \<longleftrightarrow> i = j"
proof -
  have "hd (bytes_of (ml_example_key i)) = i" for i by (simp add: ml_example_key_def)
  then show ?thesis by metis
qed

definition ml_example_committee :: "bool list ml_wire \<Rightarrow> 1952 barr ml_committee" where
  "ml_example_committee w = \<lparr>ml_members = ml_example_members, ml_threshold = 2,
     ml_anchor_id = anchor_id_from_canonical_bytes (plain_env w) (wire_bytes (plain_env w) plain_mldsa ml_example_members 2)\<rparr>"

lemma ml_example_new: "ml_committee_new (plain_env w) plain_mldsa ml_example_members 2 = Inr (ml_example_committee w)"
proof -
  have "validate_members plain_mldsa ml_example_members = Inr ()"
    by (simp add: validate_members_iff ml_example_members_def ml_example_key_eq plain_mldsa_def ML_MAX_COMMITTEE_SIZE_def)
  then show ?thesis
    by (simp add: ml_committee_new_def validate_threshold_def ml_example_committee_def ml_example_members_def)
qed

lemma ml_example_wf: "ml_wf (plain_env w) plain_mldsa (ml_example_committee w)"
  using ml_committee_new_wf [OF ml_example_new] by simp

lemma plain_env_bits: "bitlist_laws ML_MAX_COMMITTEE_SIZE (ml_bits (plain_env w))"
  by (simp add: plain_env_def bools_bitlist_laws)

definition ml_example_pairs :: "bool list ml_wire \<Rightarrow> (usize \<times> 3309 barr) list" where
  "ml_example_pairs w = (let m = bytes_of (statement_for (plain_env w) (ml_example_committee w) [] 5)
     in [(2, mk_barr (bytes_of (ml_example_key 2) @ m)), (0, mk_barr (bytes_of (ml_example_key 0) @ m))])"

lemma ml_example_round:
  "distinct (map fst (ml_example_pairs w))"
  "\<forall>p \<in> set (ml_example_pairs w). fst p < length (ml_members (ml_example_committee w))"
  "ml_threshold (ml_example_committee w) \<le> length (ml_example_pairs w)"
  "17 + 32 * length ([] :: 32 barr list) + (length (ml_members (ml_example_committee w)) + 8) div 8
     + SIGNATURE_BYTES * length (ml_example_pairs w) \<le> MAX_RECORD_BYTES"
  "\<forall>(i, sig) \<in> set (ml_example_pairs w). ml_verify plain_mldsa (ml_members (ml_example_committee w) ! i)
     (bytes_of (statement_for (plain_env w) (ml_example_committee w) [] 5)) sig"
  by (simp_all add: ml_example_pairs_def Let_def ml_example_committee_def ml_example_members_def SIGNATURE_BYTES_def
      MAX_RECORD_BYTES_def ml_verify_def plain_mldsa_def)

section \<open>Properties\<close>

text \<open>
  C36. The ML-DSA predicate authorizes only quorums: a record that verifies under a well-formed anchor
  carries signatures of at least \<open>t\<close> distinct members' keys, all valid on this anchor's statement
  for exactly this list and version.
\<close>

theorem ml_verified_record_has_quorum:
  assumes "bitlist_laws N (ml_bits E)" and "ml_wf E M c" and "ml_verify_status_list E M c r"
  shows "\<exists>ks. distinct ks \<and> set ks \<subseteq> set (ml_members c) \<and> ml_threshold c \<le> length ks \<and> 1 \<le> length ks
    \<and> (\<forall>k \<in> set ks. \<exists>sig \<in> set (ms_signatures r).
         ml_verify M k (bytes_of (statement_for E c (ms_status_list r) (ms_version r))) sig)"
proof -
  have d: "distinct (ml_members c)" and t: "1 \<le> ml_threshold c" using assms(2) by (auto simp: ml_wf_def distinct_map)
  note pairs = ml_verify_pairs [OF assms(1,3)]
  have sub: "set (map snd (ml_record_pairs E r)) \<subseteq> set (ms_signatures r)"
    by (auto simp: ml_record_pairs_def dest: set_zip_rightD)
  obtain ks where "distinct ks" "set ks \<subseteq> set (ml_members c)" "length ks = length (ml_record_pairs E r)"
    "\<forall>k \<in> set ks. \<exists>sig \<in> set (map snd (ml_record_pairs E r)).
       ml_verify M k (bytes_of (statement_for E c (ms_status_list r) (ms_version r))) sig"
    using distinct_keys_of_pairs [OF conjunct1 [OF pairs] d conjunct2 [OF conjunct2 [OF pairs]]] by blast
  then show ?thesis using pairs t sub by (intro exI [of _ ks]) fastforce
qed

theorem ml_verified_record_has_quorum_witness:
  "\<exists>w r ks. ml_verify_status_list (plain_env w) plain_mldsa (ml_example_committee w) r \<and> distinct ks \<and> 2 \<le> length ks
     \<and> set ks \<subseteq> set ml_example_members"
proof -
  obtain r where r: "ml_verify_status_list (plain_env undefined) plain_mldsa (ml_example_committee undefined) r"
    using ml_honest_record [OF plain_env_bits ml_example_wf ml_example_round] by blast
  show ?thesis
    using ml_verified_record_has_quorum [OF plain_env_bits ml_example_wf r] r
    by (auto simp: ml_example_committee_def)
qed

text \<open>
  Decoding is canonical by itself: whatever the SSZ codec and the signature library do, bytes that
  decode to an ML-DSA record are exactly the encoding of that record, within the byte limit, and
  name as many signers as there are signatures.
\<close>

theorem ml_decoding_is_canonical:
  assumes "ml_from_bytes E M bs = Inr r"
  shows "ml_to_bytes E M r = bs \<and> ml_signer_count E r = length (ms_signatures r) \<and> length bs \<le> MAX_RECORD_BYTES"
  using ml_from_bytes_Inr [OF assms] .

definition ml_example_wire :: "bool list ml_wire" where
  "ml_example_wire = \<lparr>mw_alg = 2, mw_status_list = [], mw_version = 5, mw_signers = [False], mw_signatures = []\<rparr>"

theorem ml_decoding_is_canonical_witness:
  "\<exists>r. ml_from_bytes (plain_env ml_example_wire) plain_mldsa (replicate 18 0) = Inr r
     \<and> ml_to_bytes (plain_env ml_example_wire) plain_mldsa r = replicate 18 0"
proof -
  obtain r where r: "ml_from_bytes (plain_env ml_example_wire) plain_mldsa (replicate 18 0) = Inr r"
    by (simp add: ml_from_bytes_def plain_env_def ml_example_wire_def MAX_RECORD_BYTES_def ALGORITHM_TAG_def
        check_member_count_def ML_MAX_COMMITTEE_SIZE_def bools_bitlist_def)
  show ?thesis using r ml_decoding_is_canonical [OF r] by blast
qed

lemma ml_honest_round_trip:
  assumes "bitlist_laws ML_MAX_COMMITTEE_SIZE (ml_bits E)" and "ml_wf E M c"
    and "distinct (map fst ps)" and "\<forall>p \<in> set ps. fst p < length (ml_members c)" and "ml_threshold c \<le> length ps"
    and "17 + 32 * length xs + (length (ml_members c) + 8) div 8 + SIGNATURE_BYTES * length ps \<le> MAX_RECORD_BYTES"
    and "\<forall>(i, sig) \<in> set ps. ml_verify M (ml_members c ! i) (bytes_of (statement_for E c xs v)) sig"
    and codec: "\<And>r. ml_new E xs v (length (ml_members c)) ps = Inr r \<Longrightarrow>
        from_ssz_bytes (ml_record_ssz E) (ml_to_bytes E M r) = Inr (ml_to_wire M r)
        \<and> length (ml_to_bytes E M r) = 17 + 32 * length xs + (length (ml_members c) + 8) div 8 + SIGNATURE_BYTES * length ps"
    and redecode: "\<And>sig. sig_decode M (sig_encode M sig) = Some sig"
  shows "\<exists>r. ml_new E xs v (length (ml_members c)) ps = Inr r \<and> ml_verify_status_list E M c r
    \<and> ml_from_bytes E M (ml_to_bytes E M r) = Inr r"
proof -
  obtain r where r: "ml_new E xs v (length (ml_members c)) ps = Inr r" "ml_verify_status_list E M c r"
    "ml_signer_count E r = length ps" "length (ms_signatures r) = length ps" "ml_signer_slots E r = length (ml_members c)"
    using ml_honest_record [OF assms(1-7)] by blast
  have "check_member_count (length (ml_members c)) = Inr ()"
    using assms(2) by (auto simp: ml_wf_def check_member_count_def)
  moreover have "collect_results (decode_signature M) (map (sig_encode M) (ms_signatures r)) = Inr (ms_signatures r)"
    by (rule collect_results_map) (simp add: decode_signature_def redecode)
  ultimately have "ml_from_bytes E M (ml_to_bytes E M r) = Inr r"
    using codec [OF r(1)] r(3-5) assms(6)
    by (simp add: ml_from_bytes_def ml_signer_slots_def ml_signer_count_def) (simp add: ml_to_wire_def ml_to_bytes_def)
  then show ?thesis using r by blast
qed

text \<open>
  What the ML-DSA constructor builds, the decoder accepts: for an honest quorum within the byte
  limit, \<open>new\<close> yields a record that verifies and that survives encoding and decoding unchanged,
  given that the SSZ codec returns that one record and spends the documented number of bytes on it
  and that its signatures re-decode.
\<close>

theorem ml_honest_record_round_trips:
  assumes "bitlist_laws ML_MAX_COMMITTEE_SIZE (ml_bits E)" and "ml_wf E M c"
    and "distinct (map fst ps)" and "\<forall>p \<in> set ps. fst p < length (ml_members c)" and "ml_threshold c \<le> length ps"
    and "17 + 32 * length xs + (length (ml_members c) + 8) div 8 + SIGNATURE_BYTES * length ps \<le> MAX_RECORD_BYTES"
    and "\<forall>(i, sig) \<in> set ps. ml_verify M (ml_members c ! i) (bytes_of (statement_for E c xs v)) sig"
    and "\<And>r. ml_new E xs v (length (ml_members c)) ps = Inr r \<Longrightarrow>
        from_ssz_bytes (ml_record_ssz E) (ml_to_bytes E M r) = Inr (ml_to_wire M r)
        \<and> length (ml_to_bytes E M r) = 17 + 32 * length xs + (length (ml_members c) + 8) div 8 + SIGNATURE_BYTES * length ps"
    and "\<And>sig. sig_decode M (sig_encode M sig) = Some sig"
  shows "\<exists>r. ml_new E xs v (length (ml_members c)) ps = Inr r \<and> ml_verify_status_list E M c r
    \<and> ml_from_bytes E M (ml_to_bytes E M r) = Inr r"
  using ml_honest_round_trip [OF assms] .

text \<open>The example round in the environment whose codec knows its record.\<close>

definition ml_round_record :: "(bool list, 3309 barr) ml_status_list" where
  "ml_round_record = \<lparr>ms_status_list = [], ms_version = 5, ms_signers = [True, False, True],
     ms_signatures = map snd (sort_key fst (ml_example_pairs ml_example_wire))\<rparr>"

definition ml_round_env :: "bool list ml_env" where
  "ml_round_env = plain_env (ml_to_wire plain_mldsa ml_round_record)"

lemma ml_example_pairs_env: "ml_example_pairs w = ml_example_pairs w'"
  by (simp add: ml_example_pairs_def statement_for_def statement_digest_def statement_preimage_def ml_example_committee_def
      anchor_id_from_canonical_bytes_def wire_bytes_def plain_env_def)

lemma ml_round_new:
  "ml_new ml_round_env [] 5 3 (ml_example_pairs (ml_to_wire plain_mldsa ml_round_record)) = Inr ml_round_record"
proof -
  let ?ps = "ml_example_pairs (ml_to_wire plain_mldsa ml_round_record)"
  have s: "map fst (sort_key fst ?ps) = [0, 2]" "length ?ps = 2" by (simp_all add: ml_example_pairs_def Let_def)
  have "\<not> adjacent_equal (sort_key fst ?ps)" "\<not> (sort_key fst ?ps \<noteq> [] \<and> fst (last (sort_key fst ?ps)) \<ge> 3)"
    by (simp_all add: ml_example_pairs_def Let_def)
  moreover have "record_len 3 0 2 = Some (17 + 1 + 2 * 3309)"
    by (simp add: record_len_def usize_checked_add_def usize_checked_mul_def usize_max_def SIGNATURE_BYTES_def)
  moreover have "bl_with_capacity (ml_bits ml_round_env) 3 = Some [False, False, False]"
    by (simp add: ml_round_env_def plain_env_def bools_bitlist_def ML_MAX_COMMITTEE_SIZE_def numeral_3_eq_3)
  moreover have "set_bits (ml_bits ml_round_env) [0, 2] [False, False, False] = Some [True, False, True]"
    by (simp add: ml_round_env_def plain_env_def bools_bitlist_def numeral_2_eq_2)
  moreover have "check_member_count 3 = Inr ()" "\<not> 17 + 1 + 2 * 3309 > MAX_RECORD_BYTES"
    by (simp_all add: check_member_count_def ML_MAX_COMMITTEE_SIZE_def MAX_RECORD_BYTES_def)
  moreover have "map snd (sort_key fst ?ps) = ms_signatures ml_round_record"
    using ml_example_pairs_env [of "ml_to_wire plain_mldsa ml_round_record" ml_example_wire] by (simp add: ml_round_record_def)
  ultimately show ?thesis
    using s unfolding ml_new_def by (simp add: Let_def) (simp add: ml_round_record_def)
qed

lemma ml_round_hypotheses:
  fixes r :: "(bool list, 3309 barr) ml_status_list"
  defines "w \<equiv> ml_to_wire plain_mldsa ml_round_record"
  shows "ml_new (plain_env w) [] 5 (length (ml_members (ml_example_committee w))) (ml_example_pairs w) = Inr r \<Longrightarrow>
      from_ssz_bytes (ml_record_ssz (plain_env w)) (ml_to_bytes (plain_env w) plain_mldsa r) = Inr (ml_to_wire plain_mldsa r)
      \<and> length (ml_to_bytes (plain_env w) plain_mldsa r) = 17 + 32 * length ([] :: 32 barr list)
          + (length (ml_members (ml_example_committee w)) + 8) div 8 + SIGNATURE_BYTES * length (ml_example_pairs w)"
    and "length (ml_members (ml_example_committee w)) = 3"
    and "sig_decode plain_mldsa (sig_encode plain_mldsa sig) = Some sig"
proof -
  show n: "length (ml_members (ml_example_committee w)) = 3" by (simp add: ml_example_committee_def ml_example_members_def)
  have len: "length (ml_example_pairs w) = 2" "length (ms_signatures ml_round_record) = 2"
    "ms_status_list ml_round_record = []" "length (ms_signers ml_round_record) = 3"
    by (simp_all add: ml_example_pairs_def ml_round_record_def Let_def)
  have "from_ssz_bytes (ml_record_ssz (plain_env w)) (ml_to_bytes (plain_env w) plain_mldsa ml_round_record) = Inr w"
    by (simp add: plain_env_def)
  moreover have "length (ml_to_bytes (plain_env w) plain_mldsa ml_round_record) = 18 + SIGNATURE_BYTES * 2"
    using len by (simp add: ml_to_bytes_def plain_env_def ml_to_wire_def)
  moreover assume "ml_new (plain_env w) [] 5 (length (ml_members (ml_example_committee w))) (ml_example_pairs w) = Inr r"
  then have "r = ml_round_record" using ml_round_new n by (simp add: ml_round_env_def w_def)
  ultimately show "from_ssz_bytes (ml_record_ssz (plain_env w)) (ml_to_bytes (plain_env w) plain_mldsa r) = Inr (ml_to_wire plain_mldsa r)
      \<and> length (ml_to_bytes (plain_env w) plain_mldsa r) = 17 + 32 * length ([] :: 32 barr list)
          + (length (ml_members (ml_example_committee w)) + 8) div 8 + SIGNATURE_BYTES * length (ml_example_pairs w)"
    using n len(1) by (simp add: w_def)
next
  show "sig_decode plain_mldsa (sig_encode plain_mldsa sig) = Some sig" by (simp add: plain_mldsa_def)
qed

lemma ml_round_decodes:
  "ml_verify_status_list ml_round_env plain_mldsa (ml_example_committee (ml_to_wire plain_mldsa ml_round_record)) ml_round_record"
  "ml_from_bytes ml_round_env plain_mldsa (ml_to_bytes ml_round_env plain_mldsa ml_round_record) = Inr ml_round_record"
  using ml_honest_round_trip [OF plain_env_bits ml_example_wf ml_example_round ml_round_hypotheses(1,3)] ml_round_new ml_round_hypotheses(2)
  by (simp_all add: ml_round_env_def)

theorem ml_honest_record_round_trips_witness:
  "ml_verify_status_list ml_round_env plain_mldsa (ml_example_committee (ml_to_wire plain_mldsa ml_round_record)) ml_round_record
   \<and> ml_from_bytes ml_round_env plain_mldsa (ml_to_bytes ml_round_env plain_mldsa ml_round_record) = Inr ml_round_record"
  using ml_honest_record_round_trips [OF plain_env_bits ml_example_wf ml_example_round ml_round_hypotheses(1,3)] ml_round_new ml_round_hypotheses(2)
  by (simp add: ml_round_env_def)

lemma wire_bytes_inj:
  assumes "inj (as_ssz_bytes (ml_committee_ssz E))" and "inj (pk_encode M)" and "t < 2 ^ 64" "t' < 2 ^ 64"
    and "wire_bytes E M ms t = wire_bytes E M ms' t'"
  shows "ms = ms' \<and> t = t'"
proof -
  have "map (pk_encode M) ms = map (pk_encode M) ms'" "(word_of_nat t :: u64) = word_of_nat t'"
    using injD [OF assms(1) assms(5) [unfolded wire_bytes_def]] by (simp_all add: encode_public_key_def [abs_def])
  then show ?thesis
    using assms(2-4) by (simp add: inj_map_eq_map word_unat_eq_iff unat_of_nat)
qed

text \<open>
  The ML-DSA statement binds the anchor, the list and the version: if two well-formed anchors yield
  the same digest, then they have the same members and threshold and the lists and versions agree,
  or SHAKE256 collides on the two statements, or SHA3-384 on the two anchor encodings. The
  encoders are assumed injective.
\<close>

theorem ml_statement_binds:
  assumes "inj (as_ssz_bytes (ml_statement_ssz E))" and "inj (as_ssz_bytes (ml_committee_ssz E))" and "inj (pk_encode M)"
    and "ml_wf E M c" and "ml_wf E M c'" and "statement_for E c xs v = statement_for E c' xs' v'"
  shows "ml_members c = ml_members c' \<and> ml_threshold c = ml_threshold c' \<and> xs = xs' \<and> v = v'
    \<or> collides (shake256 E) (statement_preimage E (ml_anchor_id c) xs v) (statement_preimage E (ml_anchor_id c') xs' v')
    \<or> collides (sha3_384 E) (ANCHOR_ID_DOMAIN @ ml_committee_to_bytes E M c) (ANCHOR_ID_DOMAIN @ ml_committee_to_bytes E M c')"
proof -
  have pre: "ml_anchor_id c = ml_anchor_id c' \<and> xs = xs' \<and> v = v'"
    if "statement_preimage E (ml_anchor_id c) xs v = statement_preimage E (ml_anchor_id c') xs' v'"
    using injD [OF assms(1)] that by (auto simp: statement_preimage_def)
  have t: "ml_threshold c < 2 ^ 64" "ml_threshold c' < 2 ^ 64"
    using assms(4,5) by (auto simp: ml_wf_def ML_MAX_COMMITTEE_SIZE_def)
  have anchor: "ml_members c = ml_members c' \<and> ml_threshold c = ml_threshold c'"
    if "ml_committee_to_bytes E M c = ml_committee_to_bytes E M c'"
    using wire_bytes_inj [OF assms(2,3) t] that by (simp add: ml_committee_to_bytes_def)
  have ids: "ml_anchor_id c = sha3_384 E (ANCHOR_ID_DOMAIN @ ml_committee_to_bytes E M c)"
    "ml_anchor_id c' = sha3_384 E (ANCHOR_ID_DOMAIN @ ml_committee_to_bytes E M c')"
    using assms(4,5) by (simp_all add: ml_wf_def)
  show ?thesis
    using pre anchor ids assms(6) hash_eq_cases [of "sha3_384 E"] hash_eq_cases [of "shake256 E"]
    unfolding statement_for_def statement_digest_def by (metis same_append_eq)
qed

theorem ml_statement_binds_witness:
  "\<exists>w c c'. ml_committee_new (plain_env w) plain_mldsa ml_example_members 2 = Inr c
     \<and> ml_committee_new (plain_env w) plain_mldsa ml_example_members 2 = Inr c'
     \<and> statement_for (plain_env w) c [] 5 = statement_for (plain_env w) c' [] 5
     \<and> ml_members c = ml_members c'"
proof -
  let ?E = "plain_env ml_example_wire" and ?c = "ml_example_committee ml_example_wire"
  have inj: "inj (as_ssz_bytes (ml_statement_ssz ?E))" "inj (as_ssz_bytes (ml_committee_ssz ?E))" "inj (pk_encode plain_mldsa)"
    using statement_enc_inj ml_committee_enc_inj by (simp_all add: plain_env_def plain_mldsa_def)
  have "ml_members ?c = ml_members ?c"
    using ml_statement_binds [OF inj ml_example_wf ml_example_wf refl] by (auto simp: collides_def)
  then show ?thesis using ml_example_new by blast
qed

end
