(* ===== verification/Demo_Mldsa.thy ===== *)
theory Demo_Mldsa
  imports Demo_Holder Mldsa
begin

text \<open>
  The ML-DSA form of the demo: the member who also aggregates (demo/src/bin/mldsa_signer.rs) and
  node A (demo/src/bin/mldsa_holder.rs). A member keeps no signing state; the round of node A is the
  one of \<open>Demo_Round\<close> with this form's way to accept a record and its texts, and its trigger
  is the one of \<open>Demo_Holder\<close>.

  The lemmas show that a round that reports success has published a record that the ML-DSA
  predicate accepts, that node A is a relying party that lists what it judged, and what the missing
  state costs: a member signs whatever it is asked.
\<close>

section \<open>Environment\<close>

text \<open>The signature of a reply travels as bytes.\<close>

record ('b, 'pk, 'sk, 'sig, 'rng) ml_demo_env =
  d_sha3 :: "bytes \<Rightarrow> 32 barr"
  d_env :: "'b ml_env"
  d_mldsa :: "('pk, 'sk, 'sig, 'rng) mldsa"
  d_messages :: "bytes message_codecs"
  d_issue :: "'rng \<Rightarrow> ustr \<Rightarrow> u32 \<Rightarrow> usize \<Rightarrow> bytes"
  d_ml_text :: "ml_error \<Rightarrow> string"
  d_debug :: "string \<Rightarrow> string"
  d_texts :: demo_texts

record ('pk, 'sk) ml_member =
  mm_index :: usize
  mm_committee :: "'pk ml_committee"
  mm_signer :: "'sk ml_signer"
  mm_round_poisoned :: bool
  mm_rounds_served :: usize

definition ml_fail :: "('b, 'pk, 'sk, 'sig, 'rng) ml_demo_env \<Rightarrow> string \<Rightarrow> u8 \<times> bytes" where
  "ml_fail D reason = (MSG_FAILURE, failure_of (failure_ssz (d_messages D)) reason)"

section \<open>The member\<close>

definition ml_on_proposal ::
  "('b, 'pk, 'sk, 'sig, 'rng) ml_demo_env \<Rightarrow> 'rng \<Rightarrow> bytes \<Rightarrow> ('pk, 'sk) ml_member \<Rightarrow> u8 \<times> bytes" where
  "ml_on_proposal D rng payload mm =
     (case from_ssz_bytes (proposal_ssz (d_messages D)) payload of
        Inl e \<Rightarrow> ml_fail D (''malformed proposal: '' @ e)
      | Inr p \<Rightarrow>
          let statement = statement_for (d_env D) (mm_committee mm) (pr_list p) (pr_version p)
          in case ml_sign (d_mldsa D) rng (mm_signer mm) (bytes_of statement) of
               Inl e \<Rightarrow> ml_fail D (''ML-DSA signing failed: '' @ e)
             | Inr sig \<Rightarrow> (MSG_SIGNATURE, as_ssz_bytes (reply_ssz (d_messages D))
                 \<lparr>rp_signature = [bytes_of (sig_encode (d_mldsa D) sig)], rp_reason = []\<rparr>))"

definition ml_next_version ::
  "('b, 'pk, 'sk, 'sig, 'rng) ml_demo_env \<Rightarrow> bytes option \<Rightarrow> (string, u32 \<times> 32 barr list) result" where
  "ml_next_version D published =
     (case published of
        None \<Rightarrow> Inr (0, [])
      | Some bs \<Rightarrow>
          (case ml_from_bytes (d_env D) (d_mldsa D) bs of
             Inl e \<Rightarrow> Inl (''published record is unreadable: '' @ d_ml_text D e)
           | Inr r \<Rightarrow>
               (case checked_add (ms_version r) 1 of
                  None \<Rightarrow> Inl ''status-list version exhausted''
                | Some version \<Rightarrow> Inr (version, ms_status_list r))))"

definition ml_apply_request ::
  "('b, 'pk, 'sk, 'sig, 'rng) ml_demo_env \<Rightarrow> 'rng \<Rightarrow> usize \<Rightarrow> status_request \<Rightarrow> u32 \<Rightarrow> 32 barr list
    \<Rightarrow> (string, bytes \<times> 32 barr list) result" where
  "ml_apply_request D rng index rq version xs =
     (if sr_action rq = ACTION_ISSUE then
        case from_utf8 (sr_data rq) of
          None \<Rightarrow> Inl ''credential subject is empty or not UTF-8''
        | Some subject \<Rightarrow>
            if subject = [] then Inl ''credential subject is empty or not UTF-8''
            else let credential = d_issue D rng subject version index;
                     (added, ys) = add_valid (d_sha3 D) credential xs
                 in if \<not> added then Inl ''new credential fingerprint already exists'' else Inr (credential, ys)
      else if sr_action rq = ACTION_REVOKE then
        let (removed, ys) = revoke (d_sha3 D) (sr_data rq) xs
        in if sr_data rq = [] \<or> \<not> removed then Inl ''credential is absent from the current snapshot''
           else Inr (sr_data rq, ys)
      else Inl (''unknown status action '' @ show_nat (unat (sr_action rq))))"

text \<open>A reply counts when it carries exactly one string, of the length of a signature, that decodes.\<close>

definition ml_member_signature ::
  "('b, 'pk, 'sk, 'sig, 'rng) ml_demo_env \<Rightarrow> (wire_error, u8 \<times> bytes) result \<Rightarrow> 'sig option" where
  "ml_member_signature D answer =
     (case answer of
        Inl e \<Rightarrow> None
      | Inr (kind, payload) \<Rightarrow>
          if kind = MSG_SIGNATURE
          then case from_ssz_bytes (reply_ssz (d_messages D)) payload of
                 Inl e \<Rightarrow> None
               | Inr reply \<Rightarrow>
                   (case rp_signature reply of
                      [raw] \<Rightarrow> Option.bind (arr_of_slice raw) (sig_decode (d_mldsa D))
                    | _ \<Rightarrow> None)
          else None)"

definition ml_arrivals ::
  "('b, 'pk, 'sk, 'sig, 'rng) ml_demo_env \<Rightarrow> (usize \<Rightarrow> (wire_error, u8 \<times> bytes) result) \<Rightarrow> usize list \<Rightarrow> (usize \<times> 'sig) list" where
  "ml_arrivals D answers order = List.map_filter (\<lambda>i. map_option (Pair i) (ml_member_signature D (answers i))) order"

fun ml_count_signatures ::
  "('pk, 'sk, 'sig, 'rng) mldsa \<Rightarrow> 'pk ml_committee \<Rightarrow> bytes \<Rightarrow> (usize \<times> 'sig) list \<Rightarrow> (usize \<times> 'sig) list
    \<Rightarrow> (member_panic, (usize \<times> 'sig) list) result" where
  "ml_count_signatures M c statement [] quorum = Inr quorum"
| "ml_count_signatures M c statement ((i, sig) # channel) quorum =
     (if length quorum \<ge> THRESHOLD then Inr quorum
      else if i \<ge> length (ml_members c) then Inl (MemberIndexOutOfRange i)
      else if \<not> ml_verify M (ml_members c ! i) statement sig then ml_count_signatures M c statement channel quorum
      else ml_count_signatures M c statement channel (quorum @ [(i, sig)]))"

definition ml_collect_signatures ::
  "('b, 'pk, 'sk, 'sig, 'rng) ml_demo_env \<Rightarrow> 'pk ml_committee \<Rightarrow> proposal \<Rightarrow> (usize \<Rightarrow> (wire_error, u8 \<times> bytes) result) \<Rightarrow> usize list
    \<Rightarrow> (member_panic, (usize \<times> 'sig) list) result" where
  "ml_collect_signatures D c p answers order =
     ml_count_signatures (d_mldsa D) c (bytes_of (statement_for (d_env D) c (pr_list p) (pr_version p))) (ml_arrivals D answers order) []"

definition ml_on_status_request ::
  "('b, 'pk, 'sk, 'sig, 'rng) ml_demo_env \<Rightarrow> 'rng round_io \<Rightarrow> path \<Rightarrow> bytes \<Rightarrow> ('pk, 'sk) ml_member \<Rightarrow> fs
    \<Rightarrow> (member_panic, u8 \<times> bytes) result \<times> ('pk, 'sk) ml_member \<times> fs" where
  "ml_on_status_request D io dir payload mm vol =
     (case from_ssz_bytes (request_ssz (d_messages D)) payload of
        Inl e \<Rightarrow> (Inr (ml_fail D (''malformed request: '' @ e)), mm, vol)
      | Inr rq \<Rightarrow>
          if mm_round_poisoned mm then (Inl RoundLockPoisoned, mm, vol)
          else case ml_next_version D (ri_published io) of
                 Inl why \<Rightarrow> (Inr (ml_fail D why), mm, vol)
               | Inr (version, xs) \<Rightarrow>
                   (case ml_apply_request D (ri_rng io) (mm_index mm) rq version xs of
                      Inl why \<Rightarrow> (Inr (ml_fail D why), mm, vol)
                    | Inr (credential, ys) \<Rightarrow>
                        (case ml_collect_signatures D (mm_committee mm) \<lparr>pr_version = version, pr_list = ys\<rparr> (ri_answers io) (ri_order io) of
                           Inl p \<Rightarrow> (Inl p, mm\<lparr>mm_round_poisoned := True\<rparr>, vol)
                         | Inr quorum \<Rightarrow>
                             if length quorum < THRESHOLD then
                               (Inr (ml_fail D (''only '' @ show_nat (length quorum) @ '' of '' @ show_nat THRESHOLD @ '' signatures arrived'')), mm, vol)
                             else case ml_new (d_env D) ys version DEMO_N_MEMBERS quorum of
                                    Inl e \<Rightarrow> (Inr (ml_fail D (d_ml_text D e)), mm, vol)
                                  | Inr r \<Rightarrow>
                                      (case publish (ri_publish io) dir (ml_to_bytes (d_env D) (d_mldsa D) r) vol of
                                         (Inl e, vol') \<Rightarrow> (Inr (ml_fail D (''cannot publish: '' @ tx_io (d_texts D) e)), mm, vol')
                                       | (Inr _, vol') \<Rightarrow>
                                           (Inr (MSG_STATUS_UPDATED, as_ssz_bytes (updated_ssz (d_messages D))
                                                   \<lparr>su_version = version, su_credential = credential\<rparr>),
                                            mm\<lparr>mm_rounds_served := (mm_rounds_served mm + 1) mod (usize_max + 1)\<rparr>, vol')))))"

text \<open>One connection, as for an XMSS member; a proposal changes nothing.\<close>

definition ml_serve ::
  "('b, 'pk, 'sk, 'sig, 'rng) ml_demo_env \<Rightarrow> bool \<Rightarrow> write_fault \<Rightarrow> read_fault \<Rightarrow> 'rng round_io \<Rightarrow> path \<Rightarrow> fs \<Rightarrow> bytes
    \<Rightarrow> ('pk, 'sk) ml_member \<Rightarrow> fs \<Rightarrow> (member_panic, bytes) result \<times> ('pk, 'sk) ml_member \<times> fs" where
  "ml_serve D timeout_set wr rdf io dir vol_later stream mm vol =
     (if \<not> timeout_set then (Inr [], mm, vol)
      else case recv stream of
        Inl e \<Rightarrow> (Inr [], mm, vol)
      | Inr ((kind, payload), _) \<Rightarrow>
          (case (if kind = MSG_PROPOSAL then (Inr (ml_on_proposal D (ri_rng io) payload mm), mm, vol)
                 else if kind = MSG_STATUS_REQUEST
                 then ml_on_status_request D (io\<lparr>ri_published := published_record rdf dir vol\<rparr>) dir payload mm vol_later
                 else (Inr (ml_fail D (''unknown message type '' @ show_nat (unat kind))), mm, vol)) of
             (Inl p, mm', vol') \<Rightarrow> (Inl p, mm', vol')
           | (Inr (k, reply), mm', vol') \<Rightarrow> (Inr (snd (send wr k reply)), mm', vol')))"

section \<open>Start-up of a member\<close>

definition ml_scheme_seed :: "(bytes \<Rightarrow> 32 barr) \<Rightarrow> 32 barr \<Rightarrow> 32 barr" where
  "ml_scheme_seed sha3 raw_seed = sha3 (as_bytes ''drot-demo/ml-dsa-65/member-seed/v1'' @ [0] @ bytes_of raw_seed)"

datatype ml_start_panic = MlIndexOutside usize | MlWrongAddress string | MlNoRunId | MlCannotPublishKey io_error
  | MlNoAnchor | MlBadAnchor ml_error | MlAnchorDoesNotNameKey

definition ml_start_member ::
  "('b, 'pk, 'sk, 'sig, 'rng) ml_demo_env \<Rightarrow> start_io \<Rightarrow> path \<Rightarrow> usize \<Rightarrow> fs
    \<Rightarrow> (ml_start_panic, ('pk, 'sk) ml_member) result \<times> fs" where
  "ml_start_member D io committee_dir index vol =
     (if \<not> index < DEMO_N_MEMBERS then (Inl (MlIndexOutside index), vol)
      else if si_own_ip io \<noteq> MEMBER_IPS ! index then (Inl (MlWrongAddress (si_own_ip io)), vol)
      else case wait_for (si_run_id io) BOOTSTRAP_WAIT of
        Inl _ \<Rightarrow> (Inl MlNoRunId, vol)
      | Inr run_id \<Rightarrow>
          let signer = ml_from_seed (d_mldsa D) (ml_scheme_seed (d_sha3 D) (member_seed (d_sha3 D) (si_secret io) run_id index));
              public_key = ml_public_key (d_mldsa D) signer;
              key_file = member_key_file committee_dir index;
              (published, vol1) =
                (if path_exists (si_key_meta io) key_file vol then (Inr (), vol)
                 else write_atomic (si_key_publish io) key_file (bytes_of (encode_public_key (d_mldsa D) public_key)) vol)
          in case published of
               Inl e \<Rightarrow> (Inl (MlCannotPublishKey e), vol1)
             | Inr _ \<Rightarrow>
                 (case wait_for (si_anchor io) BOOTSTRAP_WAIT of
                    Inl _ \<Rightarrow> (Inl MlNoAnchor, vol1)
                  | Inr bs \<Rightarrow>
                      (case ml_committee_from_bytes (d_env D) (d_mldsa D) bs of
                         Inl e \<Rightarrow> (Inl (MlBadAnchor e), vol1)
                       | Inr committee \<Rightarrow>
                           if ml_index_of committee public_key \<noteq> Some index then (Inl MlAnchorDoesNotNameKey, vol1)
                           else (Inr \<lparr>mm_index = index, mm_committee = committee, mm_signer = signer,
                                           mm_round_poisoned = False, mm_rounds_served = 0\<rparr>, vol1))))"

section \<open>Node A\<close>

record 'pk ml_holder =
  mh_verifier :: "'pk ml_committee"
  mh_mark :: high_water_mark

definition ml_holder_build ::
  "('b, 'pk, 'sk, 'sig, 'rng) ml_demo_env \<Rightarrow> lock_fault \<Rightarrow> read_fault \<Rightarrow> replace_fault \<Rightarrow> string option \<Rightarrow> path \<Rightarrow> 'pk ml_committee \<Rightarrow> bytes \<Rightarrow> fs
    \<Rightarrow> (build_panic, 'pk ml_holder) result \<times> fs" where
  "ml_holder_build D lf rdf rf var state_dir c anchor s =
     (let mark_path = state_dir @ [''highwater''];
          state_mode = (case var of None \<Rightarrow> ''open'' | Some v \<Rightarrow> v)
      in if state_mode \<noteq> ''create'' \<and> state_mode \<noteq> ''open'' then (Inl (InvalidStateMode state_mode), s)
         else case (if state_mode = ''create'' then mark_create (d_sha3 D) lf rdf rf mark_path anchor s
                    else mark_open (d_sha3 D) lf rdf mark_path anchor s) of
                (Inl e, s') \<Rightarrow> (Inl (NoMark e), s')
              | (Inr mark, s') \<Rightarrow> (Inr \<lparr>mh_verifier = c, mh_mark = mark\<rparr>, s'))"

definition ml_holder_accept ::
  "('b, 'pk, 'sk, 'sig, 'rng) ml_demo_env \<Rightarrow> replace_fault \<Rightarrow> bytes \<Rightarrow> 'pk ml_holder \<Rightarrow> fs \<Rightarrow> outcome \<times> 'pk ml_holder \<times> fs" where
  "ml_holder_accept D rf b n s =
     (case ml_from_bytes (d_env D) (d_mldsa D) b of
        Inl e \<Rightarrow> (OutRefused, n, s)
      | Inr r \<Rightarrow>
          if \<not> ml_verify_status_list (d_env D) (d_mldsa D) (mh_verifier n) r then (OutRefused, n, s)
          else case try_advance rf (ms_version r) (mh_mark n) s of
                 (Inr Accepted, m', s') \<Rightarrow> (OutAccepted (ms_version r), n\<lparr>mh_mark := m'\<rparr>, s')
               | (Inr (Stale mark), m', s') \<Rightarrow> (OutStale (ms_version r) mark, n\<lparr>mh_mark := m'\<rparr>, s')
               | (Inl _, m', s') \<Rightarrow> (OutRefused, n\<lparr>mh_mark := m'\<rparr>, s'))"

definition ml_holder_listing :: "('b, 'pk, 'sk, 'sig, 'rng) ml_demo_env \<Rightarrow> 'pk ml_holder \<Rightarrow> bytes \<Rightarrow> 32 barr list" where
  "ml_holder_listing D n b = (case ml_from_bytes (d_env D) (d_mldsa D) b of Inl e \<Rightarrow> [] | Inr r \<Rightarrow> ms_status_list r)"

definition ml_request_status_update ::
  "('b, 'pk, 'sk, 'sig, 'rng) ml_demo_env \<Rightarrow> holder_io \<Rightarrow> u8 \<Rightarrow> bytes \<Rightarrow> (string, status_updated) result" where
  "ml_request_status_update D io act data =
     (case choose_target (\<lambda>raw. ''invalid TARGET_MEMBER '' @ d_debug D raw)
             (\<lambda>target. ''member '' @ show_nat target @ '' is outside the committee'') ALL_MEMBER_INDICES io of
        Inl why \<Rightarrow> Inl why
      | Inr target \<Rightarrow>
          (case ho_answer io target (as_ssz_bytes (request_ssz (d_messages D)) \<lparr>sr_action = act, sr_data = data\<rparr>) of
             Inl e \<Rightarrow> Inl (''aggregator '' @ show_nat target @ '' did not answer: '' @ tx_wire (d_texts D) e)
           | Inr (kind, reply) \<Rightarrow>
               if kind \<noteq> MSG_STATUS_UPDATED
               then Inl (''aggregator '' @ show_nat target @ '' failed: ''
                      @ failure_text (failure_ssz (d_messages D)) (tx_lossy (d_texts D)) reply)
               else map_sum (\<lambda>e. ''malformed update response: '' @ e) id (from_ssz_bytes (updated_ssz (d_messages D)) reply)))"

definition ml_holder_texts :: "demo_texts \<Rightarrow> round_texts" where
  "ml_holder_texts tx = \<lparr>rt_refused = ''record failed ML-DSA quorum verification; freshness unchanged'',
     rt_stale = (\<lambda>m. ''already seen, high-water remains v'' @ show_nat (unat m)),
     rt_version = (\<lambda>_ _. ''aggregator version differs from stored record''),
     rt_absent = (\<lambda>_. ''authenticated snapshot has the wrong credential state''),
     rt_present = (\<lambda>_. ''authenticated snapshot has the wrong credential state''),
     rt_store = (\<lambda>e. ''cannot save credential: '' @ tx_io tx e),
     rt_no_credential = (\<lambda>e. ''no issued credential is available: '' @ tx_io tx e)\<rparr>"

definition ml_holder_round ::
  "('b, 'pk, 'sk, 'sig, 'rng) ml_demo_env \<Rightarrow> holder_io \<Rightarrow> path \<Rightarrow> action \<Rightarrow> 'pk ml_holder \<Rightarrow> fs
    \<Rightarrow> (round_error, string) result \<times> 'pk ml_holder \<times> fs" where
  "ml_holder_round D io state_dir act n s =
     run_round (ml_holder_accept D) (ml_holder_listing D) (ml_request_status_update D io) (ml_holder_texts (d_texts D))
       (d_sha3 D) io state_dir act n s"

definition ml_holder_handle ::
  "('b, 'pk, 'sk, 'sig, 'rng) ml_demo_env \<Rightarrow> bool \<Rightarrow> write_fault \<Rightarrow> holder_io \<Rightarrow> path \<Rightarrow> bytes \<Rightarrow> bytes \<Rightarrow> 'pk ml_holder \<Rightarrow> fs
    \<Rightarrow> (round_error, bytes) result \<times> 'pk ml_holder \<times> fs" where
  "ml_holder_handle D timeout_set wr io state_dir subject stream n s =
     (if \<not> timeout_set then (Inr [], n, s)
      else let answer = (\<lambda>kind txt. snd (send wr kind (failure_of (failure_ssz (d_messages D)) txt)))
      in case recv stream of
        Inl e \<Rightarrow> (Inr [], n, s)
      | Inr ((kind, payload), _) \<Rightarrow>
          if kind \<noteq> MSG_ROUND_REQUEST then (Inr (answer MSG_FAILURE ''not a round request''), n, s)
          else case decode_trigger (request_ssz (d_messages D)) ''malformed request: '' subject payload of
                 Inl why \<Rightarrow> (Inr (answer MSG_FAILURE why), n, s)
               | Inr act \<Rightarrow>
                   (case ml_holder_round D io state_dir act n s of
                      (Inr txt, n', s') \<Rightarrow> (Inr (answer MSG_ROUND_RESULT txt), n', s')
                    | (Inl (RoundFailed why), n', s') \<Rightarrow> (Inr (answer MSG_FAILURE why), n', s')
                    | (Inl ExpectIssuedCredential, n', s') \<Rightarrow> (Inl ExpectIssuedCredential, n', s')))"

section \<open>Node A is a relying party\<close>

definition ml_judge :: "('b, 'pk, 'sk, 'sig, 'rng) ml_demo_env \<Rightarrow> 'pk ml_holder \<Rightarrow> bytes \<Rightarrow> u32 option" where
  "ml_judge D n b =
     (case ml_from_bytes (d_env D) (d_mldsa D) b of
        Inl e \<Rightarrow> None
      | Inr r \<Rightarrow> if ml_verify_status_list (d_env D) (d_mldsa D) (mh_verifier n) r then Some (ms_version r) else None)"

definition ml_authentic ::
  "('b, 'pk, 'sk, 'sig, 'rng) ml_demo_env \<Rightarrow> 'pk ml_holder \<Rightarrow> u32 \<Rightarrow> 32 barr list \<Rightarrow> bytes \<Rightarrow> bool" where
  "ml_authentic D n v xs b \<longleftrightarrow>
     (\<exists>r. ml_from_bytes (d_env D) (d_mldsa D) b = Inr r \<and> ms_version r = v \<and> ms_status_list r = xs
        \<and> ml_verify_status_list (d_env D) (d_mldsa D) (mh_verifier n) r)"

interpretation ml_party: listing_party "ml_holder_accept D" "ml_judge D" mh_mark "\<lambda>m n. n\<lparr>mh_mark := m\<rparr>"
    "ml_holder_listing D" "ml_authentic D"
  for D
  by unfold_locales
    (auto simp: ml_judge_def ml_holder_accept_def ml_authentic_def ml_holder_listing_def outcome_advance_def fun_eq_iff
      split: sum.splits if_splits prod.splits decision.splits)

section \<open>What an aggregator publishes\<close>

lemma ml_arrivals_indices:
  "set (map fst (ml_arrivals D answers order)) \<subseteq> set order"
  "distinct order \<Longrightarrow> distinct (map fst (ml_arrivals D answers order))"
proof -
  show sub: "set (map fst (ml_arrivals D answers order)) \<subseteq> set order" for order
    by (induction order) (auto simp: ml_arrivals_def List.map_filter_simps split: option.splits)
  show "distinct order \<Longrightarrow> distinct (map fst (ml_arrivals D answers order))"
  proof (induction order)
    case (Cons i order)
    then show ?case
      using sub [of order] by (auto simp: ml_arrivals_def List.map_filter_simps split: option.splits)
  qed (simp add: ml_arrivals_def List.map_filter_simps)
qed

text \<open>Exactly which contributions are counted: the first valid ones, up to the threshold.\<close>

lemma ml_count_signatures_eq:
  assumes "\<forall>p \<in> set channel. fst p < length (ml_members c)"
  shows "ml_count_signatures M c statement channel quorum =
    Inr (quorum @ take (THRESHOLD - length quorum) (filter (\<lambda>(i, sig). ml_verify M (ml_members c ! i) statement sig) channel))"
  using assms
proof (induction channel arbitrary: quorum)
  case (Cons isig channel)
  obtain i sig where eq: "isig = (i, sig)" by force
  have i: "i < length (ml_members c)" using Cons.prems eq by simp
  show ?case
  proof (cases "length quorum \<ge> THRESHOLD")
    case True
    then show ?thesis using eq by simp
  next
    case False
    then have "THRESHOLD - length quorum = Suc (THRESHOLD - (length quorum + 1))" by simp
    then have "take (THRESHOLD - length quorum) ((i, sig) # zs) = (i, sig) # take (THRESHOLD - (length quorum + 1)) zs" for zs
      by (metis take_Suc_Cons)
    then show ?thesis using Cons eq i False by auto
  qed
qed simp

text \<open>The anchor the bootstrap step assembles.\<close>

definition ml_demo_anchor :: "('b, 'pk, 'sk, 'sig, 'rng) ml_demo_env \<Rightarrow> 'pk ml_committee \<Rightarrow> bool" where
  "ml_demo_anchor D c \<longleftrightarrow> ml_wf (d_env D) (d_mldsa D) c \<and> length (ml_members c) = DEMO_N_MEMBERS \<and> ml_threshold c = THRESHOLD"

lemma ml_collected_quorum:
  assumes "ml_demo_anchor D c" and "distinct order" and "set order \<subseteq> {..<DEMO_N_MEMBERS}"
    and "ml_collect_signatures D c p answers order = Inr quorum"
  shows "distinct (map fst quorum)" and "\<forall>q \<in> set quorum. fst q < length (ml_members c)"
    and "\<forall>(i, sig) \<in> set quorum. ml_verify (d_mldsa D) (ml_members c ! i) (bytes_of (statement_for (d_env D) c (pr_list p) (pr_version p))) sig"
proof -
  let ?ok = "\<lambda>(i, sig). ml_verify (d_mldsa D) (ml_members c ! i) (bytes_of (statement_for (d_env D) c (pr_list p) (pr_version p))) sig"
  let ?ch = "ml_arrivals D answers order"
  have "\<forall>q \<in> set ?ch. fst q < length (ml_members c)"
    using ml_arrivals_indices(1) [of D answers order] assms(1,3) by (auto simp: ml_demo_anchor_def)
  then have q: "quorum = take THRESHOLD (filter ?ok ?ch)"
    using assms(4) by (simp add: ml_collect_signatures_def ml_count_signatures_eq)
  have "distinct (map fst (filter ?ok ?ch))" using ml_arrivals_indices(2) [OF assms(2)] by (rule distinct_map_filter)
  then show "distinct (map fst quorum)" by (simp only: q take_map [symmetric] distinct_take)
  show "\<forall>q \<in> set quorum. fst q < length (ml_members c)"
    using q \<open>\<forall>q \<in> set ?ch. _ q\<close> set_take_subset [of THRESHOLD "filter ?ok ?ch"] by auto
  show "\<forall>x \<in> set quorum. ?ok x"
    using q set_take_subset [of THRESHOLD "filter ?ok ?ch"] by auto
qed

lemma ml_new_size: "ml_new E xs v n ps = Inr r \<Longrightarrow>
    17 + 32 * length xs + (n + 8) div 8 + SIGNATURE_BYTES * length ps \<le> MAX_RECORD_BYTES"
  by (auto simp: ml_new_def record_len_def usize_checked_add_def usize_checked_mul_def Let_def mult.commute
      split: sum.splits if_splits option.splits)

lemma ml_status_request_updated:
  assumes "ml_on_status_request D io dir payload mm vol = (Inr (MSG_STATUS_UPDATED, reply), mm', vol')"
  shows "\<exists>rq v xs cr ys quorum r. from_ssz_bytes (request_ssz (d_messages D)) payload = Inr rq
    \<and> ml_next_version D (ri_published io) = Inr (v, xs)
    \<and> ml_apply_request D (ri_rng io) (mm_index mm) rq v xs = Inr (cr, ys)
    \<and> ml_collect_signatures D (mm_committee mm) \<lparr>pr_version = v, pr_list = ys\<rparr> (ri_answers io) (ri_order io) = Inr quorum
    \<and> THRESHOLD \<le> length quorum \<and> ml_new (d_env D) ys v DEMO_N_MEMBERS quorum = Inr r
    \<and> (\<exists>p. publish (ri_publish io) dir (ml_to_bytes (d_env D) (d_mldsa D) r) vol = (Inr p, vol'))
    \<and> reply = as_ssz_bytes (updated_ssz (d_messages D)) \<lparr>su_version = v, su_credential = cr\<rparr>"
  using assms
  by (auto simp: ml_on_status_request_def ml_fail_def message_types split: if_splits sum.splits prod.splits)

lemma ml_apply_request_Inr:
  assumes "ml_apply_request D rng index rq v xs = Inr (cr, ys)"
  shows "set ys \<in> {insert (vc_fingerprint (d_sha3 D) cr) (set xs), set xs - {vc_fingerprint (d_sha3 D) cr}}"
proof -
  consider "add_valid (d_sha3 D) cr xs = (True, ys)" | "revoke (d_sha3 D) cr xs = (True, ys)"
    using assms by (auto simp: ml_apply_request_def Let_def split: if_splits option.splits prod.splits)
  then show ?thesis
    using add_valid_set(1) [where ?sha3.0 = "d_sha3 D" and cr = cr and xs = xs]
      revoke_set(1) [where ?sha3.0 = "d_sha3 D" and cr = cr and xs = xs] by cases simp_all
qed

lemma ml_published_verifies:
  assumes "bitlist_laws ML_MAX_COMMITTEE_SIZE (ml_bits (d_env D))" and anchor: "ml_demo_anchor D c"
    and "distinct order" and "set order \<subseteq> {..<DEMO_N_MEMBERS}"
    and quorum: "ml_collect_signatures D c \<lparr>pr_version = v, pr_list = xs\<rparr> answers order = Inr quorum" "THRESHOLD \<le> length quorum"
    and new: "ml_new (d_env D) xs v DEMO_N_MEMBERS quorum = Inr r"
  shows "ml_verify_status_list (d_env D) (d_mldsa D) c r \<and> ms_version r = v \<and> ms_status_list r = xs
    \<and> ml_signer_count (d_env D) r = length (ms_signatures r)"
proof -
  have c: "ml_wf (d_env D) (d_mldsa D) c" "length (ml_members c) = DEMO_N_MEMBERS" "ml_threshold c = THRESHOLD"
    using anchor by (simp_all add: ml_demo_anchor_def)
  note q = ml_collected_quorum [OF anchor assms(3,4) quorum(1)]
  have len: "17 + 32 * length xs + (length (ml_members c) + 8) div 8 + SIGNATURE_BYTES * length quorum \<le> MAX_RECORD_BYTES"
    using ml_new_size [OF new] c(2) by simp
  have t: "ml_threshold c \<le> length quorum" using c(3) quorum(2) by simp
  have sigs: "\<forall>(i, sig) \<in> set quorum. ml_verify (d_mldsa D) (ml_members c ! i) (bytes_of (statement_for (d_env D) c xs v)) sig"
    using q(3) by simp
  show ?thesis using ml_honest_record [OF assms(1) c(1) q(1,2) t len sigs] new c(2) by auto
qed

text \<open>A round in which enough members answer well gets through to publication.\<close>

lemma ml_round_with_quorum:
  assumes laws: "bitlist_laws ML_MAX_COMMITTEE_SIZE (ml_bits (d_env D))" and anchor: "ml_demo_anchor D (mm_committee mm)"
    and order: "distinct (ri_order io)" "set (ri_order io) \<subseteq> {..<DEMO_N_MEMBERS}"
    and rq: "\<not> mm_round_poisoned mm" "from_ssz_bytes (request_ssz (d_messages D)) payload = Inr rq"
      "ml_next_version D (ri_published io) = Inr (v, xs)" "ml_apply_request D (ri_rng io) (mm_index mm) rq v xs = Inr (cr, ys)"
    and enough: "THRESHOLD \<le> length (filter (\<lambda>(i, sig). ml_verify (d_mldsa D) (ml_members (mm_committee mm) ! i)
        (bytes_of (statement_for (d_env D) (mm_committee mm) ys v)) sig) (ml_arrivals D (ri_answers io) (ri_order io)))"
    and size: "17 + 32 * length ys + (DEMO_N_MEMBERS + 8) div 8 + SIGNATURE_BYTES * THRESHOLD \<le> MAX_RECORD_BYTES"
    and disk: "ri_publish io = ReplaceClean"
  shows "\<exists>mm' vol'. ml_on_status_request D io dir payload mm vol =
    (Inr (MSG_STATUS_UPDATED, as_ssz_bytes (updated_ssz (d_messages D)) \<lparr>su_version = v, su_credential = cr\<rparr>), mm', vol')"
proof -
  let ?c = "mm_committee mm" and ?p = "\<lparr>pr_version = v, pr_list = ys\<rparr>"
  have n: "length (ml_members ?c) = DEMO_N_MEMBERS" "1 \<le> DEMO_N_MEMBERS" "DEMO_N_MEMBERS \<le> ML_MAX_COMMITTEE_SIZE"
    using anchor by (simp_all add: ml_demo_anchor_def DEMO_N_MEMBERS_def ML_MAX_COMMITTEE_SIZE_def)
  have "\<forall>q \<in> set (ml_arrivals D (ri_answers io) (ri_order io)). fst q < length (ml_members ?c)"
    using ml_arrivals_indices(1) [of D "ri_answers io" "ri_order io"] order(2) n(1) by auto
  then obtain quorum where q: "ml_collect_signatures D ?c ?p (ri_answers io) (ri_order io) = Inr quorum" "length quorum = THRESHOLD"
    using enough by (simp add: ml_collect_signatures_def ml_count_signatures_eq)
  note valid = ml_collected_quorum [OF anchor order q(1)]
  obtain r where r: "ml_new (d_env D) ys v DEMO_N_MEMBERS quorum = Inr r"
    using ml_new_ok [OF laws n(2,3) valid(1)] valid(2) n(1) size q(2) by auto
  obtain vol' where "publish ReplaceClean dir (ml_to_bytes (d_env D) (d_mldsa D) r) vol = (Inr (dir @ [CURRENT_RECORD]), vol')"
    by (simp add: publish_def write_atomic_def replace_file_def Let_def)
  then show ?thesis using rq q r disk by (simp add: ml_on_status_request_def)
qed

section \<open>An example\<close>

text \<open>The reply of the example carries one signature and no reason.\<close>

definition ml_plain_messages :: "bytes message_codecs" where
  "ml_plain_messages = \<lparr>request_ssz = request_codec, proposal_ssz = proposal_codec,
     reply_ssz = \<lparr>as_ssz_bytes = (\<lambda>r. concat (rp_signature r)), from_ssz_bytes = (\<lambda>b. Inr \<lparr>rp_signature = [b], rp_reason = []\<rparr>)\<rparr>,
     updated_ssz = updated_codec, failure_ssz = failure_codec\<rparr>"

definition ml_plain_demo :: "bool list ml_env \<Rightarrow> (bool list, 1952 barr, 1952 barr, 3309 barr, unit) ml_demo_env" where
  "ml_plain_demo V = \<lparr>d_sha3 = fold_hash, d_env = V, d_mldsa = plain_mldsa, d_messages = ml_plain_messages,
     d_issue = (\<lambda>_ _ _ _. as_bytes ''credential''), d_ml_text = (\<lambda>_. []), d_debug = id,
     d_texts = \<lparr>tx_status = (\<lambda>_. []), tx_state = (\<lambda>_. []), tx_io = (\<lambda>_. []), tx_wire = (\<lambda>_. []), tx_lossy = (\<lambda>_. [])\<rparr>\<rparr>"

abbreviation ml_first_env :: "bool list ml_env" where
  "ml_first_env \<equiv> plain_env ml_example_wire"

definition ml_ten_members :: "1952 barr list" where
  "ml_ten_members = map (\<lambda>i. ml_example_key (word_of_nat i)) [0..<10]"

definition ml_ten_committee :: "1952 barr ml_committee" where
  "ml_ten_committee = \<lparr>ml_members = ml_ten_members, ml_threshold = 7,
     ml_anchor_id = anchor_id_from_canonical_bytes ml_first_env (wire_bytes ml_first_env plain_mldsa ml_ten_members 7)\<rparr>"

lemma ml_ten_is_demo_anchor: "ml_demo_anchor (ml_plain_demo ml_first_env) ml_ten_committee"
proof -
  have "inj_on (\<lambda>i. ml_example_key (word_of_nat i)) {0..<10}"
    by (auto simp: inj_on_def ml_example_key_eq word_unat_eq_iff unat_of_nat)
  then have "validate_members plain_mldsa ml_ten_members = Inr ()"
    by (simp add: validate_members_iff ml_ten_members_def plain_mldsa_def distinct_map ML_MAX_COMMITTEE_SIZE_def)
  then have "ml_committee_new ml_first_env plain_mldsa ml_ten_members 7 = Inr ml_ten_committee"
    by (simp add: ml_committee_new_def validate_threshold_def ml_ten_committee_def ml_ten_members_def)
  from ml_committee_new_wf [OF this] show ?thesis
    by (simp add: ml_demo_anchor_def ml_plain_demo_def ml_ten_members_def DEMO_N_MEMBERS_def THRESHOLD_def)
qed

definition ml_member_four :: "(1952 barr, 1952 barr) ml_member" where
  "ml_member_four = \<lparr>mm_index = 4, mm_committee = ml_ten_committee, mm_signer = \<lparr>signing_key = ml_example_key 4\<rparr>,
     mm_round_poisoned = False, mm_rounds_served = 0\<rparr>"

definition ml_first_signature :: "usize \<Rightarrow> 3309 barr" where
  "ml_first_signature i = mk_barr (bytes_of (ml_example_key (word_of_nat i)) @ bytes_of (statement_for ml_first_env ml_ten_committee first_list 0))"

definition ml_first_round :: "unit round_io" where
  "ml_first_round = \<lparr>ri_published = None, ri_rng = (), ri_answers = (\<lambda>i. Inr (MSG_SIGNATURE, bytes_of (ml_first_signature i))),
     ri_order = rev [0..<10], ri_window = None, ri_publish = ReplaceClean\<rparr>"

lemma ml_first_arrivals:
  "ml_arrivals (ml_plain_demo V) (ri_answers ml_first_round) order = map (\<lambda>i. (i, ml_first_signature i)) order"
  by (induction order)
    (simp_all add: ml_arrivals_def List.map_filter_simps ml_member_signature_def ml_first_round_def ml_plain_demo_def ml_plain_messages_def
      plain_mldsa_def)

lemma ml_first_round_runs:
  "\<exists>mm' vol'. ml_on_status_request (ml_plain_demo ml_first_env) ml_first_round [''storage''] issue_request ml_member_four no_files =
     (Inr (MSG_STATUS_UPDATED, as_ssz_bytes updated_codec \<lparr>su_version = 0, su_credential = as_bytes ''credential''\<rparr>), mm', vol')"
proof -
  let ?D = "ml_plain_demo ml_first_env"
  have mm: "mm_committee ml_member_four = ml_ten_committee" "mm_index ml_member_four = 4" "\<not> mm_round_poisoned ml_member_four"
    by (simp_all add: ml_member_four_def)
  have D: "bitlist_laws ML_MAX_COMMITTEE_SIZE (ml_bits (d_env ?D))" "d_env ?D = ml_first_env" "d_mldsa ?D = plain_mldsa"
    using plain_env_bits by (simp_all add: ml_plain_demo_def)
  have io: "distinct (ri_order ml_first_round)" "set (ri_order ml_first_round) \<subseteq> {..<DEMO_N_MEMBERS}" "ri_publish ml_first_round = ReplaceClean"
    "ml_next_version ?D (ri_published ml_first_round) = Inr (0, [])"
    by (auto simp: ml_first_round_def DEMO_N_MEMBERS_def ml_next_version_def)
  have rq: "from_ssz_bytes (request_ssz (d_messages ?D)) issue_request = Inr \<lparr>sr_action = ACTION_ISSUE, sr_data = as_bytes ''alice''\<rparr>"
    by (simp add: ml_plain_demo_def ml_plain_messages_def issue_request_def request_codec_def)
  have "from_utf8 (as_bytes ''alice'') = Some (text_of ''alice'')" "text_of ''alice'' \<noteq> []"
    by (rule from_utf8_ascii, simp) (simp add: text_of_def)
  then have ap: "ml_apply_request ?D (ri_rng ml_first_round) (mm_index ml_member_four)
      \<lparr>sr_action = ACTION_ISSUE, sr_data = as_bytes ''alice''\<rparr> 0 [] = Inr (as_bytes ''credential'', first_list)"
    by (simp add: ml_apply_request_def ml_plain_demo_def add_valid_def first_list_def List.member_iff Let_def)
  have "filter (\<lambda>(i, sig). ml_verify (d_mldsa ?D) (ml_members (mm_committee ml_member_four) ! i)
      (bytes_of (statement_for (d_env ?D) (mm_committee ml_member_four) first_list 0)) sig)
      (ml_arrivals ?D (ri_answers ml_first_round) (ri_order ml_first_round)) = map (\<lambda>i. (i, ml_first_signature i)) (rev [0..<10])"
    unfolding ml_first_arrivals D mm
    by (rule trans [OF filter_True]) (auto simp: ml_first_round_def ml_first_signature_def ml_verify_def plain_mldsa_def ml_ten_committee_def ml_ten_members_def)
  then have "THRESHOLD \<le> length (filter (\<lambda>(i, sig). ml_verify (d_mldsa ?D) (ml_members (mm_committee ml_member_four) ! i)
      (bytes_of (statement_for (d_env ?D) (mm_committee ml_member_four) first_list 0)) sig)
      (ml_arrivals ?D (ri_answers ml_first_round) (ri_order ml_first_round)))"
    by (simp add: THRESHOLD_def)
  from ml_round_with_quorum [OF D(1) _ io(1,2) mm(3) rq io(4) ap this _ io(3), of "[''storage'']" no_files] show ?thesis
    using ml_ten_is_demo_anchor mm(1)
    by (simp add: ml_plain_demo_def ml_plain_messages_def first_list_def DEMO_N_MEMBERS_def THRESHOLD_def SIGNATURE_BYTES_def MAX_RECORD_BYTES_def)
qed

section \<open>Properties\<close>

text \<open>
  An ML-DSA round that reports success has published a record that verifies: whatever the members
  answer and in whichever order, the shared volume then durably holds the encoding of a record of
  exactly the reported version, the successor of the published one, that the predicate accepts under
  the anchor and whose list is the published one with one fingerprint inserted or removed.
\<close>

theorem ml_aggregator_publishes_only_verifying_records:
  assumes "bitlist_laws ML_MAX_COMMITTEE_SIZE (ml_bits (d_env D))" and "ml_demo_anchor D (mm_committee mm)"
    and "distinct (ri_order io)" and "set (ri_order io) \<subseteq> {..<DEMO_N_MEMBERS}"
    and "ml_on_status_request D io dir payload mm vol = (Inr (MSG_STATUS_UPDATED, reply), mm', vol')"
  shows "\<exists>v xs cr r. ml_next_version D (ri_published io) = Inr (v, xs)
    \<and> reply = as_ssz_bytes (updated_ssz (d_messages D)) \<lparr>su_version = v, su_credential = cr\<rparr>
    \<and> set (ms_status_list r) \<in> {insert (vc_fingerprint (d_sha3 D) cr) (set xs), set xs - {vc_fingerprint (d_sha3 D) cr}}
    \<and> stable vol' (dir @ [CURRENT_RECORD]) = Some (ml_to_bytes (d_env D) (d_mldsa D) r) \<and> ms_version r = v
    \<and> ml_verify_status_list (d_env D) (d_mldsa D) (mm_committee mm) r"
proof -
  obtain rq v xs cr ys quorum r p where s: "ml_next_version D (ri_published io) = Inr (v, xs)"
    "ml_apply_request D (ri_rng io) (mm_index mm) rq v xs = Inr (cr, ys)"
    "ml_collect_signatures D (mm_committee mm) \<lparr>pr_version = v, pr_list = ys\<rparr> (ri_answers io) (ri_order io) = Inr quorum"
    "THRESHOLD \<le> length quorum" "ml_new (d_env D) ys v DEMO_N_MEMBERS quorum = Inr r"
    "publish (ri_publish io) dir (ml_to_bytes (d_env D) (d_mldsa D) r) vol = (Inr p, vol')"
    "reply = as_ssz_bytes (updated_ssz (d_messages D)) \<lparr>su_version = v, su_credential = cr\<rparr>"
    using ml_status_request_updated [OF assms(5)] by blast
  show ?thesis
    using s(1,7) publish_effect [OF s(6)] ml_apply_request_Inr [OF s(2)] ml_published_verifies [OF assms(1-4) s(3-5)] by auto
qed

theorem ml_aggregator_publishes_only_verifying_records_witness:
  "\<exists>(vol' :: fs) r. stable vol' [''storage'', CURRENT_RECORD] = Some (ml_to_bytes ml_first_env plain_mldsa r) \<and> ms_version r = 0
     \<and> ml_verify_status_list ml_first_env plain_mldsa ml_ten_committee r"
proof -
  let ?D = "ml_plain_demo ml_first_env"
  obtain mm' vol' where run: "ml_on_status_request ?D ml_first_round [''storage''] issue_request ml_member_four no_files =
     (Inr (MSG_STATUS_UPDATED, as_ssz_bytes updated_codec \<lparr>su_version = 0, su_credential = as_bytes ''credential''\<rparr>), mm', vol')"
    using ml_first_round_runs by blast
  have h: "bitlist_laws ML_MAX_COMMITTEE_SIZE (ml_bits (d_env ?D))" "ml_demo_anchor ?D (mm_committee ml_member_four)"
    "distinct (ri_order ml_first_round)" "set (ri_order ml_first_round) \<subseteq> {..<DEMO_N_MEMBERS}"
    using plain_env_bits ml_ten_is_demo_anchor by (auto simp: ml_plain_demo_def ml_member_four_def ml_first_round_def DEMO_N_MEMBERS_def)
  have nv: "ml_next_version ?D (ri_published ml_first_round) = Inr (0, [])" by (simp add: ml_first_round_def ml_next_version_def)
  have D: "d_env ?D = ml_first_env" "d_mldsa ?D = plain_mldsa" "mm_committee ml_member_four = ml_ten_committee"
    by (simp_all add: ml_plain_demo_def ml_member_four_def)
  from ml_aggregator_publishes_only_verifying_records [OF h run] obtain r where
    "stable vol' [''storage'', CURRENT_RECORD] = Some (ml_to_bytes ml_first_env plain_mldsa r)" "ms_version r = 0"
    "ml_verify_status_list ml_first_env plain_mldsa ml_ten_committee r"
    unfolding nv D by auto
  then show ?thesis by blast
qed

text \<open>
  A verdict of the ML-DSA node A rests on an authentic record, as for the XMSS forms: the published
  bytes decode to a record that verifies under the pinned anchor, an issuance was reported for
  exactly this version with a credential that is in the signed list and saved durably, and the
  credential echoed for a revocation is not in the signed list.
\<close>

theorem ml_holder_success_is_authentic:
  assumes "ml_holder_round D io state_dir act n s = (Inr verdict, n', s')"
  shows "\<exists>bs v. ho_published io = Some bs \<and> ml_authentic D n v (ml_holder_listing D n bs) bs
    \<and> (case act of
         Issue subject \<Rightarrow> \<exists>u. ml_request_status_update D io ACTION_ISSUE subject = Inr u \<and> su_version u = v
           \<and> vc_fingerprint (d_sha3 D) (su_credential u) \<in> set (ml_holder_listing D n bs)
           \<and> stable s' (credential_path state_dir) = Some (su_credential u)
       | Revoke \<Rightarrow> \<exists>cr u. load_credential (ho_read io) state_dir s = Inr cr
           \<and> ml_request_status_update D io ACTION_REVOKE cr = Inr u \<and> su_version u = v
           \<and> vc_fingerprint (d_sha3 D) (su_credential u) \<notin> set (ml_holder_listing D n bs)
       | Verify \<Rightarrow> True)"
  using ml_party.round_success [OF assms [unfolded ml_holder_round_def]] by blast

text \<open>Node A with its mark at version 5 reads the example record of version 5.\<close>

theorem ml_holder_success_is_authentic_witness:
  "\<exists>io n v verdict n' s'. ml_holder_round (ml_plain_demo ml_round_env) io [''state''] Verify n no_files = (Inr verdict, n', s')
     \<and> ml_authentic (ml_plain_demo ml_round_env) n v [] (ml_to_bytes ml_round_env plain_mldsa ml_round_record)"
proof -
  let ?D = "ml_plain_demo ml_round_env" and ?bs = "ml_to_bytes ml_round_env plain_mldsa ml_round_record"
  let ?io = "(echoing [])\<lparr>ho_published := Some ?bs\<rparr>"
  let ?n = "\<lparr>mh_verifier = ml_example_committee (ml_to_wire plain_mldsa ml_round_record),
     mh_mark = \<lparr>m_path = [''mark''], m_fingerprint = ''00'', m_current = 5, m_have = True\<rparr>\<rparr>"
  have j: "ml_judge ?D ?n ?bs = Some 5" "ml_holder_listing ?D ?n ?bs = []"
    using ml_round_decodes by (simp_all add: ml_judge_def ml_holder_listing_def ml_plain_demo_def) (simp_all add: ml_round_record_def)
  obtain verdict n' s' where run: "ml_holder_round ?D ?io [''state''] Verify ?n no_files = (Inr verdict, n', s')"
    using ml_party.stale_verify [of ?io ?bs ?D ?n 5 "ml_request_status_update ?D ?io" "ml_holder_texts (d_texts ?D)" "d_sha3 ?D" "[''state'']" no_files] j(1)
    by (simp add: ml_holder_round_def)
  from ml_holder_success_is_authentic [OF run] obtain v where "ml_authentic ?D ?n v [] ?bs" using j(2) by auto
  then show ?thesis using run by blast
qed

text \<open>
  Replays and rollbacks are never accepted by the ML-DSA node either: over any sequence of delivered
  byte strings, with any disk failures, the accepted versions increase strictly.
\<close>

theorem ml_holder_versions_increase:
  "sorted_wrt (<) (accepted_versions (deliver (ml_holder_accept D)) delivered_version deliveries (n, s))"
  by (rule ml_party.node_gate.accepted_increase)

end
