(* ===== verification/Demo_Bootstrap.thy ===== *)
theory Demo_Bootstrap
  imports Demo_Mldsa
begin

text \<open>
  The bootstrap step of the demo network (demo/src/bin/bootstrap.rs and
  demo/src/bin/mldsa_bootstrap.rs): publish the run identifier, wait for the ten keys, assemble the
  anchor in index order and publish it. What the members write while it waits is an input.

  The lemmas show that the anchor names the keys by index and not by arrival, and that a member whose
  key the bootstrap step read finds itself in the anchor when it starts.
\<close>

section \<open>The run identifier\<close>

text \<open>
  What the step meets: which directories list and which removals succeed, the writes, the clock when
  it sets the deadline for all keys and before it waits for each, and the key files as it polls them.
\<close>

record bootstrap_io =
  bt_read :: read_fault
  bt_random :: "32 barr"
  bt_lists :: "path \<Rightarrow> bool"
  bt_removes :: "path \<Rightarrow> bool"
  bt_publish_id :: replace_fault
  bt_clock :: nat
  bt_clocks :: "usize \<Rightarrow> nat"
  bt_keys :: "usize \<Rightarrow> watch"
  bt_publish_anchor :: replace_fault

definition reset :: "bootstrap_io \<Rightarrow> path list \<Rightarrow> fs \<Rightarrow> fs" where
  "reset io dirs vol = vol\<lparr>files := (\<lambda>p. if p \<noteq> [] \<and> List.member dirs (butlast p) \<and> bt_lists io (butlast p) \<and> bt_removes io p
     then None else files vol p)\<rparr>"

datatype 'e bootstrap_panic = CannotPublishRunId io_error | NeverPublishedKey usize | MalformedKey usize 'e
  | InvalidCommittee 'e | CannotPublishAnchor io_error

definition publish_run_id ::
  "bootstrap_io \<Rightarrow> path \<Rightarrow> path \<Rightarrow> fs \<Rightarrow> (io_error, bytes) result \<times> fs" where
  "publish_run_id io committee_dir storage_dir vol =
     (let run_id_path = committee_dir @ [RUN_ID];
          fresh = (let vol1 = reset io [committee_dir, storage_dir] vol
                   in case write_atomic (bt_publish_id io) run_id_path (bytes_of (bt_random io)) vol1 of
                        (Inl e, vol2) \<Rightarrow> (Inl e, vol2)
                      | (Inr _, vol2) \<Rightarrow> (Inr (bytes_of (bt_random io)), vol2))
      in if bt_read io = ReadFails then fresh
         else case files vol run_id_path of
                Some (b # bs) \<Rightarrow> (Inr (b # bs), vol)
              | _ \<Rightarrow> fresh)"

section \<open>The anchor\<close>

definition KEY_WAIT :: nat where
  "KEY_WAIT = from_secs 300"

text \<open>What is left of the common deadline when the step turns to a key, and its wait.\<close>

definition wait_for_key :: "bootstrap_io \<Rightarrow> usize \<Rightarrow> (unit, bytes) result" where
  "wait_for_key io i =
     (let deadline = bt_clock io + KEY_WAIT; remaining = deadline - bt_clocks io i
      in wait_for (bt_keys io i) remaining)"

fun wait_keys ::
  "(usize \<Rightarrow> bytes \<Rightarrow> ('e bootstrap_panic, 'pk) result) \<Rightarrow> bootstrap_io \<Rightarrow> usize list \<Rightarrow> ('e bootstrap_panic, 'pk list) result" where
  "wait_keys decode io [] = Inr []"
| "wait_keys decode io (i # is) =
     (case wait_for_key io i of
        Inl _ \<Rightarrow> Inl (NeverPublishedKey i)
      | Inr bs \<Rightarrow>
          (case decode i bs of
             Inl p \<Rightarrow> Inl p
           | Inr pk \<Rightarrow> (case wait_keys decode io is of Inl p \<Rightarrow> Inl p | Inr pks \<Rightarrow> Inr (pk # pks))))"

text \<open>Both steps share everything but the keys and the anchor; \<open>meanwhile\<close> is what the members do to the volume.\<close>

definition bootstrap_with ::
  "(usize \<Rightarrow> bytes \<Rightarrow> ('e bootstrap_panic, 'pk) result) \<Rightarrow> ('pk list \<Rightarrow> ('e, 'c) result) \<Rightarrow> ('c \<Rightarrow> bytes)
    \<Rightarrow> bootstrap_io \<Rightarrow> path \<Rightarrow> path \<Rightarrow> (fs \<Rightarrow> fs) \<Rightarrow> fs \<Rightarrow> ('e bootstrap_panic, 'c) result \<times> fs" where
  "bootstrap_with decode assemble to_bytes io committee_dir storage_dir meanwhile vol =
     (case publish_run_id io committee_dir storage_dir vol of
        (Inl e, vol1) \<Rightarrow> (Inl (CannotPublishRunId e), vol1)
      | (Inr _, vol1) \<Rightarrow>
          (case wait_keys decode io [0..<DEMO_N_MEMBERS] of
             Inl p \<Rightarrow> (Inl p, meanwhile vol1)
           | Inr ms \<Rightarrow>
               (case assemble ms of
                  Inl e \<Rightarrow> (Inl (InvalidCommittee e), meanwhile vol1)
                | Inr c \<Rightarrow>
                    (case write_atomic (bt_publish_anchor io) (committee_dir @ [ANCHOR]) (to_bytes c) (meanwhile vol1) of
                       (Inl e, vol2) \<Rightarrow> (Inl (CannotPublishAnchor e), vol2)
                     | (Inr _, vol2) \<Rightarrow> (Inr c, vol2)))))"

text \<open>A key that does not decode carries the text of the codec, an invalid committee its own error.\<close>

definition bootstrap_key ::
  "('b, 'pk, 'sk, 'sig, 'rng, 'sph, 'agg) demo_env \<Rightarrow> usize \<Rightarrow> bytes \<Rightarrow> ((string + committee_error) bootstrap_panic, 'pk) result" where
  "bootstrap_key E i bs = map_sum (\<lambda>e. MalformedKey i (Inl e)) id (from_ssz_bytes (key_ssz (e_anchor E)) bs)"

definition bootstrap ::
  "('b, 'pk, 'sk, 'sig, 'rng, 'sph, 'agg) demo_env \<Rightarrow> bootstrap_io \<Rightarrow> path \<Rightarrow> path \<Rightarrow> (fs \<Rightarrow> fs) \<Rightarrow> fs
    \<Rightarrow> ((string + committee_error) bootstrap_panic, 'pk committee) result \<times> fs" where
  "bootstrap E =
     bootstrap_with (bootstrap_key E)
       (\<lambda>ms. map_sum Inr id (committee_new (sha3_256 (e_hashes E)) (e_anchor E) ms THRESHOLD SLOT))
       (committee_to_bytes (e_anchor E))"

text \<open>An ML-DSA key of another length is refused with its length before it is decoded.\<close>

definition ml_bootstrap ::
  "('b, 'pk, 'sk, 'sig, 'rng) ml_demo_env \<Rightarrow> bootstrap_io \<Rightarrow> path \<Rightarrow> path \<Rightarrow> (fs \<Rightarrow> fs) \<Rightarrow> fs
    \<Rightarrow> ((nat + ml_error) bootstrap_panic, 'pk ml_committee) result \<times> fs" where
  "ml_bootstrap D =
     bootstrap_with
       (\<lambda>i bs. case arr_of_slice bs of
          None \<Rightarrow> Inl (MalformedKey i (Inl (length bs)))
        | Some raw \<Rightarrow> map_sum (\<lambda>e. MalformedKey i (Inr e)) id (decode_public_key (d_mldsa D) raw))
       (\<lambda>ms. map_sum Inr id (ml_committee_new (d_env D) (d_mldsa D) ms THRESHOLD))
       (ml_committee_to_bytes (d_env D) (d_mldsa D))"

section \<open>Keys by index\<close>

lemma wait_keys_Inr:
  "wait_keys decode io is = Inr pks \<longleftrightarrow>
     length pks = length is \<and> (\<forall>j < length is. \<exists>bs. wait_for_key io (is ! j) = Inr bs \<and> decode (is ! j) bs = Inr (pks ! j))"
proof (induction "is" arbitrary: pks)
  case (Cons i "is")
  show ?case
  proof (cases pks)
    case Nil
    then show ?thesis by (auto split: option.splits sum.splits)
  next
    case p: (Cons pk rest)
    have "wait_keys decode io (i # is) = Inr pks \<longleftrightarrow>
        (\<exists>bs. wait_for_key io i = Inr bs \<and> decode i bs = Inr pk) \<and> wait_keys decode io is = Inr rest"
      using p by (auto split: option.splits sum.splits)
    also have "\<dots> \<longleftrightarrow> length pks = length (i # is)
        \<and> (\<forall>j < length (i # is). \<exists>bs. wait_for_key io ((i # is) ! j) = Inr bs \<and> decode ((i # is) ! j) bs = Inr (pks ! j))"
      using Cons.IH [of rest] p by (auto simp: All_less_Suc2)
    finally show ?thesis .
  qed
qed auto

lemma bootstrap_with_Inr:
  assumes "bootstrap_with decode assemble to_bytes io cdir sdir meanwhile vol = (Inr c, vol')"
  shows "\<exists>ms. assemble ms = Inr c \<and> wait_keys decode io [0..<DEMO_N_MEMBERS] = Inr ms
    \<and> files vol' (cdir @ [ANCHOR]) = Some (to_bytes c) \<and> stable vol' (cdir @ [ANCHOR]) = Some (to_bytes c)"
  using assms replace_file_ok [of "bt_publish_anchor io" "cdir @ [ANCHOR]" "to_bytes c" _ vol']
  by (auto simp: bootstrap_with_def write_atomic_def split: prod.splits sum.splits)

lemma bootstrap_members:
  assumes "bootstrap E io cdir sdir meanwhile vol = (Inr c, vol')"
  shows "demo_anchor E c \<and> genesis_slot c = SLOT \<and> stable vol' (cdir @ [ANCHOR]) = Some (committee_to_bytes (e_anchor E) c)
    \<and> files vol' (cdir @ [ANCHOR]) = Some (committee_to_bytes (e_anchor E) c)"
    and "i < DEMO_N_MEMBERS \<Longrightarrow> wait_for_key io i = Inr bs \<Longrightarrow> from_ssz_bytes (key_ssz (e_anchor E)) bs = Inr (members c ! i)"
proof -
  obtain ms where m: "committee_new (sha3_256 (e_hashes E)) (e_anchor E) ms THRESHOLD SLOT = Inr c"
    and w: "wait_keys (bootstrap_key E) io [0..<DEMO_N_MEMBERS] = Inr ms"
    and f: "files vol' (cdir @ [ANCHOR]) = Some (committee_to_bytes (e_anchor E) c)"
      "stable vol' (cdir @ [ANCHOR]) = Some (committee_to_bytes (e_anchor E) c)"
    using bootstrap_with_Inr [OF assms [unfolded bootstrap_def]] by (auto simp: map_sum_eq_Inr)
  have c: "members c = ms" "threshold c = THRESHOLD" "genesis_slot c = SLOT" "wf_committee (sha3_256 (e_hashes E)) (e_anchor E) c"
    using committee_new_wf [OF m] by blast+
  have "length ms = DEMO_N_MEMBERS" using w by (simp add: wait_keys_Inr)
  then show "demo_anchor E c \<and> genesis_slot c = SLOT \<and> stable vol' (cdir @ [ANCHOR]) = Some (committee_to_bytes (e_anchor E) c)
    \<and> files vol' (cdir @ [ANCHOR]) = Some (committee_to_bytes (e_anchor E) c)"
    using c f by (simp add: demo_anchor_def)
  assume "i < DEMO_N_MEMBERS" "wait_for_key io i = Inr bs"
  then show "from_ssz_bytes (key_ssz (e_anchor E)) bs = Inr (members c ! i)"
    using w c(1) by (auto simp: wait_keys_Inr map_sum_eq_Inr bootstrap_key_def)
qed

lemma resumed_run_keeps_volume:
  assumes "bt_read io = ReadClean" and "files vol (cdir @ [RUN_ID]) = Some (b # bs)"
  shows "publish_run_id io cdir sdir vol = (Inr (b # bs), vol)"
  using assms by (simp add: publish_run_id_def Let_def)

lemma new_run_clears_record:
  assumes "publish_run_id io cdir sdir vol = (Inr run_id, vol')" and "files vol (cdir @ [RUN_ID]) = None" and "cdir \<noteq> sdir"
    and "bt_lists io sdir" and "bt_removes io (sdir @ [CURRENT_RECORD])"
  shows "published_record ReadClean sdir vol' = None"
proof -
  let ?q = "sdir @ [CURRENT_RECORD]" and ?p = "cdir @ [RUN_ID]"
  have "?q \<noteq> ?p" "?q \<noteq> sibling ?p ''tmp''" using assms(3) by (auto simp: sibling_def)
  then have "files (snd (replace_file f ?p b s)) ?q = files s ?q" for f b s
    by (cases f) (auto simp: replace_file_def Let_def)
  then have "files vol' ?q = files (reset io [cdir, sdir] vol) ?q"
    using assms(1,2) by (auto simp: publish_run_id_def write_atomic_def Let_def split: if_splits prod.splits sum.splits) (metis snd_conv)+
  then show ?thesis using assms(4,5) by (simp add: published_record_def reset_def List.member_iff)
qed

lemma bootstrapped_index:
  assumes "from_ssz_bytes (key_ssz (e_anchor E)) (as_ssz_bytes (key_ssz (e_anchor E)) pk) = Inr pk" and "bootstrap E io cdir sdir meanwhile vol = (Inr c, vol')" and "i < DEMO_N_MEMBERS"
    and "wait_for_key io i = Inr (as_ssz_bytes (key_ssz (e_anchor E)) pk)"
  shows "index_of c pk = Some i"
proof -
  have "members c ! i = pk"
    using bootstrap_members(2) [OF assms(2-4)] assms(1) by simp
  moreover have "distinct (members c)" "length (members c) = DEMO_N_MEMBERS"
    using bootstrap_members(1) [OF assms(2)] wf_committee_distinct by (auto simp: demo_anchor_def)
  ultimately show ?thesis using position_nth [of "members c" i] assms(3) by (simp add: index_of_def)
qed

section \<open>Properties\<close>

text \<open>
  C15. The bootstrap step and the members fit together: if the step publishes an anchor after reading
  member \<open>i\<close>'s key file, then that anchor is a seven-of-ten committee that names the key at index \<open>i\<close>
  however late it arrived, and a start of member \<open>i\<close> that derives the same key, and whose counter
  opens, passes every check and runs under exactly that anchor.
\<close>

theorem bootstrapped_member_starts:
  assumes "from_ssz_bytes (key_ssz (e_anchor E)) (as_ssz_bytes (key_ssz (e_anchor E)) pk) = Inr pk"
    and "ssz_roundtrip (wire_ssz (e_anchor E))" and "committee_wire_size (wire_ssz (e_anchor E))"
    and "bootstrap E io cdir sdir meanwhile vol = (Inr c, vol')" and "i < DEMO_N_MEMBERS"
    and "wait_for_key io i = Inr (as_ssz_bytes (key_ssz (e_anchor E)) pk)"
    and "si_own_ip sio = MEMBER_IPS ! i" and "wait_for (si_run_id sio) BOOTSTRAP_WAIT = Inr run_id"
    and "e_key_gen E (member_seed (sha3_256 (e_hashes E)) (si_secret sio) run_id i) SLOT (SLOT + KEY_SLOTS) = Inr (sk, pk)"
    and "path_exists (si_key_meta sio) (member_key_file cdir i) vol2"
    and "start_counter (sha3_256 (e_hashes E)) (key_ssz (e_anchor E)) sio (state_dir @ [''slot-counter'']) pk s = (Inr k, s')"
    and "files vol' (cdir @ [ANCHOR]) = Some anchor" and "wait_for (si_anchor sio) BOOTSTRAP_WAIT = Inr anchor"
  shows "\<exists>mb. start_member E sio cdir state_dir m i vol2 s = (Inr mb, vol2, s')
    \<and> mb_index mb = i \<and> mb_committee mb = c \<and> demo_anchor E c \<and> genesis_slot c = SLOT"
proof -
  note b = bootstrap_members(1) [OF assms(4)]
  have "committee_from_bytes (sha3_256 (e_hashes E)) (e_anchor E) (committee_to_bytes (e_anchor E) c) = Inr c"
    using committee_roundtrip [OF assms(2,3)] b by (simp add: demo_anchor_def)
  moreover have "wait_for (si_anchor sio) BOOTSTRAP_WAIT = Inr (committee_to_bytes (e_anchor E) c)"
    using assms(12,13) b by simp
  ultimately show ?thesis
    using assms(5,7-11) b bootstrapped_index [OF assms(1,4-6)] by (simp add: start_member_def Let_def)
qed

text \<open>Member 4 of the example committee, in an environment whose key generation yields its key.\<close>

definition four_demo :: "(bool list, 32 barr, 32 barr, plain_sig, unit, unit, u32 \<times> 32 barr \<times> 32 barr list) demo_env" where
  "four_demo = (plain_demo (one_record_wire last_record))\<lparr>e_key_gen := (\<lambda>_ _ _. Inr (numbered_key 4, numbered_key 4))\<rparr>"

definition ten_keys_io :: bootstrap_io where
  "ten_keys_io = \<lparr>bt_read = ReadClean, bt_random = numbered_key 77, bt_lists = (\<lambda>_. True), bt_removes = (\<lambda>_. True),
     bt_publish_id = ReplaceClean, bt_clock = 0, bt_clocks = (\<lambda>_. 0),
     bt_keys = (\<lambda>i. \<lparr>wt_start = 0, wt_reads = (\<lambda>n. if n = 0 then None else Some (bytes_of (numbered_key i))), wt_takes = (\<lambda>_. 5), wt_oversleeps = (\<lambda>_. 7)\<rparr>),
     bt_publish_anchor = ReplaceClean\<rparr>"

text \<open>A file that the first read finds, and a key that the second read finds.\<close>

definition present_file :: "bytes \<Rightarrow> watch" where
  "present_file bs = \<lparr>wt_start = 0, wt_reads = (\<lambda>_. Some bs), wt_takes = (\<lambda>_. 0), wt_oversleeps = (\<lambda>_. 0)\<rparr>"

lemma wait_for_present: "bs \<noteq> [] \<Longrightarrow> wait_for (present_file bs) timeout = Inr bs"
  by (subst wait_for_def, subst wait_loop.simps) (auto simp: present_file_def split: list.splits)

lemma wait_for_ten_keys: "wait_for_key ten_keys_io i = Inr (bytes_of (numbered_key i))"
proof -
  obtain b bs where k: "bytes_of (numbered_key i) = b # bs"
    by (cases "bytes_of (numbered_key i)") (auto dest: arg_cong [of "bytes_of (numbered_key i)" "[]" length])
  show ?thesis unfolding wait_for_key_def wait_for_def Let_def
    by (subst wait_loop.simps, subst wait_loop.simps) (simp add: ten_keys_io_def k KEY_WAIT_def from_secs_def)
qed

lemma ten_bootstrap: "\<exists>vol'. bootstrap four_demo ten_keys_io [''committee''] [''storage''] id no_files = (Inr ten_committee, vol')"
proof -
  have anchor: "e_anchor four_demo = reference_codecs" "sha3_256 (e_hashes four_demo) = fold_hash"
    by (simp_all add: four_demo_def plain_demo_def)
  have "wait_keys (bootstrap_key four_demo) ten_keys_io [0..<DEMO_N_MEMBERS] = Inr ten_members"
    by (auto simp: wait_keys_Inr wait_for_ten_keys bootstrap_key_def anchor reference_codecs_def array_ssz_def
        DEMO_N_MEMBERS_def ten_members_nth)
  moreover have "fst (publish_run_id ten_keys_io [''committee''] [''storage''] no_files) = Inr (bytes_of (numbered_key 77))"
    by (simp add: publish_run_id_def ten_keys_io_def write_atomic_def replace_file_def no_files_def Let_def)
  then obtain vol1 where "publish_run_id ten_keys_io [''committee''] [''storage''] no_files = (Inr (bytes_of (numbered_key 77)), vol1)"
    by (metis fst_conv surj_pair)
  ultimately show ?thesis
    using ten_committee_new
    by (simp add: bootstrap_def bootstrap_with_def anchor THRESHOLD_def) (simp add: ten_keys_io_def write_atomic_def replace_file_def Let_def)
qed

lemma start_counter_fresh:
  assumes "si_lock sio = LockClean" and "si_replace sio = ReplaceClean"
  shows "\<exists>k s'. start_counter sha3 K sio [''state'', ''slot-counter''] pk no_files = (Inr k, s')"
  using assms
  by (simp add: start_counter_def path_exists_def counter_create_def acquire_lock_def try_lock_sibling_def no_files_def sibling_def Let_def)
    (simp add: install_journal_def replace_file_def Let_def)

theorem bootstrapped_member_starts_witness:
  "\<exists>sio vol2 s' mb. start_member four_demo sio [''committee''] [''state''] Raw 4 vol2 no_files = (Inr mb, vol2, s')
     \<and> mb_index mb = 4 \<and> mb_committee mb = ten_committee"
proof -
  obtain vol' where b: "bootstrap four_demo ten_keys_io [''committee''] [''storage''] id no_files = (Inr ten_committee, vol')"
    using ten_bootstrap by blast
  let ?sio = "\<lparr>si_own_ip = MEMBER_IPS ! 4, si_secret = ''s'', si_run_id = present_file [1], si_key_meta = ReadClean, si_key_publish = ReplaceClean,
     si_state_meta = ReadClean, si_lock = LockClean, si_create_meta = ReadClean, si_read = ReadClean, si_replace = ReplaceClean,
     si_anchor = present_file (committee_to_bytes (e_anchor four_demo) ten_committee)\<rparr>"
  let ?vol2 = "no_files\<lparr>files := [member_key_file [''committee''] 4 \<mapsto> [0]]\<rparr>"
  have E: "e_anchor four_demo = reference_codecs" "key_ssz reference_codecs = array_ssz" "sha3_256 (e_hashes four_demo) = fold_hash"
    by (simp_all add: four_demo_def plain_demo_def reference_codecs_def)
  have laws: "from_ssz_bytes (key_ssz (e_anchor four_demo)) (as_ssz_bytes (key_ssz (e_anchor four_demo)) (numbered_key 4)) = Inr (numbered_key 4)"
    "ssz_roundtrip (wire_ssz (e_anchor four_demo))"
    "committee_wire_size (wire_ssz (e_anchor four_demo))"
    using reference_laws by (simp_all add: E) (simp_all add: array_ssz_def reference_codecs_def)
  have four: "(4 :: usize) < DEMO_N_MEMBERS" by (simp add: DEMO_N_MEMBERS_def)
  have key: "wait_for_key ten_keys_io 4 = Inr (as_ssz_bytes (key_ssz (e_anchor four_demo)) (numbered_key 4))"
    by (simp add: wait_for_ten_keys E array_ssz_def)
  have gen: "e_key_gen four_demo (member_seed (sha3_256 (e_hashes four_demo)) (si_secret ?sio) [1] 4) SLOT (SLOT + KEY_SLOTS)
      = Inr (numbered_key 4, numbered_key 4)"
    by (simp add: four_demo_def)
  obtain k s' where counter: "start_counter (sha3_256 (e_hashes four_demo)) (key_ssz (e_anchor four_demo)) ?sio ([''state''] @ [''slot-counter''])
      (numbered_key 4) no_files = (Inr k, s')"
    using start_counter_fresh [of ?sio "sha3_256 (e_hashes four_demo)" "key_ssz (e_anchor four_demo)" "numbered_key 4"] by auto
  have "4 \<le> length (committee_to_bytes (e_anchor four_demo) ten_committee)"
    by (simp add: E committee_to_bytes_def reference_codecs_def reference_wire_def)
  then have "committee_to_bytes (e_anchor four_demo) ten_committee \<noteq> []" by auto
  then have anchor: "files vol' ([''committee''] @ [ANCHOR]) = Some (committee_to_bytes (e_anchor four_demo) ten_committee)"
    "wait_for (si_anchor ?sio) BOOTSTRAP_WAIT = Inr (committee_to_bytes (e_anchor four_demo) ten_committee)"
    using bootstrap_members(1) [OF b] by (simp_all add: wait_for_present)
  have rest: "si_own_ip ?sio = MEMBER_IPS ! 4" "wait_for (si_run_id ?sio) BOOTSTRAP_WAIT = Inr [1]"
    "path_exists (si_key_meta ?sio) (member_key_file [''committee''] 4) ?vol2" by (simp_all add: wait_for_present)
  show ?thesis using bootstrapped_member_starts [OF laws b four key rest(1,2) gen rest(3) counter anchor, of Raw] by blast
qed

end
