(* ===== verification/Prover_Check.thy ===== *)
theory Prover_Check
  imports Params Raw_Verifier Snark_Path "HOL-Library.Multiset" "HOL-Library.List_Lexorder" "HOL-Library.Char_ord"
begin

text \<open>
  The acceptance check of a measured prover run (src/bin/check_prover_output.rs). The check reads a
  directory, and a fixture directory if one is given, and collects failures; a run counts only
  when there is none. Failures are named rather than rendered.

  The lemmas show that the exit status is exact: it is a success exactly when the directory holds the
  honest set and every record in it passes the SNARK predicate and agrees with the reference.
\<close>

section \<open>What the check reads\<close>

text \<open>Listing a directory may fail as a whole or for an entry; reading a file may fail.\<close>

record directory =
  dir_entries :: "(string, (string, string) result list) result"
  dir_read :: "string \<Rightarrow> (string, bytes) result"

datatype check_failure =
    CannotListOutput string
  | CannotReadOutput string
  | Missing string
  | Unexpected string
  | CannotReadFile string string
  | AnchorDiffers
  | CannotReadFixtureAnchor string
  | MalformedAnchor committee_error
  | DoesNotDecode string status_list_error
  | WrongVersion string u32
  | DiffersFromFixture string
  | SignersDiffer string
  | BadFixtureRecord string "string + status_list_error"
  | NotOneMoreEntry string
  | RejectedByPredicate string
  | CanonicalNotLast
  | LastUnavailable
  | TooFewValid usize

text \<open>The libraries the check links.\<close>

record ('b, 'pk, 'sk, 'sig, 'rng, 'sph, 'agg) check_env =
  k_hashes :: hashes
  k_bits :: "'b bitlist"
  k_raw_ssz :: "('b, 'sig) raw_wire ssz"
  k_snark_ssz :: "snark_wire ssz"
  k_anchor :: "'pk anchor_codecs"
  k_leanvm :: "('pk, 'sig, 'sph, 'agg) leanvm"

definition two_digits :: "nat \<Rightarrow> string" where
  "two_digits i = (if i < 10 then ''0'' @ show_nat i else show_nat i)"

definition update_name :: "nat \<Rightarrow> string" where
  "update_name i = ''update-'' @ two_digits i @ ''.bin''"

definition expected_names :: "string list" where
  "expected_names = [''anchor.bin'', ''canonical.bin''] @ map update_name [0..<N_UPDATES]"

definition starts_with :: "'a list \<Rightarrow> 'a list \<Rightarrow> bool" where
  "starts_with xs p \<longleftrightarrow> take (length p) xs = p"

section \<open>One update\<close>

definition decode_update ::
  "('b, 'pk, 'sk, 'sig, 'rng, 'sph, 'agg) check_env \<Rightarrow> bytes \<Rightarrow> (status_list_error, 'agg decoded_snark) result" where
  "decode_update K bs = (case snark_from_bytes (k_snark_ssz K) bs of Inl e \<Rightarrow> Inl e | Inr r \<Rightarrow> snark_decode (k_leanvm K) r)"

text \<open>
  Against a fixture: the fields, and the proven signer set against the fixture's bitmap. Both sides
  are sorted before they are compared, so they are compared as multisets.
\<close>

definition fixture_failures ::
  "('b, 'pk, 'sk, 'sig, 'rng, 'sph, 'agg) check_env \<Rightarrow> 'pk list \<Rightarrow> directory \<Rightarrow> nat \<Rightarrow> 'agg decoded_snark \<Rightarrow> check_failure list" where
  "fixture_failures K ms fixture i d =
     (let name = update_name i; raw_name = ''raw-'' @ update_name i; r = ds_record d
      in case (case dir_read fixture raw_name of
                 Inl e \<Rightarrow> Inl (Inl e)
               | Inr bs \<Rightarrow> map_sum Inr id (status_list_from_bytes (k_bits K) (k_raw_ssz K) bs)) of
           Inl e \<Rightarrow> [BadFixtureRecord raw_name e]
         | Inr raw \<Rightarrow>
             (if sl_alg raw \<noteq> ss_alg r \<or> sl_version raw \<noteq> ss_version r \<or> sl_status_list raw \<noteq> ss_status_list r
              then [DiffersFromFixture name] else [])
             @ (let wanted = map (\<lambda>j. if j < length ms then Some (ms ! j) else None) (signer_indices (k_bits K) raw);
                    proven = (case agg_xmss_signers (k_leanvm K) (ds_aggregate d) of [(_, _, keys)] \<Rightarrow> map Some keys | _ \<Rightarrow> [])
                in if mset wanted \<noteq> mset proven then [SignersDiffer name] else []))"

definition growth_failures :: "32 barr list option \<Rightarrow> nat \<Rightarrow> snark_status_list \<Rightarrow> check_failure list" where
  "growth_failures previous i r =
     (if length (ss_status_list r) = i + 1
         \<and> (case previous of None \<Rightarrow> True | Some p \<Rightarrow> starts_with (ss_status_list r) p)
      then [] else [NotOneMoreEntry (update_name i)])"

record check_state =
  ck_failures :: "check_failure list"
  ck_valid :: usize
  ck_previous :: "32 barr list option"
  ck_last :: "bytes option"

definition check_update ::
  "('b, 'pk, 'sk, 'sig, 'rng, 'sph, 'agg) check_env \<Rightarrow> 'pk committee \<Rightarrow> directory \<Rightarrow> directory option \<Rightarrow> nat \<Rightarrow> check_state \<Rightarrow> check_state" where
  "check_update K c outdir fixture i st =
     (let name = update_name i
      in case dir_read outdir name of
           Inl e \<Rightarrow> st\<lparr>ck_failures := ck_failures st @ [CannotReadFile name e], ck_previous := None, ck_last := None\<rparr>
         | Inr bs \<Rightarrow>
             (case decode_update K bs of
                Inl e \<Rightarrow> st\<lparr>ck_failures := ck_failures st @ [DoesNotDecode name e], ck_previous := None, ck_last := None\<rparr>
              | Inr d \<Rightarrow>
                  let r = ds_record d;
                      added = (if ss_version r \<noteq> word_of_nat i then [WrongVersion name (ss_version r)] else [])
                        @ (case fixture of Some f \<Rightarrow> fixture_failures K (members c) f i d | None \<Rightarrow> growth_failures (ck_previous st) i r)
                        @ (if \<not> verify_decoded (k_leanvm K) (blake2s_256 (k_hashes K)) \<lparr>sv_committee = c, sv_last_version = 0\<rparr> d
                           then [RejectedByPredicate name] else [])
                  in \<lparr>ck_failures = ck_failures st @ added,
                      ck_valid = (if added = [] then ck_valid st + 1 else ck_valid st),
                      ck_previous = (case fixture of Some f \<Rightarrow> ck_previous st | None \<Rightarrow> Some (ss_status_list r)),
                      ck_last = Some bs\<rparr>))"

section \<open>The whole directory\<close>

fun listed_names :: "(string, string) result list \<Rightarrow> string list \<times> check_failure list" where
  "listed_names [] = ([], [])"
| "listed_names (entry # es) =
     (case (entry, listed_names es) of
        (Inr n, ns, fs) \<Rightarrow> (n # ns, fs)
      | (Inl e, ns, fs) \<Rightarrow> (ns, CannotListOutput e # fs))"

definition name_failures :: "bool \<Rightarrow> string list \<Rightarrow> check_failure list" where
  "name_failures with_fixture present =
     map Missing (filter (\<lambda>n. \<not> List.member present n) expected_names)
     @ map Unexpected (filter (\<lambda>n. \<not> List.member expected_names n \<and> \<not> (\<not> with_fixture \<and> starts_with n ''attack-''))
         (sort (remdups present)))"

definition canonical_failures :: "directory \<Rightarrow> bytes option \<Rightarrow> check_failure list" where
  "canonical_failures outdir last_update =
     (case (dir_read outdir ''canonical.bin'', last_update) of
        (Inr canonical, Some l) \<Rightarrow> if canonical = l then [] else [CanonicalNotLast]
      | (Inl e, _) \<Rightarrow> [CannotReadFile ''canonical.bin'' e]
      | (Inr _, None) \<Rightarrow> [LastUnavailable])"

text \<open>The anchor against the fixture's, which ends the check when that cannot be read.\<close>

definition anchor_failures :: "directory option \<Rightarrow> bytes \<Rightarrow> (check_failure, check_failure list) result" where
  "anchor_failures fixture anchor =
     (case fixture of
        None \<Rightarrow> Inr []
      | Some f \<Rightarrow>
          (case dir_read f ''anchor.bin'' of
             Inl e \<Rightarrow> Inl (CannotReadFixtureAnchor e)
           | Inr reference \<Rightarrow> Inr (if reference = anchor then [] else [AnchorDiffers])))"

text \<open>How many updates are valid, and the failures.\<close>

definition check_output ::
  "('b, 'pk, 'sk, 'sig, 'rng, 'sph, 'agg) check_env \<Rightarrow> directory \<Rightarrow> directory option \<Rightarrow> usize \<times> check_failure list" where
  "check_output K outdir fixture =
     (case dir_entries outdir of
        Inl e \<Rightarrow> (0, [CannotReadOutput e])
      | Inr entries \<Rightarrow>
          let (present, unlisted) = listed_names entries;
              fs1 = unlisted @ name_failures (fixture \<noteq> None) present
          in case dir_read outdir ''anchor.bin'' of
               Inl e \<Rightarrow> (0, fs1 @ [CannotReadFile ''anchor.bin'' e])
             | Inr anchor \<Rightarrow>
                 (case anchor_failures fixture anchor of
                    Inl e \<Rightarrow> (0, fs1 @ [e])
                  | Inr fs2 \<Rightarrow>
                      (case committee_from_bytes (sha3_256 (k_hashes K)) (k_anchor K) anchor of
                         Inl e \<Rightarrow> (0, fs1 @ fs2 @ [MalformedAnchor e])
                       | Inr c \<Rightarrow>
                           let st = fold (check_update K c outdir fixture) [0..<N_UPDATES]
                                      \<lparr>ck_failures = fs1 @ fs2, ck_valid = 0, ck_previous = None, ck_last = None\<rparr>;
                               valid = ck_valid st
                           in (valid, ck_failures st @ canonical_failures outdir (ck_last st)
                                 @ (if valid \<noteq> N_UPDATES then [TooFewValid valid] else [])))))"

definition report_exit :: "usize \<times> check_failure list \<Rightarrow> nat" where
  "report_exit r = (if snd r = [] \<and> fst r = N_UPDATES then 0 else 1)"

definition check_prover_output ::
  "('b, 'pk, 'sk, 'sig, 'rng, 'sph, 'agg) check_env \<Rightarrow> directory list \<Rightarrow> nat" where
  "check_prover_output K args =
     (case args of
        [outdir] \<Rightarrow> report_exit (check_output K outdir None)
      | [outdir, fixture] \<Rightarrow> report_exit (check_output K outdir (Some fixture))
      | _ \<Rightarrow> 2)"

section \<open>What a successful check means\<close>

text \<open>The record of update \<open>i\<close>, if it can be read and decoded.\<close>

definition update_at ::
  "('b, 'pk, 'sk, 'sig, 'rng, 'sph, 'agg) check_env \<Rightarrow> directory \<Rightarrow> nat \<Rightarrow> 'agg decoded_snark option" where
  "update_at K outdir i = (case dir_read outdir (update_name i) of Inl e \<Rightarrow> None | Inr bs \<Rightarrow> ok (decode_update K bs))"

text \<open>The reference of an update: the fixture's raw record, or the update before it.\<close>

definition matches_fixture ::
  "('b, 'pk, 'sk, 'sig, 'rng, 'sph, 'agg) check_env \<Rightarrow> 'pk committee \<Rightarrow> directory \<Rightarrow> nat \<Rightarrow> 'agg decoded_snark \<Rightarrow> bool" where
  "matches_fixture K c fixture i d \<longleftrightarrow>
     (\<exists>bs raw slot message keys. dir_read fixture (''raw-'' @ update_name i) = Inr bs
        \<and> status_list_from_bytes (k_bits K) (k_raw_ssz K) bs = Inr raw
        \<and> sl_alg raw = ss_alg (ds_record d) \<and> sl_version raw = ss_version (ds_record d) \<and> sl_status_list raw = ss_status_list (ds_record d)
        \<and> agg_xmss_signers (k_leanvm K) (ds_aggregate d) = [(slot, message, keys)]
        \<and> mset (map (\<lambda>j. if j < length (members c) then Some (members c ! j) else None) (signer_indices (k_bits K) raw)) = mset (map Some keys))"

definition grows_by_one ::
  "('b, 'pk, 'sk, 'sig, 'rng, 'sph, 'agg) check_env \<Rightarrow> directory \<Rightarrow> nat \<Rightarrow> 'agg decoded_snark \<Rightarrow> bool" where
  "grows_by_one K outdir i d \<longleftrightarrow> length (ss_status_list (ds_record d)) = i + 1
     \<and> (i = 0 \<or> (\<exists>p. update_at K outdir (i - 1) = Some p \<and> starts_with (ss_status_list (ds_record d)) (ss_status_list (ds_record p))))"

definition update_ok ::
  "('b, 'pk, 'sk, 'sig, 'rng, 'sph, 'agg) check_env \<Rightarrow> 'pk committee \<Rightarrow> directory \<Rightarrow> directory option \<Rightarrow> nat \<Rightarrow> bool" where
  "update_ok K c outdir fixture i \<longleftrightarrow>
     (\<exists>d. update_at K outdir i = Some d \<and> ss_version (ds_record d) = word_of_nat i
        \<and> snark_verify (k_leanvm K) (blake2s_256 (k_hashes K)) \<lparr>sv_committee = c, sv_last_version = 0\<rparr> (ds_record d)
        \<and> (case fixture of Some f \<Rightarrow> matches_fixture K c f i d | None \<Rightarrow> grows_by_one K outdir i d))"

definition honest_names :: "bool \<Rightarrow> (string, string) result list \<Rightarrow> bool" where
  "honest_names with_fixture entries \<longleftrightarrow>
     (\<exists>names. entries = map Inr names \<and> set expected_names \<subseteq> set names
        \<and> set (filter (\<lambda>n. with_fixture \<or> \<not> starts_with n ''attack-'') names) \<subseteq> set expected_names)"

lemma listed_names_ok: "listed_names (map Inr ns) = (ns, [])"
  by (induction ns) simp_all

lemma listed_names_iff: "snd (listed_names es) = [] \<longleftrightarrow> es = map Inr (fst (listed_names es))"
  by (induction es) (auto simp: Cons_eq_map_conv split: sum.splits prod.splits)

lemma name_failures_iff:
  "name_failures fx ns = [] \<longleftrightarrow> set expected_names \<subseteq> set ns
     \<and> set (filter (\<lambda>n. fx \<or> \<not> starts_with n ''attack-'') ns) \<subseteq> set expected_names"
  by (auto simp: name_failures_def filter_empty_conv List.member_iff)

lemma honest_names_iff:
  "honest_names fx entries \<longleftrightarrow>
     snd (listed_names entries) = [] \<and> name_failures fx (fst (listed_names entries)) = []"
  unfolding honest_names_def name_failures_iff listed_names_iff using listed_names_ok by (metis fst_conv)

lemma decode_update_verify:
  assumes "decode_update K bs = Inr d"
  shows "verify_decoded (k_leanvm K) blake sv d = snark_verify (k_leanvm K) blake sv (ds_record d)"
  using assms by (auto simp: decode_update_def snark_decode_def verify_decoded_def snark_verify_def split: sum.splits)

lemma fixture_failures_iff:
  assumes "snark_check (k_leanvm K) blake sv (ds_record d) (ds_aggregate d)"
  shows "fixture_failures K (members c) f i d = [] \<longleftrightarrow> matches_fixture K c f i d"
proof -
  obtain slot m keys where "agg_xmss_signers (k_leanvm K) (ds_aggregate d) = [(slot, m, keys)]"
    using assms by (auto simp: snark_check_iff)
  then show ?thesis
    by (auto simp: fixture_failures_def matches_fixture_def Let_def map_sum_eq_Inr split: sum.splits)
qed

text \<open>One update adds no failure exactly when it is as it should be, given the list before it.\<close>

lemma check_update_effect:
  assumes prev: "fixture = None \<Longrightarrow> ck_previous st = (if i = 0 then None else map_option (\<lambda>d. ss_status_list (ds_record d)) (update_at K outdir (i - 1)))"
    and known: "i \<noteq> 0 \<Longrightarrow> update_at K outdir (i - 1) \<noteq> None"
  shows "\<exists>added. ck_failures (check_update K c outdir fixture i st) = ck_failures st @ added
    \<and> (added = [] \<longleftrightarrow> update_ok K c outdir fixture i)
    \<and> (added = [] \<longrightarrow> ck_valid (check_update K c outdir fixture i st) = ck_valid st + 1
         \<and> ck_last (check_update K c outdir fixture i st) = ok (dir_read outdir (update_name i))
         \<and> (fixture = None \<longrightarrow> ck_previous (check_update K c outdir fixture i st) = map_option (\<lambda>d. ss_status_list (ds_record d)) (update_at K outdir i)))"
proof (cases "update_at K outdir i")
  case None
  then show ?thesis
    by (auto simp: check_update_def update_at_def update_ok_def ok_def Let_def split: sum.splits)
next
  case (Some d)
  then obtain bs where bs: "dir_read outdir (update_name i) = Inr bs" "decode_update K bs = Inr d"
    by (auto simp: update_at_def ok_def split: sum.splits)
  let ?sv = "\<lparr>sv_committee = c, sv_last_version = 0\<rparr>" and ?b = "blake2s_256 (k_hashes K)"
  let ?refs = "case fixture of Some f \<Rightarrow> fixture_failures K (members c) f i d | None \<Rightarrow> growth_failures (ck_previous st) i (ds_record d)"
  let ?added = "(if ss_version (ds_record d) \<noteq> word_of_nat i then [WrongVersion (update_name i) (ss_version (ds_record d))] else [])
     @ ?refs @ (if \<not> verify_decoded (k_leanvm K) ?b ?sv d then [RejectedByPredicate (update_name i)] else [])"
  have refs: "?refs = [] \<longleftrightarrow> (case fixture of Some f \<Rightarrow> matches_fixture K c f i d | None \<Rightarrow> grows_by_one K outdir i d)"
    if "verify_decoded (k_leanvm K) ?b ?sv d"
  proof (cases fixture)
    case None
    then show ?thesis using prev known by (auto simp: growth_failures_def grows_by_one_def)
  next
    case (Some f)
    then show ?thesis using fixture_failures_iff that by (simp add: verify_decoded_def)
  qed
  have "?added = [] \<longleftrightarrow> update_ok K c outdir fixture i"
    using refs decode_update_verify [OF bs(2), of ?b ?sv] Some by (auto simp: update_ok_def)
  then show ?thesis
    using bs Some by (intro exI [of _ ?added]) (auto simp: check_update_def Let_def ok_def)
qed

lemma check_update_appends: "\<exists>added. ck_failures (check_update K c outdir fixture i st) = ck_failures st @ added"
  by (auto simp: check_update_def Let_def split: sum.splits)

lemma check_loop:
  assumes "ck_previous st = None"
  shows "\<exists>added. ck_failures (fold (check_update K c outdir fixture) [0..<n] st) = ck_failures st @ added
    \<and> (added = [] \<longleftrightarrow> list_all (update_ok K c outdir fixture) [0..<n])
    \<and> (added = [] \<longrightarrow> ck_valid (fold (check_update K c outdir fixture) [0..<n] st) = ck_valid st + n
         \<and> (n \<noteq> 0 \<longrightarrow> ck_last (fold (check_update K c outdir fixture) [0..<n] st) = ok (dir_read outdir (update_name (n - 1))))
         \<and> (fixture = None \<longrightarrow> ck_previous (fold (check_update K c outdir fixture) [0..<n] st) =
              (if n = 0 then None else map_option (\<lambda>d. ss_status_list (ds_record d)) (update_at K outdir (n - 1)))))"
proof (induction n)
  case 0
  then show ?case using assms by simp
next
  case (Suc n)
  let ?st = "fold (check_update K c outdir fixture) [0..<n] st"
  obtain added where ih: "ck_failures ?st = ck_failures st @ added" "added = [] \<longleftrightarrow> list_all (update_ok K c outdir fixture) [0..<n]"
    "added = [] \<Longrightarrow> ck_valid ?st = ck_valid st + n"
    "added = [] \<Longrightarrow> fixture = None \<Longrightarrow> ck_previous ?st = (if n = 0 then None else map_option (\<lambda>d. ss_status_list (ds_record d)) (update_at K outdir (n - 1)))"
    using Suc.IH by blast
  show ?case
  proof (cases "added = []")
    case False
    obtain more where "ck_failures (check_update K c outdir fixture n ?st) = ck_failures ?st @ more"
      using check_update_appends by blast
    then show ?thesis using ih(1,2) False by auto
  next
    case True
    then have "update_at K outdir (n - 1) \<noteq> None" if "n \<noteq> 0"
      using ih(2) that by (auto simp: list_all_iff update_ok_def)
    from check_update_effect [of fixture ?st n K outdir c, OF ih(4) [OF True] this]
    obtain more where "ck_failures (check_update K c outdir fixture n ?st) = ck_failures ?st @ more"
      "more = [] \<longleftrightarrow> update_ok K c outdir fixture n"
      "more = [] \<longrightarrow> ck_valid (check_update K c outdir fixture n ?st) = ck_valid ?st + 1
         \<and> ck_last (check_update K c outdir fixture n ?st) = ok (dir_read outdir (update_name n))
         \<and> (fixture = None \<longrightarrow> ck_previous (check_update K c outdir fixture n ?st) = map_option (\<lambda>d. ss_status_list (ds_record d)) (update_at K outdir n))"
      by auto
    then show ?thesis using ih True by auto
  qed
qed

lemma canonical_failures_iff:
  "canonical_failures outdir (ok (dir_read outdir n)) = [] \<longleftrightarrow>
     (\<exists>bs. dir_read outdir ''canonical.bin'' = Inr bs \<and> dir_read outdir n = Inr bs)"
  by (auto simp: canonical_failures_def ok_def split: sum.splits)

lemma anchor_failures_iff:
  "anchor_failures fixture anchor = Inr [] \<longleftrightarrow>
     (case fixture of None \<Rightarrow> True | Some f \<Rightarrow> dir_read f ''anchor.bin'' = Inr anchor)"
  by (auto simp: anchor_failures_def split: option.splits sum.splits)

lemma check_stops:
  assumes "\<not> (\<exists>entries anchor fs2 c. dir_entries outdir = Inr entries \<and> dir_read outdir ''anchor.bin'' = Inr anchor
    \<and> anchor_failures fixture anchor = Inr fs2 \<and> committee_from_bytes (sha3_256 (k_hashes K)) (k_anchor K) anchor = Inr c)"
  shows "report_exit (check_output K outdir fixture) \<noteq> 0"
  using assms by (auto simp: check_output_def report_exit_def Let_def case_prod_unfold split: sum.splits)

lemma check_runs:
  assumes "dir_entries outdir = Inr entries" and "dir_read outdir ''anchor.bin'' = Inr anchor"
    and "anchor_failures fixture anchor = Inr fs2" and "committee_from_bytes (sha3_256 (k_hashes K)) (k_anchor K) anchor = Inr c"
  shows "report_exit (check_output K outdir fixture) = 0 \<longleftrightarrow>
    honest_names (fixture \<noteq> None) entries \<and> fs2 = [] \<and> list_all (update_ok K c outdir fixture) [0..<N_UPDATES]
    \<and> (\<exists>bs. dir_read outdir ''canonical.bin'' = Inr bs \<and> dir_read outdir (update_name (N_UPDATES - 1)) = Inr bs)"
proof -
  let ?fs1 = "snd (listed_names entries) @ name_failures (fixture \<noteq> None) (fst (listed_names entries))"
  define st0 where "st0 = \<lparr>ck_failures = ?fs1 @ fs2, ck_valid = 0, ck_previous = None, ck_last = None\<rparr>"
  obtain st where st: "st = fold (check_update K c outdir fixture) [0..<N_UPDATES] st0" by blast
  have out: "check_output K outdir fixture = (ck_valid st, ck_failures st @ canonical_failures outdir (ck_last st)
      @ (if ck_valid st \<noteq> N_UPDATES then [TooFewValid (ck_valid st)] else []))"
    using assms by (simp add: check_output_def Let_def case_prod_unfold st0_def st)
  have n: "N_UPDATES \<noteq> 0" by (simp add: N_UPDATES_def)
  obtain added where a: "ck_failures st = ck_failures st0 @ added" "added = [] \<longleftrightarrow> list_all (update_ok K c outdir fixture) [0..<N_UPDATES]"
    "added = [] \<longrightarrow> ck_valid st = ck_valid st0 + N_UPDATES \<and> ck_last st = ok (dir_read outdir (update_name (N_UPDATES - 1)))"
    using check_loop [of st0 K c outdir fixture N_UPDATES] n unfolding st [symmetric] by (auto simp: st0_def)
  have "report_exit (check_output K outdir fixture) = 0 \<longleftrightarrow>
      ?fs1 = [] \<and> fs2 = [] \<and> added = [] \<and> canonical_failures outdir (ok (dir_read outdir (update_name (N_UPDATES - 1)))) = []"
    using a(1,3) by (cases "added = []") (simp_all add: out report_exit_def st0_def)
  then show ?thesis
    using a(2) canonical_failures_iff honest_names_iff [of "fixture \<noteq> None" entries] by auto
qed

section \<open>Properties\<close>

text \<open>
  C21. The acceptance check is exact: it exits with success if and only if the directory can be listed
  and holds the honest set and nothing else (forgeries apart when there is no fixture), its anchor
  decodes and is the fixture's byte for byte, each of the \<open>N_UPDATES\<close> updates reads, decodes, carries
  its own index as version, passes the SNARK predicate under that anchor and matches its reference,
  the fixture's record with its signer set or else the previous list plus one entry, and the canonical
  file is the last update.
\<close>

theorem acceptance_check_is_exact:
  "report_exit (check_output K outdir fixture) = 0 \<longleftrightarrow>
     (\<exists>entries anchor c bs. dir_entries outdir = Inr entries \<and> honest_names (fixture \<noteq> None) entries
        \<and> dir_read outdir ''anchor.bin'' = Inr anchor
        \<and> (case fixture of None \<Rightarrow> True | Some f \<Rightarrow> dir_read f ''anchor.bin'' = Inr anchor)
        \<and> committee_from_bytes (sha3_256 (k_hashes K)) (k_anchor K) anchor = Inr c
        \<and> list_all (update_ok K c outdir fixture) [0..<N_UPDATES]
        \<and> dir_read outdir ''canonical.bin'' = Inr bs \<and> dir_read outdir (update_name (N_UPDATES - 1)) = Inr bs)"
proof (cases "\<exists>entries anchor fs2 c. dir_entries outdir = Inr entries \<and> dir_read outdir ''anchor.bin'' = Inr anchor
    \<and> anchor_failures fixture anchor = Inr fs2 \<and> committee_from_bytes (sha3_256 (k_hashes K)) (k_anchor K) anchor = Inr c")
  case False
  then show ?thesis unfolding anchor_failures_iff [symmetric] using check_stops [OF False] by blast
next
  case True
  then obtain entries anchor fs2 c where runs: "dir_entries outdir = Inr entries" "dir_read outdir ''anchor.bin'' = Inr anchor"
    "anchor_failures fixture anchor = Inr fs2" "committee_from_bytes (sha3_256 (k_hashes K)) (k_anchor K) anchor = Inr c" by blast
  have fs2: "fs2 = [] \<longleftrightarrow> (case fixture of None \<Rightarrow> True | Some f \<Rightarrow> dir_read f ''anchor.bin'' = Inr anchor)"
    using runs(3) anchor_failures_iff [of fixture anchor] by simp
  show ?thesis unfolding check_runs [OF runs] using runs(1,2,4) fs2 by auto
qed

end
