(* ===== verification/Bench_Stats.thy ===== *)
theory Bench_Stats
  imports Complex_Main Rust_Text "HOL-Library.Multiset"
begin

text \<open>
  The rest of the measurement library: the statistics of a series (src/bench/stats.rs), the timed
  decode-then-verify every relying-party binary uses (src/bench/timing.rs) and the directory of the
  signer state (src/bench/state.rs).

  A floating-point number is a real number or \<open>NaN\<close>, the value \<open>None\<close>, which every arithmetic
  operation passes on; rounding and infinities are not modelled. The readings of the two clocks
  are inputs. The lemmas show that the statistics do not depend on the order of the samples and
  stay within their range, and that the timed call decides as the untimed one.
\<close>

section \<open>Floating-point numbers\<close>

type_synonym f64 = "real option"

definition f64_add :: "f64 \<Rightarrow> f64 \<Rightarrow> f64" where
  "f64_add a b = (case (a, b) of (Some x, Some y) \<Rightarrow> Some (x + y) | _ \<Rightarrow> None)"

definition f64_sum :: "f64 list \<Rightarrow> f64" where
  "f64_sum xs = fold f64_add xs (Some 0)"

section \<open>Series\<close>

text \<open>
  \<open>sort_by\<close> calls the comparison, which panics on a \<open>NaN\<close>, only when there are two samples to
  compare. The outer \<open>None\<close> of \<open>series_new\<close> is that panic.
\<close>

datatype series = Series "f64 list"

definition series_new :: "f64 list \<Rightarrow> series option" where
  "series_new samples =
     (if length samples < 2 then Some (Series samples)
      else if List.member samples None then None
      else Some (Series (map Some (sort (map the samples)))))"

fun series_len :: "series \<Rightarrow> usize" where
  "series_len (Series v) = length v"

fun series_is_empty :: "series \<Rightarrow> bool" where
  "series_is_empty (Series v) = (v = [])"

fun series_min :: "series \<Rightarrow> f64" where
  "series_min (Series v) = (case v of [] \<Rightarrow> Some 0 | x # _ \<Rightarrow> x)"

fun series_max :: "series \<Rightarrow> f64" where
  "series_max (Series v) = (if v = [] then Some 0 else last v)"

fun series_median :: "series \<Rightarrow> f64" where
  "series_median (Series v) =
     (let n = length v
      in if n = 0 then Some 0
         else if n mod 2 = 1 then v ! (n div 2)
         else map_option (\<lambda>s. s / 2) (f64_add (v ! (n div 2 - 1)) (v ! (n div 2))))"

fun series_sum :: "series \<Rightarrow> f64" where
  "series_sum (Series v) = f64_sum v"

fun series_mean :: "series \<Rightarrow> f64" where
  "series_mean (Series v) = (if v = [] then Some 0 else map_option (\<lambda>s. s / real (length v)) (f64_sum v))"

fun series_stddev :: "series \<Rightarrow> f64" where
  "series_stddev (Series v) =
     (let n = length v
      in if n < 2 then Some 0
         else let m = series_mean (Series v);
                  squares = map (\<lambda>x. case (x, m) of (Some a, Some b) \<Rightarrow> Some ((a - b) ^ 2) | _ \<Rightarrow> None) v
              in map_option (\<lambda>s. sqrt (s / real (n - 1))) (f64_sum squares))"

definition min_med_max :: "series \<Rightarrow> f64 \<times> f64 \<times> f64" where
  "min_med_max s = (series_min s, series_median s, series_max s)"

text \<open>The median of counts; \<open>None\<close> is the failed assertion that there is a sample.\<close>

definition median_usize :: "usize list \<Rightarrow> real option" where
  "median_usize samples =
     (if samples = [] then None
      else let sorted = sort samples; middle = length sorted div 2
           in if length sorted mod 2 = 1 then Some (real (sorted ! middle))
              else Some (real (sorted ! (middle - 1)) / 2 + real (sorted ! middle) / 2))"

section \<open>Timing\<close>

text \<open>
  The readings of one timed call: the monotonic clock at the start, when the decoder returns, when
  the predicate starts, when it returns, and when the total is read; and the CPU clock around
  them. Readings are nanoseconds; a difference saturates at zero as \<open>elapsed\<close> and
  \<open>saturating_sub\<close> do.
\<close>

record clock_readings =
  at_start :: nat
  at_decoded :: nat
  at_verify :: nat
  at_verified :: nat
  at_total :: nat
  cpu_before :: nat
  cpu_after :: nat

record ('e, 'r) decode_verify =
  dv_decoded :: "('e, 'r) result"
  dv_accepted :: bool
  dv_decode :: nat
  dv_verify :: nat
  dv_total :: nat
  dv_cpu :: nat

definition decode_then_verify ::
  "clock_readings \<Rightarrow> ('e, 'r) result \<Rightarrow> ('r \<Rightarrow> bool) \<Rightarrow> ('e, 'r) decode_verify" where
  "decode_then_verify t decode verify =
     \<lparr>dv_decoded = decode,
      dv_accepted = (case decode of Inr record \<Rightarrow> verify record | Inl _ \<Rightarrow> False),
      dv_decode = at_decoded t - at_start t,
      dv_verify = at_verified t - at_verify t,
      dv_total = at_total t - at_start t,
      dv_cpu = cpu_after t - cpu_before t\<rparr>"

definition monotone_clock :: "clock_readings \<Rightarrow> bool" where
  "monotone_clock t \<longleftrightarrow> sorted [at_start t, at_decoded t, at_verify t, at_verified t, at_total t]"

section \<open>Where signer state goes\<close>

definition SIGNER_STATE_DIR_ENV :: string where "SIGNER_STATE_DIR_ENV = ''DROT_SIGNER_STATE_DIR''"

definition resolve :: "string \<Rightarrow> string option \<Rightarrow> string" where
  "resolve temp_dir configured = (case configured of Some dir \<Rightarrow> if dir \<noteq> [] then dir else temp_dir | None \<Rightarrow> temp_dir)"

definition signer_state_dir :: "string \<Rightarrow> (string \<Rightarrow> string option) \<Rightarrow> string" where
  "signer_state_dir temp_dir env = resolve temp_dir (env SIGNER_STATE_DIR_ENV)"

section \<open>Lemmas\<close>

lemma f64_sum_Some: "f64_sum (map Some xs) = Some (sum_list xs)"
proof -
  have "fold f64_add (map Some xs) (Some a) = Some (a + sum_list xs)" for a
    by (induction xs arbitrary: a) (simp_all add: f64_add_def add.assoc)
  then show ?thesis by (simp add: f64_sum_def)
qed

lemma series_new_numbers: "series_new (map Some xs) = Some (Series (map Some (sort xs)))"
proof (cases "length xs < 2")
  case True
  then have "sort xs = xs" by (cases xs; cases "tl xs") auto
  then show ?thesis using True by (simp add: series_new_def)
qed (simp add: series_new_def List.member_iff comp_def)

text \<open>Every accessor in terms of the sorted numbers.\<close>

lemma series_numbers:
  assumes "xs \<noteq> []"
  shows "series_min (Series (map Some xs)) = Some (hd xs)"
    and "series_max (Series (map Some xs)) = Some (last xs)"
    and "series_mean (Series (map Some xs)) = Some (sum_list xs / real (length xs))"
    and "series_median (Series (map Some xs)) =
      Some (if odd (length xs) then xs ! (length xs div 2) else (xs ! (length xs div 2 - 1) + xs ! (length xs div 2)) / 2)"
proof -
  obtain n where n: "length xs = n" "n \<noteq> 0" using assms by auto
  have "n div 2 < n" "n div 2 - 1 < n" using n(2) by auto
  then show "series_median (Series (map Some xs)) =
      Some (if odd (length xs) then xs ! (length xs div 2) else (xs ! (length xs div 2 - 1) + xs ! (length xs div 2)) / 2)"
    using assms n by (simp add: Let_def f64_add_def odd_iff_mod_2_eq_one del: One_nat_def)
qed (use assms in \<open>auto simp: f64_sum_Some last_map split: list.splits\<close>)

lemma sorted_between:
  assumes "sorted xs" and "i < length xs"
  shows "hd xs \<le> xs ! i \<and> xs ! i \<le> last xs"
proof -
  have "xs \<noteq> []" using assms(2) by auto
  moreover from this have "xs ! 0 \<le> xs ! i" "xs ! i \<le> xs ! (length xs - 1)"
    using assms by (simp_all add: sorted_nth_mono)
  ultimately show ?thesis by (simp add: hd_conv_nth last_conv_nth)
qed

lemma sum_list_between:
  fixes xs :: "real list"
  assumes "\<forall>x \<in> set xs. a \<le> x \<and> x \<le> b"
  shows "real (length xs) * a \<le> sum_list xs \<and> sum_list xs \<le> real (length xs) * b"
  using assms by (induction xs) (auto simp: algebra_simps)

lemma stddev_numbers:
  assumes "2 \<le> length xs" and "m = sum_list xs / real (length xs)"
  shows "series_stddev (Series (map Some xs)) =
    Some (sqrt (sum_list (map (\<lambda>x. (x - m) ^ 2) xs) / real (length xs - 1)))"
proof -
  have "xs \<noteq> []" using assms(1) by auto
  then have "series_mean (Series (map Some xs)) = Some m" using series_numbers(3) assms(2) by simp
  moreover have "map (case_option None (\<lambda>a. Some ((a - m) ^ 2))) (map Some xs) = map Some (map (\<lambda>x. (x - m) ^ 2) xs)" by simp
  ultimately show ?thesis using assms(1)
    by (simp add: Let_def f64_sum_Some del: series_mean.simps map_map)
qed

lemma sort_map_real: "sort (map real xs) = map real (sort xs)"
proof (rule properties_for_sort)
  show "mset (map real (sort xs)) = mset (map real xs)" by simp
  have "sorted (sort xs)" by simp
  then show "sorted (map real (sort xs))" by (simp add: sorted_map)
qed

text \<open>The median of counts is the median of their series.\<close>

lemma median_usize_series:
  assumes "samples \<noteq> []"
  shows "\<exists>s. series_new (map (\<lambda>k. Some (real k)) samples) = Some s \<and> series_median s = median_usize samples"
proof -
  let ?zs = "sort samples"
  have ne: "map real ?zs \<noteq> []" using assms by (metis Nil_is_map_conv set_empty set_sort)
  obtain n where n: "length ?zs = n" "n \<noteq> 0" using assms by simp
  then have "n div 2 < n" "n div 2 - 1 < n" by auto
  then have "series_median (Series (map Some (map real ?zs))) = median_usize samples"
    unfolding series_numbers(4) [OF ne] using assms n
    by (simp add: median_usize_def Let_def odd_iff_mod_2_eq_one add_divide_distrib del: series_median.simps length_sort One_nat_def)
  moreover have "series_new (map Some (map real samples)) = Some (Series (map Some (map real ?zs)))"
    by (simp only: series_new_numbers sort_map_real)
  ultimately show ?thesis by (auto simp: comp_def)
qed

lemma decode_then_verify_accepts:
  "dv_accepted (decode_then_verify t decode verify) \<longleftrightarrow> (\<exists>r. decode = Inr r \<and> verify r)"
  "dv_decoded (decode_then_verify t decode verify) = decode"
  by (auto simp: decode_then_verify_def split: sum.splits)

section \<open>Properties\<close>

text \<open>
  The statistics say what they should: on any samples that are numbers a series is built, it
  does not depend on their order, and its median and mean lie between its minimum and maximum,
  which are the least and the greatest sample.
\<close>

theorem statistics_are_order_free_and_in_range:
  assumes "xs \<noteq> []" and "mset ys = mset xs"
  shows "\<exists>s lo med hi mean. series_new (map Some xs) = Some s \<and> series_new (map Some ys) = Some s
    \<and> min_med_max s = (Some lo, Some med, Some hi) \<and> series_mean s = Some mean
    \<and> lo = Min (set xs) \<and> hi = Max (set xs) \<and> lo \<le> med \<and> med \<le> hi \<and> lo \<le> mean \<and> mean \<le> hi"
proof -
  let ?zs = "sort xs"
  have ne: "?zs \<noteq> []" using assms(1) by (metis set_empty set_sort)
  have same: "sort ys = ?zs" using assms(2) by (intro properties_for_sort) simp_all
  have bound: "\<forall>x \<in> set ?zs. hd ?zs \<le> x \<and> x \<le> last ?zs"
    unfolding in_set_conv_nth Ball_def using sorted_between [OF sorted_sort, of _ xs] by blast
  have lo: "hd ?zs = Min (set xs)" using bound hd_in_set [OF ne] by (intro Min_eqI [symmetric]) simp_all
  have hi: "last ?zs = Max (set xs)" using bound last_in_set [OF ne] by (intro Max_eqI [symmetric]) simp_all
  let ?n = "length ?zs"
  let ?med = "if odd ?n then ?zs ! (?n div 2) else (?zs ! (?n div 2 - 1) + ?zs ! (?n div 2)) / 2"
  have "0 < ?n" using assms(1) by simp
  then have "?n div 2 < ?n" "?n div 2 - 1 < ?n" by linarith+
  then have med: "hd ?zs \<le> ?med \<and> ?med \<le> last ?zs"
    using sorted_between [of ?zs "?n div 2"] sorted_between [of ?zs "?n div 2 - 1"] by (auto simp del: length_sort)
  have "real ?n > 0" using assms(1) by simp
  then have mean: "hd ?zs \<le> sum_list ?zs / real ?n \<and> sum_list ?zs / real ?n \<le> last ?zs"
    using sum_list_between [OF bound] by (simp add: field_simps)
  show ?thesis
    using series_numbers [OF ne] series_new_numbers [of xs] series_new_numbers [of ys] same lo hi med mean
    by (intro exI [of _ "Series (map Some ?zs)"] exI [of _ "hd ?zs"] exI [of _ ?med] exI [of _ "last ?zs"]
        exI [of _ "sum_list ?zs / real ?n"]) (simp add: min_med_max_def)
qed

theorem statistics_are_order_free_and_in_range_witness:
  "\<exists>s mean. series_new [Some 4, Some 1, Some 3, Some 2] = Some s \<and> series_new [Some 1, Some 2, Some 3, Some 4] = Some s
     \<and> series_mean s = Some mean \<and> 1 \<le> mean \<and> mean \<le> (4 :: real)"
  using statistics_are_order_free_and_in_range [of "[4, 1, 3, 2]" "[1, 2, 3, 4]"] by auto

text \<open>
  The timed call decides as the untimed one, and under a monotone clock the two phases fit in the
  total.
\<close>

theorem timed_verification_is_verification:
  assumes "monotone_clock t"
  shows "dv_accepted (decode_then_verify t decode verify) = (case decode of Inl _ \<Rightarrow> False | Inr r \<Rightarrow> verify r)
    \<and> dv_decode (decode_then_verify t decode verify) + dv_verify (decode_then_verify t decode verify)
        \<le> dv_total (decode_then_verify t decode verify)"
  using assms by (auto simp: decode_then_verify_def monotone_clock_def split: sum.splits)

end
