(* ===== verification/Workload.thy ===== *)
theory Workload
  imports Rust_Text "HOL-Library.Multiset"
begin

text \<open>
  The benchmark workload (src/bench/workload.rs; the ML-DSA binaries have a copy of their own, see
  \<open>Mldsa_Bins\<close>): the size of the list, how one version's list becomes the next, the
  manifest and the range of sizes seen, and the choice of each version's quorum by a partial
  Fisher-Yates shuffle over SplitMix64.

  The lemmas show that the shuffle always yields a permutation, so a quorum is exactly \<open>t\<close> distinct
  indices below \<open>n\<close>, and that the list has the declared size at every version, changing one entry
  per version once it is filled.
\<close>

section \<open>The list\<close>

definition MAX_LIST_ENTRIES :: usize where "MAX_LIST_ENTRIES = 2 ^ 20"

text \<open>\<open>None\<close> is a panic of the process; an environment value is given as text.\<close>

definition list_entries_from_env :: "ustr option \<Rightarrow> usize option option" where
  "list_entries_from_env var =
     (case var of
        None \<Rightarrow> Some None
      | Some raw \<Rightarrow>
          if raw = [] then Some None
          else case parse_unsigned usize_max raw of
                 Inr entries \<Rightarrow> if 1 \<le> entries \<and> entries \<le> MAX_LIST_ENTRIES then Some (Some entries) else None
               | Inl e \<Rightarrow> None)"

text \<open>Fresh entries come from a stateful generator; \<open>draw\<close> calls it a number of times.\<close>

fun draw :: "('g \<Rightarrow> 'e \<times> 'g) \<Rightarrow> nat \<Rightarrow> 'g \<Rightarrow> 'e list \<times> 'g" where
  "draw fresh 0 g = ([], g)"
| "draw fresh (Suc k) g = (let (e, g1) = fresh g; (es, g2) = draw fresh k g1 in (e # es, g2))"

definition usize_wrapping_pred :: "usize \<Rightarrow> usize" where
  "usize_wrapping_pred v = (if v = 0 then usize_max else v - 1)"

text \<open>
  One step of the workload. A fixed length of zero on an empty list divides by zero, which is the
  panic \<open>None\<close>; \<open>list_entries_from_env\<close> never yields it.
\<close>

definition advance_list ::
  "('g \<Rightarrow> 'e \<times> 'g) \<Rightarrow> usize \<Rightarrow> usize option \<Rightarrow> 'e list \<Rightarrow> 'g \<Rightarrow> ('e list \<times> 'g) option" where
  "advance_list fresh version fixed xs g =
     (case fixed of
        None \<Rightarrow> (let (e, g') = fresh g in Some (xs @ [e], g'))
      | Some len \<Rightarrow>
          if length xs \<noteq> len then Some (draw fresh len g)
          else if len = 0 then None
          else let (e, g') = fresh g in Some (xs[usize_wrapping_pred version mod len := e], g'))"

definition QUORUM_SELECTION :: string where "QUORUM_SELECTION = ''spread-splitmix64-v1''"

definition line_end :: string where "line_end = [char_of (10 :: nat)]"

definition workload_manifest :: "usize option \<Rightarrow> string" where
  "workload_manifest entries =
     ''list_entries='' @ (case entries of None \<Rightarrow> ''growing'' | Some len \<Rightarrow> show_nat len) @ line_end
     @ ''quorum='' @ QUORUM_SELECTION @ line_end"

section \<open>The range of sizes\<close>

datatype list_sizes = ListSizes "(usize \<times> usize) option"

fun record_size :: "usize \<Rightarrow> list_sizes \<Rightarrow> list_sizes" where
  "record_size n (ListSizes None) = ListSizes (Some (n, n))"
| "record_size n (ListSizes (Some (lo, hi))) = ListSizes (Some (min lo n, max hi n))"

fun show_list_sizes :: "list_sizes \<Rightarrow> string" where
  "show_list_sizes (ListSizes (Some (lo, hi))) = ''list_min='' @ show_nat lo @ '' list_max='' @ show_nat hi"
| "show_list_sizes (ListSizes None) = ''list_min=NA list_max=NA''"

section \<open>The quorum\<close>

definition quorum_seed :: "u32 \<Rightarrow> u64" where
  "quorum_seed version = 0x9E3779B97F4A7C15 XOR (ucast version * 0xD6E8FEB86659FD93)"

definition splitmix :: "u64 \<Rightarrow> u64 \<times> u64" where
  "splitmix state =
     (let state' = state + 0x9E3779B97F4A7C15;
          z = (state' XOR drop_bit 30 state') * 0xBF58476D1CE4E5B9;
          z' = (z XOR drop_bit 27 z) * 0x94D049BB133111EB
      in (z' XOR drop_bit 31 z', state'))"

definition swap :: "usize \<Rightarrow> usize \<Rightarrow> 'a list \<Rightarrow> 'a list" where
  "swap i j xs = xs[i := xs ! j, j := xs ! i]"

text \<open>The loop over the positions \<open>position..t\<close>, with the remaining number of rounds as its measure.\<close>

fun shuffle :: "usize \<Rightarrow> nat \<Rightarrow> usize \<Rightarrow> u64 \<Rightarrow> usize list \<Rightarrow> usize list" where
  "shuffle n 0 position state members = members"
| "shuffle n (Suc k) position state members =
     (let (r, state') = splitmix state;
          pick = position + unat (r mod word_of_nat (n - position))
      in shuffle n k (position + 1) state' (swap position pick members))"

text \<open>\<open>None\<close> is the failed assertion that the quorum fits the committee.\<close>

definition quorum_indices :: "usize \<Rightarrow> usize \<Rightarrow> u32 \<Rightarrow> usize list option" where
  "quorum_indices n t version =
     (if \<not> t \<le> n then None else Some (take t (shuffle n t 0 (quorum_seed version) [0..<n])))"

section \<open>Lemmas on the quorum\<close>

lemma swap_permutes: "i < length xs \<Longrightarrow> j < length xs \<Longrightarrow> mset (swap i j xs) = mset xs"
  by (simp add: swap_def mset_swap)

lemma length_swap [simp]: "length (swap i j xs) = length xs"
  by (simp add: swap_def)

text \<open>A pick lies between its position and the end, as long as \<open>n\<close> is a 64-bit size.\<close>

lemma pick_bound:
  assumes "position < n" and "n \<le> usize_max"
  shows "position + unat (r mod word_of_nat (n - position) :: u64) < n"
proof -
  obtain k where k: "n - position = k" "k \<le> usize_max" using assms by simp
  then have "unat (word_of_nat (n - position) :: u64) = n - position"
    by (simp only: k(1)) (simp add: unat_of_nat usize_max_def)
  then have "unat (r mod word_of_nat (n - position)) = unat r mod (n - position)" by (simp add: unat_mod)
  also have "\<dots> < n - position" using assms(1) by simp
  finally show ?thesis by linarith
qed

lemma shuffle_permutes:
  "position + k \<le> n \<Longrightarrow> n \<le> usize_max \<Longrightarrow> length xs = n \<Longrightarrow>
     mset (shuffle n k position state xs) = mset xs"
proof (induction k arbitrary: position state xs)
  case (Suc k)
  obtain r state' where r: "splitmix state = (r, state')" by force
  let ?pick = "position + unat (r mod word_of_nat (n - position))"
  have "?pick < n" using Suc.prems by (intro pick_bound) simp_all
  then show ?case using Suc r swap_permutes [of position xs ?pick] by (simp add: Let_def)
qed simp

lemma quorum_indices_shuffled:
  assumes "t \<le> n" and "n \<le> usize_max"
  shows "\<exists>xs. quorum_indices n t version = Some (take t xs) \<and> mset xs = mset [0..<n]"
  using assms shuffle_permutes [of 0 t n "[0..<n]" "quorum_seed version"]
  by (intro exI [of _ "shuffle n t 0 (quorum_seed version) [0..<n]"]) (simp add: quorum_indices_def)

lemma quorum_in_range:
  assumes "t \<le> n" and "n \<le> usize_max"
  shows "\<exists>is. quorum_indices n t version = Some is \<and> length is = t \<and> distinct is \<and> (\<forall>i \<in> set is. i < n)"
proof -
  obtain xs where xs: "quorum_indices n t version = Some (take t xs)" "mset xs = mset [0..<n]"
    using quorum_indices_shuffled [OF assms] by blast
  have "length xs = n" using arg_cong [OF xs(2), of size] by simp
  moreover have "distinct xs" using xs(2) by (metis distinct_upt mset_eq_imp_distinct_iff)
  moreover have "set xs = {..<n}" using xs(2) by (metis atLeast0LessThan atLeast_upt set_mset_mset)
  ultimately show ?thesis using xs(1) assms(1) by (auto dest: in_set_takeD)
qed

section \<open>Lemmas on the list\<close>

lemma length_draw [simp]: "length (fst (draw fresh k g)) = k"
  by (induction k arbitrary: g) (simp_all add: case_prod_unfold Let_def)

text \<open>The list at version \<open>v\<close>, from the empty list before version 0.\<close>

fun list_at :: "('g \<Rightarrow> 'e \<times> 'g) \<Rightarrow> usize option \<Rightarrow> nat \<Rightarrow> 'g \<Rightarrow> ('e list \<times> 'g) option" where
  "list_at fresh fixed 0 g = advance_list fresh 0 fixed [] g"
| "list_at fresh fixed (Suc v) g =
     (case list_at fresh fixed v g of None \<Rightarrow> None | Some (xs, g') \<Rightarrow> advance_list fresh (Suc v) fixed xs g')"

lemma advance_growing: "\<exists>e g'. advance_list fresh v None xs g = Some (xs @ [e], g')"
  by (simp add: advance_list_def split: prod.splits)

lemma advance_fixed:
  assumes "0 < len"
  shows "\<exists>ys g'. advance_list fresh v (Some len) xs g = Some (ys, g') \<and> length ys = len
    \<and> (length xs = len \<longrightarrow> (\<exists>e. ys = xs[usize_wrapping_pred v mod len := e]))"
proof (cases "length xs = len")
  case True
  then show ?thesis using assms by (auto simp: advance_list_def split: prod.splits)
next
  case False
  then show ?thesis using length_draw [of fresh len g] by (auto simp: advance_list_def prod_eq_iff)
qed

lemma list_at_fixed: "0 < len \<Longrightarrow> \<exists>xs g'. list_at fresh (Some len) v g = Some (xs, g') \<and> length xs = len"
proof (induction v)
  case 0
  then show ?case using advance_fixed [of len fresh 0 "[]" g] by auto
next
  case (Suc v)
  then obtain xs g' where x: "list_at fresh (Some len) v g = Some (xs, g')" by auto
  then show ?case using advance_fixed [OF Suc.prems, of fresh "Suc v" xs g'] by auto
qed

lemma list_at_growing: "\<exists>xs g'. list_at fresh None v g = Some (xs, g') \<and> length xs = v + 1"
proof (induction v)
  case 0
  then show ?case using advance_growing [of fresh 0 "[]" g] by auto
next
  case (Suc v)
  then obtain xs g' where x: "list_at fresh None v g = Some (xs, g')" "length xs = v + 1" by auto
  then show ?case using advance_growing [of fresh "Suc v" xs g'] by auto
qed

lemma env_entries_bounded: "list_entries_from_env var = Some (Some n) \<Longrightarrow> 1 \<le> n \<and> n \<le> MAX_LIST_ENTRIES"
  by (auto simp: list_entries_from_env_def split: option.splits if_splits sum.splits)

lemma sizes_range:
  "fold record_size ns (ListSizes None) =
     ListSizes (if ns = [] then None else Some (Min (set ns), Max (set ns)))"
proof (induction ns rule: rev_induct)
  case (snoc n ns)
  show ?case
  proof (cases "ns = []")
    case False
    then have "Min (set (ns @ [n])) = min (Min (set ns)) n" "Max (set (ns @ [n])) = max (Max (set ns)) n"
      by (simp_all add: Min_insert Max_insert min.commute max.commute)
    then show ?thesis using snoc False by simp
  qed simp
qed simp

section \<open>Properties\<close>

text \<open>
  A benchmark quorum is a quorum: for every committee of a 64-bit size, threshold within it and
  version, the shuffle terminates without panic and picks exactly \<open>t\<close> distinct indices below \<open>n\<close>.
\<close>

theorem quorum_is_distinct_and_in_range:
  assumes "t \<le> n" and "n \<le> usize_max"
  shows "\<exists>is. quorum_indices n t version = Some is \<and> length is = t \<and> distinct is \<and> (\<forall>i \<in> set is. i < n)"
  using quorum_in_range [OF assms] .

theorem quorum_is_distinct_and_in_range_witness:
  "quorum_indices 10 4 3 = Some [3, 5, 4, 0] \<and> (\<exists>is. quorum_indices 10 4 3 = Some is \<and> distinct is)"
proof
  show "quorum_indices 10 4 3 = Some [3, 5, 4, 0]" by code_simp
  show "\<exists>is. quorum_indices 10 4 3 = Some is \<and> distinct is"
    using quorum_is_distinct_and_in_range [of 4 10 3] by (auto simp: usize_max_def)
qed

text \<open>
  The workload has the size it declares: whatever the entries drawn, at every version the
  growing list has \<open>version + 1\<close> entries, and a fixed list has exactly the declared number, which
  the environment bounds by \<open>MAX_LIST_ENTRIES\<close>, and no version panics.
\<close>

theorem workload_has_declared_size:
  assumes "list_entries_from_env var = Some fixed"
  shows "\<exists>xs g'. list_at fresh fixed v g = Some (xs, g')
    \<and> length xs = (case fixed of None \<Rightarrow> v + 1 | Some len \<Rightarrow> len) \<and> (fixed \<noteq> None \<longrightarrow> length xs \<le> MAX_LIST_ENTRIES)"
proof (cases fixed)
  case None
  then show ?thesis using list_at_growing [of fresh v g] by auto
next
  case (Some len)
  then have "1 \<le> len \<and> len \<le> MAX_LIST_ENTRIES" using assms env_entries_bounded by blast
  then show ?thesis using Some list_at_fixed [of len fresh v g] by auto
qed

theorem workload_has_declared_size_witness:
  "\<exists>xs g'. list_at (\<lambda>k. (k, Suc k)) (Some 4) 9 0 = Some (xs, g') \<and> length xs = 4"
proof -
  have "list_entries_from_env (Some (text_of ''4'')) = Some (Some 4)"
    by (simp add: list_entries_from_env_def text_of_def parse_unsigned_def usize_max_def MAX_LIST_ENTRIES_def)
  from workload_has_declared_size [OF this, of "\<lambda>k. (k, Suc k)" 9 0] show ?thesis by auto
qed

end
