(* ===== verification/Corpus.thy ===== *)
theory Corpus
  imports Prover_Check Bench_Stats Workload
begin

text \<open>
  What the corpus binaries share: panics, the listing of a directory by prefix, loops that stop at a
  panic, and the files a process writes.

  A panic is named by the fixed part of its message. A job is a process body over the files it
  has written and the one-time keys it has used: it ends with a panic or a value, and what it
  wrote and used before a panic stays.
\<close>

section \<open>Panics and loops\<close>

datatype panic = Panic string

text \<open>\<open>expect\<close> on a result, and \<open>assert!\<close>.\<close>

definition expect :: "string \<Rightarrow> ('e, 'a) result \<Rightarrow> (panic, 'a) result" where
  "expect msg r = map_err (\<lambda>_. Panic msg) r"

definition expect_some :: "string \<Rightarrow> 'a option \<Rightarrow> (panic, 'a) result" where
  "expect_some msg x = (case x of None \<Rightarrow> Inl (Panic msg) | Some a \<Rightarrow> Inr a)"

definition assert_that :: "string \<Rightarrow> bool \<Rightarrow> (panic, unit) result" where
  "assert_that msg b = (if b then Inr () else Inl (Panic msg))"

definition and_then :: "('e, 'a) result \<Rightarrow> ('a \<Rightarrow> ('e, 'b) result) \<Rightarrow> ('e, 'b) result" where
  "and_then r f = (case r of Inl e \<Rightarrow> Inl e | Inr a \<Rightarrow> f a)"

text \<open>A loop whose body may panic.\<close>

fun each :: "('i \<Rightarrow> 's \<Rightarrow> ('e, 's) result) \<Rightarrow> 'i list \<Rightarrow> 's \<Rightarrow> ('e, 's) result" where
  "each f [] s = Inr s"
| "each f (x # xs) s = (case f x s of Inl e \<Rightarrow> Inl e | Inr s' \<Rightarrow> each f xs s')"

text \<open>When a fallible step returns a value.\<close>

named_theorems return_iff "when a fallible step returns a value"

lemma expect_Inr [return_iff]: "expect msg r = Inr a \<longleftrightarrow> r = Inr a"
  by (simp add: expect_def)

lemma expect_some_Inr [return_iff]: "expect_some msg x = Inr a \<longleftrightarrow> x = Some a"
  by (simp add: expect_some_def split: option.splits)

lemma assert_that_Inr [return_iff]: "assert_that msg b = Inr u \<longleftrightarrow> b"
  by (simp add: assert_that_def)

lemma and_then_Inr [return_iff]: "and_then r f = Inr b \<longleftrightarrow> (\<exists>a. r = Inr a \<and> f a = Inr b)"
  by (cases r) (simp_all add: and_then_def)

lemma each_append: "each f (xs @ ys) s = (case each f xs s of Inl e \<Rightarrow> Inl e | Inr s' \<Rightarrow> each f ys s')"
  by (induction xs arbitrary: s) (simp_all split: sum.splits)

section \<open>Listing\<close>

text \<open>A directory in which the binaries also ask whether a name is a regular file.\<close>

record corpus = directory +
  dir_is_file :: "string \<Rightarrow> bool"

text \<open>
  The entries of a directory whose name is valid UTF-8 and starts with a prefix, sorted; an entry
  that cannot be read is skipped.
\<close>

definition prefixed :: "(string, string) result list \<Rightarrow> string \<Rightarrow> string list" where
  "prefixed entries prefix =
     sort (filter (\<lambda>n. from_utf8 (as_bytes n) \<noteq> None \<and> starts_with n prefix) (oks entries))"

lemma prefixed_set:
  "n \<in> set (prefixed entries prefix) \<longleftrightarrow> Inr n \<in> set entries \<and> from_utf8 (as_bytes n) \<noteq> None \<and> starts_with n prefix"
proof -
  have "x \<in> set (oks es) \<longleftrightarrow> Inr x \<in> set es" for x :: string and es :: "(string, string) result list"
    by (induction es rule: oks.induct) auto
  then show ?thesis by (auto simp: prefixed_def)
qed

lemma prefixed_sorted: "sorted (prefixed entries prefix)"
  by (simp add: prefixed_def)

end
