(* ===== verification/Jobs.thy ===== *)
theory Jobs
  imports Corpus "HOL-Library.Sublist"
begin

text \<open>
  Processes that write a directory of artifacts. A job's state is the content of its output directory
  and, as a ghost, every use of a one-time key, as pairs of public key and slot. A step ends in a
  panic or a value; what was written and used before a panic stays.

  The world of a job is what it draws from its environment: generated keys, the randomness of
  each signature, random entries, and which file operations fail.
\<close>

section \<open>Steps\<close>

text \<open>A step over any state with any error, with a panic, and over the state of a job.\<close>

type_synonym ('e, 's, 'a) fallible = "'s \<Rightarrow> ('e, 'a) result \<times> 's"
type_synonym ('s, 'a) process = "(panic, 's, 'a) fallible"

record 'pk job =
  j_files :: "(string \<times> bytes) list"
  j_uses :: "('pk \<times> u32) list"

type_synonym ('pk, 'a) step = "('pk job, 'a) process"

definition lift :: "('e, 'a) result \<Rightarrow> ('e, 's, 'a) fallible" where
  "lift r j = (r, j)"

definition seq :: "('e, 's, 'a) fallible \<Rightarrow> ('a \<Rightarrow> ('e, 's, 'b) fallible) \<Rightarrow> ('e, 's, 'b) fallible" where
  "seq m f j = (case m j of (Inl p, j') \<Rightarrow> (Inl p, j') | (Inr a, j') \<Rightarrow> f a j')"

text \<open>A loop with an accumulator.\<close>

fun steps :: "('i \<Rightarrow> 'a \<Rightarrow> ('e, 's, 'a) fallible) \<Rightarrow> 'i list \<Rightarrow> 'a \<Rightarrow> ('e, 's, 'a) fallible" where
  "steps f [] a j = (Inr a, j)"
| "steps f (x # xs) a j = seq (f x a) (\<lambda>b. steps f xs b) j"

lemma seq_Inr [return_iff]: "seq m f j = (Inr b, j'') \<longleftrightarrow> (\<exists>a j'. m j = (Inr a, j') \<and> f a j' = (Inr b, j''))"
  by (auto simp: seq_def split: prod.splits sum.splits)

lemma seq_run: "m j = (Inr a, j') \<Longrightarrow> seq m f j = f a j'"
  by (simp add: seq_def)

lemma lift_Inr [return_iff]: "lift r j = (Inr a, j') \<longleftrightarrow> r = Inr a \<and> j' = j"
  by (auto simp: lift_def)

lemma steps_append:
  "steps f (xs @ ys) a j = seq (steps f xs a) (\<lambda>b. steps f ys b) j"
proof (induction xs arbitrary: a j)
  case (Cons x xs)
  then show ?case by (auto simp: seq_def split: prod.splits sum.splits)
qed (simp add: seq_def)

lemma steps_snoc:
  "steps f (xs @ [x]) a j = (Inr b, j'') \<longleftrightarrow> (\<exists>c j'. steps f xs a j = (Inr c, j') \<and> f x c j' = (Inr b, j''))"
  by (auto simp: steps_append return_iff)

section \<open>Files\<close>

datatype file_fault = FileClean | FileNotOpened | FilePartial nat

record ('pk, 'sk, 'rng) world =
  w_key_gen :: "nat \<Rightarrow> u32 \<Rightarrow> u32 \<Rightarrow> (string, 'sk \<times> 'pk) result"
  w_tape :: "nat \<Rightarrow> 'rng"
  w_entry :: "nat \<Rightarrow> 32 barr"
  w_write :: "string \<Rightarrow> file_fault"
  w_unlistable :: "string \<Rightarrow> bool"
  w_unremovable :: "string \<Rightarrow> bool"

definition put_file :: "string \<Rightarrow> bytes \<Rightarrow> (string \<times> bytes) list \<Rightarrow> (string \<times> bytes) list" where
  "put_file name bs fl = filter (\<lambda>(n, _). n \<noteq> name) fl @ [(name, bs)]"

text \<open>\<open>std::fs::write\<close>: a failure may leave a prefix of the content.\<close>

definition write_file :: "('pk, 'sk, 'rng) world \<Rightarrow> string \<Rightarrow> bytes \<Rightarrow> ('pk, unit) step" where
  "write_file w name bs j =
     (case w_write w name of
        FileClean \<Rightarrow> (Inr (), j\<lparr>j_files := put_file name bs (j_files j)\<rparr>)
      | FileNotOpened \<Rightarrow> (Inl (Panic ''cannot write''), j)
      | FilePartial k \<Rightarrow> (Inl (Panic ''cannot write''), j\<lparr>j_files := put_file name (take k bs) (j_files j)\<rparr>))"

text \<open>Removing the files of an earlier run, entry by entry.\<close>

fun clear_files :: "('pk, 'sk, 'rng) world \<Rightarrow> (string \<Rightarrow> bool) \<Rightarrow> string list \<Rightarrow> ('pk, unit) step" where
  "clear_files w stale [] j = (Inr (), j)"
| "clear_files w stale (n # ns) j =
     (if w_unlistable w n then (Inl (Panic ''cannot read directory entry''), j)
      else if from_utf8 (as_bytes n) \<noteq> None \<and> stale n then
        (if w_unremovable w n then (Inl (Panic ''cannot remove stale''), j)
         else clear_files w stale ns (j\<lparr>j_files := filter (\<lambda>(m, _). m \<noteq> n) (j_files j)\<rparr>))
      else clear_files w stale ns j)"

text \<open>What another process finds in the directory.\<close>

definition as_directory :: "(string \<times> bytes) list \<Rightarrow> directory" where
  "as_directory fl = \<lparr>dir_entries = Inr (map (\<lambda>(n, _). Inr n) fl),
     dir_read = (\<lambda>n. case map_of fl n of None \<Rightarrow> Inl ''No such file or directory'' | Some bs \<Rightarrow> Inr bs)\<rparr>"

lemma put_file_names: "map fst (put_file n bs fs) = filter (\<lambda>m. m \<noteq> n) (map fst fs) @ [n]"
  by (simp add: put_file_def filter_map comp_def case_prod_unfold)

lemma put_file_distinct [simp]: "distinct (map fst fs) \<Longrightarrow> distinct (map fst (put_file n bs fs))"
  by (simp add: put_file_names)

lemma set_put_file: "set (map fst (put_file n bs fs)) = insert n (set (map fst fs))"
  by (auto simp: put_file_names)

lemma map_of_put_file [simp]: "map_of (put_file n bs fs) = (map_of fs)(n \<mapsto> bs)"
proof -
  have keep: "map_of (filter (\<lambda>(m, _). m \<noteq> n) fs) k = (if k = n then None else map_of fs k)" for k
    by (induction fs) auto
  show ?thesis by (auto simp: put_file_def map_add_def keep fun_eq_iff split: option.splits)
qed

lemma write_file_Inr [return_iff]:
  "write_file w name bs j = (Inr u, j') \<longleftrightarrow> w_write w name = FileClean \<and> j' = j\<lparr>j_files := put_file name bs (j_files j)\<rparr>"
  by (auto simp: write_file_def split: file_fault.splits)

section \<open>Keys\<close>

text \<open>One use of a one-time key, recorded whether it succeeds or not.\<close>

definition sign_with ::
  "string \<Rightarrow> ('pk, 'sk, 'sig, 'rng) xmss \<Rightarrow> ('pk, 'sk, 'rng) world \<Rightarrow> 'sk \<times> 'pk \<Rightarrow> 32 barr \<Rightarrow> u32 \<Rightarrow> ('pk, 'sig) step" where
  "sign_with msg X w kp message slot j =
     (let j' = j\<lparr>j_uses := j_uses j @ [(snd kp, slot)]\<rparr>
      in (expect msg (xmss_sign X (w_tape w (length (j_uses j))) (fst kp) message slot), j'))"

definition key_at :: "('sk \<times> 'pk) list \<Rightarrow> usize \<Rightarrow> (panic, 'sk \<times> 'pk) result" where
  "key_at keypairs i = (if i < length keypairs then Inr (keypairs ! i) else Inl (Panic ''index out of bounds''))"

definition generate_keys ::
  "string \<Rightarrow> ('pk, 'sk, 'rng) world \<Rightarrow> nat \<Rightarrow> nat \<Rightarrow> (panic, ('sk \<times> 'pk) list) result" where
  "generate_keys msg w first n =
     collect_results (\<lambda>i. expect msg (w_key_gen w i SLOT (SLOT + KEY_SLOTS))) [first..<first + n]"

lemma collect_results_Inr:
  "collect_results f xs = Inr ys \<longleftrightarrow> length ys = length xs \<and> (\<forall>i < length xs. f (xs ! i) = Inr (ys ! i))"
proof (induction xs arbitrary: ys)
  case (Cons x xs)
  show ?case
  proof (cases ys)
    case (Cons y ys')
    then show ?thesis using Cons.IH [of ys']
      by (auto simp: All_less_Suc2 split: sum.splits)
  qed (auto split: sum.splits)
qed auto

lemma sign_with_uses: "j_uses (snd (sign_with msg X w kp message slot j)) = j_uses j @ [(snd kp, slot)]"
  by (simp add: sign_with_def Let_def)

lemma sign_with_files: "j_files (snd (sign_with msg X w kp message slot j)) = j_files j"
  by (simp add: sign_with_def Let_def)

section \<open>What a step spends\<close>

text \<open>
  A step spends a plan of key uses: a run that returns has made exactly these uses, and a run that
  panics a prefix of them.
\<close>

definition spends :: "('pk, 'a) step \<Rightarrow> ('pk \<times> u32) list \<Rightarrow> bool" where
  "spends m plan \<longleftrightarrow> (\<forall>j. \<exists>us. j_uses (snd (m j)) = j_uses j @ us \<and> prefix us plan \<and> (is_ok (fst (m j)) \<longrightarrow> us = plan))"

named_theorems spends_intros "which uses a step plans"

lemma spends_lift [spends_intros]: "spends (lift r) []"
  by (simp add: spends_def lift_def)

lemma spends_write [spends_intros]: "spends (write_file w n bs) []"
  by (simp add: spends_def write_file_def is_ok_def split: file_fault.splits)

lemma spends_sign [spends_intros]: "spends (sign_with msg X w kp message slot) [(snd kp, slot)]"
  by (simp add: spends_def sign_with_def Let_def)

lemma spends_seq:
  assumes "spends m p1" and "\<And>a j j'. m j = (Inr a, j') \<Longrightarrow> spends (f a) p2"
  shows "spends (seq m f) (p1 @ p2)"
  unfolding spends_def
proof
  fix j
  obtain us where us: "j_uses (snd (m j)) = j_uses j @ us" "prefix us p1" "is_ok (fst (m j)) \<longrightarrow> us = p1"
    using assms(1) unfolding spends_def by blast
  obtain r j' where m: "m j = (r, j')" by force
  show "\<exists>us. j_uses (snd (seq m f j)) = j_uses j @ us \<and> prefix us (p1 @ p2) \<and> (is_ok (fst (seq m f j)) \<longrightarrow> us = p1 @ p2)"
  proof (cases r)
    case (Inl p)
    then show ?thesis using m us by (auto simp: seq_def is_ok_def)
  next
    case (Inr a)
    then obtain vs where vs: "j_uses (snd (f a j')) = j_uses j' @ vs" "prefix vs p2" "is_ok (fst (f a j')) \<longrightarrow> vs = p2"
      using assms(2) [of j a j'] m unfolding spends_def by blast
    have "us = p1" using us(3) m Inr by (simp add: is_ok_def)
    then show ?thesis using m Inr us(1) vs by (intro exI [of _ "p1 @ vs"]) (auto simp: seq_def)
  qed
qed

text \<open>A lifted result before a step: the step is reached only with that result.\<close>

lemma spends_lift_seq [spends_intros]:
  assumes "\<And>a. r = Inr a \<Longrightarrow> spends (f a) plan"
  shows "spends (seq (lift r) f) plan"
  using spends_seq [OF spends_lift, of r f plan] assms by (simp add: lift_def)

lemma spends_write_seq [spends_intros]:
  assumes "spends (f ()) plan"
  shows "spends (seq (write_file w n bs) f) plan"
  using spends_seq [OF spends_write, of w n bs f plan] assms by simp

lemma spends_sign_seq:
  assumes "\<And>a. spends (f a) plan"
  shows "spends (seq (sign_with msg X w kp message slot) f) ((snd kp, slot) # plan)"
  using spends_seq [OF spends_sign, of msg X w kp message slot f plan] assms by simp

lemma spends_steps:
  assumes "\<And>x a. x \<in> set xs \<Longrightarrow> spends (f x a) (plan x)"
  shows "spends (steps f xs a) (concat (map plan xs))"
  using assms
proof (induction xs arbitrary: a)
  case (Cons x xs)
  have "steps f (x # xs) a = seq (f x a) (\<lambda>b. steps f xs b)" by (simp add: fun_eq_iff)
  then show ?case using spends_seq [of "f x a" "plan x" "\<lambda>b. steps f xs b"] Cons by simp
qed (simp add: spends_def)

lemma clear_files_uses: "j_uses (snd (clear_files w stale ns j)) = j_uses j"
  by (induction ns arbitrary: j) simp_all

section \<open>Steps that return\<close>

text \<open>A step that never panics, whatever the job did before.\<close>

definition returns :: "('s, 'a) process \<Rightarrow> bool" where
  "returns m \<longleftrightarrow> (\<forall>j. \<exists>a j'. m j = (Inr a, j'))"

named_theorems returns_intros "which steps return"

lemma returns_lift [returns_intros]: "returns (lift (Inr a))"
  by (simp add: returns_def lift_def)

lemma returns_seq:
  assumes "returns m" and "\<And>a j j'. m j = (Inr a, j') \<Longrightarrow> returns (f a)"
  shows "returns (seq m f)"
  unfolding returns_def
proof
  fix j
  obtain a j1 where m: "m j = (Inr a, j1)" using assms(1) unfolding returns_def by blast
  obtain b j2 where "f a j1 = (Inr b, j2)" using assms(2) [OF m] unfolding returns_def by blast
  then show "\<exists>b j'. seq m f j = (Inr b, j')" using m by (auto simp: return_iff)
qed

lemma returns_lift_seq: "r = Inr a \<Longrightarrow> returns (f a) \<Longrightarrow> returns (seq (lift r) f)"
  by (intro returns_seq) (auto simp: returns_def lift_def)

lemma returns_write [returns_intros]: "w_write w n = FileClean \<Longrightarrow> returns (write_file w n bs)"
  by (simp add: returns_def write_file_def)

lemma returns_write_seq [returns_intros]: "w_write w n = FileClean \<Longrightarrow> returns (f ()) \<Longrightarrow> returns (seq (write_file w n bs) f)"
  by (intro returns_seq returns_write) auto

lemma returns_sign:
  assumes "\<And>rng. \<exists>sig. xmss_sign X rng (fst kp) message slot = Inr sig"
  shows "returns (sign_with msg X w kp message slot)"
  using assms unfolding returns_def sign_with_def Let_def by (metis expect_Inr)

lemma returns_steps:
  assumes "\<And>x a. x \<in> set xs \<Longrightarrow> returns (f x a)"
  shows "returns (steps f xs a)"
  using assms
proof (induction xs arbitrary: a)
  case (Cons x xs)
  have "steps f (x # xs) a = seq (f x a) (\<lambda>b. steps f xs b)" by (simp add: fun_eq_iff)
  then show ?case using returns_seq [of "f x a" "\<lambda>b. steps f xs b"] Cons by simp
qed (simp add: returns_def)

lemma clear_files_return:
  assumes "\<And>n. \<not> w_unlistable w n \<and> \<not> w_unremovable w n"
  shows "\<exists>j'. clear_files w stale ns j = (Inr (), j')"
  using assms by (induction ns arbitrary: j) simp_all

text \<open>
  A world without faults for the first \<open>n + 1\<close> generated keys: files are written, listed and removed,
  keys are generated, and a key signs at every slot of the interval it was generated for.
\<close>

definition faultless :: "('pk, 'sk, 'sig, 'rng) xmss \<Rightarrow> ('pk, 'sk, 'rng) world \<Rightarrow> nat \<Rightarrow> bool" where
  "faultless X w n \<longleftrightarrow> (\<forall>f. w_write w f = FileClean \<and> \<not> w_unlistable w f \<and> \<not> w_unremovable w f)
     \<and> (\<forall>i \<le> n. \<exists>kp. w_key_gen w i SLOT (SLOT + KEY_SLOTS) = Inr kp
          \<and> (\<forall>rng message slot. SLOT \<le> slot \<longrightarrow> slot \<le> SLOT + KEY_SLOTS \<longrightarrow> (\<exists>sig. xmss_sign X rng (fst kp) message slot = Inr sig)))"

lemma faultless_write: "faultless X w n \<Longrightarrow> w_write w f = FileClean"
  by (simp add: faultless_def)

lemma faultless_key: "faultless X w n \<Longrightarrow> i \<le> n \<Longrightarrow> \<exists>kp. w_key_gen w i SLOT (SLOT + KEY_SLOTS) = Inr kp"
  unfolding faultless_def by blast

lemma faultless_sign:
  assumes "faultless X w n" and "i \<le> n" and "w_key_gen w i SLOT (SLOT + KEY_SLOTS) = Inr kp" and "SLOT \<le> slot" and "slot \<le> SLOT + KEY_SLOTS"
  shows "returns (sign_with msg X w kp message slot)"
proof (rule returns_sign)
  fix rng
  obtain kp' where "w_key_gen w i SLOT (SLOT + KEY_SLOTS) = Inr kp'"
    "\<forall>rng message slot. SLOT \<le> slot \<longrightarrow> slot \<le> SLOT + KEY_SLOTS \<longrightarrow> (\<exists>sig. xmss_sign X rng (fst kp') message slot = Inr sig)"
    using assms(1,2) unfolding faultless_def by blast
  then show "\<exists>sig. xmss_sign X rng (fst kp) message slot = Inr sig" using assms(3-5) by simp
qed

lemma generate_keys_return:
  assumes "faultless X w n" and "first + k \<le> n + 1"
  shows "\<exists>kps. generate_keys msg w first k = Inr kps"
proof -
  define kps where "kps = map (\<lambda>i. SOME kp. w_key_gen w i SLOT (SLOT + KEY_SLOTS) = Inr kp) [first..<first + k]"
  have "w_key_gen w (first + i) SLOT (SLOT + KEY_SLOTS) = Inr (kps ! i)" if "i < k" for i
    using someI_ex [OF faultless_key [OF assms(1), of "first + i"]] that assms(2) by (simp add: kps_def)
  then have "generate_keys msg w first k = Inr kps"
    unfolding generate_keys_def collect_results_Inr by (simp add: kps_def expect_Inr)
  then show ?thesis by blast
qed

text \<open>Uses at pairwise different slots by pairwise different keys are different.\<close>

lemma distinct_uses:
  assumes "distinct (map fst groups)" and "\<And>s ks. (s, ks) \<in> set groups \<Longrightarrow> distinct ks"
  shows "distinct (concat (map (\<lambda>(s, ks). map (\<lambda>k. (k, s)) ks) groups))"
  using assms
proof (induction groups)
  case (Cons g groups)
  obtain s ks where g: "g = (s, ks)" by force
  have "distinct (map (\<lambda>k. (k, s)) ks)" using Cons.prems(2) [of s ks] g by (simp add: distinct_map inj_on_def)
  moreover have "s \<notin> fst ` set groups" using Cons.prems(1) g by simp
  ultimately show ?case using Cons g by (force simp: image_iff)
qed simp

end
