(* ===== verification/Verifier_Bin.thy ===== *)
theory Verifier_Bin
  imports Corpus
begin

text \<open>
  The SNARK verifier of a corpus (src/bin/verifier.rs): arguments, the listing of artifacts, the
  explicit initialization of the mark, the updates that must verify, the forgeries that must be
  rejected, the canonical record offered to the mark, and the replay the mark must refuse. The
  directory does not change while the process runs, and the state file is not one of its artifacts.
  Printing and memory figures are left out; clock readings are inputs.

  The lemmas show that the exit status is exact and that a run moves the mark only forward and only
  to the version of a record it authenticated.
\<close>

section \<open>Paths and arguments\<close>

text \<open>The components of a path given as text: separators and dots are dropped, a root is kept.\<close>

fun split_slash :: "string \<Rightarrow> string list" where
  "split_slash [] = [[]]"
| "split_slash (c # cs) =
     (if c = CHR ''/'' then [] # split_slash cs
      else case split_slash cs of [] \<Rightarrow> [[c]] | s # ss \<Rightarrow> (c # s) # ss)"

definition path_of_text :: "string \<Rightarrow> path" where
  "path_of_text t = (if starts_with t ''/'' then [''/''] else [])
     @ filter (\<lambda>c. c \<noteq> [] \<and> c \<noteq> ''.'') (split_slash t)"

text \<open>Whether the state is initialized, and the directory; \<open>None\<close> is the usage error.\<close>

definition verifier_args :: "string list \<Rightarrow> (bool \<times> string) option" where
  "verifier_args args =
     (case args of
        [] \<Rightarrow> Some (False, ''artifacts'')
      | first # rest \<Rightarrow>
          if first = ''--init-state'' then
            (case rest of [] \<Rightarrow> Some (True, ''artifacts'') | d # rest' \<Rightarrow> if rest' = [] then Some (True, d) else None)
          else if rest = [] then Some (False, first) else None)"

definition artifacts :: "corpus \<Rightarrow> string \<Rightarrow> (panic, string list) result" where
  "artifacts dir prefix =
     (case dir_entries dir of Inl e \<Rightarrow> Inl (Panic ''cannot read'') | Inr entries \<Rightarrow> Inr (prefixed entries prefix))"

section \<open>Records\<close>

definition authenticate ::
  "('b, 'pk, 'sk, 'sig, 'rng, 'sph, 'agg) check_env \<Rightarrow> 'pk snark_verifier \<Rightarrow> bytes \<Rightarrow> snark_status_list option" where
  "authenticate K sv bs =
     (case snark_from_bytes (k_snark_ssz K) bs of
        Inl e \<Rightarrow> None
      | Inr r \<Rightarrow> if snark_verify (k_leanvm K) (blake2s_256 (k_hashes K)) sv r then Some r else None)"

text \<open>The failures so far, the timings of the updates that decoded, and the range of list sizes.\<close>

record verifier_report =
  vr_failures :: usize
  vr_samples :: "(nat \<times> nat \<times> nat \<times> nat) list"
  vr_sizes :: list_sizes

definition verify_update ::
  "('b, 'pk, 'sk, 'sig, 'rng, 'sph, 'agg) check_env \<Rightarrow> 'pk snark_verifier \<Rightarrow> (nat \<Rightarrow> clock_readings) \<Rightarrow> corpus
    \<Rightarrow> nat \<times> string \<Rightarrow> verifier_report \<Rightarrow> (panic, verifier_report) result" where
  "verify_update K sv clock dir idx_name rep =
     (case dir_read dir (snd idx_name) of
        Inl e \<Rightarrow> Inl (Panic ''cannot read update'')
      | Inr bs \<Rightarrow>
          let measured = decode_then_verify (clock (fst idx_name)) (decode_update K bs)
                (verify_decoded (k_leanvm K) (blake2s_256 (k_hashes K)) sv)
          in case dv_decoded measured of
               Inl e \<Rightarrow> Inr (rep\<lparr>vr_failures := vr_failures rep + 1\<rparr>)
             | Inr decoded \<Rightarrow>
                 Inr (rep\<lparr>vr_failures := (if \<not> dv_accepted measured then vr_failures rep + 1 else vr_failures rep),
                          vr_samples := vr_samples rep @ [(dv_decode measured, dv_verify measured, dv_total measured, dv_cpu measured)],
                          vr_sizes := record_size (length (ss_status_list (ds_record decoded))) (vr_sizes rep)\<rparr>))"

definition REQUIRED_ATTACKS :: "string list" where
  "REQUIRED_ATTACKS = [''attack-outsider.bin'', ''attack-tampered.bin'', ''attack-version.bin'',
     ''attack-slot.bin'', ''attack-short.bin'', ''attack-proofbody.bin'']"

definition require_attacks :: "corpus \<Rightarrow> verifier_report \<Rightarrow> verifier_report" where
  "require_attacks dir rep =
     fold (\<lambda>required r. if \<not> dir_is_file dir required then r\<lparr>vr_failures := vr_failures r + 1\<rparr> else r) REQUIRED_ATTACKS rep"

definition try_attack ::
  "('b, 'pk, 'sk, 'sig, 'rng, 'sph, 'agg) check_env \<Rightarrow> 'pk snark_verifier \<Rightarrow> corpus
    \<Rightarrow> string \<Rightarrow> verifier_report \<Rightarrow> (panic, verifier_report) result" where
  "try_attack K sv dir name rep =
     (case dir_read dir name of
        Inl e \<Rightarrow> Inl (Panic ''cannot read attack artifact'')
      | Inr bs \<Rightarrow>
          let accepted = (case snark_from_bytes (k_snark_ssz K) bs of
                            Inl e \<Rightarrow> False | Inr r \<Rightarrow> snark_verify (k_leanvm K) (blake2s_256 (k_hashes K)) sv r)
          in Inr (if accepted then rep\<lparr>vr_failures := vr_failures rep + 1\<rparr> else rep))"

section \<open>The mark\<close>

definition offer_canonical ::
  "replace_fault \<Rightarrow> snark_status_list option \<Rightarrow> verifier_report \<Rightarrow> high_water_mark \<Rightarrow> fs
    \<Rightarrow> verifier_report \<times> high_water_mark \<times> fs" where
  "offer_canonical rf canonical rep m s =
     (case canonical of
        Some r \<Rightarrow>
          (case try_advance rf (ss_version r) m s of
             (Inr _, m', s') \<Rightarrow> (rep, m', s')
           | (Inl _, m', s') \<Rightarrow> (rep\<lparr>vr_failures := vr_failures rep + 1\<rparr>, m', s'))
      | None \<Rightarrow> (rep\<lparr>vr_failures := vr_failures rep + 1\<rparr>, m, s))"

text \<open>Every way of not running the rollback test is itself a failure.\<close>

definition replay ::
  "replace_fault \<Rightarrow> snark_status_list option \<Rightarrow> verifier_report \<Rightarrow> high_water_mark \<Rightarrow> fs
    \<Rightarrow> verifier_report \<times> high_water_mark \<times> fs" where
  "replay rf replayed rep m s =
     (let failed = rep\<lparr>vr_failures := vr_failures rep + 1\<rparr>
      in case (mark_current m, replayed) of
           (Some _, Some r) \<Rightarrow>
             (case try_advance rf (ss_version r) m s of
                (Inr (Stale hw), m', s') \<Rightarrow> (rep, m', s')
              | (Inr Accepted, m', s') \<Rightarrow> (failed, m', s')
              | (Inl _, m', s') \<Rightarrow> (failed, m', s'))
         | (None, _) \<Rightarrow> (failed, m, s)
         | (_, None) \<Rightarrow> (failed, m, s))"

section \<open>The run\<close>

text \<open>Faults: of the lock, of reading the state file or its metadata, and of the three writes.\<close>

record verifier_faults =
  vf_lock :: lock_fault
  vf_read :: read_fault
  vf_init :: replace_fault
  vf_canonical :: replace_fault
  vf_replay :: replace_fault

text \<open>The checks from the opened mark on: the report, the mark and the file system.\<close>

definition verifier_checks ::
  "('b, 'pk, 'sk, 'sig, 'rng, 'sph, 'agg) check_env \<Rightarrow> (nat \<Rightarrow> clock_readings) \<Rightarrow> verifier_faults \<Rightarrow> corpus
    \<Rightarrow> 'pk committee \<Rightarrow> high_water_mark \<Rightarrow> fs \<Rightarrow> (panic, verifier_report) result \<times> high_water_mark \<times> fs" where
  "verifier_checks K clock vf dir c m s =
     (let sv = \<lparr>sv_committee = c, sv_last_version = (case mark_current m of None \<Rightarrow> 0 | Some v \<Rightarrow> v)\<rparr>
      in case and_then (artifacts dir ''update-'') (\<lambda>updates.
                each (verify_update K sv clock dir) (enumerate 0 updates) \<lparr>vr_failures = 0, vr_samples = [], vr_sizes = ListSizes None\<rparr>) of
           Inl p \<Rightarrow> (Inl p, m, s)
         | Inr rep1 \<Rightarrow>
             (case and_then (artifacts dir ''attack-'') (\<lambda>attacks. each (try_attack K sv dir) attacks (require_attacks dir rep1)) of
                Inl p \<Rightarrow> (Inl p, m, s)
              | Inr rep2 \<Rightarrow>
                  let canonical = (case dir_read dir ''canonical.bin'' of Inl e \<Rightarrow> None | Inr bs \<Rightarrow> authenticate K sv bs);
                      (rep3, m1, s1) = offer_canonical (vf_canonical vf) canonical rep2 m s
                  in case artifacts dir ''update-'' of
                       Inl p \<Rightarrow> (Inl p, m1, s1)
                     | Inr updates \<Rightarrow>
                         let replayed = (case updates of [] \<Rightarrow> None
                               | n # _ \<Rightarrow> (case dir_read dir n of Inl e \<Rightarrow> None | Inr bs \<Rightarrow> authenticate K sv bs));
                             (rep4, m2, s2) = replay (vf_replay vf) replayed rep3 m1 s1
                         in (Inr rep4, m2, s2)))"

text \<open>Where the mark is kept.\<close>

definition state_path :: "string option \<Rightarrow> string \<Rightarrow> path" where
  "state_path verifier_state d = (case verifier_state of
     Some p \<Rightarrow> path_of_text p | None \<Rightarrow> path_of_text d @ [''verifier-highwater.state''])"

text \<open>
  The process: an exit status or a panic. The lock of an open mark is released when the process
  ends, also by a panic.
\<close>

definition verifier_main ::
  "('b, 'pk, 'sk, 'sig, 'rng, 'sph, 'agg) check_env \<Rightarrow> (nat \<Rightarrow> clock_readings) \<Rightarrow> verifier_faults \<Rightarrow> (string \<Rightarrow> corpus)
    \<Rightarrow> string option \<Rightarrow> string list \<Rightarrow> fs \<Rightarrow> (panic, nat) result \<times> fs" where
  "verifier_main K clock vf dirs verifier_state args s =
     (case verifier_args args of
        None \<Rightarrow> (Inr 2, s)
      | Some (initialize_state, d) \<Rightarrow>
          let dir = dirs d
          in case and_then (expect ''cannot read anchor'' (dir_read dir ''anchor.bin'')) (\<lambda>anchor.
                    and_then (expect ''malformed anchor'' (committee_from_bytes (sha3_256 (k_hashes K)) (k_anchor K) anchor)) (\<lambda>c.
                      Inr (anchor, c))) of
               Inl p \<Rightarrow> (Inl p, s)
             | Inr (anchor, c) \<Rightarrow>
                 let path = state_path verifier_state d
                 in if initialize_state then
                      (case mark_create (sha3_256 (k_hashes K)) (vf_lock vf) (vf_read vf) (vf_init vf) path anchor s of
                         (Inl e, s1) \<Rightarrow> (Inl (Panic ''cannot initialize high-water mark''), s1)
                       | (Inr m, s1) \<Rightarrow> (Inr 0, unlock_sibling path s1))
                    else
                      (case mark_open (sha3_256 (k_hashes K)) (vf_lock vf) (vf_read vf) path anchor s of
                         (Inl e, s1) \<Rightarrow> (Inl (Panic ''cannot open high-water mark''), s1)
                       | (Inr m, s1) \<Rightarrow>
                           (case verifier_checks K clock vf dir c m s1 of
                              (Inl p, m', s2) \<Rightarrow> (Inl p, unlock_sibling path s2)
                            | (Inr rep, m', s2) \<Rightarrow> (Inr (if vr_failures rep = 0 then 0 else 1), unlock_sibling path s2))))"

section \<open>Counting failures\<close>

text \<open>What a name of the directory holds under an anchor: an authentic record, if it can be read.\<close>

definition authentic_at ::
  "('b, 'pk, 'sk, 'sig, 'rng, 'sph, 'agg) check_env \<Rightarrow> 'pk snark_verifier \<Rightarrow> corpus \<Rightarrow> string \<Rightarrow> snark_status_list option" where
  "authentic_at K sv dir name = (case dir_read dir name of Inl e \<Rightarrow> None | Inr bs \<Rightarrow> authenticate K sv bs)"

definition readable :: "corpus \<Rightarrow> string \<Rightarrow> bool" where
  "readable dir name \<longleftrightarrow> is_ok (dir_read dir name)"

lemma decode_update_authentic:
  "(case decode_update K bs of Inl e \<Rightarrow> False | Inr d \<Rightarrow> verify_decoded (k_leanvm K) (blake2s_256 (k_hashes K)) sv d)
     \<longleftrightarrow> authenticate K sv bs \<noteq> None"
  by (auto simp: decode_update_def authenticate_def snark_decode_def verify_decoded_def snark_verify_def split: sum.splits)

text \<open>A loop over readable names counts the bad ones.\<close>

lemma each_counts:
  assumes "\<And>x rep. case f x rep of Inl p \<Rightarrow> \<not> good x
    | Inr rep' \<Rightarrow> good x \<and> vr_failures rep' = vr_failures rep + (if bad x then 1 else 0)"
  shows "case each f xs rep of Inl p \<Rightarrow> \<not> list_all good xs
    | Inr rep' \<Rightarrow> list_all good xs \<and> vr_failures rep' = vr_failures rep + length (filter bad xs)"
proof (induction xs arbitrary: rep)
  case (Cons x xs)
  show ?case
  proof (cases "f x rep")
    case (Inl p)
    then show ?thesis using assms [of x rep] by simp
  next
    case (Inr rep')
    then show ?thesis using assms [of x rep] Cons [of rep'] by (auto split: sum.splits)
  qed
qed simp

lemma verify_update_counts:
  "case verify_update K sv clock dir idx_name rep of Inl p \<Rightarrow> \<not> readable dir (snd idx_name)
   | Inr rep' \<Rightarrow> readable dir (snd idx_name) \<and> vr_failures rep' = vr_failures rep + (if authentic_at K sv dir (snd idx_name) = None then 1 else 0)"
proof (cases "dir_read dir (snd idx_name)")
  case (Inr bs)
  then show ?thesis using decode_update_authentic [of K sv bs]
    by (auto simp: verify_update_def Let_def decode_then_verify_def authentic_at_def readable_def is_ok_def split: sum.splits)
qed (simp add: verify_update_def readable_def is_ok_def)

lemma try_attack_counts:
  "case try_attack K sv dir name rep of Inl p \<Rightarrow> \<not> readable dir name
   | Inr rep' \<Rightarrow> readable dir name \<and> vr_failures rep' = vr_failures rep + (if authentic_at K sv dir name \<noteq> None then 1 else 0)"
  by (auto simp: try_attack_def authentic_at_def authenticate_def readable_def is_ok_def Let_def split: sum.splits)

lemma require_attacks_counts:
  "vr_failures (require_attacks dir rep) = vr_failures rep + length (filter (\<lambda>n. \<not> dir_is_file dir n) REQUIRED_ATTACKS)"
proof -
  have "vr_failures (fold (\<lambda>n r. if \<not> dir_is_file dir n then r\<lparr>vr_failures := vr_failures r + 1\<rparr> else r) ns rep)
      = vr_failures rep + length (filter (\<lambda>n. \<not> dir_is_file dir n) ns)" for ns rep
    by (induction ns arbitrary: rep) auto
  then show ?thesis by (simp add: require_attacks_def)
qed

text \<open>The mark after the canonical record, when the offer does not fail.\<close>

lemma offer_canonical_effect:
  "offer_canonical rf canonical rep m s = (rep', m', s') \<Longrightarrow>
     vr_failures rep \<le> vr_failures rep'
     \<and> (vr_failures rep' = vr_failures rep \<longleftrightarrow> canonical \<noteq> None
          \<and> (rf = ReplaceClean \<or> (m_have m \<and> ss_version (the canonical) \<le> m_current m)))
     \<and> (vr_failures rep' = vr_failures rep \<longrightarrow> m_have m'
          \<and> m_current m' = (if m_have m then max (m_current m) (ss_version (the canonical)) else ss_version (the canonical)))
     \<and> (m' = m \<or> (canonical \<noteq> None \<and> mark_floor m \<le> mark_floor m' \<and> mark_current m' = map_option ss_version canonical))"
proof (cases canonical)
  case (Some r)
  obtain q m1 s1 where t: "try_advance rf (ss_version r) m s = (q, m1, s1)" by (metis prod.exhaust)
  obtain x s2 where p: "replace_file rf (m_path m) (as_bytes (mark_line (m_fingerprint m) (Some (ss_version r)))) s = (x, s2)"
    by force
  have x: "x = (if rf = ReplaceClean then Inr () else Inl OtherIo)" using p by (metis fst_conv replace_file_result)
  assume "offer_canonical rf canonical rep m s = (rep', m', s')"
  then show ?thesis
    using t p x Some
    by (auto simp: offer_canonical_def try_advance_def mark_persist_def mark_floor_def mark_current_def max_def word_le_nat_alt
        word_unat_eq_iff split: if_splits sum.splits)
qed (auto simp: offer_canonical_def)

lemma replay_effect:
  "replay rf replayed rep m s = (rep', m', s') \<Longrightarrow>
     vr_failures rep \<le> vr_failures rep'
     \<and> (vr_failures rep' = vr_failures rep \<longleftrightarrow> replayed \<noteq> None \<and> m_have m \<and> ss_version (the replayed) \<le> m_current m)
     \<and> (m' = m \<or> (replayed \<noteq> None \<and> mark_floor m \<le> mark_floor m' \<and> mark_current m' = map_option ss_version replayed))
     \<and> (vr_failures rep' = vr_failures rep \<longrightarrow> m' = m \<and> s' = s)"
proof -
  assume a: "replay rf replayed rep m s = (rep', m', s')"
  show ?thesis
  proof (cases "m_have m \<and> replayed \<noteq> None")
    case True
    then obtain r where r: "replayed = Some r" by auto
    obtain q m1 s1 where t: "try_advance rf (ss_version r) m s = (q, m1, s1)" by (metis prod.exhaust)
    then show ?thesis using a r True
      by (auto simp: replay_def mark_current_def try_advance_def mark_floor_def word_le_nat_alt Let_def
          split: if_splits sum.splits decision.splits prod.splits)
  next
    case False
    then show ?thesis using a by (auto simp: replay_def mark_current_def Let_def split: option.splits if_splits)
  qed
qed

text \<open>The predicate reads the anchor of a verifier only, so the version it starts from does not matter.\<close>

definition relying_on :: "'pk committee \<Rightarrow> 'pk snark_verifier" where
  "relying_on c = \<lparr>sv_committee = c, sv_last_version = 0\<rparr>"

lemma authentic_at_relying: "authentic_at K \<lparr>sv_committee = c, sv_last_version = v\<rparr> dir n = authentic_at K (relying_on c) dir n"
  by (auto simp: authentic_at_def authenticate_def relying_on_def snark_verify_def snark_check_def split: sum.splits)

text \<open>The checks, when every artifact can be read.\<close>

definition corpus_holds ::
  "('b, 'pk, 'sk, 'sig, 'rng, 'sph, 'agg) check_env \<Rightarrow> 'pk committee \<Rightarrow> corpus \<Rightarrow> (string, string) result list \<Rightarrow> bool" where
  "corpus_holds K c dir entries \<longleftrightarrow>
     list_all (\<lambda>n. authentic_at K (relying_on c) dir n \<noteq> None) (prefixed entries ''update-'')
     \<and> list_all (dir_is_file dir) REQUIRED_ATTACKS
     \<and> list_all (\<lambda>n. readable dir n \<and> authentic_at K (relying_on c) dir n = None) (prefixed entries ''attack-'')"

definition first_update ::
  "('b, 'pk, 'sk, 'sig, 'rng, 'sph, 'agg) check_env \<Rightarrow> 'pk committee \<Rightarrow> corpus \<Rightarrow> (string, string) result list \<Rightarrow> snark_status_list option" where
  "first_update K c dir entries =
     (case prefixed entries ''update-'' of [] \<Rightarrow> None | n # _ \<Rightarrow> authentic_at K (relying_on c) dir n)"

lemma list_all_enumerate: "list_all (\<lambda>x. P (snd x)) (enumerate k xs) = list_all P xs"
  by (induction xs arbitrary: k) simp_all

lemma filter_enumerate_snd: "length (filter (\<lambda>x. P (snd x)) (enumerate k xs)) = length (filter P xs)"
  by (induction xs arbitrary: k) simp_all

lemma verifier_checks_run:
  assumes run: "verifier_checks K clock vf dir c m s = (r, m', s')" and entries: "dir_entries dir = Inr entries"
    and readable: "list_all (readable dir) (prefixed entries ''update-'')" "list_all (readable dir) (prefixed entries ''attack-'')"
  obtains rep2 rep3 m1 s1 rep4 where
    "vr_failures rep2 = length (filter (\<lambda>n. authentic_at K (relying_on c) dir n = None) (prefixed entries ''update-''))
       + length (filter (\<lambda>n. \<not> dir_is_file dir n) REQUIRED_ATTACKS)
       + length (filter (\<lambda>n. authentic_at K (relying_on c) dir n \<noteq> None) (prefixed entries ''attack-''))"
    and "offer_canonical (vf_canonical vf) (authentic_at K (relying_on c) dir ''canonical.bin'') rep2 m s = (rep3, m1, s1)"
    and "replay (vf_replay vf) (first_update K c dir entries) rep3 m1 s1 = (rep4, m', s')" and "r = Inr rep4"
proof -
  define sv where "sv = \<lparr>sv_committee = c, sv_last_version = (case mark_current m of None \<Rightarrow> 0 | Some v \<Rightarrow> v)\<rparr>"
  have sv: "authentic_at K sv dir n = authentic_at K (relying_on c) dir n" for n
    unfolding sv_def by (rule authentic_at_relying)
  let ?us = "prefixed entries ''update-''" and ?as = "prefixed entries ''attack-''"
  let ?rep0 = "\<lparr>vr_failures = 0, vr_samples = [], vr_sizes = ListSizes None\<rparr>"
  obtain rep1 where rep1: "each (verify_update K sv clock dir) (enumerate 0 ?us) ?rep0 = Inr rep1"
    "vr_failures rep1 = length (filter (\<lambda>n. authentic_at K (relying_on c) dir n = None) ?us)"
    using each_counts [where f = "verify_update K sv clock dir" and good = "\<lambda>x. readable dir (snd x)"
        and bad = "\<lambda>x. authentic_at K sv dir (snd x) = None", OF verify_update_counts, of "enumerate 0 ?us" ?rep0] readable(1)
      filter_enumerate_snd [where P = "\<lambda>n. authentic_at K (relying_on c) dir n = None"]
    by (simp add: list_all_enumerate sv split: sum.splits)
  obtain rep2 where rep2: "each (try_attack K sv dir) ?as (require_attacks dir rep1) = Inr rep2"
    "vr_failures rep2 = vr_failures (require_attacks dir rep1) + length (filter (\<lambda>n. authentic_at K (relying_on c) dir n \<noteq> None) ?as)"
    using each_counts [where f = "try_attack K sv dir" and good = "readable dir"
        and bad = "\<lambda>n. authentic_at K sv dir n \<noteq> None", OF try_attack_counts, of ?as "require_attacks dir rep1"] readable(2)
    by (simp add: sv split: sum.splits)
  obtain rep3 m1 s1 where o: "offer_canonical (vf_canonical vf) (authentic_at K (relying_on c) dir ''canonical.bin'') rep2 m s = (rep3, m1, s1)"
    by (metis prod.exhaust)
  obtain rep4 m2 s2 where p: "replay (vf_replay vf) (first_update K c dir entries) rep3 m1 s1 = (rep4, m2, s2)"
    by (metis prod.exhaust)
  have canonical: "(case dir_read dir ''canonical.bin'' of Inl e \<Rightarrow> None | Inr bs \<Rightarrow> authenticate K sv bs)
      = authentic_at K (relying_on c) dir ''canonical.bin''" using sv by (simp add: authentic_at_def)
  have replayed: "(case ?us of [] \<Rightarrow> None | n # _ \<Rightarrow> (case dir_read dir n of Inl e \<Rightarrow> None | Inr bs \<Rightarrow> authenticate K sv bs))
      = first_update K c dir entries" using sv by (simp add: first_update_def authentic_at_def split: list.splits)
  have "verifier_checks K clock vf dir c m s = (Inr rep4, m2, s2)"
    unfolding verifier_checks_def sv_def [symmetric] Let_def
    by (simp add: artifacts_def and_then_def entries rep1(1) rep2(1) canonical o replayed p)
  then have "r = Inr rep4" "m' = m2" "s' = s2" using run by simp_all
  then show thesis using that [OF _ o] rep1(2) rep2(2) require_attacks_counts [of dir rep1] p by simp
qed

lemma verifier_checks_stops:
  assumes "\<not> (\<exists>entries. dir_entries dir = Inr entries \<and> list_all (readable dir) (prefixed entries ''update-'')
    \<and> list_all (readable dir) (prefixed entries ''attack-''))"
  shows "\<exists>p. verifier_checks K clock vf dir c m s = (Inl p, m, s)"
proof (cases "dir_entries dir")
  case (Inl e)
  then show ?thesis by (simp add: verifier_checks_def Let_def artifacts_def and_then_def)
next
  case (Inr entries)
  define sv where "sv = \<lparr>sv_committee = c, sv_last_version = (case mark_current m of None \<Rightarrow> 0 | Some v \<Rightarrow> v)\<rparr>"
  let ?us = "prefixed entries ''update-''" and ?as = "prefixed entries ''attack-''"
  let ?rep0 = "\<lparr>vr_failures = 0, vr_samples = [], vr_sizes = ListSizes None\<rparr>"
  note runs = Inr artifacts_def and_then_def
  show ?thesis
  proof (cases "each (verify_update K sv clock dir) (enumerate 0 ?us) ?rep0")
    case (Inl p)
    then show ?thesis unfolding verifier_checks_def sv_def [symmetric] Let_def by (simp add: runs)
  next
    case rep1: (Inr rep1)
    then have "list_all (readable dir) ?us"
      using each_counts [where f = "verify_update K sv clock dir" and good = "\<lambda>x. readable dir (snd x)"
          and bad = "\<lambda>x. authentic_at K sv dir (snd x) = None", OF verify_update_counts, of "enumerate 0 ?us" ?rep0]
      by (simp add: list_all_enumerate)
    then have "\<not> list_all (readable dir) ?as" using assms Inr by blast
    then have "\<exists>p. each (try_attack K sv dir) ?as (require_attacks dir rep1) = Inl p"
      using each_counts [where f = "try_attack K sv dir" and good = "readable dir"
          and bad = "\<lambda>n. authentic_at K sv dir n \<noteq> None", OF try_attack_counts, of ?as "require_attacks dir rep1"]
      by (auto split: sum.splits)
    then show ?thesis unfolding verifier_checks_def sv_def [symmetric] Let_def by (auto simp: runs rep1)
  qed
qed

lemma verifier_checks_pass:
  assumes run: "verifier_checks K clock vf dir c m s = (r, m', s')"
  shows "(\<exists>rep. r = Inr rep \<and> vr_failures rep = 0) \<longleftrightarrow>
    (\<exists>entries canonical first. dir_entries dir = Inr entries \<and> corpus_holds K c dir entries
       \<and> authentic_at K (relying_on c) dir ''canonical.bin'' = Some canonical \<and> first_update K c dir entries = Some first
       \<and> (vf_canonical vf = ReplaceClean \<or> (m_have m \<and> ss_version canonical \<le> m_current m))
       \<and> (ss_version first \<le> ss_version canonical \<or> (m_have m \<and> ss_version first \<le> m_current m)))"
proof (cases "\<exists>entries. dir_entries dir = Inr entries \<and> list_all (readable dir) (prefixed entries ''update-'')
    \<and> list_all (readable dir) (prefixed entries ''attack-'')")
  case False
  have "readable dir n" if "authentic_at K (relying_on c) dir n \<noteq> None" for n
    using that by (auto simp: authentic_at_def readable_def is_ok_def split: sum.splits)
  then have "\<not> (\<exists>entries. dir_entries dir = Inr entries \<and> corpus_holds K c dir entries)"
    using False by (auto simp: corpus_holds_def list_all_iff)
  moreover obtain p where "r = Inl p" using verifier_checks_stops [OF False, of K clock vf c m s] run by auto
  ultimately show ?thesis by auto
next
  case True
  then obtain entries where e: "dir_entries dir = Inr entries" "list_all (readable dir) (prefixed entries ''update-'')"
    "list_all (readable dir) (prefixed entries ''attack-'')" by blast
  obtain rep2 rep3 m1 s1 rep4 where
    r: "vr_failures rep2 = length (filter (\<lambda>n. authentic_at K (relying_on c) dir n = None) (prefixed entries ''update-''))
         + length (filter (\<lambda>n. \<not> dir_is_file dir n) REQUIRED_ATTACKS)
         + length (filter (\<lambda>n. authentic_at K (relying_on c) dir n \<noteq> None) (prefixed entries ''attack-''))"
      "offer_canonical (vf_canonical vf) (authentic_at K (relying_on c) dir ''canonical.bin'') rep2 m s = (rep3, m1, s1)"
      "replay (vf_replay vf) (first_update K c dir entries) rep3 m1 s1 = (rep4, m', s')" "r = Inr rep4"
    using verifier_checks_run [OF run e] by metis
  have zero: "vr_failures rep2 = 0 \<longleftrightarrow> corpus_holds K c dir entries"
    using e(3) unfolding r(1) corpus_holds_def by (auto simp: list_all_iff filter_empty_conv)
  note o = offer_canonical_effect [OF r(2)] and p = replay_effect [OF r(3)]
  have "vr_failures rep4 = 0 \<longleftrightarrow> vr_failures rep2 = 0 \<and> vr_failures rep3 = vr_failures rep2 \<and> vr_failures rep4 = vr_failures rep3"
    using o p by linarith
  then have pass: "(\<exists>rep. r = Inr rep \<and> vr_failures rep = 0) \<longleftrightarrow>
      corpus_holds K c dir entries \<and> vr_failures rep3 = vr_failures rep2 \<and> vr_failures rep4 = vr_failures rep3"
    using zero r(4) by simp
  show ?thesis
  proof (cases "authentic_at K (relying_on c) dir ''canonical.bin''")
    case None
    then show ?thesis unfolding pass using o by simp
  next
    case (Some canonical)
    let ?ok = "vf_canonical vf = ReplaceClean \<or> (m_have m \<and> ss_version canonical \<le> m_current m)"
    have offered: "vr_failures rep3 = vr_failures rep2 \<longleftrightarrow> ?ok" using o Some by simp
    have above: "m_have m1 \<and> v \<le> m_current m1 \<longleftrightarrow> v \<le> ss_version canonical \<or> (m_have m \<and> v \<le> m_current m)" if ?ok for v
    proof -
      have "m_have m1" "m_current m1 = (if m_have m then max (m_current m) (ss_version canonical) else ss_version canonical)"
        using o Some offered that by simp_all
      then show ?thesis by (simp add: le_max_iff_disj disj_commute)
    qed
    have replayed: "vr_failures rep4 = vr_failures rep3 \<longleftrightarrow>
        (\<exists>first. first_update K c dir entries = Some first \<and> m_have m1 \<and> ss_version first \<le> m_current m1)"
      using p by auto
    have "(\<exists>entries canonical first. dir_entries dir = Inr entries \<and> corpus_holds K c dir entries
         \<and> authentic_at K (relying_on c) dir ''canonical.bin'' = Some canonical \<and> first_update K c dir entries = Some first
         \<and> (vf_canonical vf = ReplaceClean \<or> (m_have m \<and> ss_version canonical \<le> m_current m))
         \<and> (ss_version first \<le> ss_version canonical \<or> (m_have m \<and> ss_version first \<le> m_current m)))
      \<longleftrightarrow> corpus_holds K c dir entries \<and> ?ok \<and> (\<exists>first. first_update K c dir entries = Some first
         \<and> (ss_version first \<le> ss_version canonical \<or> (m_have m \<and> ss_version first \<le> m_current m)))"
      by (simp add: e(1) Some) blast
    then show ?thesis unfolding pass offered replayed using above by (cases ?ok) auto
  qed
qed

section \<open>The state file\<close>

text \<open>Offering a version leaves the state file, or replaces it by the line of a version at or above the mark.\<close>

lemma try_advance_file:
  assumes "try_advance rf v m s = (r, m', s')"
  shows "m_path m' = m_path m \<and> m_fingerprint m' = m_fingerprint m \<and> mark_floor m \<le> mark_floor m'
    \<and> (files s' (m_path m) = files s (m_path m)
       \<or> mark_floor m \<le> unat v \<and> files s' (m_path m) = Some (as_bytes (mark_line (m_fingerprint m) (Some v))))"
proof -
  let ?line = "as_bytes (mark_line (m_fingerprint m) (Some v))"
  obtain x s2 where p: "replace_file rf (m_path m) ?line s = (x, s2)" by force
  have "files s2 (m_path m) = (if rf = ReplaceClean \<or> rf = DirSyncFails then Some ?line else files s (m_path m))"
    using replace_file_target(1) [of rf "m_path m" ?line s] p by simp
  then show ?thesis using assms p
    by (auto simp: try_advance_def mark_persist_def mark_floor_def word_le_nat_alt split: if_splits sum.splits)
qed

text \<open>What may be in the state file after offers of authentic versions.\<close>

definition file_advanced ::
  "(u32 \<Rightarrow> bool) \<Rightarrow> high_water_mark \<Rightarrow> fs \<Rightarrow> high_water_mark \<Rightarrow> fs \<Rightarrow> bool" where
  "file_advanced authentic m s m' s' \<longleftrightarrow>
     m_path m' = m_path m \<and> m_fingerprint m' = m_fingerprint m \<and> mark_floor m \<le> mark_floor m'
     \<and> (files s' (m_path m) = files s (m_path m)
        \<or> (\<exists>v. authentic v \<and> mark_floor m \<le> unat v \<and> files s' (m_path m) = Some (as_bytes (mark_line (m_fingerprint m) (Some v)))))"

lemma file_advanced_refl: "file_advanced A m s m s"
  by (simp add: file_advanced_def)

lemma file_advanced_trans: "file_advanced A m s m1 s1 \<Longrightarrow> file_advanced A m1 s1 m2 s2 \<Longrightarrow> file_advanced A m s m2 s2"
  unfolding file_advanced_def by (metis order_trans)

lemma offer_canonical_file:
  assumes "offer_canonical rf canonical rep m s = (rep', m', s')" and "\<And>r. canonical = Some r \<Longrightarrow> A (ss_version r)"
  shows "file_advanced A m s m' s'"
proof (cases canonical)
  case (Some r)
  obtain q m1 s1 where t: "try_advance rf (ss_version r) m s = (q, m1, s1)" by (metis prod.exhaust)
  then have "m' = m1 \<and> s' = s1" using assms(1) Some by (auto simp: offer_canonical_def split: sum.splits)
  then show ?thesis using try_advance_file [OF t] assms(2) [OF Some] by (auto simp: file_advanced_def)
next
  case None
  then show ?thesis using assms(1) file_advanced_refl by (simp add: offer_canonical_def)
qed

lemma replay_file:
  assumes "replay rf replayed rep m s = (rep', m', s')" and "\<And>r. replayed = Some r \<Longrightarrow> A (ss_version r)"
  shows "file_advanced A m s m' s'"
proof (cases "mark_current m \<noteq> None \<and> replayed \<noteq> None")
  case True
  then obtain r where r: "replayed = Some r" by auto
  obtain q m1 s1 where t: "try_advance rf (ss_version r) m s = (q, m1, s1)" by (metis prod.exhaust)
  then have "m' = m1 \<and> s' = s1"
    using assms(1) r True by (auto simp: replay_def Let_def split: sum.splits decision.splits option.splits)
  then show ?thesis using try_advance_file [OF t] assms(2) [OF r] by (auto simp: file_advanced_def)
next
  case False
  then have "m' = m" "s' = s" using assms(1) by (auto simp: replay_def Let_def split: option.splits)
  then show ?thesis using file_advanced_refl by simp
qed

text \<open>The versions a run may offer to its mark.\<close>

definition offered ::
  "('b, 'pk, 'sk, 'sig, 'rng, 'sph, 'agg) check_env \<Rightarrow> 'pk committee \<Rightarrow> corpus \<Rightarrow> u32 \<Rightarrow> bool" where
  "offered K c dir v \<longleftrightarrow> (\<exists>n r. authentic_at K (relying_on c) dir n = Some r \<and> ss_version r = v)"

lemma verifier_checks_file:
  assumes run: "verifier_checks K clock vf dir c m s = (r, m', s')"
  shows "file_advanced (offered K c dir) m s m' s'"
proof (cases "\<exists>entries. dir_entries dir = Inr entries \<and> list_all (readable dir) (prefixed entries ''update-'')
    \<and> list_all (readable dir) (prefixed entries ''attack-'')")
  case False
  then show ?thesis using verifier_checks_stops [OF False, of K clock vf c m s] run file_advanced_refl by auto
next
  case True
  then obtain entries where e: "dir_entries dir = Inr entries" "list_all (readable dir) (prefixed entries ''update-'')"
    "list_all (readable dir) (prefixed entries ''attack-'')" by blast
  obtain rep2 rep3 m1 s1 rep4 where
    r: "offer_canonical (vf_canonical vf) (authentic_at K (relying_on c) dir ''canonical.bin'') rep2 m s = (rep3, m1, s1)"
      "replay (vf_replay vf) (first_update K c dir entries) rep3 m1 s1 = (rep4, m', s')"
    using verifier_checks_run [OF run e] by metis
  have "offered K c dir (ss_version q)" if "first_update K c dir entries = Some q" for q
    using that by (auto simp: first_update_def offered_def split: list.splits)
  then have "file_advanced (offered K c dir) m1 s1 m' s'" by (intro replay_file [OF r(2)])
  moreover have "file_advanced (offered K c dir) m s m1 s1"
    by (intro offer_canonical_file [OF r(1)]) (auto simp: offered_def)
  ultimately show ?thesis by (rule file_advanced_trans [rotated])
qed

text \<open>Creating a mark touches the state file only when there is none.\<close>

lemma mark_create_file:
  assumes "mark_create sha3 lf mf rf p anchor s = (r, s')"
  shows "files s' p = files s p
    \<or> files s p = None \<and> files s' p = Some (as_bytes (mark_line (fingerprint sha3 anchor) None))"
proof -
  obtain l s1 where l: "mark_acquire_lock lf p s = (l, s1)" by force
  note kept = mark_acquire_lock_keeps [OF l]
  let ?line = "as_bytes (mark_line (fingerprint sha3 anchor) None)"
  obtain x s2 where w: "replace_file rf p ?line s1 = (x, s2)" by force
  have "files s2 p = (if rf = ReplaceClean \<or> rf = DirSyncFails then Some ?line else files s1 p)"
    using replace_file_target(1) [of rf p ?line s1] w by simp
  then show ?thesis using assms l w kept
    by (auto simp: mark_create_def mark_persist_def Let_def unlock_sibling_def split: sum.splits if_splits)
qed

section \<open>An example corpus\<close>

text \<open>One update, which is also the canonical record, and six artifacts that do not decode.\<close>

definition example_snark_record :: snark_status_list where
  "example_snark_record = snark_new WotsXmss [numbered_key 9] 1
     (case make_proof plain_leanvm fold_hash example_committee WotsXmss example_raws [numbered_key 9] 1 2 of Inl e \<Rightarrow> [] | Inr bs \<Rightarrow> bs)"

definition example_snark_ssz :: "snark_wire ssz" where
  "example_snark_ssz =
     (let w = \<lparr>sw_alg = 1, sw_status_list = ss_status_list example_snark_record, sw_version = 1, sw_zk_proof = ss_zk_proof example_snark_record\<rparr>
      in \<lparr>as_ssz_bytes = (\<lambda>_. [7]), from_ssz_bytes = (\<lambda>b. if b = [7] then Inr w else Inl ''InvalidByteLength'')\<rparr>)"

definition example_env ::
  "(bool list, 32 barr, 32 barr, 32 barr \<times> 32 barr \<times> u32, unit, unit, u32 \<times> 32 barr \<times> 32 barr list) check_env" where
  "example_env = \<lparr>k_hashes = \<lparr>sha3_256 = fold_hash, blake2s_256 = fold_hash\<rparr>, k_bits = bools_bitlist MAX_COMMITTEE_SIZE,
     k_raw_ssz = \<lparr>as_ssz_bytes = (\<lambda>_. []), from_ssz_bytes = (\<lambda>_. Inl ''unused'')\<rparr>,
     k_snark_ssz = example_snark_ssz, k_anchor = reference_codecs, k_leanvm = plain_leanvm\<rparr>"

definition example_names :: "string list" where
  "example_names = [''anchor.bin'', ''canonical.bin'', ''update-00.bin''] @ REQUIRED_ATTACKS"

definition example_corpus :: corpus where
  "example_corpus = \<lparr>dir_entries = Inr (map Inr example_names),
     dir_read = (\<lambda>n. if n = ''anchor.bin'' then Inr (committee_to_bytes reference_codecs example_committee)
                     else if n = ''canonical.bin'' \<or> n = ''update-00.bin'' then Inr [7] else Inr [0]),
     dir_is_file = (\<lambda>n. List.member example_names n)\<rparr>"

lemma example_prefixed:
  "prefixed (map Inr example_names) ''update-'' = [''update-00.bin'']"
  "set (prefixed (map Inr example_names) ''attack-'') = set REQUIRED_ATTACKS"
  by code_simp+

lemma example_snark_record_verifies: "snark_verify plain_leanvm fold_hash (relying_on example_committee) example_snark_record"
proof -
  have sv: "relying_on example_committee = example_snark_verifier"
    by (simp add: relying_on_def example_snark_verifier_def)
  obtain bs where "make_proof plain_leanvm fold_hash (sv_committee example_snark_verifier) WotsXmss example_raws [numbered_key 9] 1 2 = Inr bs"
    using example_proof_made by blast
  then show ?thesis
    using make_proof_verifies [OF plain_aggregate_complete example_snark_wf example_proof]
    unfolding sv by (simp add: example_snark_record_def example_snark_verifier_def)
qed

lemma example_decodes:
  "snark_from_bytes example_snark_ssz [7] = Inr example_snark_record" "snark_from_bytes example_snark_ssz [0] = Inl (NotSsz ''InvalidByteLength'')"
  by (simp_all add: snark_from_bytes_def example_snark_ssz_def Let_def algorithm_from_tag_def example_snark_record_def snark_new_def)

lemma example_authentic:
  "authentic_at example_env (relying_on example_committee) example_corpus ''canonical.bin'' = Some example_snark_record"
  "authentic_at example_env (relying_on example_committee) example_corpus ''update-00.bin'' = Some example_snark_record"
  "n \<in> set REQUIRED_ATTACKS \<Longrightarrow> authentic_at example_env (relying_on example_committee) example_corpus n = None"
  using example_snark_record_verifies example_decodes
  by (auto simp: authentic_at_def authenticate_def example_env_def example_corpus_def REQUIRED_ATTACKS_def)

lemma example_corpus_holds:
  "dir_entries example_corpus = Inr (map Inr example_names)"
  "corpus_holds example_env example_committee example_corpus (map Inr example_names)"
  "first_update example_env example_committee example_corpus (map Inr example_names) = Some example_snark_record"
proof -
  show "dir_entries example_corpus = Inr (map Inr example_names)" by (simp add: example_corpus_def)
  show "first_update example_env example_committee example_corpus (map Inr example_names) = Some example_snark_record"
    by (simp add: first_update_def example_prefixed example_authentic(2))
  have "readable example_corpus n" for n by (simp add: readable_def is_ok_def example_corpus_def)
  moreover have "list_all (dir_is_file example_corpus) REQUIRED_ATTACKS"
    by (simp add: example_corpus_def example_names_def list_all_iff List.member_iff)
  ultimately show "corpus_holds example_env example_committee example_corpus (map Inr example_names)"
    using example_authentic(3) example_prefixed
    by (simp add: corpus_holds_def example_authentic(2) list_all_iff)
qed

definition no_faults :: verifier_faults where
  "no_faults = \<lparr>vf_lock = LockClean, vf_read = ReadClean, vf_init = ReplaceClean, vf_canonical = ReplaceClean, vf_replay = ReplaceClean\<rparr>"

definition example_anchor :: bytes where
  "example_anchor = committee_to_bytes reference_codecs example_committee"

text \<open>A disk on which the mark of the example anchor has been initialized.\<close>

definition initialized_disk :: fs where
  "initialized_disk = no_files\<lparr>files := [state_path None ''artifacts'' \<mapsto> as_bytes (mark_line (fingerprint fold_hash example_anchor) None)]\<rparr>"

lemma example_mark_opens:
  "\<exists>m s1. mark_open fold_hash LockClean ReadClean (state_path None ''artifacts'') example_anchor initialized_disk = (Inr m, s1)"
  by (auto simp: mark_open_def mark_acquire_lock_def try_lock_sibling_def initialized_disk_def no_files_def Let_def
      sibling_not_self [symmetric] mark_line_utf8 parse_mark_line)

lemma example_anchor_decodes: "committee_from_bytes fold_hash reference_codecs example_anchor = Inr example_committee"
  using committee_roundtrip [OF _ _ example_committee_wf] reference_laws
  by (simp add: example_anchor_def reference_codecs_def)

definition still_clock :: "nat \<Rightarrow> clock_readings" where
  "still_clock _ = \<lparr>at_start = 0, at_decoded = 0, at_verify = 0, at_verified = 0, at_total = 0, cpu_before = 0, cpu_after = 0\<rparr>"

lemma example_run_facts:
  "dir_read example_corpus ''anchor.bin'' = Inr example_anchor"
  "sha3_256 (k_hashes example_env) = fold_hash" "k_anchor example_env = reference_codecs"
  "vf_lock no_faults = LockClean" "vf_read no_faults = ReadClean" "vf_canonical no_faults = ReplaceClean"
  by (simp_all add: example_corpus_def example_anchor_def example_env_def no_faults_def)

section \<open>Properties\<close>

text \<open>
  C37. The verdict of the corpus verifier is exact: a normal run exits with success if and only if the
  anchor decodes and the mark opens under it, every \<open>update-\<close> artifact authenticates, all six
  required forgeries are present, every \<open>attack-\<close> artifact reads and is rejected, the canonical
  record authenticates and its version is in force or can be stored, and the first update
  authenticates at a version the mark then refuses as stale.
\<close>

theorem verifier_verdict_is_exact:
  assumes "verifier_args args = Some (False, d)"
  shows "fst (verifier_main K clock vf dirs vstate args s) = Inr 0 \<longleftrightarrow>
    (\<exists>anchor c m s1 entries canonical first. dir_read (dirs d) ''anchor.bin'' = Inr anchor
       \<and> committee_from_bytes (sha3_256 (k_hashes K)) (k_anchor K) anchor = Inr c
       \<and> mark_open (sha3_256 (k_hashes K)) (vf_lock vf) (vf_read vf) (state_path vstate d) anchor s = (Inr m, s1)
       \<and> dir_entries (dirs d) = Inr entries \<and> corpus_holds K c (dirs d) entries
       \<and> authentic_at K (relying_on c) (dirs d) ''canonical.bin'' = Some canonical
       \<and> first_update K c (dirs d) entries = Some first
       \<and> (vf_canonical vf = ReplaceClean \<or> (m_have m \<and> ss_version canonical \<le> m_current m))
       \<and> (ss_version first \<le> ss_version canonical \<or> (m_have m \<and> ss_version first \<le> m_current m)))"
proof (cases "\<exists>anchor c m s1. dir_read (dirs d) ''anchor.bin'' = Inr anchor
    \<and> committee_from_bytes (sha3_256 (k_hashes K)) (k_anchor K) anchor = Inr c
    \<and> mark_open (sha3_256 (k_hashes K)) (vf_lock vf) (vf_read vf) (state_path vstate d) anchor s = (Inr m, s1)")
  case True
  then obtain anchor c m s1 where a: "dir_read (dirs d) ''anchor.bin'' = Inr anchor"
    "committee_from_bytes (sha3_256 (k_hashes K)) (k_anchor K) anchor = Inr c"
    "mark_open (sha3_256 (k_hashes K)) (vf_lock vf) (vf_read vf) (state_path vstate d) anchor s = (Inr m, s1)" by blast
  obtain r m' s' where run: "verifier_checks K clock vf (dirs d) c m s1 = (r, m', s')" by (metis prod.exhaust)
  have "fst (verifier_main K clock vf dirs vstate args s) = Inr 0 \<longleftrightarrow> (\<exists>rep. r = Inr rep \<and> vr_failures rep = 0)"
    using assms a run by (auto simp: verifier_main_def Let_def and_then_def expect_def split: sum.splits)
  then show ?thesis unfolding verifier_checks_pass [OF run] using a by simp
next
  case False
  then have "fst (verifier_main K clock vf dirs vstate args s) \<noteq> Inr 0"
    using assms by (auto simp: verifier_main_def Let_def and_then_def expect_def split: sum.splits prod.splits)
  then show ?thesis using False by blast
qed

theorem verifier_verdict_is_exact_witness:
  "fst (verifier_main example_env still_clock no_faults (\<lambda>_. example_corpus) None [] initialized_disk) = Inr 0"
proof -
  have "verifier_args [] = Some (False, ''artifacts'')" by (simp add: verifier_args_def)
  from verifier_verdict_is_exact [OF this, of example_env still_clock no_faults "\<lambda>_. example_corpus" None initialized_disk]
  show ?thesis
    using example_mark_opens example_anchor_decodes example_corpus_holds example_authentic(1)
    unfolding example_run_facts by auto
qed

text \<open>
  C38. The corpus verifier never rolls its state file back: whatever the arguments, the directory and
  the disk failures, after the process the state file is what it was, or the empty mark where there
  was no file, or the line of a version that an artifact of the directory authenticates under the
  anchor and that the content before it still let through.
\<close>

theorem verifier_state_only_advances:
  assumes "verifier_args args = Some (initialize, d)" and "verifier_main K clock vf dirs vstate args s = (r, s')"
    and "path = state_path vstate d"
  shows "files s' path = files s path
    \<or> (\<exists>anchor fp. dir_read (dirs d) ''anchor.bin'' = Inr anchor \<and> fp = fingerprint (sha3_256 (k_hashes K)) anchor
        \<and> (files s path = None \<and> initialize \<and> files s' path = Some (as_bytes (mark_line fp None))
           \<or> (\<exists>c raw least v. committee_from_bytes (sha3_256 (k_hashes K)) (k_anchor K) anchor = Inr c
                \<and> offered K c (dirs d) v \<and> files s path = Some raw \<and> content_floor fp raw = Some least \<and> least \<le> unat v
                \<and> files s' path = Some (as_bytes (mark_line fp (Some v))))))"
proof (cases "\<exists>anchor c. dir_read (dirs d) ''anchor.bin'' = Inr anchor
    \<and> committee_from_bytes (sha3_256 (k_hashes K)) (k_anchor K) anchor = Inr c")
  case False
  then have "s' = s" using assms(1,2) by (auto simp: verifier_main_def Let_def and_then_def expect_def split: sum.splits)
  then show ?thesis by simp
next
  case True
  then obtain anchor c where a: "dir_read (dirs d) ''anchor.bin'' = Inr anchor"
    "committee_from_bytes (sha3_256 (k_hashes K)) (k_anchor K) anchor = Inr c" by blast
  let ?sha3 = "sha3_256 (k_hashes K)"
  have unlocked: "files (unlock_sibling path t) = files t" for t by (simp add: unlock_sibling_def)
  note main = assms(1,2) [unfolded verifier_main_def] a assms(3)
  show ?thesis
  proof (cases initialize)
    case True
    obtain x s1 where cr: "mark_create ?sha3 (vf_lock vf) (vf_read vf) (vf_init vf) path anchor s = (x, s1)" by force
    then have "files s' path = files s1 path"
      using main True unlocked by (auto simp: Let_def and_then_def expect_def split: sum.splits)
    then show ?thesis using mark_create_file [OF cr] a(1) True by auto
  next
    case False
    obtain x s1 where op: "mark_open ?sha3 (vf_lock vf) (vf_read vf) path anchor s = (x, s1)" by force
    note kept = mark_open_keeps [OF op]
    show ?thesis
    proof (cases x)
      case (Inl e)
      then have "s' = s1" using main False op by (simp add: Let_def and_then_def expect_def)
      then show ?thesis using kept by simp
    next
      case (Inr m)
      obtain q m' s2 where run: "verifier_checks K clock vf (dirs d) c m s1 = (q, m', s2)" by (metis prod.exhaust)
      have "files s' path = files s2 path"
        using main False op Inr run unlocked by (auto simp: Let_def and_then_def expect_def split: sum.splits)
      moreover have "m_path m = path \<and> m_fingerprint m = fingerprint ?sha3 anchor
          \<and> (\<exists>raw. files s path = Some raw \<and> content_floor (fingerprint ?sha3 anchor) raw = Some (mark_floor m))"
        using mark_open_floor op Inr by blast
      ultimately show ?thesis using verifier_checks_file [OF run] a kept by (auto simp: file_advanced_def)
    qed
  qed
qed

theorem verifier_state_only_advances_witness:
  "\<exists>r s'. verifier_main example_env still_clock no_faults (\<lambda>_. example_corpus) None [''--init-state''] no_files = (r, s')
     \<and> (files s' (state_path None ''artifacts'') = None
        \<or> files s' (state_path None ''artifacts'') = Some (as_bytes (mark_line (fingerprint fold_hash example_anchor) None)))"
proof -
  have a: "verifier_args [''--init-state''] = Some (True, ''artifacts'')" by (simp add: verifier_args_def)
  obtain r s' where r: "verifier_main example_env still_clock no_faults (\<lambda>_. example_corpus) None [''--init-state''] no_files = (r, s')"
    by force
  from verifier_state_only_advances [OF a r refl] show ?thesis
    using r unfolding example_run_facts by (auto simp: no_files_def)
qed

end
