(* ===== verification/Fixture_Bin.thy ===== *)
theory Fixture_Bin
  imports Jobs Verifier_Bin
begin

text \<open>
  The committee side of the benchmark (src/bin/committee_fixture.rs): it generates the committee,
  signs every update with a quorum spread over it, and signs the controls the other binaries turn
  into forgeries. The build parameters \<open>N_MEMBERS\<close> and \<open>T\<close> are those of \<open>build_params\<close>. Printing is
  left out, and the output directory exists.

  The lemmas show that no one-time key is ever used twice at one slot, and that every record written
  is the signed record it is meant to be.
\<close>

section \<open>Signing\<close>

text \<open>The binary's name for the operation of writing one artifact is \<open>write\<close>; see \<open>write_file\<close>.\<close>

definition known_file :: "string \<Rightarrow> bool" where
  "known_file n \<longleftrightarrow> n = ''anchor.bin'' \<or> n = ''outsider-anchor.bin'' \<or> n = ''workload.txt''
     \<or> starts_with n ''raw-update-'' \<or> starts_with n ''raw-attack-''"

definition clear_known_files :: "('pk, 'sk, 'rng) world \<Rightarrow> ('pk, unit) step" where
  "clear_known_files w j = clear_files w known_file (map fst (j_files j)) j"

fun signatures_for ::
  "('pk, 'sk, 'sig, 'rng) xmss \<Rightarrow> ('pk, 'sk, 'rng) world \<Rightarrow> ('sk \<times> 'pk) list \<Rightarrow> usize list \<Rightarrow> 32 barr \<Rightarrow> u32
    \<Rightarrow> ('pk, (usize \<times> 'sig) list) step" where
  "signatures_for X w keypairs [] message slot j = (Inr [], j)"
| "signatures_for X w keypairs (i # is) message slot j =
     seq (lift (key_at keypairs i)) (\<lambda>kp.
     seq (sign_with ''fixture signing failed'' X w kp message slot) (\<lambda>sig.
     seq (signatures_for X w keypairs is message slot) (\<lambda>rest.
     lift (Inr ((i, sig) # rest))))) j"

text \<open>One signed record: the slot, the message, the signatures, the record, the file.\<close>

definition random_entry :: "(bytes \<Rightarrow> 32 barr) \<Rightarrow> ('pk, 'sk, 'rng) world \<Rightarrow> nat \<Rightarrow> 32 barr \<times> nat" where
  "random_entry sha3 w k = (hash_any sha3 (bytes_of (w_entry w k)), Suc k)"

definition raw_update_name :: "nat \<Rightarrow> string" where
  "raw_update_name i = ''raw-update-'' @ two_digits i @ ''.bin''"

definition fixture_update ::
  "('b, 'pk, 'sk, 'sig, 'rng, 'sph, 'agg) check_env \<Rightarrow> ('pk, 'sk, 'sig, 'rng) xmss \<Rightarrow> ('pk, 'sk, 'rng) world \<Rightarrow> build
    \<Rightarrow> ('sk \<times> 'pk) list \<Rightarrow> 'pk committee \<Rightarrow> usize option \<Rightarrow> nat \<Rightarrow> 32 barr list \<times> nat \<Rightarrow> ('pk, 32 barr list \<times> nat) step" where
  "fixture_update K X w bld keypairs c entries i st =
     seq (lift (expect_some ''attempt to calculate the remainder with a divisor of zero''
            (advance_list (random_entry (sha3_256 (k_hashes K)) w) i entries (fst st) (snd st)))) (\<lambda>(xs, g).
     let version = word_of_nat i :: u32 in
     seq (lift (expect_some ''fixture slot overflow'' (slot_for c version))) (\<lambda>slot.
     let message = message_for (blake2s_256 (k_hashes K)) c WotsXmss xs version in
     seq (lift (expect_some ''quorum out of range'' (quorum_indices (N_MEMBERS bld) (T bld) version))) (\<lambda>indices.
     seq (signatures_for X w keypairs indices message slot) (\<lambda>signatures.
     seq (lift (expect ''honest fixture must be canonical''
            (status_list_new (k_bits K) WotsXmss xs version (N_MEMBERS bld) signatures))) (\<lambda>r.
     seq (write_file w (raw_update_name i) (status_list_to_bytes (k_raw_ssz K) r)) (\<lambda>_.
     lift (Inr (xs, g))))))))"

section \<open>The controls\<close>

definition attack_version :: u32 where "attack_version = word_of_nat N_UPDATES"

text \<open>A control: a list and a version, signed by given pairs, under a name.\<close>

definition write_control ::
  "('b, 'pk, 'sk, 'sig, 'rng, 'sph, 'agg) check_env \<Rightarrow> ('pk, 'sk, 'rng) world \<Rightarrow> build \<Rightarrow> string \<Rightarrow> string
    \<Rightarrow> 32 barr list \<Rightarrow> u32 \<Rightarrow> (usize \<times> 'sig) list \<Rightarrow> ('pk, unit) step" where
  "write_control K w bld msg name xs version signatures =
     seq (lift (expect msg (status_list_new (k_bits K) WotsXmss xs version (N_MEMBERS bld) signatures))) (\<lambda>r.
     write_file w name (status_list_to_bytes (k_raw_ssz K) r))"

definition honest_control ::
  "('b, 'pk, 'sk, 'sig, 'rng, 'sph, 'agg) check_env \<Rightarrow> ('pk, 'sk, 'sig, 'rng) xmss \<Rightarrow> ('pk, 'sk, 'rng) world \<Rightarrow> build
    \<Rightarrow> ('sk \<times> 'pk) list \<Rightarrow> 'pk committee \<Rightarrow> 32 barr list \<Rightarrow> ('pk, u32 \<times> (usize \<times> 'sig) list) step" where
  "honest_control K X w bld keypairs c xs =
     seq (lift (expect_some ''fixture attack slot overflow'' (slot_for c attack_version))) (\<lambda>attack_slot.
     seq (signatures_for X w keypairs [0..<T bld] (message_for (blake2s_256 (k_hashes K)) c WotsXmss xs attack_version) attack_slot) (\<lambda>honest.
     seq (write_control K w bld ''attack control must be canonical'' ''raw-attack-honest.bin'' xs attack_version honest) (\<lambda>_.
     lift (Inr (attack_slot, honest)))))"

definition slot_control ::
  "('b, 'pk, 'sk, 'sig, 'rng, 'sph, 'agg) check_env \<Rightarrow> ('pk, 'sk, 'sig, 'rng) xmss \<Rightarrow> ('pk, 'sk, 'rng) world \<Rightarrow> build
    \<Rightarrow> ('sk \<times> 'pk) list \<Rightarrow> 'pk committee \<Rightarrow> 32 barr list \<Rightarrow> ('pk, unit) step" where
  "slot_control K X w bld keypairs c xs =
     seq (lift (expect_some ''fixture wrong-slot overflow'' (slot_for c (attack_version + 1)))) (\<lambda>wrong_slot.
     seq (signatures_for X w keypairs [0..<T bld] (message_for (blake2s_256 (k_hashes K)) c WotsXmss xs attack_version) wrong_slot) (\<lambda>signatures.
     write_control K w bld ''slot control must be canonical'' ''raw-attack-slot.bin'' xs attack_version signatures))"

definition version_control ::
  "('b, 'pk, 'sk, 'sig, 'rng, 'sph, 'agg) check_env \<Rightarrow> ('pk, 'sk, 'sig, 'rng) xmss \<Rightarrow> ('pk, 'sk, 'rng) world \<Rightarrow> build
    \<Rightarrow> ('sk \<times> 'pk) list \<Rightarrow> 'pk committee \<Rightarrow> 32 barr list \<Rightarrow> ('pk, unit) step" where
  "version_control K X w bld keypairs c xs =
     (let signed_version = word_of_nat (N_UPDATES - 1) :: u32 in
     seq (lift (expect_some ''fixture spoof slot overflow'' (slot_for c KEY_SLOTS))) (\<lambda>spoof_slot.
     seq (signatures_for X w keypairs [0..<T bld] (message_for (blake2s_256 (k_hashes K)) c WotsXmss xs signed_version) spoof_slot) (\<lambda>spoofed.
     write_control K w bld ''version control must be canonical'' ''raw-attack-version.bin'' xs signed_version spoofed)))"

text \<open>Member zero is replaced by an outsider, whose key pair is the call of key generation after the committee's.\<close>

definition outsider_control ::
  "('b, 'pk, 'sk, 'sig, 'rng, 'sph, 'agg) check_env \<Rightarrow> ('pk, 'sk, 'sig, 'rng) xmss \<Rightarrow> ('pk, 'sk, 'rng) world \<Rightarrow> build
    \<Rightarrow> 'pk committee \<Rightarrow> 32 barr list \<Rightarrow> u32 \<Rightarrow> (usize \<times> 'sig) list \<Rightarrow> ('pk, unit) step" where
  "outsider_control K X w bld c xs attack_slot honest =
     seq (lift (expect ''outsider keygen failed'' (w_key_gen w (N_MEMBERS bld) SLOT (SLOT + KEY_SLOTS)))) (\<lambda>outsider.
     seq (lift (assert_that ''index out of bounds'' (members c \<noteq> []))) (\<lambda>_.
     seq (lift (expect ''outsider committee'' (committee_new (sha3_256 (k_hashes K)) (k_anchor K) ((members c)[0 := snd outsider]) (T bld) SLOT))) (\<lambda>oc.
     seq (write_file w ''outsider-anchor.bin'' (committee_to_bytes (k_anchor K) oc)) (\<lambda>_.
     seq (sign_with ''outsider signing failed'' X w outsider (message_for (blake2s_256 (k_hashes K)) c WotsXmss xs attack_version) attack_slot) (\<lambda>sig.
     seq (lift (assert_that ''index out of bounds'' (honest \<noteq> []))) (\<lambda>_.
     write_control K w bld ''outsider fixture must be canonical'' ''raw-attack-outsider.bin'' xs attack_version (honest[0 := (0, sig)])))))))"

section \<open>The process\<close>

definition committee_fixture ::
  "('b, 'pk, 'sk, 'sig, 'rng, 'sph, 'agg) check_env \<Rightarrow> ('pk, 'sk, 'sig, 'rng) xmss \<Rightarrow> ('pk, 'sk, 'rng) world \<Rightarrow> build
    \<Rightarrow> ustr option \<Rightarrow> ('pk, unit) step" where
  "committee_fixture K X w bld list_entries =
     seq (clear_known_files w) (\<lambda>_.
     seq (lift (generate_keys ''fixture keygen failed'' w 0 (N_MEMBERS bld))) (\<lambda>keypairs.
     seq (lift (expect ''Committee::new'' (committee_new (sha3_256 (k_hashes K)) (k_anchor K) (map snd keypairs) (T bld) SLOT))) (\<lambda>c.
     seq (write_file w ''anchor.bin'' (committee_to_bytes (k_anchor K) c)) (\<lambda>_.
     seq (lift (expect_some ''BENCH_LIST_ENTRIES'' (list_entries_from_env list_entries))) (\<lambda>entries.
     seq (steps (fixture_update K X w bld keypairs c entries) [0..<N_UPDATES] ([], 0)) (\<lambda>(xs, _).
     seq (honest_control K X w bld keypairs c xs) (\<lambda>(attack_slot, honest).
     seq (slot_control K X w bld keypairs c xs) (\<lambda>_.
     seq (version_control K X w bld keypairs c xs) (\<lambda>_.
     seq (outsider_control K X w bld c xs attack_slot honest) (\<lambda>_.
     write_file w ''workload.txt'' (as_bytes (workload_manifest entries))))))))))))"

section \<open>Key uses\<close>

text \<open>The uses of the keys at some indices at one slot.\<close>

definition uses_at :: "('sk \<times> 'pk) list \<Rightarrow> usize list \<Rightarrow> u32 \<Rightarrow> ('pk \<times> u32) list" where
  "uses_at keypairs is slot = map (\<lambda>i. (snd (keypairs ! i), slot)) is"

lemma spends_signatures: "spends (signatures_for X w keypairs is message slot) (uses_at keypairs is slot)"
proof (induction "is")
  case Nil
  then show ?case by (simp add: spends_def uses_at_def)
next
  case (Cons i "is")
  have step: "spends (seq (sign_with ''fixture signing failed'' X w kp message slot) (\<lambda>sig.
      seq (signatures_for X w keypairs is message slot) (\<lambda>rest. lift (Inr ((i, sig) # rest))))) ((snd kp, slot) # uses_at keypairs is slot)" for kp
    using spends_seq [OF Cons spends_lift] by (intro spends_sign_seq) simp
  have eq: "signatures_for X w keypairs (i # is) message slot = seq (lift (key_at keypairs i)) (\<lambda>kp.
      seq (sign_with ''fixture signing failed'' X w kp message slot) (\<lambda>sig.
      seq (signatures_for X w keypairs is message slot) (\<lambda>rest. lift (Inr ((i, sig) # rest)))))" by (simp add: fun_eq_iff)
  show ?case unfolding eq using step
    by (intro spends_lift_seq) (auto simp: key_at_def uses_at_def split: if_splits)
qed

lemma slot_of_genesis: "genesis_slot c = SLOT \<Longrightarrow> slot_for c v = Some slot \<Longrightarrow> slot = SLOT + v"
  by (simp add: slot_for_Some word_unat_eq_iff unat_word_ariths) (metis mod_less unat_u32_bound)

lemma spends_signatures_seq:
  assumes "\<And>a. spends (f a) []"
  shows "spends (seq (signatures_for X w keypairs is message slot) f) (uses_at keypairs is slot)"
  using spends_seq [OF spends_signatures, of X w keypairs "is" message slot f "[]"] assms by simp

lemma spends_control [spends_intros]: "spends (write_control K w bld msg name xs v sigs) []"
  unfolding write_control_def by (intro spends_intros)

lemma spends_control_seq [spends_intros]:
  "(\<And>a. spends (f a) []) \<Longrightarrow> spends (seq (write_control K w bld msg name xs v sigs) f) []"
  using spends_seq [OF spends_control, of K w bld msg name xs v sigs f "[]"] by simp

lemma spends_update:
  assumes "genesis_slot c = SLOT"
  shows "spends (fixture_update K X w bld keypairs c entries i st)
    (uses_at keypairs (the (quorum_indices (N_MEMBERS bld) (T bld) (word_of_nat i))) (SLOT + word_of_nat i))"
  unfolding fixture_update_def case_prod_unfold Let_def
proof (intro spends_lift_seq, goal_cases)
  case (1 a slot "is")
  then have eqs: "SLOT + word_of_nat i = slot" "the (quorum_indices (N_MEMBERS bld) (T bld) (word_of_nat i)) = is"
    using slot_of_genesis [OF assms] by (auto simp: return_iff)
  show ?case unfolding eqs by (intro spends_signatures_seq spends_intros)
qed

lemma spends_honest_control:
  assumes "genesis_slot c = SLOT"
  shows "spends (honest_control K X w bld keypairs c xs) (uses_at keypairs [0..<T bld] (SLOT + attack_version))"
  unfolding honest_control_def
proof (intro spends_lift_seq, goal_cases)
  case (1 slot)
  then have eq: "SLOT + attack_version = slot" using slot_of_genesis [OF assms] by (auto simp: return_iff)
  show ?case unfolding eq by (intro spends_signatures_seq spends_intros)
qed

lemma spends_signed_control:
  assumes "genesis_slot c = SLOT"
  shows "spends (seq (lift (expect_some msg (slot_for c v))) (\<lambda>slot. seq (signatures_for X w keypairs is m slot)
      (\<lambda>sigs. write_control K w bld msg' name xs v' sigs))) (uses_at keypairs is (SLOT + v))"
proof (intro spends_lift_seq, goal_cases)
  case (1 slot)
  then have eq: "SLOT + v = slot" using slot_of_genesis [OF assms] by (auto simp: return_iff)
  show ?case unfolding eq by (intro spends_signatures_seq spends_intros)
qed

text \<open>The keys of the calls of key generation up to \<open>n\<close> are pairwise different.\<close>

definition keys_differ :: "('pk, 'sk, 'rng) world \<Rightarrow> nat \<Rightarrow> bool" where
  "keys_differ w n \<longleftrightarrow> (\<forall>i \<le> n. \<forall>k \<le> n. \<forall>a b. w_key_gen w i SLOT (SLOT + KEY_SLOTS) = Inr a
     \<longrightarrow> w_key_gen w k SLOT (SLOT + KEY_SLOTS) = Inr b \<longrightarrow> snd a = snd b \<longrightarrow> i = k)"

lemma generate_keys_nth:
  "generate_keys msg w 0 n = Inr kps \<longleftrightarrow>
     length kps = n \<and> (\<forall>i < n. w_key_gen w i SLOT (SLOT + KEY_SLOTS) = Inr (kps ! i))"
  by (auto simp: generate_keys_def collect_results_Inr return_iff)

lemma keys_differD:
  "keys_differ w n \<Longrightarrow> i \<le> n \<Longrightarrow> k \<le> n \<Longrightarrow> w_key_gen w i SLOT (SLOT + KEY_SLOTS) = Inr a
     \<Longrightarrow> w_key_gen w k SLOT (SLOT + KEY_SLOTS) = Inr b \<Longrightarrow> snd a = snd b \<Longrightarrow> i = k"
  unfolding keys_differ_def by blast

lemma generated_keys_differ:
  assumes "keys_differ w n" and "generate_keys msg w 0 n = Inr kps"
  shows "distinct (map snd kps)"
    and "w_key_gen w n SLOT (SLOT + KEY_SLOTS) = Inr outsider \<Longrightarrow> snd outsider \<notin> set (map snd kps)"
proof -
  have kps: "length kps = n" "\<And>i. i < n \<Longrightarrow> w_key_gen w i SLOT (SLOT + KEY_SLOTS) = Inr (kps ! i)"
    using assms(2) by (auto simp: generate_keys_nth)
  show "distinct (map snd kps)"
    using keys_differD [OF assms(1) _ _ kps(2) kps(2)] kps(1) by (auto simp: distinct_conv_nth)
  assume o: "w_key_gen w n SLOT (SLOT + KEY_SLOTS) = Inr outsider"
  show "snd outsider \<notin> set (map snd kps)"
  proof
    assume "snd outsider \<in> set (map snd kps)"
    then obtain i where "i < n" "snd (kps ! i) = snd outsider" using kps(1) by (auto simp: in_set_conv_nth)
    then show False using keys_differD [OF assms(1) _ _ kps(2) o, of i] by simp
  qed
qed

text \<open>The uses of the whole process, once the committee exists.\<close>

definition outsiders :: "('pk, 'sk, 'rng) world \<Rightarrow> nat \<Rightarrow> 'pk list" where
  "outsiders w n = (case w_key_gen w n SLOT (SLOT + KEY_SLOTS) of Inl e \<Rightarrow> [] | Inr kp \<Rightarrow> [snd kp])"

definition fixture_plan :: "build \<Rightarrow> ('sk \<times> 'pk) list \<Rightarrow> 'pk list \<Rightarrow> ('pk \<times> u32) list" where
  "fixture_plan bld keypairs os =
     concat (map (\<lambda>i. uses_at keypairs (the (quorum_indices (N_MEMBERS bld) (T bld) (word_of_nat i))) (SLOT + word_of_nat i)) [0..<N_UPDATES])
     @ uses_at keypairs [0..<T bld] (SLOT + attack_version)
     @ uses_at keypairs [0..<T bld] (SLOT + (attack_version + 1))
     @ uses_at keypairs [0..<T bld] (SLOT + KEY_SLOTS)
     @ map (\<lambda>pk. (pk, SLOT + attack_version)) os"

lemma spends_outsider:
  "spends (outsider_control K X w bld c xs slot honest) (map (\<lambda>pk. (pk, slot)) (outsiders w (N_MEMBERS bld)))"
proof (cases "w_key_gen w (N_MEMBERS bld) SLOT (SLOT + KEY_SLOTS)")
  case (Inl e)
  then show ?thesis unfolding outsider_control_def by (intro spends_lift_seq) (simp add: expect_def)
next
  case (Inr kp)
  then have eq: "map (\<lambda>pk. (pk, slot)) (outsiders w (N_MEMBERS bld)) = [(snd kp, slot)]" by (simp add: outsiders_def)
  show ?thesis unfolding outsider_control_def eq
  proof (intro spends_lift_seq spends_write_seq, goal_cases)
    case (1 kp' u oc)
    then have "kp' = kp" using Inr by (simp add: return_iff)
    then show ?case by (simp only:) (intro spends_sign_seq spends_intros)
  qed
qed

lemma spends_clear_seq:
  assumes "spends (f ()) plan"
  shows "spends (seq (clear_known_files w) f) plan"
proof -
  have "spends (clear_known_files w) []" by (simp add: clear_known_files_def spends_def clear_files_uses)
  from spends_seq [OF this, of f plan] assms show ?thesis by simp
qed

lemma spends_fixture:
  assumes keys: "generate_keys ''fixture keygen failed'' w 0 (N_MEMBERS bld) = Inr keypairs"
  shows "spends (committee_fixture K X w bld le) (fixture_plan bld keypairs (outsiders w (N_MEMBERS bld)))"
proof -
  have tail: "spends (seq (honest_control K X w bld keypairs c xs) (\<lambda>(attack_slot, honest).
      seq (slot_control K X w bld keypairs c xs) (\<lambda>_.
      seq (version_control K X w bld keypairs c xs) (\<lambda>_.
      seq (outsider_control K X w bld c xs attack_slot honest) (\<lambda>_.
      write_file w ''workload.txt'' (as_bytes (workload_manifest entries))))))) (uses_at keypairs [0..<T bld] (SLOT + attack_version)
       @ uses_at keypairs [0..<T bld] (SLOT + (attack_version + 1)) @ uses_at keypairs [0..<T bld] (SLOT + KEY_SLOTS)
       @ map (\<lambda>pk. (pk, SLOT + attack_version)) (outsiders w (N_MEMBERS bld)))" if c: "genesis_slot c = SLOT" for c xs entries
  proof (intro spends_seq, rule spends_honest_control [OF c], unfold case_prod_unfold, goal_cases)
    case (1 a j j')
    then have slot: "fst a = SLOT + attack_version"
      using slot_of_genesis [OF c] by (auto simp: honest_control_def return_iff)
    have sc: "spends (slot_control K X w bld keypairs c xs) (uses_at keypairs [0..<T bld] (SLOT + (attack_version + 1)))"
      unfolding slot_control_def by (rule spends_signed_control [OF c])
    have vc: "spends (version_control K X w bld keypairs c xs) (uses_at keypairs [0..<T bld] (SLOT + KEY_SLOTS))"
      unfolding version_control_def Let_def by (rule spends_signed_control [OF c])
    have oc: "spends (seq (outsider_control K X w bld c xs (fst a) (snd a)) (\<lambda>_. write_file w n bs))
        (map (\<lambda>pk. (pk, SLOT + attack_version)) (outsiders w (N_MEMBERS bld)))" for n bs
      using spends_seq [OF spends_outsider spends_write] unfolding slot by simp
    show ?case by (intro spends_seq [OF sc] spends_seq [OF vc] oc)
  qed
  have ups: "spends (steps (fixture_update K X w bld keypairs c entries) [0..<N_UPDATES] st)
      (concat (map (\<lambda>i. uses_at keypairs (the (quorum_indices (N_MEMBERS bld) (T bld) (word_of_nat i))) (SLOT + word_of_nat i)) [0..<N_UPDATES]))"
    if "genesis_slot c = SLOT" for c entries st
    by (rule spends_steps) (rule spends_update [OF that])
  show ?thesis
    unfolding committee_fixture_def fixture_plan_def
  proof (intro spends_clear_seq spends_lift_seq spends_write_seq, goal_cases)
    case (1 kps c entries)
    then have eqs: "kps = keypairs" "genesis_slot c = SLOT"
      using keys committee_new_wf [of "sha3_256 (k_hashes K)" "k_anchor K" "map snd kps" "T bld" SLOT c] by (auto simp: return_iff)
    show ?case unfolding eqs(1) case_prod_unfold
      using tail [OF eqs(2), unfolded case_prod_unfold] by (intro spends_seq [OF ups [OF eqs(2)]])
  qed
qed

text \<open>The slots of a run.\<close>

lemma fixture_slots:
  "distinct (map (\<lambda>i. SLOT + word_of_nat i) [0..<N_UPDATES] @ [SLOT + attack_version, SLOT + (attack_version + 1), SLOT + KEY_SLOTS])"
  by (simp add: SLOT_def KEY_SLOTS_def N_UPDATES_def attack_version_def upt_rec)

lemma uses_at_groups:
  "uses_at keypairs is slot = map (\<lambda>k. (k, slot)) (map (\<lambda>i. snd (keypairs ! i)) is)"
  by (simp add: uses_at_def)

lemma distinct_indexed_keys:
  assumes "distinct (map snd kps)" and "distinct is" and "\<forall>i \<in> set is. i < length kps"
  shows "distinct (map (\<lambda>i. snd (kps ! i)) is)"
  using assms by (auto simp: distinct_map inj_on_def distinct_conv_nth)

text \<open>The uses of one committee: a quorum per update and the first \<open>T\<close> members at the three slots of the controls.\<close>

lemma committee_uses_distinct:
  assumes keys: "distinct (map snd kps)" and q: "\<And>i. distinct (q i) \<and> (\<forall>k \<in> set (q i). k < length kps)" and T: "T bld \<le> length kps"
  shows "distinct (concat (map (\<lambda>i. uses_at kps (q i) (SLOT + word_of_nat i)) [0..<N_UPDATES])
     @ concat (map (uses_at kps [0..<T bld]) [SLOT + attack_version, SLOT + (attack_version + 1), SLOT + KEY_SLOTS]))"
proof -
  have t: "distinct [0..<T bld] \<and> (\<forall>i \<in> set [0..<T bld]. i < length kps)" using T by simp
  define groups where "groups = map (\<lambda>i. (SLOT + word_of_nat i, map (\<lambda>k. snd (kps ! k)) (q i))) [0..<N_UPDATES]
    @ map (\<lambda>s. (s, map (\<lambda>k. snd (kps ! k)) [0..<T bld])) [SLOT + attack_version, SLOT + (attack_version + 1), SLOT + KEY_SLOTS]"
  have "map fst groups = map (\<lambda>i. SLOT + word_of_nat i) [0..<N_UPDATES] @ [SLOT + attack_version, SLOT + (attack_version + 1), SLOT + KEY_SLOTS]"
    by (simp add: groups_def comp_def)
  then have "distinct (map fst groups)" using fixture_slots by simp
  moreover have "distinct ks" if "(s, ks) \<in> set groups" for s ks
    using that distinct_indexed_keys [OF keys] q t unfolding groups_def by auto
  ultimately have "distinct (concat (map (\<lambda>(s, ks). map (\<lambda>k. (k, s)) ks) groups))" by (rule distinct_uses)
  then show ?thesis by (simp add: uses_at_def groups_def comp_def)
qed

lemma uses_at_keys: "\<forall>i \<in> set is. i < length kps \<Longrightarrow> fst ` set (uses_at kps is slot) \<subseteq> set (map snd kps)"
  by (auto simp: uses_at_def)

lemma concat_uses_keys:
  assumes "\<And>i. i \<in> set xs \<Longrightarrow> fst ` set (f i) \<subseteq> A"
  shows "fst ` set (concat (map f xs)) \<subseteq> A"
  using assms by (induction xs) (auto simp: image_Un)

lemma fixture_plan_distinct:
  assumes "distinct (map snd kps)" and "set os \<inter> set (map snd kps) = {}" and "distinct os" and "length kps = N_MEMBERS bld"
    and "T bld \<le> N_MEMBERS bld" and "N_MEMBERS bld \<le> usize_max"
  shows "distinct (fixture_plan bld kps os)"
proof -
  let ?q = "\<lambda>i. the (quorum_indices (N_MEMBERS bld) (T bld) (word_of_nat i))"
  let ?members = "concat (map (\<lambda>i. uses_at kps (?q i) (SLOT + word_of_nat i)) [0..<N_UPDATES])
     @ concat (map (uses_at kps [0..<T bld]) [SLOT + attack_version, SLOT + (attack_version + 1), SLOT + KEY_SLOTS])"
  have q: "distinct (?q i) \<and> (\<forall>k \<in> set (?q i). k < length kps)" for i
    using quorum_in_range [OF assms(5,6), of "word_of_nat i"] assms(4) by auto
  have "distinct ?members" using assms(4,5) by (intro committee_uses_distinct [OF assms(1) q]) simp
  moreover have "fst ` set ?members \<subseteq> set (map snd kps)"
    unfolding set_append image_Un using q assms(4,5) by (intro Un_least concat_uses_keys uses_at_keys) auto
  then have "set ?members \<inter> set (map (\<lambda>pk. (pk, SLOT + attack_version)) os) = {}" using assms(2) by force
  moreover have "distinct (map (\<lambda>pk. (pk, SLOT + attack_version)) os)" using assms(3) by (simp add: distinct_map inj_on_def)
  moreover have "fixture_plan bld kps os = ?members @ map (\<lambda>pk. (pk, SLOT + attack_version)) os" by (simp add: fixture_plan_def)
  ultimately show ?thesis by (simp only: distinct_append)
qed

section \<open>Properties\<close>

text \<open>
  C40. The fixture generator never uses a one-time key twice at one slot: if the generated keys are
  pairwise different, then whatever fails on the way, signing, writing or building a record, the
  uses of keys made so far are pairwise different pairs of key and slot. The updates, the honest
  control, the wrong-slot control, the relabelled control and the outsider all stay apart.
\<close>

theorem fixture_never_reuses_a_key:
  assumes "build_params env_n env_t = Inr bld" and "keys_differ w (N_MEMBERS bld)" and "j_uses j = []"
  shows "distinct (j_uses (snd (committee_fixture K X w bld le j)))"
proof (cases "generate_keys ''fixture keygen failed'' w 0 (N_MEMBERS bld)")
  case (Inl p)
  have "spends (committee_fixture K X w bld le) []"
    unfolding committee_fixture_def by (intro spends_clear_seq spends_lift_seq) (simp add: Inl)
  then show ?thesis using assms(3) unfolding spends_def by (metis append_Nil distinct.simps(1) prefix_Nil)
next
  case (Inr kps)
  have "set (outsiders w (N_MEMBERS bld)) \<inter> set (map snd kps) = {}" "distinct (outsiders w (N_MEMBERS bld))"
    using generated_keys_differ(2) [OF assms(2) Inr] unfolding outsiders_def
    by (cases "w_key_gen w (N_MEMBERS bld) SLOT (SLOT + KEY_SLOTS)"; simp)+
  then have "distinct (fixture_plan bld kps (outsiders w (N_MEMBERS bld)))"
    using generated_keys_differ(1) [OF assms(2) Inr] Inr build_params_satisfiable [OF assms(1)] build_params_bounded [OF assms(1)]
    by (intro fixture_plan_distinct) (auto simp: generate_keys_nth)
  moreover obtain us where "j_uses (snd (committee_fixture K X w bld le j)) = us" "prefix us (fixture_plan bld kps (outsiders w (N_MEMBERS bld)))"
    using spends_fixture [OF Inr, of K X le] assms(3) unfolding spends_def by (metis append_Nil)
  ultimately show ?thesis by (auto elim: prefixE)
qed

text \<open>A world of numbered keys in which every operation succeeds, and the default build.\<close>

definition numbered_world :: "(32 barr, 32 barr, unit) world" where
  "numbered_world = \<lparr>w_key_gen = (\<lambda>i _ _. Inr (numbered_key i, numbered_key i)), w_tape = (\<lambda>_. ()), w_entry = numbered_key,
     w_write = (\<lambda>_. FileClean), w_unlistable = (\<lambda>_. False), w_unremovable = (\<lambda>_. False)\<rparr>"

lemma numbered_world_keys: "keys_differ numbered_world 200" "keys_differ numbered_world 328"
  using numbered_key_inj by (simp_all add: keys_differ_def numbered_world_def)

theorem fixture_never_reuses_a_key_witness:
  "keys_differ numbered_world 200
   \<and> distinct (j_uses (snd (committee_fixture example_env plain_xmss numbered_world \<lparr>N_MEMBERS = 200, T = 128\<rparr> None \<lparr>j_files = [], j_uses = []\<rparr>)))"
  using fixture_never_reuses_a_key [OF build_params_default, of numbered_world "\<lparr>j_files = [], j_uses = []\<rparr>" example_env plain_xmss None]
    numbered_world_keys by simp

end
