(* ===== verification/Prover_Bin.thy ===== *)
theory Prover_Bin
  imports Fixture_Bin
begin

text \<open>
  The aggregator of the benchmark (src/bin/prover.rs), in its two modes: over the records of a
  fixture directory, where it holds no secret key, and self-contained, where it generates the
  committee and rotates its signers. Both write the updates, the canonical record and six forgeries.
  Timings, memory figures and printing are left out; \<open>u32\<close> additions wrap as in a release build.

  The lemmas show what each forgery is, that the self-contained mode never uses a key twice at one
  slot, and what the output directory holds.
\<close>

section \<open>Helpers\<close>

definition require_corpus_quorum :: "build \<Rightarrow> (panic, unit) result" where
  "require_corpus_quorum bld = assert_that ''the verifier corpus needs t >= 2'' (\<not> T bld < 2)"

text \<open>The last byte of a byte string with its lowest bit flipped.\<close>

definition flip_last :: "bytes \<Rightarrow> bytes" where
  "flip_last bs = butlast bs @ [last bs XOR 1]"

definition corrupt_proof_body :: "('pk, 'sig, 'sph, 'agg) leanvm \<Rightarrow> bytes \<Rightarrow> (panic, bytes) result" where
  "corrupt_proof_body L p =
     and_then (expect ''honest aggregate must decode'' (agg_from_bytes L p)) (\<lambda>honest.
     and_then (assert_that ''aggregate has proof bytes'' (p \<noteq> [])) (\<lambda>_.
     and_then (expect ''changing a proof-body bit must preserve the aggregate shape'' (agg_from_bytes L (flip_last p))) (\<lambda>spliced.
     and_then (assert_that ''xmss_signers'' (agg_xmss_signers L spliced = agg_xmss_signers L honest)) (\<lambda>_.
     and_then (assert_that ''sphincs_signers'' (agg_sphincs_signers L spliced = agg_sphincs_signers L honest)) (\<lambda>_.
     and_then (assert_that ''the proof-body control must differ from the honest proof'' (agg_to_bytes L spliced \<noteq> p)) (\<lambda>_.
     Inr (agg_to_bytes L spliced)))))))"

definition fixture_files :: "directory \<Rightarrow> string \<Rightarrow> (panic, string list) result" where
  "fixture_files dir start =
     (case dir_entries dir of Inl e \<Rightarrow> Inl (Panic ''cannot read fixture directory'') | Inr entries \<Rightarrow> Inr (prefixed entries start))"

definition load_committee ::
  "('b, 'pk, 'sk, 'sig, 'rng, 'sph, 'agg) check_env \<Rightarrow> directory \<Rightarrow> string \<Rightarrow> (panic, 'pk committee) result" where
  "load_committee K dir name =
     and_then (expect ''cannot read fixture anchor'' (dir_read dir name)) (\<lambda>bs.
     expect ''malformed fixture anchor'' (committee_from_bytes (sha3_256 (k_hashes K)) (k_anchor K) bs))"

definition load_raw ::
  "('b, 'pk, 'sk, 'sig, 'rng, 'sph, 'agg) check_env \<Rightarrow> directory \<Rightarrow> string \<Rightarrow> (panic, ('b, 'sig) status_list) result" where
  "load_raw K dir name =
     and_then (expect ''cannot read raw fixture'' (dir_read dir name)) (\<lambda>bs.
     expect ''malformed raw fixture'' (status_list_from_bytes (k_bits K) (k_raw_ssz K) bs))"

definition aggregation_inputs ::
  "('b, 'pk, 'sk, 'sig, 'rng, 'sph, 'agg) check_env \<Rightarrow> 'pk committee \<Rightarrow> ('b, 'sig) status_list \<Rightarrow> (panic, ('pk \<times> 'sig) list) result" where
  "aggregation_inputs K c r =
     and_then (assert_that ''fixture bitmap does not name this anchor'' (signer_slots (k_bits K) r = length (members c))) (\<lambda>_.
     and_then (assert_that ''fixture signer bitmap/signature count mismatch'' (signer_count (k_bits K) r = length (sl_signatures r))) (\<lambda>_.
     Inr (map (\<lambda>(i, sig). (members c ! i, sig)) (zip (signer_indices (k_bits K) r) (sl_signatures r)))))"

section \<open>Records made from a fixture\<close>

text \<open>The prover's two calls; their panics are those of the module.\<close>

definition prove ::
  "('b, 'pk, 'sk, 'sig, 'rng, 'sph, 'agg) check_env \<Rightarrow> 'pk committee \<Rightarrow> algorithms \<Rightarrow> ('pk \<times> 'sig) list \<Rightarrow> 32 barr list \<Rightarrow> u32
    \<Rightarrow> (panic, bytes) result" where
  "prove K c alg raws xs version =
     expect ''make_proof'' (make_proof (k_leanvm K) (blake2s_256 (k_hashes K)) c alg raws xs version LOG_INV_RATE)"

definition prove_at ::
  "('b, 'pk, 'sk, 'sig, 'rng, 'sph, 'agg) check_env \<Rightarrow> ('pk \<times> 'sig) list \<Rightarrow> 32 barr \<Rightarrow> u32 \<Rightarrow> (panic, bytes) result" where
  "prove_at K raws message slot = expect ''aggregation failed'' (prover_aggregate (k_leanvm K) raws message slot LOG_INV_RATE)"

definition write_record ::
  "('b, 'pk, 'sk, 'sig, 'rng, 'sph, 'agg) check_env \<Rightarrow> ('pk, 'sk, 'rng) world \<Rightarrow> string \<Rightarrow> snark_status_list \<Rightarrow> ('pk, unit) step" where
  "write_record K w name r = write_file w name (snark_to_bytes (k_snark_ssz K) r)"

text \<open>One measured update: the sizes of the records written, and of the lists.\<close>

definition prove_update ::
  "('b, 'pk, 'sk, 'sig, 'rng, 'sph, 'agg) check_env \<Rightarrow> ('pk, 'sk, 'rng) world \<Rightarrow> build \<Rightarrow> 'pk committee \<Rightarrow> directory \<Rightarrow> nat
    \<Rightarrow> nat \<times> string \<Rightarrow> usize list \<times> list_sizes \<Rightarrow> ('pk, usize list \<times> list_sizes) step" where
  "prove_update K w bld c fixture n_updates update sizes =
     seq (lift (load_raw K fixture (snd update))) (\<lambda>raw.
     seq (lift (assert_that ''fixture update must carry one quorum'' (signer_count (k_bits K) raw = T bld))) (\<lambda>_.
     seq (lift (aggregation_inputs K c raw)) (\<lambda>inputs.
     seq (lift (prove K c (sl_alg raw) inputs (sl_status_list raw) (sl_version raw))) (\<lambda>p.
     let r = snark_new (sl_alg raw) (sl_status_list raw) (sl_version raw) p; bs = snark_to_bytes (k_snark_ssz K) r in
     seq (write_file w (update_name (fst update)) bs) (\<lambda>_.
     seq (if fst update + 1 = n_updates then write_file w ''canonical.bin'' bs else lift (Inr ())) (\<lambda>_.
     lift (Inr (fst sizes @ [length bs], record_size (length (sl_status_list raw)) (snd sizes)))))))))"

text \<open>The forgeries, in the order they are written.\<close>

definition fake_revocation :: "(bytes \<Rightarrow> 32 barr) \<Rightarrow> 32 barr" where
  "fake_revocation sha3 = hash_any sha3 (as_bytes ''FAKE-REVOCATION'')"

definition honest_forgeries ::
  "('b, 'pk, 'sk, 'sig, 'rng, 'sph, 'agg) check_env \<Rightarrow> ('pk, 'sk, 'rng) world \<Rightarrow> build \<Rightarrow> 'pk committee \<Rightarrow> directory \<Rightarrow> ('pk, unit) step" where
  "honest_forgeries K w bld c fixture =
     seq (lift (load_raw K fixture ''raw-attack-honest.bin'')) (\<lambda>h.
     seq (lift (aggregation_inputs K c h)) (\<lambda>inputs.
     seq (lift (prove K c (sl_alg h) inputs (sl_status_list h) (sl_version h))) (\<lambda>honest_proof.
     seq (write_record K w ''attack-tampered.bin''
            (snark_new (sl_alg h) (sl_status_list h @ [fake_revocation (sha3_256 (k_hashes K))]) (sl_version h) honest_proof)) (\<lambda>_.
     seq (lift (corrupt_proof_body (k_leanvm K) honest_proof)) (\<lambda>corrupted.
     seq (write_record K w ''attack-proofbody.bin'' (snark_new (sl_alg h) (sl_status_list h) (sl_version h) corrupted)) (\<lambda>_.
     seq (lift (prove K c (sl_alg h) (take (T bld - 1) inputs) (sl_status_list h) (sl_version h))) (\<lambda>short_proof.
     write_record K w ''attack-short.bin'' (snark_new (sl_alg h) (sl_status_list h) (sl_version h) short_proof))))))))"

definition slot_forgery ::
  "('b, 'pk, 'sk, 'sig, 'rng, 'sph, 'agg) check_env \<Rightarrow> ('pk, 'sk, 'rng) world \<Rightarrow> 'pk committee \<Rightarrow> directory \<Rightarrow> ('pk, unit) step" where
  "slot_forgery K w c fixture =
     seq (lift (load_raw K fixture ''raw-attack-slot.bin'')) (\<lambda>r.
     seq (lift (aggregation_inputs K c r)) (\<lambda>inputs.
     let message = message_for (blake2s_256 (k_hashes K)) c (sl_alg r) (sl_status_list r) (sl_version r) in
     seq (lift (expect_some ''slot fixture slot overflow'' (slot_for c (sl_version r + 1)))) (\<lambda>wrong_slot.
     seq (lift (prove_at K inputs message wrong_slot)) (\<lambda>p.
     write_record K w ''attack-slot.bin'' (snark_new (sl_alg r) (sl_status_list r) (sl_version r) p)))))"

definition version_forgery ::
  "('b, 'pk, 'sk, 'sig, 'rng, 'sph, 'agg) check_env \<Rightarrow> ('pk, 'sk, 'rng) world \<Rightarrow> 'pk committee \<Rightarrow> directory \<Rightarrow> ('pk, unit) step" where
  "version_forgery K w c fixture =
     seq (lift (load_raw K fixture ''raw-attack-version.bin'')) (\<lambda>r.
     seq (lift (aggregation_inputs K c r)) (\<lambda>inputs.
     let message = message_for (blake2s_256 (k_hashes K)) c (sl_alg r) (sl_status_list r) (sl_version r) in
     seq (lift (expect_some ''version fixture slot overflow'' (slot_for c KEY_SLOTS))) (\<lambda>spoof_slot.
     seq (lift (prove_at K inputs message spoof_slot)) (\<lambda>p.
     write_record K w ''attack-version.bin'' (snark_new (sl_alg r) (sl_status_list r) KEY_SLOTS p)))))"

definition outsider_forgery ::
  "('b, 'pk, 'sk, 'sig, 'rng, 'sph, 'agg) check_env \<Rightarrow> ('pk, 'sk, 'rng) world \<Rightarrow> 'pk committee \<Rightarrow> directory \<Rightarrow> ('pk, unit) step" where
  "outsider_forgery K w c fixture =
     seq (lift (load_committee K fixture ''outsider-anchor.bin'')) (\<lambda>oc.
     seq (lift (load_raw K fixture ''raw-attack-outsider.bin'')) (\<lambda>r.
     seq (lift (aggregation_inputs K oc r)) (\<lambda>inputs.
     let message = message_for (blake2s_256 (k_hashes K)) c (sl_alg r) (sl_status_list r) (sl_version r) in
     seq (lift (expect_some ''outsider fixture slot overflow'' (slot_for c (sl_version r)))) (\<lambda>slot.
     seq (lift (prove_at K inputs message slot)) (\<lambda>p.
     write_record K w ''attack-outsider.bin'' (snark_new (sl_alg r) (sl_status_list r) (sl_version r) p))))))"

text \<open>
  The fixture mode. Its result is the median size of the updates and the range of the lists; the
  median of no updates is a panic.
\<close>

definition run_fixture_prover ::
  "('b, 'pk, 'sk, 'sig, 'rng, 'sph, 'agg) check_env \<Rightarrow> ('pk, 'sk, 'rng) world \<Rightarrow> build \<Rightarrow> bool \<Rightarrow> directory
    \<Rightarrow> ('pk, real \<times> list_sizes) step" where
  "run_fixture_prover K w bld honest_only fixture =
     seq (lift (if honest_only then Inr () else require_corpus_quorum bld)) (\<lambda>_.
     seq (lift (load_committee K fixture ''anchor.bin'')) (\<lambda>c.
     seq (lift (assert_that ''fixture N/build N drift'' (length (members c) = N_MEMBERS bld))) (\<lambda>_.
     seq (lift (assert_that ''fixture t/build t drift'' (threshold c = T bld))) (\<lambda>_.
     seq (write_file w ''anchor.bin'' (committee_to_bytes (k_anchor K) c)) (\<lambda>_.
     seq (lift (fixture_files fixture ''raw-update-'')) (\<lambda>updates.
     seq (lift (assert_that ''fixture must contain exactly N_UPDATES honest records'' (length updates = N_UPDATES))) (\<lambda>_.
     seq (steps (prove_update K w bld c fixture (length updates)) (enumerate 0 updates) ([], ListSizes None)) (\<lambda>sizes.
     seq (if honest_only then lift (Inr ())
          else seq (honest_forgeries K w bld c fixture) (\<lambda>_. seq (slot_forgery K w c fixture) (\<lambda>_.
               seq (version_forgery K w c fixture) (\<lambda>_. outsider_forgery K w c fixture)))) (\<lambda>_.
     lift (and_then (expect_some ''cannot take the median of no samples'' (median_usize (fst sizes))) (\<lambda>med.
           Inr (med, snd sizes))))))))))))"

section \<open>The self-contained mode\<close>

fun adjacent_differ :: "usize list \<Rightarrow> bool" where
  "adjacent_differ (x # y # zs) = (x \<noteq> y \<and> adjacent_differ (y # zs))"
| "adjacent_differ _ = True"

fun sign_all ::
  "('pk, 'sk, 'sig, 'rng) xmss \<Rightarrow> ('pk, 'sk, 'rng) world \<Rightarrow> ('sk \<times> 'pk) list \<Rightarrow> usize list \<Rightarrow> 32 barr \<Rightarrow> u32
    \<Rightarrow> ('pk, ('pk \<times> 'sig) list) step" where
  "sign_all X w keypairs [] message slot j = (Inr [], j)"
| "sign_all X w keypairs (i # is) message slot j =
     seq (lift (key_at keypairs i)) (\<lambda>kp.
     seq (sign_with ''signing failed'' X w kp message slot) (\<lambda>sig.
     seq (sign_all X w keypairs is message slot) (\<lambda>rest.
     lift (Inr ((snd kp, sig) # rest))))) j"

definition sign_adversarial ::
  "('pk, 'sk, 'sig, 'rng) xmss \<Rightarrow> ('pk, 'sk, 'rng) world \<Rightarrow> ('sk \<times> 'pk) list \<Rightarrow> usize list \<Rightarrow> 32 barr \<Rightarrow> u32
    \<Rightarrow> ('pk, ('pk \<times> 'sig) list) step" where
  "sign_adversarial X w keypairs signers message slot =
     seq (lift (assert_that ''adversarial fixture must not reuse an XMSS key at one slot'' (adjacent_differ (sort signers)))) (\<lambda>_.
     sign_all X w keypairs signers message slot)"

definition make_adversarial_proof ::
  "('b, 'pk, 'sk, 'sig, 'rng, 'sph, 'agg) check_env \<Rightarrow> ('pk, 'sk, 'sig, 'rng) xmss \<Rightarrow> ('pk, 'sk, 'rng) world \<Rightarrow> ('sk \<times> 'pk) list
    \<Rightarrow> usize list \<Rightarrow> 32 barr \<Rightarrow> u32 \<Rightarrow> ('pk, bytes) step" where
  "make_adversarial_proof K X w keypairs signers message slot =
     seq (sign_adversarial X w keypairs signers message slot) (\<lambda>raws. lift (prove_at K raws message slot))"

definition rotating_signers :: "build \<Rightarrow> nat \<Rightarrow> usize list" where
  "rotating_signers bld i = map (\<lambda>k. (i + k) mod N_MEMBERS bld) [0..<T bld]"

text \<open>One update: the list grows by a random entry, the rotated quorum signs, the prover aggregates.\<close>

definition rotating_update ::
  "('b, 'pk, 'sk, 'sig, 'rng, 'sph, 'agg) check_env \<Rightarrow> ('pk, 'sk, 'sig, 'rng) xmss \<Rightarrow> ('pk, 'sk, 'rng) world \<Rightarrow> build
    \<Rightarrow> ('sk \<times> 'pk) list \<Rightarrow> 'pk committee \<Rightarrow> nat \<Rightarrow> 32 barr list \<times> usize list \<Rightarrow> ('pk, 32 barr list \<times> usize list) step" where
  "rotating_update K X w bld keypairs c i st =
     (let xs = fst st @ [fst (random_entry (sha3_256 (k_hashes K)) w i)]; version = word_of_nat i :: u32 in
     seq (lift (expect_some ''slot overflow'' (slot_for c version))) (\<lambda>slot.
     let message = message_for (blake2s_256 (k_hashes K)) c WotsXmss xs version in
     seq (sign_all X w keypairs (rotating_signers bld i) message slot) (\<lambda>raws.
     seq (lift (prove K c WotsXmss raws xs version)) (\<lambda>p.
     let bs = snark_to_bytes (k_snark_ssz K) (snark_new WotsXmss xs version p) in
     seq (write_file w (update_name i) bs) (\<lambda>_.
     seq (if i + 1 = N_UPDATES then write_file w ''canonical.bin'' bs else lift (Inr ())) (\<lambda>_.
     lift (Inr (xs, snd st @ [length bs]))))))))"

text \<open>Forgeries A, D and E share one set of signatures; F, B and C sign anew.\<close>

definition attack_forgeries ::
  "('b, 'pk, 'sk, 'sig, 'rng, 'sph, 'agg) check_env \<Rightarrow> ('pk, 'sk, 'sig, 'rng) xmss \<Rightarrow> ('pk, 'sk, 'rng) world \<Rightarrow> build
    \<Rightarrow> ('sk \<times> 'pk) list \<Rightarrow> 'pk committee \<Rightarrow> 32 barr list \<Rightarrow> ('pk, unit) step" where
  "attack_forgeries K X w bld keypairs c xs =
     seq (lift (expect_some ''slot overflow'' (slot_for c attack_version))) (\<lambda>attack_slot.
     let message = message_for (blake2s_256 (k_hashes K)) c WotsXmss xs attack_version; quorum = [0..<T bld] in
     seq (sign_adversarial X w keypairs quorum message attack_slot) (\<lambda>signatures.
     seq (lift (prove_at K signatures message attack_slot)) (\<lambda>good_proof.
     seq (write_record K w ''attack-tampered.bin''
            (snark_new WotsXmss (xs @ [fake_revocation (sha3_256 (k_hashes K))]) attack_version good_proof)) (\<lambda>_.
     seq (lift (corrupt_proof_body (k_leanvm K) good_proof)) (\<lambda>corrupted.
     seq (write_record K w ''attack-proofbody.bin'' (snark_new WotsXmss xs attack_version corrupted)) (\<lambda>_.
     seq (lift (prove_at K (take (T bld - 1) signatures) message attack_slot)) (\<lambda>short_proof.
     seq (write_record K w ''attack-short.bin'' (snark_new WotsXmss xs attack_version short_proof)) (\<lambda>_.
     seq (lift (expect_some ''slot overflow'' (slot_for c (attack_version + 1)))) (\<lambda>wrong_slot.
     seq (make_adversarial_proof K X w keypairs quorum message wrong_slot) (\<lambda>slot_proof.
     write_record K w ''attack-slot.bin'' (snark_new WotsXmss xs attack_version slot_proof)))))))))))"

definition outsider_forgeries ::
  "('b, 'pk, 'sk, 'sig, 'rng, 'sph, 'agg) check_env \<Rightarrow> ('pk, 'sk, 'sig, 'rng) xmss \<Rightarrow> ('pk, 'sk, 'rng) world \<Rightarrow> build
    \<Rightarrow> ('sk \<times> 'pk) list \<Rightarrow> 'pk committee \<Rightarrow> 32 barr list \<Rightarrow> ('pk, unit) step" where
  "outsider_forgeries K X w bld keypairs c xs =
     seq (lift (generate_keys ''outsider keygen'' w (N_MEMBERS bld) (T bld))) (\<lambda>os.
     let out_list = [fst (random_entry (sha3_256 (k_hashes K)) w N_UPDATES)] in
     seq (make_adversarial_proof K X w os [0..<T bld] (message_for (blake2s_256 (k_hashes K)) c WotsXmss out_list 0) SLOT) (\<lambda>out_proof.
     seq (write_record K w ''attack-outsider.bin'' (snark_new WotsXmss out_list 0 out_proof)) (\<lambda>_.
     seq (lift (expect_some ''slot overflow'' (slot_for c KEY_SLOTS))) (\<lambda>spoof_slot.
     seq (make_adversarial_proof K X w keypairs [0..<T bld]
            (message_for (blake2s_256 (k_hashes K)) c WotsXmss xs (word_of_nat (N_UPDATES - 1))) spoof_slot) (\<lambda>p.
     write_record K w ''attack-version.bin'' (snark_new WotsXmss xs KEY_SLOTS p))))))"

definition self_contained_prover ::
  "('b, 'pk, 'sk, 'sig, 'rng, 'sph, 'agg) check_env \<Rightarrow> ('pk, 'sk, 'sig, 'rng) xmss \<Rightarrow> ('pk, 'sk, 'rng) world \<Rightarrow> build
    \<Rightarrow> ('pk, real) step" where
  "self_contained_prover K X w bld =
     seq (lift (require_corpus_quorum bld)) (\<lambda>_.
     seq (lift (generate_keys ''keygen failed'' w 0 (N_MEMBERS bld))) (\<lambda>keypairs.
     seq (lift (expect ''Committee::new'' (committee_new (sha3_256 (k_hashes K)) (k_anchor K) (map snd keypairs) (T bld) SLOT))) (\<lambda>c.
     seq (write_file w ''anchor.bin'' (committee_to_bytes (k_anchor K) c)) (\<lambda>_.
     seq (steps (rotating_update K X w bld keypairs c) [0..<N_UPDATES] ([], [])) (\<lambda>(xs, sizes).
     seq (attack_forgeries K X w bld keypairs c xs) (\<lambda>_.
     seq (outsider_forgeries K X w bld keypairs c xs) (\<lambda>_.
     lift (expect_some ''no records were produced'' (median_usize sizes)))))))))"

section \<open>The process\<close>

definition stale_artifact :: "string \<Rightarrow> bool" where
  "stale_artifact n \<longleftrightarrow> n = ''anchor.bin'' \<or> n = ''canonical.bin'' \<or> starts_with n ''update-'' \<or> starts_with n ''attack-''"

definition prover_main ::
  "('b, 'pk, 'sk, 'sig, 'rng, 'sph, 'agg) check_env \<Rightarrow> ('pk, 'sk, 'sig, 'rng) xmss \<Rightarrow> ('pk, 'sk, 'rng) world \<Rightarrow> build
    \<Rightarrow> bool \<Rightarrow> directory option \<Rightarrow> ('pk, unit) step" where
  "prover_main K X w bld honest_only bench_input_dir =
     seq (\<lambda>j. clear_files w stale_artifact (map fst (j_files j)) j) (\<lambda>_.
     case bench_input_dir of
       Some fixture \<Rightarrow> seq (run_fixture_prover K w bld honest_only fixture) (\<lambda>_. lift (Inr ()))
     | None \<Rightarrow> seq (self_contained_prover K X w bld) (\<lambda>_. lift (Inr ())))"

end
