(* ===== verification/Fixture_Valid.thy ===== *)
theory Fixture_Valid
  imports Prover_Bin
begin

text \<open>
  The contract between the fixture generator and the prover. A directory is a valid fixture for a
  committee when each of its records carries one quorum's signatures over the committee's message
  for a version, made at the slot of a version. The generator's output is a valid fixture.
\<close>

section \<open>The contract\<close>

text \<open>
  A signed record: it decodes, its bitmap names the committee \<open>oc\<close>, and its signatures verify for the
  keys of \<open>oc\<close> on the message of \<open>c\<close> for the record at the slot \<open>c\<close> derives for \<open>slot_version\<close>.
\<close>

definition signed_record ::
  "('b, 'pk, 'sk, 'sig, 'rng, 'sph, 'agg) check_env \<Rightarrow> ('pk, 'sk, 'sig, 'rng) xmss \<Rightarrow> build \<Rightarrow> 'pk committee \<Rightarrow> 'pk committee \<Rightarrow> directory
    \<Rightarrow> string \<Rightarrow> u32 \<Rightarrow> u32 \<Rightarrow> bool" where
  "signed_record K X bld c oc dir name v slot_version \<longleftrightarrow>
     (\<exists>raw inputs slot. load_raw K dir name = Inr raw \<and> sl_version raw = v \<and> signer_count (k_bits K) raw = T bld
        \<and> length (sl_status_list raw) \<le> MAX_LIST_ENTRIES
        \<and> aggregation_inputs K oc raw = Inr inputs \<and> distinct (map fst inputs) \<and> slot_for c slot_version = Some slot
        \<and> (\<forall>(pk, sig) \<in> set inputs.
             xmss_verify X pk (message_for (blake2s_256 (k_hashes K)) c (sl_alg raw) (sl_status_list raw) v) sig slot))"

definition valid_updates ::
  "('b, 'pk, 'sk, 'sig, 'rng, 'sph, 'agg) check_env \<Rightarrow> ('pk, 'sk, 'sig, 'rng) xmss \<Rightarrow> build \<Rightarrow> 'pk committee \<Rightarrow> directory \<Rightarrow> bool" where
  "valid_updates K X bld c dir \<longleftrightarrow>
     load_committee K dir ''anchor.bin'' = Inr c \<and> length (members c) = N_MEMBERS bld \<and> threshold c = T bld
     \<and> fixture_files dir ''raw-update-'' = Inr (map raw_update_name [0..<N_UPDATES])
     \<and> (\<forall>i < N_UPDATES. signed_record K X bld c c dir (raw_update_name i) (word_of_nat i) (word_of_nat i))"

definition valid_controls ::
  "('b, 'pk, 'sk, 'sig, 'rng, 'sph, 'agg) check_env \<Rightarrow> ('pk, 'sk, 'sig, 'rng) xmss \<Rightarrow> build \<Rightarrow> 'pk committee \<Rightarrow> directory \<Rightarrow> bool" where
  "valid_controls K X bld c dir \<longleftrightarrow>
     signed_record K X bld c c dir ''raw-attack-honest.bin'' attack_version attack_version
     \<and> signed_record K X bld c c dir ''raw-attack-slot.bin'' attack_version (attack_version + 1)
     \<and> signed_record K X bld c c dir ''raw-attack-version.bin'' (word_of_nat (N_UPDATES - 1)) KEY_SLOTS
     \<and> (\<exists>oc. load_committee K dir ''outsider-anchor.bin'' = Inr oc
          \<and> signed_record K X bld c oc dir ''raw-attack-outsider.bin'' attack_version attack_version
          \<and> (\<forall>raw inputs. load_raw K dir ''raw-attack-outsider.bin'' = Inr raw \<longrightarrow> aggregation_inputs K oc raw = Inr inputs
               \<longrightarrow> \<not> set (map fst inputs) \<subseteq> set (members c)))"

section \<open>What signing yields\<close>

text \<open>What the signature library documents: a signature made with a generated key verifies under its public key.\<close>

definition signs_correctly :: "('pk, 'sk, 'sig, 'rng) xmss \<Rightarrow> ('pk, 'sk, 'rng) world \<Rightarrow> bool" where
  "signs_correctly X w \<longleftrightarrow> (\<forall>i kp rng message slot sig. w_key_gen w i SLOT (SLOT + KEY_SLOTS) = Inr kp
     \<longrightarrow> xmss_sign X rng (fst kp) message slot = Inr sig \<longrightarrow> xmss_verify X (snd kp) message sig slot)"

lemma signs_correctlyD:
  "signs_correctly X w \<Longrightarrow> w_key_gen w i SLOT (SLOT + KEY_SLOTS) = Inr kp
     \<Longrightarrow> xmss_sign X rng (fst kp) message slot = Inr sig \<Longrightarrow> xmss_verify X (snd kp) message sig slot"
  unfolding signs_correctly_def by blast

lemma sign_with_ok:
  assumes "signs_correctly X w" and "w_key_gen w i SLOT (SLOT + KEY_SLOTS) = Inr kp"
    and "sign_with msg X w kp message slot j = (Inr sig, j')"
  shows "xmss_verify X (snd kp) message sig slot \<and> j_files j' = j_files j"
  using assms(3) signs_correctlyD [OF assms(1,2)] by (auto simp: sign_with_def Let_def expect_Inr)

lemma signatures_for_ok:
  assumes "signs_correctly X w" and "generate_keys msg w 0 n = Inr kps"
    and "signatures_for X w kps is message slot j = (Inr ps, j')"
  shows "map fst ps = is \<and> (\<forall>(i, sig) \<in> set ps. i < n \<and> xmss_verify X (snd (kps ! i)) message sig slot) \<and> j_files j' = j_files j"
  using assms(3)
proof (induction "is" arbitrary: ps j)
  case (Cons i "is")
  from Cons.prems obtain kp sig j1 rest where r: "key_at kps i = Inr kp" "sign_with ''fixture signing failed'' X w kp message slot j = (Inr sig, j1)"
    "signatures_for X w kps is message slot j1 = (Inr rest, j')" "ps = (i, sig) # rest"
    by (auto simp: return_iff)
  have i: "i < n" "kps ! i = kp" "w_key_gen w i SLOT (SLOT + KEY_SLOTS) = Inr kp"
    using r(1) assms(2) by (auto simp: key_at_def generate_keys_nth split: if_splits)
  have "xmss_verify X (snd kp) message sig slot" "j_files j1 = j_files j"
    using sign_with_ok [OF assms(1) i(3) r(2)] by simp_all
  then show ?case using Cons.IH [OF r(3)] r(4) i by simp
qed simp

text \<open>Building a record from signatures, writing it and reading it back.\<close>

lemma read_back:
  assumes laws: "bitlist_laws MAX_COMMITTEE_SIZE (k_bits K)" "ssz_roundtrip (k_raw_ssz K)"
    and new: "status_list_new (k_bits K) alg xs v n ps = Inr r"
    and dir: "dir_read dir name = Inr (status_list_to_bytes (k_raw_ssz K) r)" "length (status_list_to_bytes (k_raw_ssz K) r) < 2 ^ 32"
    and oc: "length (members oc) = n"
  shows "load_raw K dir name = Inr r \<and> sl_alg r = alg \<and> sl_status_list r = xs \<and> sl_version r = v
    \<and> signer_count (k_bits K) r = length ps
    \<and> aggregation_inputs K oc r = Inr (map (\<lambda>(i, sig). (members oc ! i, sig)) (sort_key fst ps)) \<and> valid_pairs n ps"
proof -
  have ps: "valid_pairs n ps"
    using status_list_new_error [OF laws(1), of n ps alg xs v] new by auto
  note hr = honest_record_pairs [OF laws(1) ps new]
  have "status_list_from_bytes (k_bits K) (k_raw_ssz K) (status_list_to_bytes (k_raw_ssz K) r) = Inr r"
    using status_list_roundtrip [OF laws(2) dir(2)] hr by blast
  moreover have "signer_count (k_bits K) r = length ps"
    using hr length_signer_indices [OF laws(1), of r] by (simp add: record_pairs_def) (metis length_map length_sort length_zip min.idem)
  ultimately show ?thesis
    using hr dir(1) oc ps by (simp add: load_raw_def aggregation_inputs_def and_then_def expect_def assert_that_def record_pairs_def)
qed

lemma distinct_nth_keys: "distinct ys \<Longrightarrow> distinct is \<Longrightarrow> \<forall>i \<in> set is. i < length ys \<Longrightarrow> distinct (map (\<lambda>i. ys ! i) is)"
  by (auto simp: distinct_map inj_on_def nth_eq_iff_index_eq)

text \<open>The bytes of a signed record over a list of at most \<open>B\<close> entries.\<close>

definition signed_bytes ::
  "('b, 'pk, 'sk, 'sig, 'rng, 'sph, 'agg) check_env \<Rightarrow> ('pk, 'sk, 'sig, 'rng) xmss \<Rightarrow> build \<Rightarrow> 'pk committee \<Rightarrow> 'pk committee
    \<Rightarrow> nat \<Rightarrow> u32 \<Rightarrow> u32 \<Rightarrow> usize list \<Rightarrow> bytes \<Rightarrow> bool" where
  "signed_bytes K X bld c oc B v slot_version is bs \<longleftrightarrow>
     (\<exists>xs ps r slot. status_list_new (k_bits K) WotsXmss xs v (N_MEMBERS bld) ps = Inr r \<and> bs = status_list_to_bytes (k_raw_ssz K) r
        \<and> length xs \<le> B \<and> map fst ps = is \<and> length is = T bld \<and> slot_for c slot_version = Some slot
        \<and> (\<forall>(i, sig) \<in> set ps. xmss_verify X (members oc ! i) (message_for (blake2s_256 (k_hashes K)) c WotsXmss xs v) sig slot))"

lemma signed_recordI:
  assumes laws: "bitlist_laws MAX_COMMITTEE_SIZE (k_bits K)" "ssz_roundtrip (k_raw_ssz K)"
    and signed: "signed_bytes K X bld c oc MAX_LIST_ENTRIES v slot_version is bs"
    and dir: "dir_read dir name = Inr bs" "length bs < 2 ^ 32"
    and oc: "length (members oc) = N_MEMBERS bld" "distinct (members oc)"
  shows "signed_record K X bld c oc dir name v slot_version"
    and "load_raw K dir name = Inr raw \<Longrightarrow> aggregation_inputs K oc raw = Inr inputs \<Longrightarrow> set (map fst inputs) = (!) (members oc) ` set is"
proof -
  obtain xs ps r slot where new: "status_list_new (k_bits K) WotsXmss xs v (N_MEMBERS bld) ps = Inr r"
    and bs: "bs = status_list_to_bytes (k_raw_ssz K) r" and len: "length xs \<le> MAX_LIST_ENTRIES" and T: "map fst ps = is" "length is = T bld" and slot: "slot_for c slot_version = Some slot"
    and sigs: "\<forall>(i, sig) \<in> set ps. xmss_verify X (members oc ! i) (message_for (blake2s_256 (k_hashes K)) c WotsXmss xs v) sig slot"
    using signed unfolding signed_bytes_def by blast
  let ?inputs = "map (\<lambda>(i, sig). (members oc ! i, sig)) (sort_key fst ps)"
  have r: "load_raw K dir name = Inr r" "sl_alg r = WotsXmss" "sl_status_list r = xs" "sl_version r = v"
    "signer_count (k_bits K) r = length ps" "aggregation_inputs K oc r = Inr ?inputs" "valid_pairs (N_MEMBERS bld) ps"
    using read_back [OF laws new dir [unfolded bs] oc(1)] by blast+
  have "distinct (map (\<lambda>i. members oc ! i) (map fst (sort_key fst ps)))"
    using r(7) oc distinct_nth_keys [of "members oc" "map fst (sort_key fst ps)"] by (auto simp: valid_pairs_def distinct_map)
  moreover have "map fst ?inputs = map (\<lambda>i. members oc ! i) (map fst (sort_key fst ps))"
    by (simp add: comp_def case_prod_unfold)
  ultimately have keys: "distinct (map fst ?inputs)" by (simp only:)
  have "\<forall>(pk, sig) \<in> set ?inputs. xmss_verify X pk (message_for (blake2s_256 (k_hashes K)) c (sl_alg r) (sl_status_list r) v) sig slot"
    using sigs r(2,3) by auto
  moreover have "length ps = T bld" using T by (metis length_map)
  ultimately show "signed_record K X bld c oc dir name v slot_version"
    unfolding signed_record_def using r(3,5) len
    by (intro exI [of _ r] exI [of _ ?inputs] exI [of _ slot] conjI r(1,4,6) keys slot) simp_all
  show "set (map fst inputs) = (!) (members oc) ` set is" if "load_raw K dir name = Inr raw" "aggregation_inputs K oc raw = Inr inputs"
    using that r(1,6) unfolding T(1) [symmetric] by (auto simp: image_comp comp_def case_prod_unfold)
qed

section \<open>What each part writes\<close>

text \<open>The process after its committee exists: keys, anchor and the laws the records rest on.\<close>

definition committee_of ::
  "('b, 'pk, 'sk, 'sig, 'rng, 'sph, 'agg) check_env \<Rightarrow> ('pk, 'sk, 'sig, 'rng) xmss \<Rightarrow> ('pk, 'sk, 'rng) world \<Rightarrow> build
    \<Rightarrow> ('sk \<times> 'pk) list \<Rightarrow> 'pk committee \<Rightarrow> bool" where
  "committee_of K X w bld kps c \<longleftrightarrow> signs_correctly X w \<and> generate_keys ''fixture keygen failed'' w 0 (N_MEMBERS bld) = Inr kps
     \<and> committee_new (sha3_256 (k_hashes K)) (k_anchor K) (map snd kps) (T bld) SLOT = Inr c"

lemma committee_of_members:
  assumes "committee_of K X w bld kps c"
  shows "members c = map snd kps" "length kps = N_MEMBERS bld" "threshold c = T bld" "genesis_slot c = SLOT" "distinct (members c)"
    "wf_committee (sha3_256 (k_hashes K)) (k_anchor K) c"
proof -
  have new: "committee_new (sha3_256 (k_hashes K)) (k_anchor K) (map snd kps) (T bld) SLOT = Inr c"
    and keys: "generate_keys ''fixture keygen failed'' w 0 (N_MEMBERS bld) = Inr kps" using assms by (auto simp: committee_of_def)
  show "members c = map snd kps" "threshold c = T bld" "genesis_slot c = SLOT"
    and wf: "wf_committee (sha3_256 (k_hashes K)) (k_anchor K) c" using committee_new_wf [OF new] by auto
  show "distinct (members c)" by (rule wf_committee_distinct [OF wf])
  show "length kps = N_MEMBERS bld" using keys by (simp add: generate_keys_nth)
qed

text \<open>Signatures by the committee, built into a record.\<close>

lemma signed_bytesI:
  assumes c: "committee_of K X w bld kps c" and slot: "slot_for c slot_version = Some slot"
    and sigs: "signatures_for X w kps is (message_for (blake2s_256 (k_hashes K)) c WotsXmss xs v) slot j = (Inr ps, j')"
    and new: "status_list_new (k_bits K) WotsXmss xs v (N_MEMBERS bld) ps = Inr r" and T: "length is = T bld" "length xs \<le> B"
  shows "signed_bytes K X bld c c B v slot_version is (status_list_to_bytes (k_raw_ssz K) r) \<and> j_files j' = j_files j"
proof -
  have keys: "signs_correctly X w" "generate_keys ''fixture keygen failed'' w 0 (N_MEMBERS bld) = Inr kps"
    using c by (auto simp: committee_of_def)
  note ok = signatures_for_ok [OF keys sigs]
  then have "\<forall>(i, sig) \<in> set ps. xmss_verify X (members c ! i) (message_for (blake2s_256 (k_hashes K)) c WotsXmss xs v) sig slot"
    using committee_of_members(1,2) [OF c] by auto
  then show ?thesis unfolding signed_bytes_def using new slot ok T by blast
qed

definition declared_length :: "usize option \<Rightarrow> nat \<Rightarrow> nat" where
  "declared_length entries n = (case entries of None \<Rightarrow> n | Some len \<Rightarrow> len)"

lemma advance_list_length:
  assumes "advance_list fresh v entries xs g = Some (ys, g')" and "entries = None \<Longrightarrow> length xs = i" and "entries \<noteq> Some 0"
  shows "length ys = declared_length entries (i + 1)"
proof (cases entries)
  case None
  then show ?thesis using assms advance_growing [of fresh v xs g] by (auto simp: declared_length_def)
next
  case (Some len)
  then show ?thesis using assms advance_fixed [of len fresh v xs g] by (auto simp: declared_length_def)
qed

lemma fixture_update_ok:
  assumes c: "committee_of K X w bld kps c" and bld: "build_params env_n env_t = Inr bld"
    and run: "fixture_update K X w bld kps c entries i st j = (Inr st', j')" and st: "entries = None \<Longrightarrow> length (fst st) = i"
    and entries: "entries \<noteq> Some 0" and B: "declared_length entries (i + 1) \<le> B"
  shows "\<exists>is bs. signed_bytes K X bld c c B (word_of_nat i) (word_of_nat i) is bs \<and> j_files j' = put_file (raw_update_name i) bs (j_files j)
    \<and> length (fst st') = declared_length entries (i + 1)"
proof -
  from run obtain xs g slot "is" ps r j1 where st': "advance_list (random_entry (sha3_256 (k_hashes K)) w) i entries (fst st) (snd st) = Some (xs, g)"
    "st' = (xs, g)" and r:
    "slot_for c (word_of_nat i) = Some slot" "quorum_indices (N_MEMBERS bld) (T bld) (word_of_nat i) = Some is"
    "signatures_for X w kps is (message_for (blake2s_256 (k_hashes K)) c WotsXmss xs (word_of_nat i)) slot j = (Inr ps, j1)"
    "status_list_new (k_bits K) WotsXmss xs (word_of_nat i) (N_MEMBERS bld) ps = Inr r"
    "j' = j1\<lparr>j_files := put_file (raw_update_name i) (status_list_to_bytes (k_raw_ssz K) r) (j_files j1)\<rparr>"
    by (auto simp: fixture_update_def return_iff case_prod_unfold Let_def)
  have "length is = T bld"
    using quorum_in_range [of "T bld" "N_MEMBERS bld" "word_of_nat i"] r(2) build_params_satisfiable [OF bld] build_params_bounded [OF bld] by auto
  moreover have len: "length xs = declared_length entries (i + 1)" using advance_list_length [OF st'(1) st entries] .
  ultimately have "signed_bytes K X bld c c B (word_of_nat i) (word_of_nat i) is (status_list_to_bytes (k_raw_ssz K) r) \<and> j_files j1 = j_files j"
    using signed_bytesI [OF c r(1,3,4)] B by simp
  then show ?thesis using r(5) len st'(2) by auto
qed

text \<open>The update loop writes one signed record per version and nothing else.\<close>

lemma raw_update_names: "distinct (map raw_update_name [0..<N_UPDATES])" "sorted (map raw_update_name [0..<N_UPDATES])"
  by code_simp+

lemma raw_update_name_inj: "i < N_UPDATES \<Longrightarrow> k < N_UPDATES \<Longrightarrow> raw_update_name i = raw_update_name k \<Longrightarrow> i = k"
  using raw_update_names(1) by (simp add: distinct_map inj_on_def)

lemma fixture_updates_ok:
  assumes c: "committee_of K X w bld kps c" and bld: "build_params env_n env_t = Inr bld"
    and run: "steps (fixture_update K X w bld kps c entries) [0..<n] ([], 0) j = (Inr st', j')" and n: "n \<le> N_UPDATES"
    and entries: "entries \<noteq> Some 0" and B: "declared_length entries N_UPDATES \<le> B"
  shows "(\<forall>i < n. \<exists>is bs. map_of (j_files j') (raw_update_name i) = Some bs \<and> signed_bytes K X bld c c B (word_of_nat i) (word_of_nat i) is bs)
    \<and> (\<forall>m. m \<notin> raw_update_name ` {..<n} \<longrightarrow> map_of (j_files j') m = map_of (j_files j) m)
    \<and> set (map fst (j_files j')) = set (map fst (j_files j)) \<union> raw_update_name ` {..<n}
    \<and> (distinct (map fst (j_files j)) \<longrightarrow> distinct (map fst (j_files j')))
    \<and> (n \<noteq> 0 \<or> entries = None \<longrightarrow> length (fst st') = declared_length entries n)"
  using run n
proof (induction n arbitrary: st' j')
  case (Suc n)
  from Suc.prems(1) obtain st1 j1 where r: "steps (fixture_update K X w bld kps c entries) [0..<n] ([], 0) j = (Inr st1, j1)"
    "fixture_update K X w bld kps c entries n st1 j1 = (Inr st', j')"
    by (auto simp: steps_snoc)
  obtain "is" bs where bs: "signed_bytes K X bld c c B (word_of_nat n) (word_of_nat n) is bs"
    "j_files j' = put_file (raw_update_name n) bs (j_files j1)" "length (fst st') = declared_length entries (n + 1)"
    using fixture_update_ok [OF c bld r(2) _ entries, of B] Suc.IH [OF r(1)] Suc.prems(2) B by (auto simp: declared_length_def split: option.splits)
  have keep: "raw_update_name i \<noteq> raw_update_name n" if "i < n" for i
    using raw_update_name_inj [of i n] that Suc.prems(2) by auto
  note ih = Suc.IH [OF r(1)] and files = bs(2)
  have "\<exists>is bs. map_of (j_files j') (raw_update_name i) = Some bs \<and> signed_bytes K X bld c c B (word_of_nat i) (word_of_nat i) is bs" if "i < Suc n" for i
    using that keep ih Suc.prems(2) bs by (cases "i = n") (auto simp: less_Suc_eq)
  moreover have "set (map fst (j_files j')) = insert (raw_update_name n) (set (map fst (j_files j1)))"
    unfolding files by (rule set_put_file)
  ultimately show ?case using ih Suc.prems(2) files bs(3) by (auto simp: lessThan_Suc)
qed (simp add: declared_length_def)

text \<open>The four controls.\<close>

lemma write_control_ok:
  "write_control K w bld msg name xs v ps j = (Inr u, j') \<longleftrightarrow> w_write w name = FileClean
     \<and> (\<exists>r. status_list_new (k_bits K) WotsXmss xs v (N_MEMBERS bld) ps = Inr r
          \<and> j' = j\<lparr>j_files := put_file name (status_list_to_bytes (k_raw_ssz K) r) (j_files j)\<rparr>)"
  by (auto simp: write_control_def return_iff)

lemma honest_control_ok:
  assumes c: "committee_of K X w bld kps c" and run: "honest_control K X w bld kps c xs j = (Inr a, j')" and B: "length xs \<le> B"
  shows "\<exists>bs. signed_bytes K X bld c c B attack_version attack_version [0..<T bld] bs \<and> j_files j' = put_file ''raw-attack-honest.bin'' bs (j_files j)
    \<and> slot_for c attack_version = Some (fst a) \<and> map fst (snd a) = [0..<T bld]
    \<and> (\<forall>(i, sig) \<in> set (snd a). xmss_verify X (members c ! i) (message_for (blake2s_256 (k_hashes K)) c WotsXmss xs attack_version) sig (fst a))"
proof -
  from run obtain slot ps r j1 where r: "slot_for c attack_version = Some slot"
    "signatures_for X w kps [0..<T bld] (message_for (blake2s_256 (k_hashes K)) c WotsXmss xs attack_version) slot j = (Inr ps, j1)"
    "status_list_new (k_bits K) WotsXmss xs attack_version (N_MEMBERS bld) ps = Inr r" "a = (slot, ps)"
    "j' = j1\<lparr>j_files := put_file ''raw-attack-honest.bin'' (status_list_to_bytes (k_raw_ssz K) r) (j_files j1)\<rparr>"
    by (auto simp: honest_control_def return_iff write_control_ok)
  have keys: "signs_correctly X w" "generate_keys ''fixture keygen failed'' w 0 (N_MEMBERS bld) = Inr kps"
    using c by (auto simp: committee_of_def)
  have "members c ! i = snd (kps ! i)" if "i < N_MEMBERS bld" for i using committee_of_members(1,2) [OF c] that by simp
  then show ?thesis using signed_bytesI [OF c r(1,2,3) _ B] signatures_for_ok [OF keys r(2)] r(1,4,5)
    by (intro exI [of _ "status_list_to_bytes (k_raw_ssz K) r"]) auto
qed

lemma signed_control_ok:
  assumes c: "committee_of K X w bld kps c"
    and run: "seq (lift (expect_some msg (slot_for c sv))) (\<lambda>slot. seq (signatures_for X w kps [0..<T bld]
      (message_for (blake2s_256 (k_hashes K)) c WotsXmss xs v) slot) (\<lambda>sigs. write_control K w bld msg' name xs v sigs)) j = (Inr u, j')" and B: "length xs \<le> B"
  shows "\<exists>bs. signed_bytes K X bld c c B v sv [0..<T bld] bs \<and> j_files j' = put_file name bs (j_files j)"
proof -
  from run obtain slot ps r j1 where r: "slot_for c sv = Some slot"
    "signatures_for X w kps [0..<T bld] (message_for (blake2s_256 (k_hashes K)) c WotsXmss xs v) slot j = (Inr ps, j1)"
    "status_list_new (k_bits K) WotsXmss xs v (N_MEMBERS bld) ps = Inr r"
    "j' = j1\<lparr>j_files := put_file name (status_list_to_bytes (k_raw_ssz K) r) (j_files j1)\<rparr>"
    by (auto simp: return_iff write_control_ok)
  then show ?thesis using signed_bytesI [OF c r(1,2,3) _ B] by auto
qed

lemma outsider_control_ok:
  assumes c: "committee_of K X w bld kps c" and differ: "keys_differ w (N_MEMBERS bld)" and T: "1 \<le> T bld"
    and honest: "slot_for c attack_version = Some slot" "map fst honest = [0..<T bld]"
      "\<forall>(i, sig) \<in> set honest. xmss_verify X (members c ! i) (message_for (blake2s_256 (k_hashes K)) c WotsXmss xs attack_version) sig slot"
    and run: "outsider_control K X w bld c xs slot honest j = (Inr u, j')" and B: "length xs \<le> B"
  shows "\<exists>oc bs. signed_bytes K X bld c oc B attack_version attack_version [0..<T bld] bs \<and> members oc \<noteq> [] \<and> members oc ! 0 \<notin> set (members c)
    \<and> length (members oc) = N_MEMBERS bld \<and> wf_committee (sha3_256 (k_hashes K)) (k_anchor K) oc
    \<and> j_files j' = put_file ''raw-attack-outsider.bin'' bs (put_file ''outsider-anchor.bin'' (committee_to_bytes (k_anchor K) oc) (j_files j))"
proof -
  from run obtain kp oc sig r j1 where r: "w_key_gen w (N_MEMBERS bld) SLOT (SLOT + KEY_SLOTS) = Inr kp" "members c \<noteq> []"
    "committee_new (sha3_256 (k_hashes K)) (k_anchor K) ((members c)[0 := snd kp]) (T bld) SLOT = Inr oc"
    "sign_with ''outsider signing failed'' X w kp (message_for (blake2s_256 (k_hashes K)) c WotsXmss xs attack_version) slot
       (j\<lparr>j_files := put_file ''outsider-anchor.bin'' (committee_to_bytes (k_anchor K) oc) (j_files j)\<rparr>) = (Inr sig, j1)"
    "honest \<noteq> []" "status_list_new (k_bits K) WotsXmss xs attack_version (N_MEMBERS bld) (honest[0 := (0, sig)]) = Inr r"
    "j' = j1\<lparr>j_files := put_file ''raw-attack-outsider.bin'' (status_list_to_bytes (k_raw_ssz K) r) (j_files j1)\<rparr>"
    by (auto simp: outsider_control_def return_iff write_control_ok)
  note m = committee_of_members [OF c]
  have oc: "members oc = (members c)[0 := snd kp]" "wf_committee (sha3_256 (k_hashes K)) (k_anchor K) oc" using committee_new_wf [OF r(3)] by auto
  have keys: "signs_correctly X w" "generate_keys ''fixture keygen failed'' w 0 (N_MEMBERS bld) = Inr kps"
    using c by (auto simp: committee_of_def)
  have sig: "xmss_verify X (snd kp) (message_for (blake2s_256 (k_hashes K)) c WotsXmss xs attack_version) sig slot"
    "j_files j1 = put_file ''outsider-anchor.bin'' (committee_to_bytes (k_anchor K) oc) (j_files j)"
    using sign_with_ok [OF keys(1) r(1,4)] by simp_all
  have out: "snd kp \<notin> set (members c)" using generated_keys_differ(2) [OF differ keys(2) r(1)] m(1) by simp
  obtain h hs where hs: "honest = h # hs" using r(5) by (cases honest) auto
  have "[0..<T bld] = 0 # [1..<T bld]" using T by (simp add: upt_rec)
  then have tail: "map fst hs = [1..<T bld]" using honest(2) hs by simp
  have "h0 = 0" if "h = (h0, s)" for h0 s using honest(2) hs that \<open>[0..<T bld] = 0 # [1..<T bld]\<close> by simp
  then have "map fst (honest[0 := (0, sig)]) = [0..<T bld]" using honest(2) hs by (cases h) simp
  moreover have "\<forall>(i, s) \<in> set (honest[0 := (0, sig)]). xmss_verify X (members oc ! i)
      (message_for (blake2s_256 (k_hashes K)) c WotsXmss xs attack_version) s slot"
  proof -
    have "i \<noteq> 0" if "(i, s) \<in> set hs" for i s using that tail by (metis atLeastLessThan_iff fst_conv image_eqI not_one_le_zero set_map set_upt)
    then have "members oc ! i = members c ! i" if "(i, s) \<in> set hs" for i s using that oc(1) by auto
    then have "\<forall>(i, s) \<in> set hs. xmss_verify X (members oc ! i) (message_for (blake2s_256 (k_hashes K)) c WotsXmss xs attack_version) s slot"
      using honest(3) hs by auto
    moreover have "members oc ! 0 = snd kp" using oc(1) r(2) by simp
    ultimately show ?thesis using hs sig(1) by auto
  qed
  ultimately have "signed_bytes K X bld c oc B attack_version attack_version [0..<T bld] (status_list_to_bytes (k_raw_ssz K) r)"
    unfolding signed_bytes_def using r(6) honest(1) B by (intro exI conjI) (assumption | rule refl | simp)+
  moreover have "members oc ! 0 = snd kp" using oc(1) r(2) by simp
  moreover have "members oc \<noteq> []" "length (members oc) = N_MEMBERS bld" using oc(1) r(2) m(1,2) by simp_all
  ultimately show ?thesis using oc(2) out r(7) sig(2)
    by (intro exI [of _ oc] exI [of _ "status_list_to_bytes (k_raw_ssz K) r"]) simp
qed

section \<open>The whole run\<close>

lemma clear_files_ok:
  assumes "clear_files w stale ns j = (Inr u, j')"
  shows "set (map fst (j_files j')) = {n \<in> set (map fst (j_files j)). \<not> (n \<in> set ns \<and> from_utf8 (as_bytes n) \<noteq> None \<and> stale n)}
    \<and> (distinct (map fst (j_files j)) \<longrightarrow> distinct (map fst (j_files j')))"
  using assms
proof (induction ns arbitrary: j)
  case (Cons n ns)
  show ?case
  proof (cases "from_utf8 (as_bytes n) \<noteq> None \<and> stale n")
    case True
    let ?j = "j\<lparr>j_files := filter (\<lambda>(m, _). m \<noteq> n) (j_files j)\<rparr>"
    have "clear_files w stale ns ?j = (Inr u, j')" using Cons.prems True by (auto split: if_splits)
    note ih = Cons.IH [OF this]
    have "set (map fst (j_files ?j)) = set (map fst (j_files j)) - {n}" by force
    moreover have "distinct (map fst (j_files j)) \<Longrightarrow> distinct (map fst (j_files ?j))" by (simp add: distinct_map_filter)
    ultimately show ?thesis using ih True by auto
  next
    case False
    then have "clear_files w stale ns j = (Inr u, j')" using Cons.prems by (auto split: if_splits)
    then show ?thesis using Cons.IH False by auto
  qed
qed auto

lemma fixture_files_are:
  assumes "distinct (map fst fl)" and "sorted xs" and "distinct xs"
    and "\<And>n. n \<in> set xs \<longleftrightarrow> n \<in> set (map fst fl) \<and> from_utf8 (as_bytes n) \<noteq> None \<and> starts_with n start"
  shows "fixture_files (as_directory fl) start = Inr xs"
proof -
  have oks: "oks (map (\<lambda>(n, _). Inr n) fl) = map fst fl" for fl :: "(string \<times> bytes) list" by (induction fl) auto
  have "prefixed (map (\<lambda>(n, _). Inr n) fl) start = xs"
    using assms by (intro sorted_distinct_set_unique) (auto simp: prefixed_def oks)
  then show ?thesis by (simp add: fixture_files_def as_directory_def)
qed

text \<open>The files a run that returns leaves behind.\<close>

lemma control_names:
  "\<not> starts_with ''anchor.bin'' ''raw-update-''" "\<not> starts_with ''raw-attack-honest.bin'' ''raw-update-''"
  "\<not> starts_with ''raw-attack-slot.bin'' ''raw-update-''" "\<not> starts_with ''raw-attack-version.bin'' ''raw-update-''"
  "\<not> starts_with ''outsider-anchor.bin'' ''raw-update-''" "\<not> starts_with ''raw-attack-outsider.bin'' ''raw-update-''"
  "\<not> starts_with ''workload.txt'' ''raw-update-''"
  by (simp_all add: starts_with_def)

lemma raw_update_name_form: "starts_with (raw_update_name i) ''raw-update-''"
  by (simp add: starts_with_def raw_update_name_def)

lemma raw_update_name_utf8: "i < N_UPDATES \<Longrightarrow> from_utf8 (as_bytes (raw_update_name i)) \<noteq> None"
proof -
  have "list_all (\<lambda>i. from_utf8 (as_bytes (raw_update_name i)) \<noteq> None) [0..<N_UPDATES]" by code_simp
  then show "i < N_UPDATES \<Longrightarrow> ?thesis" by (simp add: list_all_iff)
qed

lemma dir_read_as_directory: "dir_read (as_directory fl) n = Inr bs \<longleftrightarrow> map_of fl n = Some bs"
  by (simp add: as_directory_def split: option.splits)

text \<open>The controls, from the directory after the updates.\<close>

definition controls_written ::
  "('b, 'pk, 'sk, 'sig, 'rng, 'sph, 'agg) check_env \<Rightarrow> ('pk, 'sk, 'sig, 'rng) xmss \<Rightarrow> build \<Rightarrow> 'pk committee \<Rightarrow> nat
    \<Rightarrow> (string \<times> bytes) list \<Rightarrow> (string \<times> bytes) list \<Rightarrow> bool" where
  "controls_written K X bld c B F F' \<longleftrightarrow> (\<exists>oc h s v q.
     signed_bytes K X bld c c B attack_version attack_version [0..<T bld] h
     \<and> signed_bytes K X bld c c B attack_version (attack_version + 1) [0..<T bld] s
     \<and> signed_bytes K X bld c c B (word_of_nat (N_UPDATES - 1)) KEY_SLOTS [0..<T bld] v
     \<and> signed_bytes K X bld c oc B attack_version attack_version [0..<T bld] q
     \<and> wf_committee (sha3_256 (k_hashes K)) (k_anchor K) oc \<and> length (members oc) = N_MEMBERS bld
     \<and> members oc \<noteq> [] \<and> members oc ! 0 \<notin> set (members c)
     \<and> F' = put_file ''raw-attack-outsider.bin'' q (put_file ''outsider-anchor.bin'' (committee_to_bytes (k_anchor K) oc)
         (put_file ''raw-attack-version.bin'' v (put_file ''raw-attack-slot.bin'' s (put_file ''raw-attack-honest.bin'' h F)))))"

lemma controls_ok:
  assumes c: "committee_of K X w bld kps c" and differ: "keys_differ w (N_MEMBERS bld)" and T: "1 \<le> T bld" and B: "length xs \<le> B"
    and r: "honest_control K X w bld kps c xs j2 = (Inr (slot, honest), j3)" "slot_control K X w bld kps c xs j3 = (Inr (), j4)"
      "version_control K X w bld kps c xs j4 = (Inr (), j5)" "outsider_control K X w bld c xs slot honest j5 = (Inr (), j6)"
  shows "controls_written K X bld c B (j_files j2) (j_files j6)"
proof -
  obtain h where h: "signed_bytes K X bld c c B attack_version attack_version [0..<T bld] h"
    "j_files j3 = put_file ''raw-attack-honest.bin'' h (j_files j2)" "slot_for c attack_version = Some slot" "map fst honest = [0..<T bld]"
    "\<forall>(i, sig) \<in> set honest. xmss_verify X (members c ! i) (message_for (blake2s_256 (k_hashes K)) c WotsXmss xs attack_version) sig slot"
    using honest_control_ok [OF c r(1) B] by auto
  obtain s where s: "signed_bytes K X bld c c B attack_version (attack_version + 1) [0..<T bld] s"
    "j_files j4 = put_file ''raw-attack-slot.bin'' s (j_files j3)"
    using signed_control_ok [OF c r(2) [unfolded slot_control_def] B] by blast
  obtain v where v: "signed_bytes K X bld c c B (word_of_nat (N_UPDATES - 1)) KEY_SLOTS [0..<T bld] v"
    "j_files j5 = put_file ''raw-attack-version.bin'' v (j_files j4)"
    using signed_control_ok [OF c r(3) [unfolded version_control_def Let_def] B] by blast
  obtain oc q where q: "signed_bytes K X bld c oc B attack_version attack_version [0..<T bld] q" "members oc \<noteq> []"
    "members oc ! 0 \<notin> set (members c)" "length (members oc) = N_MEMBERS bld" "wf_committee (sha3_256 (k_hashes K)) (k_anchor K) oc"
    "j_files j6 = put_file ''raw-attack-outsider.bin'' q (put_file ''outsider-anchor.bin'' (committee_to_bytes (k_anchor K) oc) (j_files j5))"
    using outsider_control_ok [OF c differ T h(3,4,5) r(4) B] by blast
  show ?thesis unfolding controls_written_def
    by (intro exI conjI) (rule h(1) s(1) v(1) q(1-5) | simp only: q(6) v(2) s(2) h(2))+
qed

text \<open>The updates, from the cleared directory.\<close>

definition updates_written ::
  "('b, 'pk, 'sk, 'sig, 'rng, 'sph, 'agg) check_env \<Rightarrow> ('pk, 'sk, 'sig, 'rng) xmss \<Rightarrow> build \<Rightarrow> 'pk committee \<Rightarrow> nat
    \<Rightarrow> (string \<times> bytes) list \<Rightarrow> bool" where
  "updates_written K X bld c B F \<longleftrightarrow> map_of F ''anchor.bin'' = Some (committee_to_bytes (k_anchor K) c)
     \<and> (\<forall>i < N_UPDATES. \<exists>is bs. map_of F (raw_update_name i) = Some bs \<and> signed_bytes K X bld c c B (word_of_nat i) (word_of_nat i) is bs)
     \<and> (\<forall>n \<in> set (map fst F). from_utf8 (as_bytes n) \<noteq> None \<longrightarrow> starts_with n ''raw-update-'' \<longrightarrow> n \<in> raw_update_name ` {..<N_UPDATES})"

lemma updates_ok:
  assumes c: "committee_of K X w bld kps c" and bld: "build_params env_n env_t = Inr bld"
    and clear: "clear_known_files w j = (Inr (), j0)"
    and run: "steps (fixture_update K X w bld kps c entries) [0..<N_UPDATES] ([], 0)
       (j0\<lparr>j_files := put_file ''anchor.bin'' (committee_to_bytes (k_anchor K) c) (j_files j0)\<rparr>) = (Inr st', j2)"
    and dist: "distinct (map fst (j_files j))" and entries: "entries \<noteq> Some 0" and B: "declared_length entries N_UPDATES \<le> B"
  shows "updates_written K X bld c B (j_files j2) \<and> distinct (map fst (j_files j2)) \<and> length (fst st') \<le> B"
proof -
  have cl: "\<forall>n \<in> set (map fst (j_files j0)). from_utf8 (as_bytes n) \<noteq> None \<longrightarrow> \<not> known_file n" "distinct (map fst (j_files j0))"
    using clear_files_ok [OF clear [unfolded clear_known_files_def]] dist by auto
  let ?F1 = "put_file ''anchor.bin'' (committee_to_bytes (k_anchor K) c) (j_files j0)"
  have "j_files (j0\<lparr>j_files := ?F1\<rparr>) = ?F1" by simp
  note fu = fixture_updates_ok [OF c bld run order_refl entries B, unfolded this]
  have ups: "\<forall>i < N_UPDATES. \<exists>is bs. map_of (j_files j2) (raw_update_name i) = Some bs \<and> signed_bytes K X bld c c B (word_of_nat i) (word_of_nat i) is bs"
    "\<forall>m. m \<notin> raw_update_name ` {..<N_UPDATES} \<longrightarrow> map_of (j_files j2) m = map_of ?F1 m"
    "set (map fst (j_files j2)) = set (map fst ?F1) \<union> raw_update_name ` {..<N_UPDATES}" "distinct (map fst (j_files j2))"
    by (fact fu [THEN conjunct1] fu [THEN conjunct2, THEN conjunct1] fu [THEN conjunct2, THEN conjunct2, THEN conjunct1]
        fu [THEN conjunct2, THEN conjunct2, THEN conjunct2, THEN conjunct1, THEN mp, OF put_file_distinct [OF cl(2)]])+
  have "''anchor.bin'' \<notin> raw_update_name ` {..<N_UPDATES}"
  proof
    assume "''anchor.bin'' \<in> raw_update_name ` {..<N_UPDATES}"
    then obtain i where "''anchor.bin'' = raw_update_name i" by (rule imageE)
    from raw_update_name_form [of i, folded this] control_names(1) show False by (rule notE [rotated])
  qed
  then have "map_of (j_files j2) ''anchor.bin'' = Some (committee_to_bytes (k_anchor K) c)" using ups(2) by simp
  moreover have "n \<in> raw_update_name ` {..<N_UPDATES}"
    if "n \<in> set (map fst (j_files j2))" "from_utf8 (as_bytes n) \<noteq> None" "starts_with n ''raw-update-''" for n
    using that cl(1) control_names(1) unfolding ups(3) set_put_file known_file_def by blast
  moreover have "length (fst st') \<le> B" using fu [THEN conjunct2, THEN conjunct2, THEN conjunct2, THEN conjunct2] B by (simp add: N_UPDATES_def)
  ultimately show ?thesis unfolding updates_written_def using ups(1,4) by blast
qed

text \<open>
  The fixed-width encodings the derived codec documents: a record over a list of at most \<open>B\<close> entries
  with a supported committee fits the 32-bit offsets.
\<close>

definition compact_raw :: "('b, 'pk, 'sk, 'sig, 'rng, 'sph, 'agg) check_env \<Rightarrow> nat \<Rightarrow> bool" where
  "compact_raw K B \<longleftrightarrow> (\<forall>v. length (rw_status_list v) \<le> B \<longrightarrow> bl_len (k_bits K) (rw_signers v) \<le> MAX_COMMITTEE_SIZE
     \<longrightarrow> length (rw_signatures v) \<le> MAX_COMMITTEE_SIZE \<longrightarrow> length (as_ssz_bytes (k_raw_ssz K) v) < 2 ^ 32)"

text \<open>The laws of the codecs the records and anchors rest on.\<close>

definition codec_laws :: "('b, 'pk, 'sk, 'sig, 'rng, 'sph, 'agg) check_env \<Rightarrow> bool" where
  "codec_laws K \<longleftrightarrow> bitlist_laws MAX_COMMITTEE_SIZE (k_bits K) \<and> ssz_roundtrip (k_raw_ssz K)
     \<and> compact_raw K MAX_LIST_ENTRIES \<and> ssz_roundtrip (wire_ssz (k_anchor K)) \<and> committee_wire_size (wire_ssz (k_anchor K))"

lemma built_record_fits:
  assumes laws: "bitlist_laws MAX_COMMITTEE_SIZE (k_bits K)" and "compact_raw K B"
    and new: "status_list_new (k_bits K) alg xs v n ps = Inr r" and "length xs \<le> B"
  shows "length (status_list_to_bytes (k_raw_ssz K) r) < 2 ^ 32"
proof -
  have ps: "valid_pairs n ps" using status_list_new_error [OF laws, of n ps alg xs v] new by auto
  have r: "sl_status_list r = xs" "signer_slots (k_bits K) r = n" "length (sl_signatures r) = length ps"
    using status_list_new_ok [OF laws ps, of alg xs v] new by auto
  have "length (map fst ps) \<le> n"
    using ps distinct_card [of "map fst ps"] card_mono [of "{..<n}" "set (map fst ps)"] by (force simp: valid_pairs_def)
  then have "length ps \<le> MAX_COMMITTEE_SIZE" "signer_slots (k_bits K) r \<le> MAX_COMMITTEE_SIZE"
    using ps r(2) by (simp_all add: valid_pairs_def)
  then show ?thesis using assms(2,4) r(1,3) unfolding status_list_to_bytes_def compact_raw_def signer_slots_def by simp
qed

lemma signed_bytes_fit:
  assumes "bitlist_laws MAX_COMMITTEE_SIZE (k_bits K)" and "compact_raw K B" and "signed_bytes K X bld c oc B v sv is bs"
  shows "length bs < 2 ^ 32"
  using assms(3) built_record_fits [OF assms(1,2)] unfolding signed_bytes_def by blast

lemma load_committee_back:
  assumes "codec_laws K" and "wf_committee (sha3_256 (k_hashes K)) (k_anchor K) c"
    and "map_of F name = Some (committee_to_bytes (k_anchor K) c)"
  shows "load_committee K (as_directory F) name = Inr c"
proof -
  have "dir_read (as_directory F) name = Inr (committee_to_bytes (k_anchor K) c)" using assms(3) by (simp add: dir_read_as_directory)
  moreover have "committee_from_bytes (sha3_256 (k_hashes K)) (k_anchor K) (committee_to_bytes (k_anchor K) c) = Inr c"
    using assms(1,2) committee_roundtrip unfolding codec_laws_def by blast
  ultimately show ?thesis by (simp add: load_committee_def return_iff)
qed

lemma fixture_outcome:
  assumes run: "committee_fixture K X w bld le j = (Inr u, j')" and laws: "signs_correctly X w" "keys_differ w (N_MEMBERS bld)"
    and bld: "build_params env_n env_t = Inr bld" and dist: "distinct (map fst (j_files j))"
  shows "\<exists>kps c F F' bs. committee_of K X w bld kps c \<and> updates_written K X bld c MAX_LIST_ENTRIES F \<and> distinct (map fst F)
    \<and> controls_written K X bld c MAX_LIST_ENTRIES F F' \<and> j_files j' = put_file ''workload.txt'' bs F'"
proof -
  from run obtain j0 kps c entries xs g j2 slot honest j3 j4 j5 j6 where r:
    "clear_known_files w j = (Inr (), j0)" "generate_keys ''fixture keygen failed'' w 0 (N_MEMBERS bld) = Inr kps"
    "committee_new (sha3_256 (k_hashes K)) (k_anchor K) (map snd kps) (T bld) SLOT = Inr c"
    "steps (fixture_update K X w bld kps c entries) [0..<N_UPDATES] ([], 0)
       (j0\<lparr>j_files := put_file ''anchor.bin'' (committee_to_bytes (k_anchor K) c) (j_files j0)\<rparr>) = (Inr (xs, g), j2)"
    "honest_control K X w bld kps c xs j2 = (Inr (slot, honest), j3)" "slot_control K X w bld kps c xs j3 = (Inr (), j4)"
    "version_control K X w bld kps c xs j4 = (Inr (), j5)" "outsider_control K X w bld c xs slot honest j5 = (Inr (), j6)"
    "j_files j' = put_file ''workload.txt'' (as_bytes (workload_manifest entries)) (j_files j6)" "list_entries_from_env le = Some entries"
    by (auto simp: committee_fixture_def return_iff)
  have c: "committee_of K X w bld kps c" using laws(1) r(2,3) by (simp add: committee_of_def)
  have T: "1 \<le> T bld" using build_params_satisfiable [OF bld] by simp
  have entries: "entries \<noteq> Some 0" "declared_length entries N_UPDATES \<le> MAX_LIST_ENTRIES"
    using env_entries_bounded [of le] r(10) by (auto simp: declared_length_def MAX_LIST_ENTRIES_def N_UPDATES_def split: option.splits)
  have ups: "updates_written K X bld c MAX_LIST_ENTRIES (j_files j2)" "distinct (map fst (j_files j2))" "length xs \<le> MAX_LIST_ENTRIES"
    using updates_ok [OF c bld r(1,4) dist entries] by simp_all
  show ?thesis using c ups(1,2) controls_ok [OF c laws(2) T ups(3) r(5-8)] r(9) by blast
qed

lemma fixture_is_valid_updates:
  assumes K: "codec_laws K" and c: "committee_of K X w bld kps c" and F: "updates_written K X bld c MAX_LIST_ENTRIES F" "distinct (map fst F)"
    and F': "controls_written K X bld c MAX_LIST_ENTRIES F F'" and fl: "fl = put_file ''workload.txt'' bs F'"
  shows "valid_updates K X bld c (as_directory fl)"
proof -
  note m = committee_of_members [OF c]
  from F' obtain oc h s v q where F'_eq: "F' = put_file ''raw-attack-outsider.bin'' q (put_file ''outsider-anchor.bin'' (committee_to_bytes (k_anchor K) oc)
       (put_file ''raw-attack-version.bin'' v (put_file ''raw-attack-slot.bin'' s (put_file ''raw-attack-honest.bin'' h F))))"
    unfolding controls_written_def by blast
  have dist: "distinct (map fst fl)" unfolding fl F'_eq by (intro put_file_distinct F(2))
  have kept: "map_of fl n = map_of F n" if "starts_with n ''raw-update-''" for n
  proof -
    have "n \<notin> set [''raw-attack-honest.bin'', ''raw-attack-slot.bin'', ''raw-attack-version.bin'', ''outsider-anchor.bin'',
      ''raw-attack-outsider.bin'', ''workload.txt'']" using that control_names unfolding list.set by blast
    then show ?thesis unfolding fl F'_eq by simp
  qed
  have anchor_kept: "map_of fl ''anchor.bin'' = map_of F ''anchor.bin''" unfolding fl F'_eq by simp
  have names: "set (map fst fl) \<inter> {n. starts_with n ''raw-update-''} = set (map fst F) \<inter> {n. starts_with n ''raw-update-''}"
    unfolding fl F'_eq set_put_file by (simp add: control_names)
  have anchor: "load_committee K (as_directory fl) ''anchor.bin'' = Inr c"
    using load_committee_back [OF K m(6)] F(1) anchor_kept by (simp add: updates_written_def)
  have present: "\<exists>is bs. map_of fl (raw_update_name i) = Some bs \<and> signed_bytes K X bld c c MAX_LIST_ENTRIES (word_of_nat i) (word_of_nat i) is bs" if "i < N_UPDATES" for i
    using F(1) that kept [of "raw_update_name i"] raw_update_name_form [of i] unfolding updates_written_def by simp
  have "signed_record K X bld c c (as_directory fl) (raw_update_name i) (word_of_nat i) (word_of_nat i)" if "i < N_UPDATES" for i
  proof -
    from present [OF that] obtain "is" b where b: "map_of fl (raw_update_name i) = Some b"
      "signed_bytes K X bld c c MAX_LIST_ENTRIES (word_of_nat i) (word_of_nat i) is b" by blast
    show ?thesis
      using signed_recordI(1) [OF _ _ b(2)] K b(1) signed_bytes_fit [OF _ _ b(2)] m unfolding codec_laws_def by (simp add: dir_read_as_directory)
  qed
  moreover have "fixture_files (as_directory fl) ''raw-update-'' = Inr (map raw_update_name [0..<N_UPDATES])"
  proof (rule fixture_files_are [OF dist raw_update_names(2,1)])
    fix n
    have "n \<in> set (map fst F)" if "n = raw_update_name i" "i < N_UPDATES" for i
      using F(1) that unfolding updates_written_def by (metis domI dom_map_of_conv_image_fst list.set_map)
    then show "n \<in> set (map raw_update_name [0..<N_UPDATES]) \<longleftrightarrow>
        n \<in> set (map fst fl) \<and> from_utf8 (as_bytes n) \<noteq> None \<and> starts_with n ''raw-update-''"
      using F(1) names raw_update_name_form raw_update_name_utf8 unfolding updates_written_def set_map [of raw_update_name] set_upt atLeast0LessThan by blast
  qed
  ultimately show ?thesis unfolding valid_updates_def using anchor m(1-3) by simp
qed

lemma fixture_is_valid_controls:
  assumes K: "codec_laws K" and c: "committee_of K X w bld kps c"
    and F': "controls_written K X bld c MAX_LIST_ENTRIES F F'" and fl: "fl = put_file ''workload.txt'' bs F'"
    and T: "1 \<le> T bld"
  shows "valid_controls K X bld c (as_directory fl)"
proof -
  note m = committee_of_members [OF c]
  from F' obtain oc h s v q where w: "signed_bytes K X bld c c MAX_LIST_ENTRIES attack_version attack_version [0..<T bld] h"
     "signed_bytes K X bld c c MAX_LIST_ENTRIES attack_version (attack_version + 1) [0..<T bld] s"
     "signed_bytes K X bld c c MAX_LIST_ENTRIES (word_of_nat (N_UPDATES - 1)) KEY_SLOTS [0..<T bld] v"
     "signed_bytes K X bld c oc MAX_LIST_ENTRIES attack_version attack_version [0..<T bld] q"
    and oc: "wf_committee (sha3_256 (k_hashes K)) (k_anchor K) oc" "length (members oc) = N_MEMBERS bld"
      "members oc \<noteq> []" "members oc ! 0 \<notin> set (members c)"
    and F'_eq: "F' = put_file ''raw-attack-outsider.bin'' q (put_file ''outsider-anchor.bin'' (committee_to_bytes (k_anchor K) oc)
       (put_file ''raw-attack-version.bin'' v (put_file ''raw-attack-slot.bin'' s (put_file ''raw-attack-honest.bin'' h F))))"
    unfolding controls_written_def by blast
  have files: "map_of fl ''raw-attack-honest.bin'' = Some h" "map_of fl ''raw-attack-slot.bin'' = Some s"
    "map_of fl ''raw-attack-version.bin'' = Some v" "map_of fl ''raw-attack-outsider.bin'' = Some q"
    "map_of fl ''outsider-anchor.bin'' = Some (committee_to_bytes (k_anchor K) oc)"
    unfolding fl F'_eq by simp_all
  have laws: "bitlist_laws MAX_COMMITTEE_SIZE (k_bits K)" "ssz_roundtrip (k_raw_ssz K)" using K by (simp_all add: codec_laws_def)
  have fit: "length b < 2 ^ 32" if "signed_bytes K X bld c d MAX_LIST_ENTRIES ver sv is b" for d ver sv "is" b
    using signed_bytes_fit [OF laws(1) _ that] K by (simp add: codec_laws_def)
  have rec: "signed_record K X bld c d (as_directory fl) n ver sv"
    if "map_of fl n = Some b" "signed_bytes K X bld c d MAX_LIST_ENTRIES ver sv [0..<T bld] b" "length (members d) = N_MEMBERS bld" "distinct (members d)" for d n ver sv b
    using signed_recordI(1) [OF laws that(2)] that fit [OF that(2)] by (simp add: dir_read_as_directory)
  have dist: "distinct (members oc)" by (rule wf_committee_distinct [OF oc(1)])
  have "members oc ! 0 \<in> set (map fst inputs)"
    if "load_raw K (as_directory fl) ''raw-attack-outsider.bin'' = Inr raw" "aggregation_inputs K oc raw = Inr inputs" for raw inputs
  proof -
    have "dir_read (as_directory fl) ''raw-attack-outsider.bin'' = Inr q" using files(4) by (simp add: dir_read_as_directory)
    from signed_recordI(2) [OF laws w(4) this fit [OF w(4)] oc(2) dist that] show ?thesis using T by auto
  qed
  then have out: "\<forall>raw inputs. load_raw K (as_directory fl) ''raw-attack-outsider.bin'' = Inr raw \<longrightarrow> aggregation_inputs K oc raw = Inr inputs
      \<longrightarrow> \<not> set (map fst inputs) \<subseteq> set (members c)" using oc(4) by blast
  have c_len: "length (members c) = N_MEMBERS bld" using m(1,2) by simp
  show ?thesis
    unfolding valid_controls_def by (intro conjI exI [of _ oc] rec [OF files(1) w(1) c_len m(5)] rec [OF files(2) w(2) c_len m(5)]
      rec [OF files(3) w(3) c_len m(5)] rec [OF files(4) w(4) oc(2) dist] load_committee_back [OF K oc(1) files(5)] out)
qed

text \<open>A run that returns leaves a valid fixture, whatever an earlier run left in the directory.\<close>

lemma fixture_leaves_valid:
  assumes "committee_fixture K X w bld le j = (Inr u, j')" and "codec_laws K" and "signs_correctly X w"
    and "keys_differ w (N_MEMBERS bld)" and "build_params env_n env_t = Inr bld" and "distinct (map fst (j_files j))"
  shows "\<exists>c. valid_updates K X bld c (as_directory (j_files j')) \<and> valid_controls K X bld c (as_directory (j_files j'))"
proof -
  obtain kps c F F' bs where r: "committee_of K X w bld kps c" "updates_written K X bld c MAX_LIST_ENTRIES F" "distinct (map fst F)"
    "controls_written K X bld c MAX_LIST_ENTRIES F F'" "j_files j' = put_file ''workload.txt'' bs F'"
    using fixture_outcome [OF assms(1,3-6)] by blast
  have "1 \<le> T bld" using build_params_satisfiable [OF assms(5)] by simp
  then show ?thesis
    using fixture_is_valid_updates [OF assms(2) r(1-5)] fixture_is_valid_controls [OF assms(2) r(1,4,5)] by blast
qed

end
