(* ===== verification/Fixture_Runs.thy ===== *)
theory Fixture_Runs
  imports Fixture_Valid
begin

text \<open>
  The fixture generator returns: without faults of the world, and for a build the committee type
  supports, no step of it panics.
\<close>

section \<open>Its steps return\<close>

text \<open>The slots a run signs at lie in the interval of the keys.\<close>

lemma run_slot:
  assumes "genesis_slot c = SLOT" and "v \<le> KEY_SLOTS"
  shows "\<exists>slot. slot_for c v = Some slot \<and> SLOT \<le> slot \<and> slot \<le> SLOT + KEY_SLOTS"
proof -
  have v: "unat v \<le> 64" using assms(2) by (simp add: word_le_nat_alt KEY_SLOTS_def)
  then have "unat (SLOT + v) = unat SLOT + unat v" by (simp add: unat_word_ariths SLOT_def)
  then have "slot_for c v = Some (SLOT + v)" "SLOT \<le> SLOT + v" "SLOT + v \<le> SLOT + KEY_SLOTS"
    using assms(1) v by (simp_all add: slot_for_Some word_le_nat_alt KEY_SLOTS_def SLOT_def)
  then show ?thesis by blast
qed

lemma signatures_for_return:
  assumes f: "faultless X w n" and keys: "generate_keys msg w 0 n = Inr kps" and "\<forall>i \<in> set is. i < n"
    and slot: "SLOT \<le> slot" "slot \<le> SLOT + KEY_SLOTS"
  shows "returns (signatures_for X w kps is message slot)"
  using assms(3)
proof (induction "is")
  case Nil
  then show ?case by (simp add: returns_def)
next
  case (Cons i "is")
  have i: "key_at kps i = Inr (kps ! i)" "w_key_gen w i SLOT (SLOT + KEY_SLOTS) = Inr (kps ! i)" "i \<le> n"
    using keys Cons.prems by (auto simp: generate_keys_nth key_at_def)
  have rest: "returns (signatures_for X w kps is message slot)" using Cons by simp
  have eq: "signatures_for X w kps (i # is) message slot = seq (lift (key_at kps i)) (\<lambda>kp.
      seq (sign_with ''fixture signing failed'' X w kp message slot) (\<lambda>sig.
      seq (signatures_for X w kps is message slot) (\<lambda>rest. lift (Inr ((i, sig) # rest)))))" by (simp add: fun_eq_iff)
  show ?case unfolding eq
    by (intro returns_lift_seq [OF i(1)] returns_seq rest returns_lift faultless_sign [OF f i(3,2) slot])
qed

text \<open>A record built from signatures of distinct members.\<close>

lemma record_returns:
  assumes "bitlist_laws MAX_COMMITTEE_SIZE B" and "n \<le> MAX_COMMITTEE_SIZE" and "distinct (map fst ps)" and "\<forall>i \<in> set (map fst ps). i < n"
  shows "\<exists>r. status_list_new B alg xs v n ps = Inr r"
  using status_list_new_ok [OF assms(1), of n ps alg xs v] assms(2-4) by (auto simp: valid_pairs_def)

text \<open>The premises the steps share: the committee of a faultless world, of a supported size.\<close>

definition running ::
  "('b, 'pk, 'sk, 'sig, 'rng, 'sph, 'agg) check_env \<Rightarrow> ('pk, 'sk, 'sig, 'rng) xmss \<Rightarrow> ('pk, 'sk, 'rng) world \<Rightarrow> build
    \<Rightarrow> ('sk \<times> 'pk) list \<Rightarrow> 'pk committee \<Rightarrow> bool" where
  "running K X w bld kps c \<longleftrightarrow> committee_of K X w bld kps c \<and> faultless X w (N_MEMBERS bld)
     \<and> bitlist_laws MAX_COMMITTEE_SIZE (k_bits K) \<and> N_MEMBERS bld \<le> MAX_COMMITTEE_SIZE"

lemma signatures_return:
  assumes r: "running K X w bld kps c" and idx: "\<forall>i \<in> set is. i < N_MEMBERS bld" and v: "v \<le> KEY_SLOTS" and slot: "slot_for c v = Some slot"
  shows "returns (signatures_for X w kps is message slot)"
proof -
  have c: "committee_of K X w bld kps c" "faultless X w (N_MEMBERS bld)" using r by (auto simp: running_def)
  have "SLOT \<le> slot" "slot \<le> SLOT + KEY_SLOTS"
    using run_slot [OF committee_of_members(4) [OF c(1)] v] slot by auto
  then show ?thesis using c idx by (intro signatures_for_return) (auto simp: committee_of_def)
qed

lemma indices_of_signatures:
  assumes "running K X w bld kps c" and "signatures_for X w kps is message slot j = (Inr ps, j')"
  shows "map fst ps = is"
  using assms signatures_for_ok [of X w _ "N_MEMBERS bld" kps "is"] unfolding running_def committee_of_def by blast

text \<open>Building the record from the signatures returns.\<close>

lemma record_step:
  assumes r: "running K X w bld kps c" and idx: "distinct is" "\<forall>i \<in> set is. i < N_MEMBERS bld"
    and ps: "map fst ps = is" and rest: "\<And>r. returns (f r)"
  shows "returns (seq (lift (expect msg (status_list_new (k_bits K) WotsXmss xs v (N_MEMBERS bld) ps))) f)"
proof -
  obtain rec where "status_list_new (k_bits K) WotsXmss xs v (N_MEMBERS bld) ps = Inr rec"
    using record_returns [of "k_bits K" "N_MEMBERS bld" ps] ps r idx unfolding running_def by blast
  then show ?thesis by (intro returns_lift_seq [OF _ rest]) (simp add: expect_Inr)
qed

lemma advance_list_returns:
  assumes "entries \<noteq> Some 0"
  shows "\<exists>ys g'. advance_list fresh v entries xs g = Some (ys, g')"
proof (cases entries)
  case None
  then show ?thesis using advance_growing [of fresh v xs g] by blast
next
  case (Some len)
  then show ?thesis using advance_fixed [of len fresh v xs g] assms by blast
qed

lemma fixture_update_returns:
  assumes r: "running K X w bld kps c" and bld: "build_params env_n env_t = Inr bld" and i: "i < N_UPDATES" and entries: "entries \<noteq> Some 0"
  shows "returns (fixture_update K X w bld kps c entries i st)"
proof -
  have c: "genesis_slot c = SLOT" "\<And>f. w_write w f = FileClean" "bitlist_laws MAX_COMMITTEE_SIZE (k_bits K)" "N_MEMBERS bld \<le> MAX_COMMITTEE_SIZE"
    using r committee_of_members(4) faultless_write unfolding running_def by blast+
  have v: "(word_of_nat i :: u32) \<le> KEY_SLOTS" using i by (simp add: N_UPDATES_def KEY_SLOTS_def word_le_nat_alt unat_of_nat)
  obtain slot where slot: "slot_for c (word_of_nat i) = Some slot" using run_slot [OF c(1) v] by blast
  obtain "is" where q: "quorum_indices (N_MEMBERS bld) (T bld) (word_of_nat i) = Some is" "distinct is" "\<forall>i \<in> set is. i < N_MEMBERS bld"
    using quorum_in_range [of "T bld" "N_MEMBERS bld" "word_of_nat i"] build_params_satisfiable [OF bld] build_params_bounded [OF bld] by auto
  obtain xs g where adv: "advance_list (random_entry (sha3_256 (k_hashes K)) w) i entries (fst st) (snd st) = Some (xs, g)"
    using advance_list_returns [OF entries, of "random_entry (sha3_256 (k_hashes K)) w" i "fst st" "snd st"] by blast
  note ok = returns_lift_seq [OF expect_some_Inr [THEN iffD2]]
  have rec: "returns (seq (lift (expect msg (status_list_new (k_bits K) WotsXmss xs (word_of_nat i) (N_MEMBERS bld) ps))) (\<lambda>r.
      seq (write_file w n (bs r)) (\<lambda>_. lift (Inr (xs, g)))))" if "signatures_for X w kps is m slot j = (Inr ps, j')" for msg ps m j j' n bs
    by (intro record_step [OF r q(2,3) indices_of_signatures [OF r that]] returns_intros c(2))
  show ?thesis
    unfolding fixture_update_def
    by (intro ok, rule adv, simp only: prod.case Let_def)
      (intro ok [OF slot] ok [OF q(1)] returns_seq [OF signatures_return [OF r q(3) v slot]], rule rec)
qed

text \<open>The controls.\<close>

lemma write_control_returns:
  assumes r: "running K X w bld kps c" and "distinct is" and "\<forall>i \<in> set is. i < N_MEMBERS bld" and "map fst ps = is"
  shows "returns (write_control K w bld msg name xs v ps)"
proof -
  have "w_write w name = FileClean" using r faultless_write unfolding running_def by blast
  then show ?thesis unfolding write_control_def by (intro record_step [OF assms] returns_write)
qed

lemma attack_version_in_window: "attack_version \<le> KEY_SLOTS" "attack_version + 1 \<le> KEY_SLOTS"
  by (simp_all add: attack_version_def N_UPDATES_def KEY_SLOTS_def)

lemma first_members: "T bld \<le> N_MEMBERS bld \<Longrightarrow> distinct [0..<T bld] \<and> (\<forall>i \<in> set [0..<T bld]. i < N_MEMBERS bld)"
  by simp

lemma signed_control_returns:
  assumes r: "running K X w bld kps c" and T: "T bld \<le> N_MEMBERS bld" and v: "v \<le> KEY_SLOTS"
  shows "returns (seq (lift (expect_some msg (slot_for c v))) (\<lambda>slot. seq (signatures_for X w kps [0..<T bld] (m slot) slot)
      (\<lambda>sigs. write_control K w bld msg' name xs v' sigs)))"
proof -
  obtain slot where slot: "slot_for c v = Some slot"
    using r run_slot [OF committee_of_members(4) v] unfolding running_def by blast
  show ?thesis
    by (intro returns_lift_seq [OF expect_some_Inr [THEN iffD2, OF slot]] returns_seq [OF signatures_return [OF r _ v slot]]
        write_control_returns [OF r] indices_of_signatures [OF r]) (use first_members [OF T] in simp_all)
qed

lemma honest_control_returns:
  assumes r: "running K X w bld kps c" and T: "T bld \<le> N_MEMBERS bld"
  shows "returns (honest_control K X w bld kps c xs)"
proof -
  obtain slot where slot: "slot_for c attack_version = Some slot"
    using r run_slot [OF committee_of_members(4) attack_version_in_window(1)] unfolding running_def by blast
  show ?thesis unfolding honest_control_def
    by (intro returns_lift_seq [OF expect_some_Inr [THEN iffD2, OF slot]] returns_seq [OF signatures_return [OF r _ attack_version_in_window(1) slot]]
        returns_seq [OF write_control_returns [OF r]] indices_of_signatures [OF r] returns_lift) (use first_members [OF T] in simp_all)
qed

text \<open>The anchor of the outsider: its key is new, so the keys stay distinct.\<close>

lemma outsider_control_returns:
  assumes r: "running K X w bld kps c" and differ: "keys_differ w (N_MEMBERS bld)" and T: "1 \<le> T bld" "T bld \<le> N_MEMBERS bld"
    and inj: "inj (as_ssz_bytes (key_ssz (k_anchor K)))" and slot: "slot_for c attack_version = Some slot" and honest: "map fst honest = [0..<T bld]"
  shows "returns (outsider_control K X w bld c xs slot honest)"
proof -
  have f: "faultless X w (N_MEMBERS bld)" and c: "committee_of K X w bld kps c" and max: "N_MEMBERS bld \<le> MAX_COMMITTEE_SIZE"
    using r by (auto simp: running_def)
  note m = committee_of_members [OF c]
  obtain kp where kp: "w_key_gen w (N_MEMBERS bld) SLOT (SLOT + KEY_SLOTS) = Inr kp" using faultless_key [OF f] by blast
  have keys: "generate_keys ''fixture keygen failed'' w 0 (N_MEMBERS bld) = Inr kps" using c by (simp add: committee_of_def)
  have ne: "members c \<noteq> []" "honest \<noteq> []" using m(1,2) T honest by (auto simp: upt_rec [of 0])
  have "snd kp \<notin> set (members c)" using generated_keys_differ(2) [OF differ keys kp] m(1) by simp
  then have "distinct ((members c)[0 := snd kp])" using m(5) by (intro distinct_list_update) auto
  then have "distinct (map (as_ssz_bytes (key_ssz (k_anchor K))) ((members c)[0 := snd kp]))"
    using inj by (simp only: distinct_map) (simp add: inj_on_def inj_def)
  then obtain oc where oc: "committee_new (sha3_256 (k_hashes K)) (k_anchor K) ((members c)[0 := snd kp]) (T bld) SLOT = Inr oc"
    using committee_new_ok [of "T bld" "(members c)[0 := snd kp]" "k_anchor K"] T m(1,2) max by fastforce
  have window: "SLOT \<le> slot" "slot \<le> SLOT + KEY_SLOTS" using run_slot [OF m(4) attack_version_in_window(1)] slot by auto
  have hd: "map fst (honest[0 := (0, sig)]) = [0..<T bld]" for sig
    using honest ne(2) T(1) by (cases honest) (auto simp: map_update upt_rec)
  note assertion = returns_lift_seq [OF assert_that_Inr [THEN iffD2]] and result = returns_lift_seq [OF expect_Inr [THEN iffD2]]
  show ?thesis unfolding outsider_control_def
    by (intro result [OF kp] assertion [OF ne(1)] assertion [OF ne(2)] result [OF oc] returns_write_seq faultless_write [OF f]
        returns_seq [OF faultless_sign [OF f order_refl kp window]] write_control_returns [OF r _ _ hd]) (use first_members [OF T(2)] in simp_all)
qed

section \<open>The run returns\<close>

lemma generated_committee:
  assumes f: "faultless X w (N_MEMBERS bld)" and differ: "keys_differ w (N_MEMBERS bld)" and sign: "signs_correctly X w"
    and inj: "inj (as_ssz_bytes (key_ssz (k_anchor K)))" and max: "N_MEMBERS bld \<le> MAX_COMMITTEE_SIZE"
    and T: "1 \<le> T bld" "T bld \<le> N_MEMBERS bld"
  shows "\<exists>kps c. generate_keys ''fixture keygen failed'' w 0 (N_MEMBERS bld) = Inr kps
    \<and> committee_new (sha3_256 (k_hashes K)) (k_anchor K) (map snd kps) (T bld) SLOT = Inr c \<and> committee_of K X w bld kps c"
proof -
  obtain kps where kps: "generate_keys ''fixture keygen failed'' w 0 (N_MEMBERS bld) = Inr kps"
    using generate_keys_return [OF f, of 0 "N_MEMBERS bld"] by auto
  have "distinct (map snd kps)" by (rule generated_keys_differ(1) [OF differ kps])
  then have "distinct (map (as_ssz_bytes (key_ssz (k_anchor K))) (map snd kps))"
    using inj by (simp only: distinct_map) (simp add: inj_on_def inj_def)
  moreover have "length (map snd kps) = N_MEMBERS bld" using kps by (simp add: generate_keys_nth)
  ultimately obtain c where "committee_new (sha3_256 (k_hashes K)) (k_anchor K) (map snd kps) (T bld) SLOT = Inr c"
    using committee_new_ok [of "T bld" "map snd kps" "k_anchor K"] T max by fastforce
  then show ?thesis using kps sign unfolding committee_of_def by blast
qed

lemma fixture_returns:
  assumes f: "faultless X w (N_MEMBERS bld)" and differ: "keys_differ w (N_MEMBERS bld)" and sign: "signs_correctly X w"
    and K: "bitlist_laws MAX_COMMITTEE_SIZE (k_bits K)" "inj (as_ssz_bytes (key_ssz (k_anchor K)))" and max: "N_MEMBERS bld \<le> MAX_COMMITTEE_SIZE"
    and bld: "build_params env_n env_t = Inr bld" and le: "list_entries_from_env le = Some entries"
  shows "returns (committee_fixture K X w bld le)"
proof -
  have T: "1 \<le> T bld" "T bld \<le> N_MEMBERS bld" using build_params_satisfiable [OF bld] by auto
  obtain kps c where c: "generate_keys ''fixture keygen failed'' w 0 (N_MEMBERS bld) = Inr kps"
    "committee_new (sha3_256 (k_hashes K)) (k_anchor K) (map snd kps) (T bld) SLOT = Inr c" "committee_of K X w bld kps c"
    using generated_committee [OF f differ sign K(2) max T] by blast
  have r: "running K X w bld kps c" using c(3) f K(1) max by (simp add: running_def)
  have entries: "entries \<noteq> Some 0" using env_entries_bounded [of le] le by auto
  have clear: "returns (clear_known_files w)"
    using clear_files_return [of w known_file] f unfolding returns_def clear_known_files_def faultless_def by blast
  have ups: "returns (steps (fixture_update K X w bld kps c entries) [0..<N_UPDATES] st)" for st
    by (intro returns_steps fixture_update_returns [OF r bld _ entries]) simp
  have controls: "returns (slot_control K X w bld kps c xs)" "returns (version_control K X w bld kps c xs)" for xs
    unfolding slot_control_def version_control_def Let_def using attack_version_in_window(2)
    by (intro signed_control_returns [OF r T(2)]; simp)+
  have outsider: "returns (outsider_control K X w bld c xs (fst a) (snd a))" if "honest_control K X w bld kps c xs j = (Inr a, j')" for xs a j j'
    using honest_control_ok [OF c(3) that order_refl] by (intro outsider_control_returns [OF r differ T K(2)]) auto
  note result = returns_lift_seq [OF expect_Inr [THEN iffD2]]
  show ?thesis unfolding committee_fixture_def case_prod_unfold
    by (intro returns_seq [OF clear] returns_lift_seq [OF c(1)] result [OF c(2)] returns_write_seq faultless_write [OF f]
        returns_lift_seq [OF expect_some_Inr [THEN iffD2, OF le]] returns_seq [OF ups] returns_seq [OF honest_control_returns [OF r T(2)]]
        returns_seq [OF controls(1)] returns_seq [OF controls(2)] returns_seq [OF outsider] returns_write) assumption
qed

section \<open>Property\<close>

text \<open>
  The fixture generator delivers: for a build the committee type supports and a list size the
  environment accepts, if no file operation fails and keys sign at every slot of their interval,
  it returns, whatever an earlier run left in the directory, and what it leaves is a fixture the
  aggregator can use. The anchor decodes to a committee of the build's size and threshold, the
  listing of updates is exactly the \<open>N_UPDATES\<close> names in version order, each of them decodes to a
  record with one quorum's signatures, each valid for its member at the slot of that version, and
  the four controls are signed at the slots the forgeries need, the outsider's by a key that is no
  member's.
\<close>

theorem fixture_run_delivers:
  assumes "faultless X w (N_MEMBERS bld)" and "keys_differ w (N_MEMBERS bld)" and "signs_correctly X w"
    and "codec_laws K" and "inj (as_ssz_bytes (key_ssz (k_anchor K)))" and "N_MEMBERS bld \<le> MAX_COMMITTEE_SIZE"
    and "build_params env_n env_t = Inr bld" and "list_entries_from_env le = Some entries" and "distinct (map fst (j_files j))"
  shows "\<exists>j' c. committee_fixture K X w bld le j = (Inr (), j')
    \<and> valid_updates K X bld c (as_directory (j_files j')) \<and> valid_controls K X bld c (as_directory (j_files j'))"
proof -
  have "bitlist_laws MAX_COMMITTEE_SIZE (k_bits K)" using assms(4) by (simp add: codec_laws_def)
  then obtain j' where "committee_fixture K X w bld le j = (Inr (), j')"
    using fixture_returns [OF assms(1-3) _ assms(5-8)] unfolding returns_def by (metis old.unit.exhaust)
  then show ?thesis using fixture_leaves_valid [OF _ assms(4,3,2,7,9)] by blast
qed

section \<open>A concrete world\<close>

text \<open>
  An encoding of raw records that spells everything out: the tag, the version, the bits, the counts
  and then one 32-byte array per entry and three per signature.
\<close>

definition slot_array :: "u32 \<Rightarrow> 32 barr" where
  "slot_array slot = mk_barr (u32_to_le slot @ replicate 28 0)"

definition plain_raw_ssz :: "(bool list, 32 barr \<times> 32 barr \<times> u32) raw_wire ssz" where
  "plain_raw_ssz = \<lparr>
     as_ssz_bytes = (\<lambda>v. rw_alg v # u32_to_le (rw_version v) @ u32_to_le (word_of_nat (length (rw_signers v)))
        @ u32_to_le (word_of_nat (length (rw_status_list v))) @ u32_to_le (word_of_nat (length (rw_signatures v)))
        @ map (\<lambda>b. if b then 1 else 0) (rw_signers v)
        @ concat (map bytes_of (rw_status_list v @ map fst (rw_signatures v) @ map (fst \<circ> snd) (rw_signatures v)
            @ map (slot_array \<circ> snd \<circ> snd) (rw_signatures v)))),
     from_ssz_bytes = (\<lambda>b. if length b < 17 then Inl ''InvalidByteLength'' else
        let nb = unat (u32_from_le (region 5 4 b)); nl = unat (u32_from_le (region 9 4 b)); ns = unat (u32_from_le (region 13 4 b));
            xs = arrays (drop (17 + nb) b)
        in Inr \<lparr>rw_alg = b ! 0, rw_status_list = take nl xs, rw_version = u32_from_le (region 1 4 b),
                rw_signers = map (\<lambda>x. x = 1) (region 17 nb b),
                rw_signatures = zip (take ns (drop nl xs)) (zip (take ns (drop (nl + ns) xs))
                  (map (\<lambda>a. u32_from_le (take 4 (bytes_of a))) (drop (nl + 2 * ns) xs)))\<rparr>)\<rparr>"

lemma plain_raw_length:
  "length (as_ssz_bytes plain_raw_ssz v) = 17 + length (rw_signers v) + 32 * (length (rw_status_list v) + 3 * length (rw_signatures v))"
  by (simp add: plain_raw_ssz_def length_concat_arrays del: map_append)

lemma slot_array_slot: "u32_from_le (take 4 (bytes_of (slot_array s))) = s"
  by (simp add: slot_array_def)

lemma zip_triples: "zip (map fst ss) (zip (map (fst \<circ> snd) ss) (map (snd \<circ> snd) ss)) = ss"
  by (induction ss) auto

lemma plain_raw_roundtrip: "ssz_roundtrip plain_raw_ssz"
proof -
  have "from_ssz_bytes plain_raw_ssz (as_ssz_bytes plain_raw_ssz v) = Inr v" if "length (as_ssz_bytes plain_raw_ssz v) < 2 ^ 32" for v
  proof -
    let ?nb = "length (rw_signers v)" and ?nl = "length (rw_status_list v)" and ?ns = "length (rw_signatures v)"
    let ?xs = "rw_status_list v @ map fst (rw_signatures v) @ map (fst \<circ> snd) (rw_signatures v) @ map (slot_array \<circ> snd \<circ> snd) (rw_signatures v)"
    have n: "unat (word_of_nat ?nb :: u32) = ?nb" "unat (word_of_nat ?nl :: u32) = ?nl" "unat (word_of_nat ?ns :: u32) = ?ns"
      using that unfolding plain_raw_length by (simp_all add: unat_of_nat)
    obtain bs where bs: "bs = as_ssz_bytes plain_raw_ssz v" by blast
    have regions: "region 5 4 bs = u32_to_le (word_of_nat ?nb)" "region 9 4 bs = u32_to_le (word_of_nat ?nl)"
      "region 13 4 bs = u32_to_le (word_of_nat ?ns)" "region 1 4 bs = u32_to_le (rw_version v)"
      "region 17 ?nb bs = map (\<lambda>b. if b then 1 else 0) (rw_signers v)" "drop ?nb (drop 17 bs) = concat (map bytes_of ?xs)" "bs ! 0 = rw_alg v" "17 \<le> length bs"
      unfolding bs by (simp_all add: plain_raw_ssz_def region_def del: drop_drop)
    have tail: "drop (17 + ?nb) bs = concat (map bytes_of ?xs)" using regions(6) by (simp add: add.commute)
    have bits: "map (\<lambda>x. x = (1 :: u8)) (map (\<lambda>b. if b then 1 else 0) (rw_signers v)) = rw_signers v" by (simp add: comp_def)
    have "from_ssz_bytes plain_raw_ssz bs = Inr v"
      using regions(1-5,7,8) tail n bits zip_triples [of "rw_signatures v"]
      by (simp add: plain_raw_ssz_def Let_def arrays_concat slot_array_slot comp_def del: map_append)
    then show ?thesis unfolding bs .
  qed
  then show ?thesis by (simp add: ssz_roundtrip_def)
qed

definition corpus_env where
  "corpus_env = example_env\<lparr>k_raw_ssz := plain_raw_ssz\<rparr>"

lemma corpus_env_laws: "codec_laws corpus_env" "inj (as_ssz_bytes (key_ssz (k_anchor corpus_env)))"
proof -
  have "compact_raw corpus_env MAX_LIST_ENTRIES"
    by (auto simp: compact_raw_def corpus_env_def example_env_def plain_raw_length MAX_LIST_ENTRIES_def MAX_COMMITTEE_SIZE_def bools_bitlist_def)
  then show "codec_laws corpus_env"
    using bools_bitlist_laws plain_raw_roundtrip reference_laws by (simp add: codec_laws_def corpus_env_def example_env_def reference_codecs_def)
  show "inj (as_ssz_bytes (key_ssz (k_anchor corpus_env)))"
    by (simp add: corpus_env_def example_env_def reference_codecs_def array_ssz_def inj_def bytes_of_inject)
qed

lemma numbered_world_laws: "faultless plain_xmss numbered_world n" "signs_correctly plain_xmss numbered_world"
  by (simp_all add: faultless_def signs_correctly_def numbered_world_def plain_xmss_def)

theorem fixture_run_delivers_witness:
  "\<exists>j' c. committee_fixture corpus_env plain_xmss numbered_world \<lparr>N_MEMBERS = 200, T = 128\<rparr> None \<lparr>j_files = [(''raw-update-77.bin'', [])], j_uses = []\<rparr> = (Inr (), j')
     \<and> valid_updates corpus_env plain_xmss \<lparr>N_MEMBERS = 200, T = 128\<rparr> c (as_directory (j_files j'))"
proof -
  have "list_entries_from_env None = Some None" by (simp add: list_entries_from_env_def)
  then show ?thesis
    using fixture_run_delivers [OF numbered_world_laws(1) _ numbered_world_laws(2) corpus_env_laws _ build_params_default, of None None
        "\<lparr>j_files = [(''raw-update-77.bin'', [])], j_uses = []\<rparr>"] numbered_world_keys
    by (simp add: MAX_COMMITTEE_SIZE_def) blast
qed

end
