(* ===== verification/Prover_Spec.thy ===== *)
theory Prover_Spec
  imports Fixture_Runs
begin

text \<open>
  What the aggregator's records claim. The predicate of the SNARK path makes five checks on the claim
  of a proof: membership, message, slot, quorum and the proof itself. Every forgery of the corpus is
  built so that one of them alone can refuse it; the lemmas show that this is what the prover
  writes, in both of its modes, and that its honest records pass all five.
\<close>

section \<open>The checks a record fails\<close>

text \<open>The numbers of the failing checks; \<open>None\<close> for a proof that is not the canonical encoding of one claim.\<close>

definition failed_checks ::
  "('b, 'pk, 'sk, 'sig, 'rng, 'sph, 'agg) check_env \<Rightarrow> 'pk committee \<Rightarrow> snark_status_list \<Rightarrow> nat list option" where
  "failed_checks K c r =
     (case snark_proof (k_leanvm K) r of
        Inl e \<Rightarrow> None
      | Inr a \<Rightarrow>
          if agg_sphincs_signers (k_leanvm K) a \<noteq> [] then None
          else case agg_xmss_signers (k_leanvm K) a of
                 [(slot, message, pks)] \<Rightarrow> Some (
                   (if set pks \<subseteq> set (members c) then [] else [1])
                   @ (if message = message_for (blake2s_256 (k_hashes K)) c (ss_alg r) (ss_status_list r) (ss_version r) then [] else [2])
                   @ (if slot_for c (ss_version r) = Some slot then [] else [3])
                   @ (if threshold c \<le> length pks then [] else [4])
                   @ (if agg_verify (k_leanvm K) a then [] else [5]))
               | _ \<Rightarrow> None)"

lemma failed_checks_none_fail:
  "snark_verify (k_leanvm K) (blake2s_256 (k_hashes K)) sv r \<longleftrightarrow> failed_checks K (sv_committee sv) r = Some []"
  by (auto simp: snark_verify_def failed_checks_def snark_check_iff split: sum.splits list.splits prod.splits if_splits)

section \<open>What a proof claims\<close>

text \<open>A proof whose claim is exactly the given signatures.\<close>

definition claims ::
  "('b, 'pk, 'sk, 'sig, 'rng, 'sph, 'agg) check_env \<Rightarrow> bytes \<Rightarrow> u32 \<Rightarrow> 32 barr \<Rightarrow> 'pk set \<Rightarrow> bool" where
  "claims K p slot message ks \<longleftrightarrow> (\<exists>a pks. agg_from_bytes (k_leanvm K) p = Inr a \<and> agg_to_bytes (k_leanvm K) a = p
     \<and> agg_xmss_signers (k_leanvm K) a = [(slot, message, pks)] \<and> set pks = ks \<and> distinct pks
     \<and> agg_sphincs_signers (k_leanvm K) a = [] \<and> agg_verify (k_leanvm K) a)"

lemma aggregate_completeD:
  assumes "aggregate_complete X L" and "raws \<noteq> []" and "distinct (map fst raws)" and "\<forall>(pk, sig) \<in> set raws. xmss_verify X pk message sig slot"
    and "aggregate L (map (\<lambda>(pk, sig). (pk, slot, message, sig)) raws) rate = Inr a"
  shows "(\<exists>pks. agg_xmss_signers L a = [(slot, message, pks)] \<and> set pks = set (map fst raws) \<and> distinct pks)
    \<and> agg_sphincs_signers L a = [] \<and> agg_verify L a \<and> agg_from_bytes L (agg_to_bytes L a) = Inr a"
  using assms unfolding aggregate_complete_def by blast

lemma prove_at_claims:
  assumes "aggregate_complete X (k_leanvm K)" and "raws \<noteq> []" and "distinct (map fst raws)"
    and "\<forall>(pk, sig) \<in> set raws. xmss_verify X pk message sig slot" and "prove_at K raws message slot = Inr p"
  shows "claims K p slot message (set (map fst raws))"
proof -
  obtain a where a: "aggregate (k_leanvm K) (map (\<lambda>(pk, sig). (pk, slot, message, sig)) raws) LOG_INV_RATE = Inr a" "p = agg_to_bytes (k_leanvm K) a"
    using assms(5) by (auto simp: prove_at_def return_iff prover_aggregate_def split: sum.splits)
  show ?thesis using aggregate_completeD [OF assms(1-4) a(1)] a(2) unfolding claims_def by auto
qed

lemma prove_is_prove_at:
  "slot_for c v = Some slot \<Longrightarrow> prove K c alg raws xs v = Inr p \<longleftrightarrow>
     prove_at K raws (message_for (blake2s_256 (k_hashes K)) c alg xs v) slot = Inr p"
  by (simp add: prove_def prove_at_def make_proof_def expect_Inr)

text \<open>The checks a record with such a proof fails.\<close>

lemma claims_failed:
  assumes "claims K p slot message ks"
  shows "failed_checks K c (snark_new alg xs v p) = Some (
     (if ks \<subseteq> set (members c) then [] else [1])
     @ (if message = message_for (blake2s_256 (k_hashes K)) c alg xs v then [] else [2])
     @ (if slot_for c v = Some slot then [] else [3])
     @ (if threshold c \<le> card ks then [] else [4]))"
proof -
  obtain a pks where a: "agg_from_bytes (k_leanvm K) p = Inr a" "agg_to_bytes (k_leanvm K) a = p"
     "agg_xmss_signers (k_leanvm K) a = [(slot, message, pks)]" "set pks = ks" "distinct pks"
     "agg_sphincs_signers (k_leanvm K) a = []" "agg_verify (k_leanvm K) a" using assms unfolding claims_def by blast
  have "length pks = card ks" using distinct_card [OF a(5)] a(4) by simp
  then show ?thesis using a by (simp add: failed_checks_def snark_proof_def snark_new_def)
qed

section \<open>The forgeries of a corpus\<close>

definition written ::
  "('b, 'pk, 'sk, 'sig, 'rng, 'sph, 'agg) check_env \<Rightarrow> directory \<Rightarrow> string \<Rightarrow> snark_status_list \<Rightarrow> bool" where
  "written K dir name r \<longleftrightarrow> dir_read dir name = Inr (snark_to_bytes (k_snark_ssz K) r)"

text \<open>Two statements of one anchor on one algorithm that hash alike.\<close>

definition statements_collide ::
  "('b, 'pk, 'sk, 'sig, 'rng, 'sph, 'agg) check_env \<Rightarrow> 'pk committee \<Rightarrow> algorithms \<Rightarrow> 32 barr list \<Rightarrow> u32 \<Rightarrow> 32 barr list \<Rightarrow> u32 \<Rightarrow> bool" where
  "statements_collide K c alg xs v ys v' \<longleftrightarrow> collides (blake2s_256 (k_hashes K))
     (message_preimage (committee_domain (blake2s_256 (k_hashes K)) c alg) xs v)
     (message_preimage (committee_domain (blake2s_256 (k_hashes K)) c alg) ys v')"

text \<open>
  One forgery per check. The tampered and the relabelled record fail the message check unless their
  statement and the one that was signed collide; the proof-body control keeps the honest claim, so
  the proof check alone stands between it and acceptance.
\<close>

definition one_forgery_per_check ::
  "('b, 'pk, 'sk, 'sig, 'rng, 'sph, 'agg) check_env \<Rightarrow> 'pk committee \<Rightarrow> directory \<Rightarrow> bool" where
  "one_forgery_per_check K c dir \<longleftrightarrow>
     (\<exists>r. written K dir ''attack-outsider.bin'' r \<and> failed_checks K c r = Some [1])
     \<and> (\<exists>r. written K dir ''attack-tampered.bin'' r \<and> (failed_checks K c r = Some [2]
          \<or> statements_collide K c (ss_alg r) (ss_status_list r) (ss_version r) (butlast (ss_status_list r)) (ss_version r)))
     \<and> (\<exists>r. written K dir ''attack-version.bin'' r \<and> (failed_checks K c r = Some [2]
          \<or> statements_collide K c (ss_alg r) (ss_status_list r) (ss_version r) (ss_status_list r) (word_of_nat (N_UPDATES - 1))))
     \<and> (\<exists>r. written K dir ''attack-slot.bin'' r \<and> failed_checks K c r = Some [3])
     \<and> (\<exists>r. written K dir ''attack-short.bin'' r \<and> failed_checks K c r = Some [4])
     \<and> (\<exists>r. written K dir ''attack-proofbody.bin'' r \<and> failed_checks K c r \<in> {Some [], Some [5]})"

lemma messages_differ:
  assumes "message_for (blake2s_256 (k_hashes K)) c alg xs v = message_for (blake2s_256 (k_hashes K)) c alg ys v'" and "xs \<noteq> ys \<or> v \<noteq> v'"
  shows "statements_collide K c alg xs v ys v'"
proof -
  have "\<not> collides h x x" for h :: "bytes \<Rightarrow> 32 barr" and x by (simp add: collides_def)
  then show ?thesis using message_for_binds [OF assms(1)] assms(2) by (auto simp: statements_collide_def)
qed

text \<open>The proof-body control keeps the claim of the honest proof.\<close>

definition agg_roundtrip :: "('pk, 'sig, 'sph, 'agg) leanvm \<Rightarrow> bool" where
  "agg_roundtrip L \<longleftrightarrow> (\<forall>a. agg_from_bytes L (agg_to_bytes L a) = Inr a)"

lemma corrupted_failed:
  assumes "agg_roundtrip (k_leanvm K)" and "claims K p slot message ks" and "corrupt_proof_body (k_leanvm K) p = Inr q"
    and "failed_checks K c (snark_new alg xs v p) = Some []"
  shows "failed_checks K c (snark_new alg xs v q) \<in> {Some [], Some [5]}"
proof -
  obtain a pks where a: "agg_from_bytes (k_leanvm K) p = Inr a" "agg_to_bytes (k_leanvm K) a = p"
     "agg_xmss_signers (k_leanvm K) a = [(slot, message, pks)]" "agg_sphincs_signers (k_leanvm K) a = []"
    using assms(2) unfolding claims_def by blast
  obtain b where b: "agg_xmss_signers (k_leanvm K) b = [(slot, message, pks)]" "agg_sphincs_signers (k_leanvm K) b = []" "q = agg_to_bytes (k_leanvm K) b"
    using assms(3) a by (auto simp: corrupt_proof_body_def return_iff)
  have "agg_from_bytes (k_leanvm K) q = Inr b" using assms(1) b(3) by (simp add: agg_roundtrip_def)
  then show ?thesis
    using assms(4) a b by (auto simp: failed_checks_def snark_proof_def snark_new_def split: if_splits)
qed

section \<open>Signatures read from a fixture\<close>

lemma inputs_of_record:
  assumes laws: "bitlist_laws MAX_COMMITTEE_SIZE (k_bits K)"
    and rec: "signed_record K X bld c oc dir name v slot_version" and raw: "load_raw K dir name = Inr raw" and inputs: "aggregation_inputs K oc raw = Inr inputs"
  shows "sl_version raw = v" and "distinct (map fst inputs)" and "length inputs = T bld"
    and "set (map fst inputs) \<subseteq> set (members oc)"
    and "\<exists>slot. slot_for c slot_version = Some slot
      \<and> (\<forall>(pk, sig) \<in> set inputs. xmss_verify X pk (message_for (blake2s_256 (k_hashes K)) c (sl_alg raw) (sl_status_list raw) v) sig slot)"
proof -
  have count: "signer_count (k_bits K) raw = T bld" using rec raw unfolding signed_record_def by auto
  show "sl_version raw = v" "distinct (map fst inputs)" "\<exists>slot. slot_for c slot_version = Some slot
      \<and> (\<forall>(pk, sig) \<in> set inputs. xmss_verify X pk (message_for (blake2s_256 (k_hashes K)) c (sl_alg raw) (sl_status_list raw) v) sig slot)"
    using rec raw inputs unfolding signed_record_def by auto
  have in_eq: "signer_slots (k_bits K) raw = length (members oc)" "signer_count (k_bits K) raw = length (sl_signatures raw)"
    "inputs = map (\<lambda>(i, sig). (members oc ! i, sig)) (zip (signer_indices (k_bits K) raw) (sl_signatures raw))"
    using inputs by (auto simp: aggregation_inputs_def return_iff)
  show "length inputs = T bld" using in_eq(2,3) count length_signer_indices [OF laws, of raw] by simp
  have "i < length (members oc)" if "i \<in> set (signer_indices (k_bits K) raw)" for i
    using signer_indices_bound [OF laws that] in_eq(1) by simp
  then show "set (map fst inputs) \<subseteq> set (members oc)" unfolding in_eq(3) by (auto dest!: set_zip_leftD)
qed

section \<open>The fixture mode\<close>

text \<open>What the lemmas on this mode share.\<close>

definition proving ::
  "('b, 'pk, 'sk, 'sig, 'rng, 'sph, 'agg) check_env \<Rightarrow> ('pk, 'sk, 'sig, 'rng) xmss \<Rightarrow> build \<Rightarrow> 'pk committee \<Rightarrow> bool" where
  "proving K X bld c \<longleftrightarrow> bitlist_laws MAX_COMMITTEE_SIZE (k_bits K) \<and> aggregate_complete X (k_leanvm K) \<and> agg_roundtrip (k_leanvm K)
     \<and> threshold c = T bld \<and> 2 \<le> T bld"

text \<open>A proof over all inputs of a signed record.\<close>

lemma signed_record_claims:
  assumes P: "proving K X bld c" and rec: "signed_record K X bld c oc dir name v sv"
    and raw: "load_raw K dir name = Inr raw" and inputs: "aggregation_inputs K oc raw = Inr inputs" and slot: "slot_for c sv = Some slot"
    and p: "prove_at K inputs (message_for (blake2s_256 (k_hashes K)) c (sl_alg raw) (sl_status_list raw) (sl_version raw)) slot = Inr p"
  shows "claims K p slot (message_for (blake2s_256 (k_hashes K)) c (sl_alg raw) (sl_status_list raw) v) (set (map fst inputs))"
    and "card (set (map fst inputs)) = threshold c" and "sl_version raw = v"
proof -
  have laws: "bitlist_laws MAX_COMMITTEE_SIZE (k_bits K)" "aggregate_complete X (k_leanvm K)" "threshold c = T bld" "2 \<le> T bld"
    using P by (auto simp: proving_def)
  note i = inputs_of_record [OF laws(1) rec raw inputs]
  have ne: "inputs \<noteq> []" using i(3) laws(4) by auto
  show "claims K p slot (message_for (blake2s_256 (k_hashes K)) c (sl_alg raw) (sl_status_list raw) v) (set (map fst inputs))"
    using prove_at_claims [OF laws(2) ne i(2) _ p] i(1,5) slot by auto
  show "card (set (map fst inputs)) = threshold c" using distinct_card [OF i(2)] i(3) laws(3) by simp
  show "sl_version raw = v" by (rule i(1))
qed

lemma slot_forgery_ok:
  assumes P: "proving K X bld c" and rec: "signed_record K X bld c c fixture ''raw-attack-slot.bin'' attack_version (attack_version + 1)"
    and run: "slot_forgery K w c fixture j = (Inr u, j')"
  shows "\<exists>r. failed_checks K c r = Some [3] \<and> j_files j' = put_file ''attack-slot.bin'' (snark_to_bytes (k_snark_ssz K) r) (j_files j)"
proof -
  from run obtain raw inputs slot p where r: "load_raw K fixture ''raw-attack-slot.bin'' = Inr raw" "aggregation_inputs K c raw = Inr inputs"
    "slot_for c (sl_version raw + 1) = Some slot"
    "prove_at K inputs (message_for (blake2s_256 (k_hashes K)) c (sl_alg raw) (sl_status_list raw) (sl_version raw)) slot = Inr p"
    "j' = j\<lparr>j_files := put_file ''attack-slot.bin'' (snark_to_bytes (k_snark_ssz K) (snark_new (sl_alg raw) (sl_status_list raw) (sl_version raw) p)) (j_files j)\<rparr>"
    by (auto simp: slot_forgery_def return_iff Let_def write_record_def)
  have laws: "bitlist_laws MAX_COMMITTEE_SIZE (k_bits K)" using P by (simp add: proving_def)
  have v: "sl_version raw = attack_version" and members: "set (map fst inputs) \<subseteq> set (members c)"
    using inputs_of_record [OF laws rec r(1,2)] by blast+
  note cl = signed_record_claims [OF P rec r(1,2) r(3) [unfolded v] r(4)]
  have "slot_for c attack_version \<noteq> Some slot" using slot_for_inj [OF _ r(3) [unfolded v], of attack_version] by auto
  then have "failed_checks K c (snark_new (sl_alg raw) (sl_status_list raw) attack_version p) = Some [3]"
    using claims_failed [OF cl(1)] cl(2) members by simp
  then show ?thesis using r(5) v by (intro exI [of _ "snark_new (sl_alg raw) (sl_status_list raw) attack_version p"]) simp
qed

lemma version_forgery_ok:
  assumes P: "proving K X bld c" and rec: "signed_record K X bld c c fixture ''raw-attack-version.bin'' (word_of_nat (N_UPDATES - 1)) KEY_SLOTS"
    and run: "version_forgery K w c fixture j = (Inr u, j')"
  shows "\<exists>r. (failed_checks K c r = Some [2]
      \<or> statements_collide K c (ss_alg r) (ss_status_list r) (ss_version r) (ss_status_list r) (word_of_nat (N_UPDATES - 1)))
    \<and> j_files j' = put_file ''attack-version.bin'' (snark_to_bytes (k_snark_ssz K) r) (j_files j)"
proof -
  from run obtain raw inputs slot p where r: "load_raw K fixture ''raw-attack-version.bin'' = Inr raw" "aggregation_inputs K c raw = Inr inputs"
    "slot_for c KEY_SLOTS = Some slot"
    "prove_at K inputs (message_for (blake2s_256 (k_hashes K)) c (sl_alg raw) (sl_status_list raw) (sl_version raw)) slot = Inr p"
    "j' = j\<lparr>j_files := put_file ''attack-version.bin'' (snark_to_bytes (k_snark_ssz K) (snark_new (sl_alg raw) (sl_status_list raw) KEY_SLOTS p)) (j_files j)\<rparr>"
    by (auto simp: version_forgery_def return_iff Let_def write_record_def)
  have laws: "bitlist_laws MAX_COMMITTEE_SIZE (k_bits K)" using P by (simp add: proving_def)
  have members: "set (map fst inputs) \<subseteq> set (members c)" using inputs_of_record [OF laws rec r(1,2)] by blast
  note cl = signed_record_claims [OF P rec r(1,2,3,4)]
  let ?r = "snark_new (sl_alg raw) (sl_status_list raw) KEY_SLOTS p"
  have "KEY_SLOTS \<noteq> word_of_nat (N_UPDATES - 1)" by (simp add: KEY_SLOTS_def N_UPDATES_def)
  then have "failed_checks K c ?r = Some [2]
      \<or> statements_collide K c (ss_alg ?r) (ss_status_list ?r) (ss_version ?r) (ss_status_list ?r) (word_of_nat (N_UPDATES - 1))"
    using claims_failed [OF cl(1), of c "sl_alg raw" "sl_status_list raw" KEY_SLOTS] cl(2) members r(3)
      messages_differ [of K c "sl_alg raw" "sl_status_list raw" KEY_SLOTS "sl_status_list raw" "word_of_nat (N_UPDATES - 1)"]
    by (auto simp: snark_new_def)
  then show ?thesis using r(5) by (intro exI [of _ ?r]) simp
qed

lemma outsider_forgery_ok:
  assumes P: "proving K X bld c" and oc: "load_committee K fixture ''outsider-anchor.bin'' = Inr oc"
    and rec: "signed_record K X bld c oc fixture ''raw-attack-outsider.bin'' attack_version attack_version"
    and outside: "\<forall>raw inputs. load_raw K fixture ''raw-attack-outsider.bin'' = Inr raw \<longrightarrow> aggregation_inputs K oc raw = Inr inputs
      \<longrightarrow> \<not> set (map fst inputs) \<subseteq> set (members c)"
    and run: "outsider_forgery K w c fixture j = (Inr u, j')"
  shows "\<exists>r. failed_checks K c r = Some [1] \<and> j_files j' = put_file ''attack-outsider.bin'' (snark_to_bytes (k_snark_ssz K) r) (j_files j)"
proof -
  from run oc obtain raw inputs slot p where r: "load_raw K fixture ''raw-attack-outsider.bin'' = Inr raw" "aggregation_inputs K oc raw = Inr inputs"
    "slot_for c (sl_version raw) = Some slot"
    "prove_at K inputs (message_for (blake2s_256 (k_hashes K)) c (sl_alg raw) (sl_status_list raw) (sl_version raw)) slot = Inr p"
    "j' = j\<lparr>j_files := put_file ''attack-outsider.bin'' (snark_to_bytes (k_snark_ssz K) (snark_new (sl_alg raw) (sl_status_list raw) (sl_version raw) p)) (j_files j)\<rparr>"
    by (auto simp: outsider_forgery_def return_iff Let_def write_record_def)
  have laws: "bitlist_laws MAX_COMMITTEE_SIZE (k_bits K)" using P by (simp add: proving_def)
  have v: "sl_version raw = attack_version" using inputs_of_record [OF laws rec r(1,2)] by blast
  note cl = signed_record_claims [OF P rec r(1,2) r(3) [unfolded v] r(4)]
  have "failed_checks K c (snark_new (sl_alg raw) (sl_status_list raw) attack_version p) = Some [1]"
    using claims_failed [OF cl(1)] cl(2) outside r(1-3) v by simp
  then show ?thesis using r(5) v by (intro exI [of _ "snark_new (sl_alg raw) (sl_status_list raw) attack_version p"]) simp
qed

text \<open>The three forgeries over one honest set of signatures, in either mode.\<close>

lemma tampered_failed:
  assumes "claims K p slot (message_for (blake2s_256 (k_hashes K)) c alg xs v) ks" and "ks \<subseteq> set (members c)" and "threshold c \<le> card ks" and "slot_for c v = Some slot"
    and r: "r = snark_new alg (xs @ [x]) v p"
  shows "failed_checks K c r = Some [2] \<or> statements_collide K c (ss_alg r) (ss_status_list r) (ss_version r) (butlast (ss_status_list r)) (ss_version r)"
  using claims_failed [OF assms(1), of c alg "xs @ [x]" v] assms(2-4) messages_differ [of K c alg "xs @ [x]" v xs v]
  unfolding r by (auto simp: snark_new_def)

lemma short_failed:
  assumes P: "proving K X bld c" and raws: "distinct (map fst raws)" "length raws = T bld" "set (map fst raws) \<subseteq> set (members c)"
    and sigs: "\<forall>(pk, sig) \<in> set raws. xmss_verify X pk (message_for (blake2s_256 (k_hashes K)) c alg xs v) sig slot" and slot: "slot_for c v = Some slot"
    and p: "prove_at K (take (T bld - 1) raws) (message_for (blake2s_256 (k_hashes K)) c alg xs v) slot = Inr p"
  shows "failed_checks K c (snark_new alg xs v p) = Some [4]"
proof -
  let ?short = "take (T bld - 1) raws"
  have T: "threshold c = T bld" "2 \<le> T bld" and complete: "aggregate_complete X (k_leanvm K)" using P by (auto simp: proving_def)
  have short: "?short \<noteq> []" "distinct (map fst ?short)" "set ?short \<subseteq> set raws" "length ?short = T bld - 1"
    using raws(1,2) T(2) by (auto simp: take_map [symmetric] dest: in_set_takeD)
  then have sub: "set (map fst ?short) \<subseteq> set (members c)" using raws(3) by auto
  have "claims K p slot (message_for (blake2s_256 (k_hashes K)) c alg xs v) (set (map fst ?short))"
    using short(3) sigs by (intro prove_at_claims [OF complete short(1,2) _ p]) blast
  moreover have "card (set (map fst ?short)) = T bld - 1" using distinct_card [OF short(2)] short(4) by simp
  ultimately show ?thesis using claims_failed [of K p slot _ _ c alg xs v] sub slot T by simp
qed

lemma honest_forgeries_ok:
  assumes P: "proving K X bld c" and rec: "signed_record K X bld c c fixture ''raw-attack-honest.bin'' attack_version attack_version"
    and run: "honest_forgeries K w bld c fixture j = (Inr u, j')"
  shows "\<exists>rt rb rs. (failed_checks K c rt = Some [2]
      \<or> statements_collide K c (ss_alg rt) (ss_status_list rt) (ss_version rt) (butlast (ss_status_list rt)) (ss_version rt))
    \<and> failed_checks K c rb \<in> {Some [], Some [5]} \<and> failed_checks K c rs = Some [4]
    \<and> j_files j' = put_file ''attack-short.bin'' (snark_to_bytes (k_snark_ssz K) rs) (put_file ''attack-proofbody.bin'' (snark_to_bytes (k_snark_ssz K) rb)
         (put_file ''attack-tampered.bin'' (snark_to_bytes (k_snark_ssz K) rt) (j_files j)))"
proof -
  from run obtain h inputs p q s where r: "load_raw K fixture ''raw-attack-honest.bin'' = Inr h" "aggregation_inputs K c h = Inr inputs"
    "prove K c (sl_alg h) inputs (sl_status_list h) (sl_version h) = Inr p" "corrupt_proof_body (k_leanvm K) p = Inr q"
    "prove K c (sl_alg h) (take (T bld - 1) inputs) (sl_status_list h) (sl_version h) = Inr s"
    "j_files j' = put_file ''attack-short.bin'' (snark_to_bytes (k_snark_ssz K) (snark_new (sl_alg h) (sl_status_list h) (sl_version h) s))
       (put_file ''attack-proofbody.bin'' (snark_to_bytes (k_snark_ssz K) (snark_new (sl_alg h) (sl_status_list h) (sl_version h) q))
       (put_file ''attack-tampered.bin'' (snark_to_bytes (k_snark_ssz K)
          (snark_new (sl_alg h) (sl_status_list h @ [fake_revocation (sha3_256 (k_hashes K))]) (sl_version h) p)) (j_files j)))"
    by (auto simp: honest_forgeries_def return_iff write_record_def)
  have laws: "bitlist_laws MAX_COMMITTEE_SIZE (k_bits K)" "agg_roundtrip (k_leanvm K)" using P by (auto simp: proving_def)
  note i = inputs_of_record [OF laws(1) rec r(1,2)]
  obtain slot where slot: "slot_for c attack_version = Some slot"
    "\<forall>(pk, sig) \<in> set inputs. xmss_verify X pk (message_for (blake2s_256 (k_hashes K)) c (sl_alg h) (sl_status_list h) attack_version) sig slot"
    using i(5) by blast
  note cl = signed_record_claims [OF P rec r(1,2) slot(1), unfolded i(1), OF r(3) [unfolded i(1) prove_is_prove_at [OF slot(1)]]]
  let ?h = "snark_new (sl_alg h) (sl_status_list h) attack_version"
  have honest: "failed_checks K c (?h p) = Some []" using claims_failed [OF cl(1)] cl(2) i(4) slot(1) by simp
  have short: "failed_checks K c (?h s) = Some [4]"
    by (rule short_failed [OF P i(2,3,4) slot(2,1) r(5) [unfolded i(1) prove_is_prove_at [OF slot(1)]]])
  show ?thesis
    using tampered_failed [OF cl(1) i(4) _ slot(1) refl] cl(2) corrupted_failed [OF laws(2) cl(1) r(4) honest] short r(6) i(1)
    by (intro exI [of _ "?h s"] exI [of _ "?h q"] exI [of _ "snark_new (sl_alg h) (sl_status_list h @ [fake_revocation (sha3_256 (k_hashes K))]) attack_version p"]) simp
qed

section \<open>The updates\<close>

text \<open>The record of an update of either mode.\<close>

definition update_record ::
  "('b, 'pk, 'sk, 'sig, 'rng, 'sph, 'agg) check_env \<Rightarrow> 'pk committee \<Rightarrow> algorithms \<Rightarrow> 32 barr list \<Rightarrow> u32 \<Rightarrow> 'pk set \<Rightarrow> snark_status_list \<Rightarrow> bool" where
  "update_record K c alg xs v ks r \<longleftrightarrow> (\<exists>p slot. r = snark_new alg xs v p \<and> claims K p slot (message_for (blake2s_256 (k_hashes K)) c alg xs v) ks
     \<and> slot_for c v = Some slot \<and> ks \<subseteq> set (members c) \<and> card ks = threshold c
     \<and> (\<exists>raws. length raws = threshold c \<and> prove_at K raws (message_for (blake2s_256 (k_hashes K)) c alg xs v) slot = Inr p))"

lemma update_recordI:
  assumes "prove_at K raws (message_for (blake2s_256 (k_hashes K)) c alg xs v) slot = Inr p" and "length raws = threshold c"
    and "claims K p slot (message_for (blake2s_256 (k_hashes K)) c alg xs v) ks" and "slot_for c v = Some slot" and "ks \<subseteq> set (members c)" and "card ks = threshold c"
  shows "update_record K c alg xs v ks (snark_new alg xs v p)"
  unfolding update_record_def using assms by blast

lemma update_record_verifies: "update_record K c alg xs v ks r \<Longrightarrow> failed_checks K c r = Some []"
  using claims_failed unfolding update_record_def by fastforce

lemma maybe_write_Inr:
  "(if b then write_file w n bs else lift (Inr ())) j = (Inr u, j') \<longleftrightarrow>
     (b \<longrightarrow> w_write w n = FileClean) \<and> j' = j\<lparr>j_files := (if b then put_file n bs else id) (j_files j)\<rparr>"
  by (auto simp: return_iff)

lemma prove_update_ok:
  assumes laws: "bitlist_laws MAX_COMMITTEE_SIZE (k_bits K)" "aggregate_complete X (k_leanvm K)" "threshold c = T bld" "1 \<le> T bld"
    and rec: "signed_record K X bld c c fixture (snd u) v v"
    and run: "prove_update K w bld c fixture n u sizes j = (Inr sizes', j')"
  shows "\<exists>raw inputs r. load_raw K fixture (snd u) = Inr raw \<and> aggregation_inputs K c raw = Inr inputs
    \<and> update_record K c (sl_alg raw) (sl_status_list raw) v (set (map fst inputs)) r
    \<and> sizes' = (fst sizes @ [length (snark_to_bytes (k_snark_ssz K) r)], record_size (length (sl_status_list raw)) (snd sizes))
    \<and> j_files j' = (if fst u + 1 = n then put_file ''canonical.bin'' (snark_to_bytes (k_snark_ssz K) r) else id)
         (put_file (update_name (fst u)) (snark_to_bytes (k_snark_ssz K) r) (j_files j))"
proof -
  from run obtain raw inputs p where r: "load_raw K fixture (snd u) = Inr raw" "aggregation_inputs K c raw = Inr inputs"
    "prove K c (sl_alg raw) inputs (sl_status_list raw) (sl_version raw) = Inr p"
    "j_files j' = (if fst u + 1 = n then put_file ''canonical.bin'' (snark_to_bytes (k_snark_ssz K) (snark_new (sl_alg raw) (sl_status_list raw) (sl_version raw) p)) else id)
       (put_file (update_name (fst u)) (snark_to_bytes (k_snark_ssz K) (snark_new (sl_alg raw) (sl_status_list raw) (sl_version raw) p)) (j_files j))"
    "sizes' = (fst sizes @ [length (snark_to_bytes (k_snark_ssz K) (snark_new (sl_alg raw) (sl_status_list raw) (sl_version raw) p))],
       record_size (length (sl_status_list raw)) (snd sizes))"
    unfolding prove_update_def Let_def seq_Inr lift_Inr maybe_write_Inr write_file_Inr by force
  note i = inputs_of_record [OF laws(1) rec r(1,2)]
  obtain slot where slot: "slot_for c v = Some slot"
    "\<forall>(pk, sig) \<in> set inputs. xmss_verify X pk (message_for (blake2s_256 (k_hashes K)) c (sl_alg raw) (sl_status_list raw) v) sig slot"
    using i(5) by blast
  have "inputs \<noteq> []" using i(3) laws(4) by auto
  note cl = prove_at_claims [OF laws(2) this i(2) slot(2) r(3) [unfolded i(1) prove_is_prove_at [OF slot(1)]]]
  have "update_record K c (sl_alg raw) (sl_status_list raw) v (set (map fst inputs)) (snark_new (sl_alg raw) (sl_status_list raw) v p)"
    using cl slot(1) i(3,4) distinct_card [OF i(2)] laws(3)
    by (intro update_recordI [OF r(3) [unfolded i(1) prove_is_prove_at [OF slot(1)]]]) simp_all
  then show ?thesis using r i(1) by (intro exI [of _ raw] exI [of _ inputs] exI [of _ "snark_new (sl_alg raw) (sl_status_list raw) v p"]) simp
qed

text \<open>A loop that writes one record per version and the last one twice, with an invariant on its accumulator.\<close>

lemma update_names: "distinct (map update_name [0..<N_UPDATES])"
  "list_all (\<lambda>n. n \<noteq> ''canonical.bin'' \<and> n \<noteq> ''anchor.bin'') (map update_name [0..<N_UPDATES])"
  "list_all (\<lambda>n. n \<notin> set REQUIRED_ATTACKS) (map update_name [0..<N_UPDATES])"
  by code_simp+

lemma update_name_facts:
  "i < N_UPDATES \<Longrightarrow> k < N_UPDATES \<Longrightarrow> update_name i = update_name k \<longleftrightarrow> i = k"
  "i < N_UPDATES \<Longrightarrow> update_name i \<noteq> ''canonical.bin''" "i < N_UPDATES \<Longrightarrow> update_name i \<noteq> ''anchor.bin''"
  using update_names by (auto simp: distinct_map inj_on_def list_all_iff)

lemma anchor_is_no_update: "''anchor.bin'' \<notin> update_name ` {..<N_UPDATES}"
  using update_name_facts(3) by (intro notI, elim imageE) (metis lessThan_iff)

lemma steps_map: "steps f (map g xs) a j = steps (\<lambda>x. f (g x)) xs a j"
  by (induction xs arbitrary: a j) (simp_all add: seq_def split: prod.splits sum.splits)

lemma update_loop:
  assumes step: "\<And>i a j a' j'. i < N_UPDATES \<Longrightarrow> I i a \<Longrightarrow> f i a j = (Inr a', j') \<Longrightarrow> I (i + 1) a' \<and> (\<exists>r. Q i r
      \<and> j_files j' = (if i + 1 = N_UPDATES then put_file ''canonical.bin'' (B r) else id) (put_file (update_name i) (B r) (j_files j)))"
    and init: "I 0 a" and run: "steps f [0..<n] a j = (Inr a', j')" and n: "n \<le> N_UPDATES"
  shows "\<exists>rs. I n a' \<and> (\<forall>i < n. Q i (rs i) \<and> map_of (j_files j') (update_name i) = Some (B (rs i)))
    \<and> (\<forall>m. m \<notin> update_name ` {..<n} \<longrightarrow> m \<noteq> ''canonical.bin'' \<longrightarrow> map_of (j_files j') m = map_of (j_files j) m)
    \<and> (n = N_UPDATES \<longrightarrow> map_of (j_files j') ''canonical.bin'' = Some (B (rs (N_UPDATES - 1))))"
  using run n
proof (induction n arbitrary: a' j')
  case 0
  then show ?case using init by (simp add: N_UPDATES_def)
next
  case (Suc n)
  from Suc.prems(1) obtain a1 j1 where r: "steps f [0..<n] a j = (Inr a1, j1)" "f n a1 j1 = (Inr a', j')" by (auto simp: steps_snoc)
  obtain rs where ih: "I n a1" "\<forall>i < n. Q i (rs i) \<and> map_of (j_files j1) (update_name i) = Some (B (rs i))"
    "\<forall>m. m \<notin> update_name ` {..<n} \<longrightarrow> m \<noteq> ''canonical.bin'' \<longrightarrow> map_of (j_files j1) m = map_of (j_files j) m"
    using Suc.IH [OF r(1)] Suc.prems(2) by auto
  obtain rec where rec: "I (n + 1) a'" "Q n rec"
    "j_files j' = (if n + 1 = N_UPDATES then put_file ''canonical.bin'' (B rec) else id) (put_file (update_name n) (B rec) (j_files j1))"
    using step [OF _ ih(1) r(2)] Suc.prems(2) by auto
  have lookup: "map_of (j_files j') m = (if m = update_name n then Some (B rec) else map_of (j_files j1) m)" if "m \<noteq> ''canonical.bin''" for m
    using that by (simp add: rec(3))
  have "map_of (j_files j') (update_name i) = Some (B ((rs(n := rec)) i)) \<and> Q i ((rs(n := rec)) i)" if "i < Suc n" for i
    using that lookup [of "update_name i"] update_name_facts(1) [of i n] update_name_facts(2) [of i] ih(2) rec(2) Suc.prems(2)
    by (cases "i = n") auto
  moreover have "map_of (j_files j') m = map_of (j_files j) m" if "m \<notin> update_name ` {..<Suc n}" "m \<noteq> ''canonical.bin''" for m
    using that lookup [OF that(2)] ih(3) by (auto simp: lessThan_Suc)
  moreover have "map_of (j_files j') ''canonical.bin'' = Some (B ((rs(n := rec)) (N_UPDATES - 1)))" if "Suc n = N_UPDATES"
  proof -
    have "N_UPDATES - 1 = n" using that by simp
    then show ?thesis using that by (simp add: rec(3))
  qed
  ultimately show ?case using rec(1) by (intro exI [of _ "rs(n := rec)"]) simp
qed

text \<open>The honest part of an output directory: the anchor, the updates and the canonical record.\<close>

definition honest_output ::
  "('b, 'pk, 'sk, 'sig, 'rng, 'sph, 'agg) check_env \<Rightarrow> 'pk committee \<Rightarrow> (nat \<Rightarrow> snark_status_list \<Rightarrow> bool) \<Rightarrow> (string \<times> bytes) list \<Rightarrow> bool" where
  "honest_output K c Q fl \<longleftrightarrow> map_of fl ''anchor.bin'' = Some (committee_to_bytes (k_anchor K) c)
     \<and> (\<exists>rs. (\<forall>i < N_UPDATES. Q i (rs i) \<and> map_of fl (update_name i) = Some (snark_to_bytes (k_snark_ssz K) (rs i)))
          \<and> map_of fl ''canonical.bin'' = Some (snark_to_bytes (k_snark_ssz K) (rs (N_UPDATES - 1))))"

text \<open>An update of the fixture mode: the fixture's list, signed by the signers of the fixture's record.\<close>

definition fixture_update_record ::
  "('b, 'pk, 'sk, 'sig, 'rng, 'sph, 'agg) check_env \<Rightarrow> 'pk committee \<Rightarrow> directory \<Rightarrow> nat \<Rightarrow> snark_status_list \<Rightarrow> bool" where
  "fixture_update_record K c fixture i r \<longleftrightarrow> (\<exists>raw inputs. load_raw K fixture (raw_update_name i) = Inr raw
     \<and> aggregation_inputs K c raw = Inr inputs \<and> update_record K c (sl_alg raw) (sl_status_list raw) (word_of_nat i) (set (map fst inputs)) r)"

lemma not_expected: "m \<notin> set expected_names \<Longrightarrow> m \<notin> update_name ` {..<N_UPDATES} \<and> m \<noteq> ''canonical.bin'' \<and> m \<noteq> ''anchor.bin''"
  by (simp add: expected_names_def lessThan_atLeast0)

lemma honest_output_kept:
  assumes "honest_output K c Q fl" and "\<And>m. m \<notin> set REQUIRED_ATTACKS \<Longrightarrow> map_of fl' m = map_of fl m"
  shows "honest_output K c Q fl'"
proof -
  have "''anchor.bin'' \<notin> set REQUIRED_ATTACKS" "''canonical.bin'' \<notin> set REQUIRED_ATTACKS" by (simp_all add: REQUIRED_ATTACKS_def)
  moreover have "update_name i \<notin> set REQUIRED_ATTACKS" if "i < N_UPDATES" for i
    using that update_names(3) by (simp add: list_all_iff)
  ultimately have eq: "map_of fl' ''anchor.bin'' = map_of fl ''anchor.bin''" "map_of fl' ''canonical.bin'' = map_of fl ''canonical.bin''"
    "\<And>i. i < N_UPDATES \<Longrightarrow> map_of fl' (update_name i) = map_of fl (update_name i)" using assms(2) by blast+
  show ?thesis using assms(1) unfolding honest_output_def eq(1,2) by (simp add: eq(3))
qed

lemma fixture_loop:
  assumes laws: "bitlist_laws MAX_COMMITTEE_SIZE (k_bits K)" "aggregate_complete X (k_leanvm K)" "1 \<le> T bld"
    and valid: "valid_updates K X bld c fixture"
    and run: "steps (prove_update K w bld c fixture N_UPDATES) (enumerate 0 (map raw_update_name [0..<N_UPDATES])) sizes j = (Inr sizes', j')"
    and anchor: "map_of (j_files j) ''anchor.bin'' = Some (committee_to_bytes (k_anchor K) c)"
  shows "honest_output K c (fixture_update_record K c fixture) (j_files j')"
    and "m \<notin> set expected_names \<Longrightarrow> map_of (j_files j') m = map_of (j_files j) m"
proof -
  have t: "threshold c = T bld" and rec: "\<And>i. i < N_UPDATES \<Longrightarrow> signed_record K X bld c c fixture (raw_update_name i) (word_of_nat i) (word_of_nat i)"
    using valid by (auto simp: valid_updates_def)
  have "enumerate 0 (map raw_update_name [0..<N_UPDATES]) = map (\<lambda>i. (i, raw_update_name i)) [0..<N_UPDATES]"
    by (rule nth_equalityI) (simp_all add: nth_enumerate_eq)
  then have run': "steps (\<lambda>i. prove_update K w bld c fixture N_UPDATES (i, raw_update_name i)) [0..<N_UPDATES] sizes j = (Inr sizes', j')"
    using run by (simp only: steps_map)
  have step: "True \<and> (\<exists>r. fixture_update_record K c fixture i r \<and> j_files j2 =
      (if i + 1 = N_UPDATES then put_file ''canonical.bin'' (snark_to_bytes (k_snark_ssz K) r) else id)
      (put_file (update_name i) (snark_to_bytes (k_snark_ssz K) r) (j_files j1)))"
    if i: "i < N_UPDATES" and "True" and u: "prove_update K w bld c fixture N_UPDATES (i, raw_update_name i) a j1 = (Inr a', j2)" for i a j1 a' j2
    using prove_update_ok [OF laws(1,2) t laws(3) _ u, of "word_of_nat i"] rec [OF i] unfolding fixture_update_record_def fst_conv snd_conv by blast
  note loop = update_loop [where I = "\<lambda>_ _. True" and Q = "fixture_update_record K c fixture" and B = "snark_to_bytes (k_snark_ssz K)",
      OF _ TrueI run' order_refl]
  obtain rs where rs: "\<forall>i < N_UPDATES. fixture_update_record K c fixture i (rs i)
      \<and> map_of (j_files j') (update_name i) = Some (snark_to_bytes (k_snark_ssz K) (rs i))"
    "\<forall>m. m \<notin> update_name ` {..<N_UPDATES} \<longrightarrow> m \<noteq> ''canonical.bin'' \<longrightarrow> map_of (j_files j') m = map_of (j_files j) m"
    "map_of (j_files j') ''canonical.bin'' = Some (snark_to_bytes (k_snark_ssz K) (rs (N_UPDATES - 1)))"
    by (rule exE [OF loop]) (rule step, assumption+, blast)
  have "map_of (j_files j') ''anchor.bin'' = Some (committee_to_bytes (k_anchor K) c)" using rs(2) anchor anchor_is_no_update by simp
  then show "honest_output K c (fixture_update_record K c fixture) (j_files j')" unfolding honest_output_def using rs(1,3) by blast
  show "map_of (j_files j') m = map_of (j_files j) m" if "m \<notin> set expected_names"
    using rs(2) [rule_format, of m] not_expected [OF that] by simp
qed

text \<open>The forgeries of the fixture mode, from the directory after the updates.\<close>

lemma fixture_forgeries_ok:
  assumes P: "proving K X bld c" and controls: "valid_controls K X bld c fixture"
    and run: "honest_forgeries K w bld c fixture j1 = (Inr u1, j2)" "slot_forgery K w c fixture j2 = (Inr u2, j3)"
      "version_forgery K w c fixture j3 = (Inr u3, j4)" "outsider_forgery K w c fixture j4 = (Inr u4, j5)"
  shows "one_forgery_per_check K c (as_directory (j_files j5))"
    and "m \<notin> set REQUIRED_ATTACKS \<Longrightarrow> map_of (j_files j5) m = map_of (j_files j1) m"
proof -
  obtain oc where oc: "load_committee K fixture ''outsider-anchor.bin'' = Inr oc"
    "signed_record K X bld c oc fixture ''raw-attack-outsider.bin'' attack_version attack_version"
    "\<forall>raw inputs. load_raw K fixture ''raw-attack-outsider.bin'' = Inr raw \<longrightarrow> aggregation_inputs K oc raw = Inr inputs \<longrightarrow> \<not> set (map fst inputs) \<subseteq> set (members c)"
    and recs: "signed_record K X bld c c fixture ''raw-attack-honest.bin'' attack_version attack_version"
      "signed_record K X bld c c fixture ''raw-attack-slot.bin'' attack_version (attack_version + 1)"
      "signed_record K X bld c c fixture ''raw-attack-version.bin'' (word_of_nat (N_UPDATES - 1)) KEY_SLOTS"
    using controls unfolding valid_controls_def by blast
  let ?B = "snark_to_bytes (k_snark_ssz K)"
  obtain rt rb rs where h: "failed_checks K c rt = Some [2]
      \<or> statements_collide K c (ss_alg rt) (ss_status_list rt) (ss_version rt) (butlast (ss_status_list rt)) (ss_version rt)"
    "failed_checks K c rb \<in> {Some [], Some [5]}" "failed_checks K c rs = Some [4]"
    "j_files j2 = put_file ''attack-short.bin'' (?B rs) (put_file ''attack-proofbody.bin'' (?B rb) (put_file ''attack-tampered.bin'' (?B rt) (j_files j1)))"
    using honest_forgeries_ok [OF P recs(1) run(1)] by blast
  obtain r3 where r3: "failed_checks K c r3 = Some [3]" "j_files j3 = put_file ''attack-slot.bin'' (?B r3) (j_files j2)"
    using slot_forgery_ok [OF P recs(2) run(2)] by blast
  obtain r2 where r2: "failed_checks K c r2 = Some [2]
      \<or> statements_collide K c (ss_alg r2) (ss_status_list r2) (ss_version r2) (ss_status_list r2) (word_of_nat (N_UPDATES - 1))"
    "j_files j4 = put_file ''attack-version.bin'' (?B r2) (j_files j3)" using version_forgery_ok [OF P recs(3) run(3)] by blast
  obtain r1 where r1: "failed_checks K c r1 = Some [1]" "j_files j5 = put_file ''attack-outsider.bin'' (?B r1) (j_files j4)"
    using outsider_forgery_ok [OF P oc(1,2,3) run(4)] by blast
  have files: "written K (as_directory (j_files j5)) ''attack-outsider.bin'' r1" "written K (as_directory (j_files j5)) ''attack-tampered.bin'' rt"
    "written K (as_directory (j_files j5)) ''attack-version.bin'' r2" "written K (as_directory (j_files j5)) ''attack-slot.bin'' r3"
    "written K (as_directory (j_files j5)) ''attack-short.bin'' rs" "written K (as_directory (j_files j5)) ''attack-proofbody.bin'' rb"
    unfolding written_def dir_read_as_directory r1(2) r2(2) r3(2) h(4) by simp_all
  show "one_forgery_per_check K c (as_directory (j_files j5))" unfolding one_forgery_per_check_def
    by (intro conjI exI) (rule files h(1-3) r1(1) r2(1) r3(1))+
  show "m \<notin> set REQUIRED_ATTACKS \<Longrightarrow> map_of (j_files j5) m = map_of (j_files j1) m"
    unfolding r1(2) r2(2) r3(2) h(4) REQUIRED_ATTACKS_def by simp
qed

text \<open>A run of the fixture mode.\<close>

lemma fixture_mode_ok:
  assumes laws: "bitlist_laws MAX_COMMITTEE_SIZE (k_bits K)" "aggregate_complete X (k_leanvm K)" "1 \<le> T bld" and roundtrip: "agg_roundtrip (k_leanvm K)"
    and valid: "valid_updates K X bld c fixture" and controls: "\<not> honest_only \<Longrightarrow> valid_controls K X bld c fixture"
    and run: "run_fixture_prover K w bld honest_only fixture j = (Inr res, j')"
  shows "honest_output K c (fixture_update_record K c fixture) (j_files j')"
    and "\<not> honest_only \<Longrightarrow> one_forgery_per_check K c (as_directory (j_files j'))"
    and "honest_only \<Longrightarrow> m \<notin> set expected_names \<Longrightarrow> map_of (j_files j') m = map_of (j_files j) m"
proof -
  have v: "load_committee K fixture ''anchor.bin'' = Inr c" "fixture_files fixture ''raw-update-'' = Inr (map raw_update_name [0..<N_UPDATES])" "threshold c = T bld"
    using valid by (auto simp: valid_updates_def)
  let ?j1 = "j\<lparr>j_files := put_file ''anchor.bin'' (committee_to_bytes (k_anchor K) c) (j_files j)\<rparr>"
  from run v(1,2) obtain sizes j2 where r: "steps (prove_update K w bld c fixture N_UPDATES) (enumerate 0 (map raw_update_name [0..<N_UPDATES])) ([], ListSizes None) ?j1 = (Inr sizes, j2)"
    and f: "(if honest_only then lift (Inr ())
          else seq (honest_forgeries K w bld c fixture) (\<lambda>_. seq (slot_forgery K w c fixture) (\<lambda>_.
               seq (version_forgery K w c fixture) (\<lambda>_. outsider_forgery K w c fixture)))) j2 = (Inr (), j')"
    and quorum: "(if honest_only then Inr () else require_corpus_quorum bld) = Inr ()"
    unfolding run_fixture_prover_def seq_Inr lift_Inr and_then_Inr write_file_Inr by (auto simp: return_iff)
  have out: "honest_output K c (fixture_update_record K c fixture) (j_files j2)"
    by (rule fixture_loop(1) [OF laws valid r]) simp
  have forged: "one_forgery_per_check K c (as_directory (j_files j')) \<and> honest_output K c (fixture_update_record K c fixture) (j_files j')" if not: "\<not> honest_only"
  proof -
    obtain u1 u2 u3 j3 j4 j5 where run: "honest_forgeries K w bld c fixture j2 = (Inr u1, j3)" "slot_forgery K w c fixture j3 = (Inr u2, j4)"
      "version_forgery K w c fixture j4 = (Inr u3, j5)" "outsider_forgery K w c fixture j5 = (Inr (), j')"
      using f not by (auto simp: return_iff)
    have P: "proving K X bld c"
      using laws roundtrip v(3) quorum not by (simp add: proving_def require_corpus_quorum_def return_iff)
    show ?thesis using fixture_forgeries_ok [OF P controls [OF not] run] honest_output_kept [OF out] by blast
  qed
  then show "honest_output K c (fixture_update_record K c fixture) (j_files j')"
    using f out by (cases honest_only) (auto simp: return_iff)
  show "\<not> honest_only \<Longrightarrow> one_forgery_per_check K c (as_directory (j_files j'))" using forged by blast
  show "map_of (j_files j') m = map_of (j_files j) m" if "honest_only" "m \<notin> set expected_names"
  proof -
    have "map_of (j_files j2) m = map_of (j_files ?j1) m" by (rule fixture_loop(2) [OF laws valid r _ that(2)]) simp
    moreover have "m \<noteq> ''anchor.bin''" using not_expected [OF that(2)] by simp
    ultimately show ?thesis using f that(1) by (simp add: lift_def)
  qed
qed

end
