(* ===== verification/Prover_Self.thy ===== *)
theory Prover_Self
  imports Prover_Spec
begin

text \<open>
  The self-contained mode of the aggregator: it generates the committee, rotates the signers over it
  and signs its forgeries with its own keys. The lemmas show that its output is that of an honest
  aggregator plus one forgery per check, and that no one-time key is used twice at one slot.
\<close>

section \<open>Signing\<close>

lemma generate_keys_from:
  "generate_keys msg w first n = Inr kps \<longleftrightarrow>
     length kps = n \<and> (\<forall>i < n. w_key_gen w (first + i) SLOT (SLOT + KEY_SLOTS) = Inr (kps ! i))"
  by (auto simp: generate_keys_def collect_results_Inr return_iff)

lemma sign_all_ok:
  assumes "signs_correctly X w" and "generate_keys msg w first n = Inr kps" and "sign_all X w kps is message slot j = (Inr raws, j')"
  shows "map fst raws = map (\<lambda>i. snd (kps ! i)) is \<and> (\<forall>i \<in> set is. i < n)
    \<and> (\<forall>(pk, sig) \<in> set raws. xmss_verify X pk message sig slot) \<and> j_files j' = j_files j"
  using assms(3)
proof (induction "is" arbitrary: raws j)
  case (Cons i "is")
  from Cons.prems obtain kp sig j1 rest where r: "key_at kps i = Inr kp" "sign_with ''signing failed'' X w kp message slot j = (Inr sig, j1)"
    "sign_all X w kps is message slot j1 = (Inr rest, j')" "raws = (snd kp, sig) # rest"
    by (auto simp: return_iff)
  have i: "i < n" "kps ! i = kp" "w_key_gen w (first + i) SLOT (SLOT + KEY_SLOTS) = Inr kp"
    using r(1) assms(2) by (auto simp: key_at_def generate_keys_from split: if_splits)
  have "xmss_verify X (snd kp) message sig slot" "j_files j1 = j_files j"
    using sign_with_ok [OF assms(1) i(3) r(2)] by simp_all
  then show ?case using Cons.IH [OF r(3)] r(4) i by simp
qed simp

lemma sign_adversarial_Inr:
  "sign_adversarial X w kps is message slot j = (Inr raws, j') \<longleftrightarrow>
     adjacent_differ (sort is) \<and> sign_all X w kps is message slot j = (Inr raws, j')"
  by (auto simp: sign_adversarial_def return_iff)

text \<open>The guard is exact: it passes for pairwise different signers and for no others.\<close>

lemma adjacent_differ_sorted: "sorted xs \<Longrightarrow> adjacent_differ xs \<longleftrightarrow> distinct xs"
proof (induction xs rule: adjacent_differ.induct)
  case (1 x y zs)
  have "x \<notin> set (y # zs) \<longleftrightarrow> x \<noteq> y \<and> (distinct (y # zs) \<longrightarrow> x \<notin> set zs)" if "distinct (y # zs)"
    using 1(2) that by fastforce
  moreover have "x \<noteq> y \<Longrightarrow> x \<notin> set zs" using 1(2) by fastforce
  ultimately show ?case using 1 by auto
qed simp_all

lemma adversarial_guard: "adjacent_differ (sort is) \<longleftrightarrow> distinct is"
  by (simp add: adjacent_differ_sorted)

section \<open>Rotation\<close>

lemma rotating_signers_distinct:
  assumes "T bld \<le> N_MEMBERS bld"
  shows "distinct (rotating_signers bld i)" and "length (rotating_signers bld i) = T bld"
    and "0 < N_MEMBERS bld \<Longrightarrow> \<forall>k \<in> set (rotating_signers bld i). k < N_MEMBERS bld"
proof -
  have inj: "a = b" if "a < N_MEMBERS bld" "b < N_MEMBERS bld" "(i + a) mod N_MEMBERS bld = (i + b) mod N_MEMBERS bld" for a b
  proof -
    have "int ((i + a) mod N_MEMBERS bld) = int ((i + b) mod N_MEMBERS bld)" using that(3) by (simp only:)
    then have "int (i + a) mod int (N_MEMBERS bld) = int (i + b) mod int (N_MEMBERS bld)" by (simp only: of_nat_mod)
    from mod_diff_cong [OF this refl, of "int i"] show ?thesis using that(1,2) by simp
  qed
  have "inj_on (\<lambda>k. (i + k) mod N_MEMBERS bld) (set [0..<T bld])"
    by (rule inj_onI, rule inj) (use assms in auto)
  then show "distinct (rotating_signers bld i)" by (simp add: rotating_signers_def distinct_map)
  show "length (rotating_signers bld i) = T bld" by (simp add: rotating_signers_def)
  show "0 < N_MEMBERS bld \<Longrightarrow> \<forall>k \<in> set (rotating_signers bld i). k < N_MEMBERS bld" by (auto simp: rotating_signers_def)
qed

text \<open>Signatures of distinct members of the generated committee.\<close>

lemma member_signatures:
  assumes c: "committee_of K X w bld kps c" and idx: "distinct is" and run: "sign_all X w kps is message slot j = (Inr raws, j')"
  shows "distinct (map fst raws)" and "length raws = length is" and "set (map fst raws) \<subseteq> set (members c)"
    and "\<forall>(pk, sig) \<in> set raws. xmss_verify X pk message sig slot" and "j_files j' = j_files j"
proof -
  have keys: "signs_correctly X w" "generate_keys ''fixture keygen failed'' w 0 (N_MEMBERS bld) = Inr kps"
    using c by (auto simp: committee_of_def)
  note ok = sign_all_ok [OF keys run] and m = committee_of_members [OF c]
  have fst: "map fst raws = map (\<lambda>i. members c ! i) is" using ok m(1,2) by (auto simp: map_eq_conv)
  show "distinct (map fst raws)" unfolding fst using ok idx m(1,2,5) by (intro distinct_nth_keys) auto
  show "length raws = length is" using fst by (metis length_map)
  show "set (map fst raws) \<subseteq> set (members c)" unfolding fst using ok m(1,2) by auto
  show "\<forall>(pk, sig) \<in> set raws. xmss_verify X pk message sig slot" "j_files j' = j_files j" using ok by auto
qed

text \<open>One update.\<close>

definition grown_list :: "(bytes \<Rightarrow> 32 barr) \<Rightarrow> ('pk, 'sk, 'rng) world \<Rightarrow> nat \<Rightarrow> 32 barr list" where
  "grown_list sha3 w n = map (\<lambda>k. fst (random_entry sha3 w k)) [0..<n]"

definition rotating_record ::
  "('b, 'pk, 'sk, 'sig, 'rng, 'sph, 'agg) check_env \<Rightarrow> ('pk, 'sk, 'rng) world \<Rightarrow> 'pk committee \<Rightarrow> nat \<Rightarrow> snark_status_list \<Rightarrow> bool" where
  "rotating_record K w c i r \<longleftrightarrow> (\<exists>ks. update_record K c WotsXmss (grown_list (sha3_256 (k_hashes K)) w (i + 1)) (word_of_nat i) ks r)"

lemma rotating_update_ok:
  assumes c: "committee_of K X w bld kps c" and complete: "aggregate_complete X (k_leanvm K)" and T: "1 \<le> T bld" "T bld \<le> N_MEMBERS bld"
    and st: "fst st = grown_list (sha3_256 (k_hashes K)) w i" and run: "rotating_update K X w bld kps c i st j = (Inr st', j')"
  shows "fst st' = grown_list (sha3_256 (k_hashes K)) w (i + 1) \<and> (\<exists>r. rotating_record K w c i r
    \<and> j_files j' = (if i + 1 = N_UPDATES then put_file ''canonical.bin'' (snark_to_bytes (k_snark_ssz K) r) else id)
         (put_file (update_name i) (snark_to_bytes (k_snark_ssz K) r) (j_files j)))"
proof -
  let ?xs = "grown_list (sha3_256 (k_hashes K)) w (i + 1)" and ?v = "word_of_nat i :: u32"
  let ?m = "message_for (blake2s_256 (k_hashes K)) c WotsXmss ?xs ?v"
  have xs: "fst st @ [fst (random_entry (sha3_256 (k_hashes K)) w i)] = ?xs" using st by (simp add: grown_list_def)
  from run obtain slot raws j1 p where r: "slot_for c ?v = Some slot" "sign_all X w kps (rotating_signers bld i) ?m slot j = (Inr raws, j1)"
    "prove K c WotsXmss raws ?xs ?v = Inr p" "fst st' = ?xs"
    "j_files j' = (if i + 1 = N_UPDATES then put_file ''canonical.bin'' (snark_to_bytes (k_snark_ssz K) (snark_new WotsXmss ?xs ?v p)) else id)
       (put_file (update_name i) (snark_to_bytes (k_snark_ssz K) (snark_new WotsXmss ?xs ?v p)) (j_files j1))"
    unfolding rotating_update_def Let_def xs seq_Inr lift_Inr maybe_write_Inr write_file_Inr expect_some_Inr by force
  note s = member_signatures [OF c rotating_signers_distinct(1) [OF T(2)] r(2)]
  have len: "length raws = T bld" using s(2) rotating_signers_distinct(2) [OF T(2)] by simp
  then have "raws \<noteq> []" using T(1) by auto
  note cl = prove_at_claims [OF complete this s(1,4) r(3) [unfolded prove_is_prove_at [OF r(1)]]]
  have "update_record K c WotsXmss ?xs ?v (set (map fst raws)) (snark_new WotsXmss ?xs ?v p)"
    using cl r(1) s(3) distinct_card [OF s(1)] len committee_of_members(3) [OF c]
    by (intro update_recordI [OF r(3) [unfolded prove_is_prove_at [OF r(1)]]]) simp_all
  then show ?thesis using r(4) r(5) [unfolded s(5)] unfolding rotating_record_def by blast
qed

lemma self_loop:
  assumes c: "committee_of K X w bld kps c" and complete: "aggregate_complete X (k_leanvm K)" and T: "1 \<le> T bld" "T bld \<le> N_MEMBERS bld"
    and run: "steps (rotating_update K X w bld kps c) [0..<N_UPDATES] ([], []) j = (Inr st', j')"
    and anchor: "map_of (j_files j) ''anchor.bin'' = Some (committee_to_bytes (k_anchor K) c)"
  shows "honest_output K c (rotating_record K w c) (j_files j') \<and> fst st' = grown_list (sha3_256 (k_hashes K)) w N_UPDATES"
proof -
  have init: "fst ([], []) = grown_list (sha3_256 (k_hashes K)) w 0" by (simp add: grown_list_def)
  note step = rotating_update_ok [OF c complete T]
  note loop = update_loop [where I = "\<lambda>i st. fst st = grown_list (sha3_256 (k_hashes K)) w i" and Q = "rotating_record K w c"
      and B = "snark_to_bytes (k_snark_ssz K)", OF _ init run order_refl]
  obtain rs where rs: "fst st' = grown_list (sha3_256 (k_hashes K)) w N_UPDATES"
    "\<forall>i < N_UPDATES. rotating_record K w c i (rs i) \<and> map_of (j_files j') (update_name i) = Some (snark_to_bytes (k_snark_ssz K) (rs i))"
    "\<forall>m. m \<notin> update_name ` {..<N_UPDATES} \<longrightarrow> m \<noteq> ''canonical.bin'' \<longrightarrow> map_of (j_files j') m = map_of (j_files j) m"
    "map_of (j_files j') ''canonical.bin'' = Some (snark_to_bytes (k_snark_ssz K) (rs (N_UPDATES - 1)))"
    by (rule exE [OF loop]) (rule step, assumption+, blast)
  have "map_of (j_files j') ''anchor.bin'' = Some (committee_to_bytes (k_anchor K) c)" using rs(3) anchor anchor_is_no_update by simp
  then show ?thesis unfolding honest_output_def using rs(1,2,4) by blast
qed

section \<open>The forgeries\<close>

lemma attack_forgeries_ok:
  assumes c: "committee_of K X w bld kps c" and P: "proving K X bld c" and run: "attack_forgeries K X w bld kps c xs j = (Inr u, j')"
  shows "\<exists>rt rb rs rw. (failed_checks K c rt = Some [2]
      \<or> statements_collide K c (ss_alg rt) (ss_status_list rt) (ss_version rt) (butlast (ss_status_list rt)) (ss_version rt))
    \<and> failed_checks K c rb \<in> {Some [], Some [5]} \<and> failed_checks K c rs = Some [4] \<and> failed_checks K c rw = Some [3]
    \<and> j_files j' = put_file ''attack-slot.bin'' (snark_to_bytes (k_snark_ssz K) rw) (put_file ''attack-short.bin'' (snark_to_bytes (k_snark_ssz K) rs)
         (put_file ''attack-proofbody.bin'' (snark_to_bytes (k_snark_ssz K) rb) (put_file ''attack-tampered.bin'' (snark_to_bytes (k_snark_ssz K) rt) (j_files j))))"
proof -
  let ?m = "message_for (blake2s_256 (k_hashes K)) c WotsXmss xs attack_version" and ?q = "[0..<T bld]"
  let ?B = "snark_to_bytes (k_snark_ssz K)" and ?r = "snark_new WotsXmss xs attack_version"
  let ?x = "fake_revocation (sha3_256 (k_hashes K))"
  from run obtain slot raws j1 p cp sp wrong raws' j2 j3 wp where r: "slot_for c attack_version = Some slot" "sign_all X w kps ?q ?m slot j = (Inr raws, j1)"
    "prove_at K raws ?m slot = Inr p" "corrupt_proof_body (k_leanvm K) p = Inr cp" "prove_at K (take (T bld - 1) raws) ?m slot = Inr sp"
    "slot_for c (attack_version + 1) = Some wrong" "sign_all X w kps ?q ?m wrong j2 = (Inr raws', j3)" "prove_at K raws' ?m wrong = Inr wp"
    "j_files j2 = put_file ''attack-short.bin'' (?B (?r sp)) (put_file ''attack-proofbody.bin'' (?B (?r cp))
       (put_file ''attack-tampered.bin'' (?B (snark_new WotsXmss (xs @ [?x]) attack_version p)) (j_files j1)))"
    "j_files j' = put_file ''attack-slot.bin'' (?B (?r wp)) (j_files j3)"
    unfolding attack_forgeries_def Let_def make_adversarial_proof_def write_record_def seq_Inr lift_Inr expect_some_Inr sign_adversarial_Inr write_file_Inr by force
  have laws: "aggregate_complete X (k_leanvm K)" "agg_roundtrip (k_leanvm K)" "threshold c = T bld" "2 \<le> T bld" using P by (auto simp: proving_def)
  note s = member_signatures [OF c distinct_upt r(2)] and s' = member_signatures [OF c distinct_upt r(7)]
  have len: "length raws = T bld" "length raws' = T bld" using s(2) s'(2) by simp_all
  then have ne: "raws \<noteq> []" "raws' \<noteq> []" using laws(4) by auto
  note cl = prove_at_claims [OF laws(1) ne(1) s(1,4) r(3)] and cl' = prove_at_claims [OF laws(1) ne(2) s'(1,4) r(8)]
  have card: "card (set (map fst raws)) = threshold c" "card (set (map fst raws')) = threshold c"
    using distinct_card [OF s(1)] distinct_card [OF s'(1)] len laws(3) by simp_all
  have honest: "failed_checks K c (?r p) = Some []" using claims_failed [OF cl] card(1) s(3) r(1) by simp
  have "slot_for c attack_version \<noteq> Some wrong" using slot_for_inj [OF _ r(6), of attack_version] by auto
  then have wrong: "failed_checks K c (?r wp) = Some [3]" using claims_failed [OF cl'] card(2) s'(3) by simp
  have "j_files j' = put_file ''attack-slot.bin'' (?B (?r wp)) (put_file ''attack-short.bin'' (?B (?r sp)) (put_file ''attack-proofbody.bin'' (?B (?r cp))
       (put_file ''attack-tampered.bin'' (?B (snark_new WotsXmss (xs @ [?x]) attack_version p)) (j_files j))))"
    using r(9,10) s(5) s'(5) by simp
  then show ?thesis
    using tampered_failed [OF cl s(3) _ r(1) refl, of ?x] card(1) corrupted_failed [OF laws(2) cl r(4) honest]
      short_failed [OF P s(1) len(1) s(3,4) r(1,5)] wrong
    by (intro exI [of _ "snark_new WotsXmss (xs @ [?x]) attack_version p"] exI [of _ "?r cp"] exI [of _ "?r sp"] exI [of _ "?r wp"]) simp
qed

lemma outsider_keys:
  assumes differ: "keys_differ w (N_MEMBERS bld + T bld)"
    and k: "length kps = N_MEMBERS bld \<and> (\<forall>i < N_MEMBERS bld. w_key_gen w i SLOT (SLOT + KEY_SLOTS) = Inr (kps ! i))"
    and os: "generate_keys msg w (N_MEMBERS bld) (T bld) = Inr os"
  shows "distinct (map snd os)" and "set (map snd os) \<inter> set (map snd kps) = {}"
proof -
  have os': "length os = T bld" "\<And>i. i < T bld \<Longrightarrow> w_key_gen w (N_MEMBERS bld + i) SLOT (SLOT + KEY_SLOTS) = Inr (os ! i)"
    using os by (auto simp: generate_keys_from)
  have kps: "length kps = N_MEMBERS bld" "\<And>i. i < N_MEMBERS bld \<Longrightarrow> w_key_gen w i SLOT (SLOT + KEY_SLOTS) = Inr (kps ! i)"
    using k by auto
  have "snd (os ! i) \<noteq> snd (os ! k)" if "i < T bld" "k < T bld" "i \<noteq> k" for i k
    using keys_differD [OF differ _ _ os'(2) [OF that(1)] os'(2) [OF that(2)]] that by auto
  then show "distinct (map snd os)" using os'(1) by (auto simp: distinct_conv_nth)
  have "snd (os ! i) \<noteq> snd (kps ! k)" if "i < T bld" "k < N_MEMBERS bld" for i k
    using keys_differD [OF differ _ _ os'(2) [OF that(1)] kps(2) [OF that(2)]] that by auto
  then show "set (map snd os) \<inter> set (map snd kps) = {}"
    using os'(1) kps(1) by (auto simp: set_conv_nth)
qed

lemma outsider_forgeries_ok:
  assumes c: "committee_of K X w bld kps c" and P: "proving K X bld c" and differ: "keys_differ w (N_MEMBERS bld + T bld)"
    and run: "outsider_forgeries K X w bld kps c xs j = (Inr u, j')"
  shows "\<exists>r1 r2. failed_checks K c r1 = Some [1] \<and> (failed_checks K c r2 = Some [2]
      \<or> statements_collide K c (ss_alg r2) (ss_status_list r2) (ss_version r2) (ss_status_list r2) (word_of_nat (N_UPDATES - 1)))
    \<and> j_files j' = put_file ''attack-version.bin'' (snark_to_bytes (k_snark_ssz K) r2)
         (put_file ''attack-outsider.bin'' (snark_to_bytes (k_snark_ssz K) r1) (j_files j))"
proof -
  let ?out = "[fst (random_entry (sha3_256 (k_hashes K)) w N_UPDATES)]" and ?v = "word_of_nat (N_UPDATES - 1) :: u32"
  let ?mo = "message_for (blake2s_256 (k_hashes K)) c WotsXmss ?out 0" and ?m = "message_for (blake2s_256 (k_hashes K)) c WotsXmss xs ?v"
  let ?B = "snark_to_bytes (k_snark_ssz K)" and ?q = "[0..<T bld]"
  from run obtain os raws j1 p slot raws' j2 j3 p' where r: "generate_keys ''outsider keygen'' w (N_MEMBERS bld) (T bld) = Inr os"
    "sign_all X w os ?q ?mo SLOT j = (Inr raws, j1)" "prove_at K raws ?mo SLOT = Inr p" "slot_for c KEY_SLOTS = Some slot"
    "sign_all X w kps ?q ?m slot j2 = (Inr raws', j3)" "prove_at K raws' ?m slot = Inr p'"
    "j_files j2 = put_file ''attack-outsider.bin'' (?B (snark_new WotsXmss ?out 0 p)) (j_files j1)"
    "j_files j' = put_file ''attack-version.bin'' (?B (snark_new WotsXmss xs KEY_SLOTS p')) (j_files j3)"
    unfolding outsider_forgeries_def Let_def make_adversarial_proof_def write_record_def seq_Inr lift_Inr expect_some_Inr sign_adversarial_Inr write_file_Inr by force
  have laws: "aggregate_complete X (k_leanvm K)" "threshold c = T bld" "2 \<le> T bld" "signs_correctly X w"
    using P c by (auto simp: proving_def committee_of_def)
  have out: "map fst raws = map snd os" "\<forall>(pk, sig) \<in> set raws. xmss_verify X pk ?mo sig SLOT" "j_files j1 = j_files j" "length os = T bld"
    using sign_all_ok [OF laws(4) r(1,2)] r(1) by (auto simp: generate_keys_from intro: nth_equalityI)
  have "generate_keys ''fixture keygen failed'' w 0 (N_MEMBERS bld) = Inr kps" using c by (simp add: committee_of_def)
  note keys = outsider_keys [OF differ this [unfolded generate_keys_nth] r(1), folded committee_of_members(1) [OF c]] and s = member_signatures [OF c distinct_upt r(5)]
  have len: "length raws = T bld" "length raws' = T bld" using out(1,4) s(2) by (metis length_map, simp)
  then have ne: "raws \<noteq> []" "raws' \<noteq> []" using laws(3) by auto
  have dist: "distinct (map fst raws)" using keys(1) out(1) by simp
  note cl = prove_at_claims [OF laws(1) ne(1) dist out(2) r(3)] and cl' = prove_at_claims [OF laws(1) ne(2) s(1,4) r(6)]
  have card: "card (set (map fst raws)) = threshold c" "card (set (map fst raws')) = threshold c"
    using distinct_card [OF dist] distinct_card [OF s(1)] len laws(2) by simp_all
  have "\<not> set (map fst raws) \<subseteq> set (members c)" using keys(2) out(1) ne(1) by (metis Int_absorb2 list.map_disc_iff set_empty)
  moreover have "slot_for c 0 = Some SLOT" using committee_of_members(4) [OF c] by (simp add: slot_for_Some)
  ultimately have one: "failed_checks K c (snark_new WotsXmss ?out 0 p) = Some [1]" using claims_failed [OF cl] card(1) by simp
  let ?r = "snark_new WotsXmss xs KEY_SLOTS p'"
  have "KEY_SLOTS \<noteq> ?v" by (simp add: KEY_SLOTS_def N_UPDATES_def)
  then have two: "failed_checks K c ?r = Some [2] \<or> statements_collide K c (ss_alg ?r) (ss_status_list ?r) (ss_version ?r) (ss_status_list ?r) ?v"
    using claims_failed [OF cl', of c WotsXmss xs KEY_SLOTS] card(2) s(3) r(4) messages_differ [of K c WotsXmss xs KEY_SLOTS xs ?v]
    by (auto simp: snark_new_def)
  have "j_files j' = put_file ''attack-version.bin'' (?B ?r) (put_file ''attack-outsider.bin'' (?B (snark_new WotsXmss ?out 0 p)) (j_files j))"
    using r(7,8) out(3) s(5) by simp
  then show ?thesis using one two by blast
qed

section \<open>A run\<close>

lemma self_mode_ok:
  assumes laws: "bitlist_laws MAX_COMMITTEE_SIZE (k_bits K)" "aggregate_complete X (k_leanvm K)" "agg_roundtrip (k_leanvm K)" "signs_correctly X w"
    and differ: "keys_differ w (N_MEMBERS bld + T bld)" and bld: "build_params env_n env_t = Inr bld"
    and run: "self_contained_prover K X w bld j = (Inr res, j')"
  shows "\<exists>kps c. committee_of K X w bld kps c \<and> honest_output K c (rotating_record K w c) (j_files j')
    \<and> one_forgery_per_check K c (as_directory (j_files j'))"
proof -
  from run obtain kps c xs sizes j2 u j3 u' where r: "require_corpus_quorum bld = Inr ()" "generate_keys ''keygen failed'' w 0 (N_MEMBERS bld) = Inr kps"
    "committee_new (sha3_256 (k_hashes K)) (k_anchor K) (map snd kps) (T bld) SLOT = Inr c"
    "steps (rotating_update K X w bld kps c) [0..<N_UPDATES] ([], [])
       (j\<lparr>j_files := put_file ''anchor.bin'' (committee_to_bytes (k_anchor K) c) (j_files j)\<rparr>) = (Inr (xs, sizes), j2)"
    "attack_forgeries K X w bld kps c xs j2 = (Inr u, j3)" "outsider_forgeries K X w bld kps c xs j3 = (Inr u', j')"
    unfolding self_contained_prover_def seq_Inr lift_Inr expect_Inr write_file_Inr by (auto simp: return_iff)
  have c: "committee_of K X w bld kps c" using laws(4) r(2,3) by (simp add: committee_of_def generate_keys_nth)
  have P: "proving K X bld c" using laws r(1) committee_of_members(3) [OF c] by (simp add: proving_def require_corpus_quorum_def return_iff)
  have out: "honest_output K c (rotating_record K w c) (j_files j2)"
    using self_loop [OF c laws(2) _ _ r(4)] build_params_satisfiable [OF bld] by simp
  let ?B = "snark_to_bytes (k_snark_ssz K)"
  obtain rt rb rs rw where a: "failed_checks K c rt = Some [2]
      \<or> statements_collide K c (ss_alg rt) (ss_status_list rt) (ss_version rt) (butlast (ss_status_list rt)) (ss_version rt)"
    "failed_checks K c rb \<in> {Some [], Some [5]}" "failed_checks K c rs = Some [4]" "failed_checks K c rw = Some [3]"
    "j_files j3 = put_file ''attack-slot.bin'' (?B rw) (put_file ''attack-short.bin'' (?B rs) (put_file ''attack-proofbody.bin'' (?B rb)
       (put_file ''attack-tampered.bin'' (?B rt) (j_files j2))))"
    using attack_forgeries_ok [OF c P r(5)] by blast
  obtain r1 r2 where ou: "failed_checks K c r1 = Some [1]" "failed_checks K c r2 = Some [2]
      \<or> statements_collide K c (ss_alg r2) (ss_status_list r2) (ss_version r2) (ss_status_list r2) (word_of_nat (N_UPDATES - 1))"
    "j_files j' = put_file ''attack-version.bin'' (?B r2) (put_file ''attack-outsider.bin'' (?B r1) (j_files j3))"
    using outsider_forgeries_ok [OF c P differ r(6)] by blast
  have files: "written K (as_directory (j_files j')) ''attack-outsider.bin'' r1" "written K (as_directory (j_files j')) ''attack-tampered.bin'' rt"
    "written K (as_directory (j_files j')) ''attack-version.bin'' r2" "written K (as_directory (j_files j')) ''attack-slot.bin'' rw"
    "written K (as_directory (j_files j')) ''attack-short.bin'' rs" "written K (as_directory (j_files j')) ''attack-proofbody.bin'' rb"
    unfolding written_def dir_read_as_directory ou(3) a(5) by simp_all
  have "one_forgery_per_check K c (as_directory (j_files j'))" unfolding one_forgery_per_check_def
    by (intro conjI exI) (rule files a(1-4) ou(1,2))+
  moreover have "honest_output K c (rotating_record K w c) (j_files j')"
    by (rule honest_output_kept [OF out]) (simp add: ou(3) a(5) REQUIRED_ATTACKS_def)
  ultimately show ?thesis using c by blast
qed

section \<open>Key uses\<close>

lemma spends_sign_all [spends_intros]: "spends (sign_all X w kps is message slot) (uses_at kps is slot)"
proof (induction "is")
  case Nil
  then show ?case by (simp add: spends_def uses_at_def)
next
  case (Cons i "is")
  have step: "spends (seq (sign_with ''signing failed'' X w kp message slot) (\<lambda>sig.
      seq (sign_all X w kps is message slot) (\<lambda>rest. lift (Inr ((snd kp, sig) # rest))))) ((snd kp, slot) # uses_at kps is slot)" for kp
    using spends_seq [OF Cons spends_lift] by (intro spends_sign_seq) simp
  have eq: "sign_all X w kps (i # is) message slot = seq (lift (key_at kps i)) (\<lambda>kp.
      seq (sign_with ''signing failed'' X w kp message slot) (\<lambda>sig.
      seq (sign_all X w kps is message slot) (\<lambda>rest. lift (Inr ((snd kp, sig) # rest)))))" by (simp add: fun_eq_iff)
  show ?case unfolding eq using step
    by (intro spends_lift_seq) (auto simp: key_at_def uses_at_def split: if_splits)
qed

lemma spends_adversarial: "spends (sign_adversarial X w kps is message slot) (uses_at kps is slot)"
  unfolding sign_adversarial_def by (intro spends_intros)

lemma spends_adversarial_proof: "spends (make_adversarial_proof K X w kps is message slot) (uses_at kps is slot)"
  using spends_seq [OF spends_adversarial spends_lift] unfolding make_adversarial_proof_def by simp

lemma spends_record [spends_intros]: "spends (write_record K w n r) []"
  unfolding write_record_def by (intro spends_intros)

lemma spends_record_seq [spends_intros]: "spends (f ()) plan \<Longrightarrow> spends (seq (write_record K w n r) f) plan"
  unfolding write_record_def by (intro spends_intros)

lemma spends_then:
  assumes "spends m p1" and "\<And>a. spends (f a) p2"
  shows "spends (seq m f) (p1 @ p2)"
  using spends_seq [OF assms(1)] assms(2) by blast

lemma spends_maybe_seq [spends_intros]:
  "spends (f ()) [] \<Longrightarrow> spends (seq (if b then write_file w n bs else lift (Inr ())) f) []"
  by (cases b) (auto intro!: spends_intros)

lemma spends_clear_seq_any:
  "(\<And>a. spends (f a) plan) \<Longrightarrow> spends (seq (\<lambda>j. clear_files w stale (map fst (j_files j)) j) f) plan"
  using spends_then [of "\<lambda>j. clear_files w stale (map fst (j_files j)) j" "[]" f plan] by (simp add: spends_def clear_files_uses)

lemma spends_rotating_update:
  assumes "genesis_slot c = SLOT"
  shows "spends (rotating_update K X w bld kps c i st) (uses_at kps (rotating_signers bld i) (SLOT + word_of_nat i))"
  unfolding rotating_update_def Let_def
proof (intro spends_lift_seq, goal_cases)
  case (1 slot)
  then have eq: "SLOT + word_of_nat i = slot" using slot_of_genesis [OF assms] by (auto simp: return_iff)
  show ?case unfolding eq
    by (rule spends_then [where ?p2.0 = "[]", simplified, OF spends_sign_all]) (intro spends_intros)
qed

lemma spends_attack_forgeries:
  assumes "genesis_slot c = SLOT"
  shows "spends (attack_forgeries K X w bld kps c xs)
    (uses_at kps [0..<T bld] (SLOT + attack_version) @ uses_at kps [0..<T bld] (SLOT + (attack_version + 1)))"
  unfolding attack_forgeries_def Let_def
proof (intro spends_lift_seq, goal_cases)
  case (1 slot)
  then have eq: "SLOT + attack_version = slot" using slot_of_genesis [OF assms] by (auto simp: return_iff)
  show ?case unfolding eq
  proof (rule spends_then [OF spends_adversarial], intro spends_lift_seq spends_record_seq, goal_cases)
    case (1 sigs p cp sp wrong)
    then have eq': "SLOT + (attack_version + 1) = wrong" using slot_of_genesis [OF assms] by (auto simp: return_iff)
    show ?case unfolding eq' by (rule spends_then [where ?p2.0 = "[]", simplified, OF spends_adversarial_proof]) (intro spends_intros)
  qed
qed

text \<open>The uses of a whole run.\<close>

definition outsider_group :: "('pk, 'sk, 'rng) world \<Rightarrow> build \<Rightarrow> ('sk \<times> 'pk) list" where
  "outsider_group w bld = (case generate_keys ''outsider keygen'' w (N_MEMBERS bld) (T bld) of Inl e \<Rightarrow> [] | Inr os \<Rightarrow> os)"

definition self_plan :: "build \<Rightarrow> ('sk \<times> 'pk) list \<Rightarrow> ('sk \<times> 'pk) list \<Rightarrow> ('pk \<times> u32) list" where
  "self_plan bld kps os =
     concat (map (\<lambda>i. uses_at kps (rotating_signers bld i) (SLOT + word_of_nat i)) [0..<N_UPDATES])
     @ (uses_at kps [0..<T bld] (SLOT + attack_version) @ uses_at kps [0..<T bld] (SLOT + (attack_version + 1)))
     @ uses_at os [0..<length os] SLOT @ uses_at kps [0..<T bld] (SLOT + KEY_SLOTS)"

lemma spends_outsider_forgeries:
  assumes "genesis_slot c = SLOT"
  shows "spends (outsider_forgeries K X w bld kps c xs) (uses_at (outsider_group w bld) [0..<length (outsider_group w bld)] SLOT @ uses_at kps [0..<T bld] (SLOT + KEY_SLOTS))"
  unfolding outsider_forgeries_def Let_def
proof (intro spends_lift_seq, goal_cases)
  case (1 os)
  then have os: "outsider_group w bld = os" "length os = T bld" by (simp add: outsider_group_def, simp add: generate_keys_from)
  show ?case unfolding os
  proof (rule spends_then [OF spends_adversarial_proof], intro spends_lift_seq spends_record_seq, goal_cases)
    case (1 p slot)
    then have eq: "SLOT + KEY_SLOTS = slot" using slot_of_genesis [OF assms] by (auto simp: return_iff)
    show ?case unfolding eq by (rule spends_then [where ?p2.0 = "[]", simplified, OF spends_adversarial_proof]) (intro spends_intros)
  qed
qed

lemma spends_self_contained:
  assumes "generate_keys ''keygen failed'' w 0 (N_MEMBERS bld) = Inr kps"
  shows "spends (self_contained_prover K X w bld) (self_plan bld kps (outsider_group w bld))"
  unfolding self_contained_prover_def self_plan_def case_prod_unfold
proof (intro spends_lift_seq spends_write_seq, goal_cases)
  case (1 u kps' c)
  then have eqs: "kps' = kps" "genesis_slot c = SLOT"
    using assms committee_new_wf [of "sha3_256 (k_hashes K)" "k_anchor K" "map snd kps'" "T bld" SLOT c] by (auto simp: return_iff)
  have last: "spends (seq (outsider_forgeries K X w bld kps c xs) (\<lambda>_. lift r))
      (uses_at (outsider_group w bld) [0..<length (outsider_group w bld)] SLOT @ uses_at kps [0..<T bld] (SLOT + KEY_SLOTS))" for xs and r :: "(panic, real) result"
    using spends_then [OF spends_outsider_forgeries [OF eqs(2)] spends_lift] by simp
  show ?case unfolding eqs(1)
    by (intro spends_then [OF spends_steps [OF spends_rotating_update [OF eqs(2)]]] spends_then [OF spends_attack_forgeries [OF eqs(2)]] last)
qed

lemma self_keys_differ:
  assumes differ: "keys_differ w (N_MEMBERS bld + T bld)" and kps: "generate_keys msg w 0 (N_MEMBERS bld) = Inr kps"
  shows "distinct (map snd kps)" "length kps = N_MEMBERS bld" "distinct (map snd (outsider_group w bld))"
    "set (map snd (outsider_group w bld)) \<inter> set (map snd kps) = {}"
proof -
  have less: "keys_differ w (N_MEMBERS bld)" using differ unfolding keys_differ_def by (meson trans_le_add1)
  show d: "distinct (map snd kps)" by (rule generated_keys_differ(1) [OF less kps])
  show "length kps = N_MEMBERS bld" using kps by (simp add: generate_keys_nth)
  have "distinct (map snd (outsider_group w bld)) \<and> set (map snd (outsider_group w bld)) \<inter> set (map snd kps) = {}"
  proof (cases "generate_keys ''outsider keygen'' w (N_MEMBERS bld) (T bld)")
    case (Inl e)
    then show ?thesis by (simp add: outsider_group_def)
  next
    case (Inr os)
    then show ?thesis using outsider_keys [OF differ _ Inr, of kps] kps by (simp add: outsider_group_def generate_keys_nth)
  qed
  then show "distinct (map snd (outsider_group w bld))" "set (map snd (outsider_group w bld)) \<inter> set (map snd kps) = {}" by blast+
qed

lemma disjoint_keys: "fst ` A \<subseteq> S \<Longrightarrow> fst ` B \<subseteq> U \<Longrightarrow> S \<inter> U = {} \<Longrightarrow> A \<inter> B = {}"
  by (auto simp: image_subset_iff)

lemma distinct_insert_between:
  "distinct (a @ b @ d) \<Longrightarrow> distinct c \<Longrightarrow> set (a @ b @ d) \<inter> set c = {} \<Longrightarrow> distinct (a @ b @ c @ d)"
  by auto

lemma self_plan_distinct:
  assumes kps: "distinct (map snd kps)" "length kps = N_MEMBERS bld" and os: "distinct (map snd os)" "set (map snd os) \<inter> set (map snd kps) = {}"
    and T: "1 \<le> T bld" "T bld \<le> N_MEMBERS bld"
  shows "distinct (self_plan bld kps os)"
proof -
  let ?ups = "concat (map (\<lambda>i. uses_at kps (rotating_signers bld i) (SLOT + word_of_nat i)) [0..<N_UPDATES])"
  let ?att = "uses_at kps [0..<T bld] (SLOT + attack_version) @ uses_at kps [0..<T bld] (SLOT + (attack_version + 1))"
  let ?ver = "uses_at kps [0..<T bld] (SLOT + KEY_SLOTS)" and ?out = "uses_at os [0..<length os] SLOT"
  have q: "distinct (rotating_signers bld i) \<and> (\<forall>k \<in> set (rotating_signers bld i). k < length kps)" for i
    using rotating_signers_distinct [OF T(2)] T kps(2) by simp
  have members: "distinct (?ups @ ?att @ ?ver)"
    using committee_uses_distinct [of kps "rotating_signers bld" bld, OF kps(1) q] T(2) kps(2) by simp
  have keys: "fst ` set (?ups @ ?att @ ?ver) \<subseteq> set (map snd kps)"
    unfolding set_append image_Un using q kps(2) T(2) by (intro Un_least concat_uses_keys uses_at_keys) auto
  have out: "fst ` set ?out \<subseteq> set (map snd os)" by (intro uses_at_keys) simp
  have "distinct (map (\<lambda>i. snd (os ! i)) [0..<length os])" by (rule distinct_indexed_keys [OF os(1)]) simp_all
  then have "distinct ?out" unfolding uses_at_groups distinct_map [of "\<lambda>k. (k, SLOT)"] by (simp add: inj_on_def)
  moreover have "set (?ups @ ?att @ ?ver) \<inter> set ?out = {}" by (rule disjoint_keys [OF keys out]) (use os(2) in blast)
  ultimately have "distinct (?ups @ ?att @ ?out @ ?ver)" using members by (intro distinct_insert_between)
  then show ?thesis by (simp add: self_plan_def)
qed

section \<open>Properties\<close>

text \<open>The aggregator over a fixture holds no key.\<close>

lemma spends_prove_update: "spends (prove_update K w bld c fixture n u sizes) []"
  unfolding prove_update_def Let_def by (intro spends_intros)

lemma spends_forgeries:
  "spends (honest_forgeries K w bld c fixture) []" "spends (slot_forgery K w c fixture) []"
  "spends (version_forgery K w c fixture) []" "spends (outsider_forgery K w c fixture) []"
  unfolding honest_forgeries_def slot_forgery_def version_forgery_def outsider_forgery_def Let_def by (intro spends_intros)+

lemma spends_nothing_seq: "spends m [] \<Longrightarrow> (\<And>a. spends (f a) []) \<Longrightarrow> spends (seq m f) []"
  using spends_then [of m "[]" f "[]"] by simp

lemma spends_fixture_mode: "spends (run_fixture_prover K w bld honest_only fixture) []"
proof -
  have loop: "spends (steps (prove_update K w bld c fixture n) us sizes) []" for c n us sizes
  proof -
    have "concat (map (\<lambda>_. []) us) = ([] :: ('a \<times> u32) list)" by (induction us) simp_all
    then show ?thesis using spends_steps [of us "prove_update K w bld c fixture n" "\<lambda>_. []" sizes, OF spends_prove_update] by (simp only:)
  qed
  have "spends (if honest_only then lift (Inr ()) else seq (honest_forgeries K w bld c fixture) (\<lambda>_. seq (slot_forgery K w c fixture) (\<lambda>_.
      seq (version_forgery K w c fixture) (\<lambda>_. outsider_forgery K w c fixture)))) []" for c
    by (cases honest_only) (auto intro!: spends_nothing_seq spends_forgeries spends_lift)
  then show ?thesis unfolding run_fixture_prover_def
    by (intro spends_lift_seq spends_write_seq spends_nothing_seq loop spends_lift)
qed

text \<open>
  C17. The aggregator never uses a one-time key twice at one slot: over a fixture it uses none at all,
  and in its self-contained mode, if the keys it generates for the committee and for the outsiders
  are pairwise different, the uses made until it returns or panics are pairwise different pairs of
  key and slot, over the rotating quorums and all six forgeries.
\<close>

theorem prover_never_reuses_a_key:
  assumes "build_params env_n env_t = Inr bld" and "keys_differ w (N_MEMBERS bld + T bld)" and "j_uses j = []"
  shows "distinct (j_uses (snd (prover_main K X w bld honest_only input j))) \<and> (input \<noteq> None \<longrightarrow> j_uses (snd (prover_main K X w bld honest_only input j)) = [])"
proof -
  have spent: "\<exists>us. j_uses (snd (prover_main K X w bld honest_only input j)) = us \<and> prefix us plan" if "spends (prover_main K X w bld honest_only input) plan" for plan
    using that assms(3) unfolding spends_def by (metis append_Nil)
  show ?thesis
  proof (cases input)
    case (Some fixture)
    have "spends (prover_main K X w bld honest_only input) []"
      unfolding prover_main_def Some option.case by (intro spends_clear_seq_any spends_nothing_seq spends_fixture_mode spends_lift)
    then show ?thesis using spent by fastforce
  next
    case None
    have main: "spends (prover_main K X w bld honest_only input) plan" if "spends (self_contained_prover K X w bld) plan" for plan
      unfolding prover_main_def None option.case using spends_then [OF that spends_lift] by (intro spends_clear_seq_any) simp
    show ?thesis
    proof (cases "generate_keys ''keygen failed'' w 0 (N_MEMBERS bld)")
      case (Inl e)
      have "spends (self_contained_prover K X w bld) []"
        unfolding self_contained_prover_def by (intro spends_lift_seq) (simp add: Inl)
      then show ?thesis using spent [OF main] None by fastforce
    next
      case (Inr kps)
      have T: "1 \<le> T bld" "T bld \<le> N_MEMBERS bld" using build_params_satisfiable [OF assms(1)] by auto
      have "distinct (self_plan bld kps (outsider_group w bld))"
        using self_keys_differ [OF assms(2) Inr] T by (intro self_plan_distinct) simp_all
      then show ?thesis using spent [OF main [OF spends_self_contained [OF Inr]]] None by (auto elim: prefixE)
    qed
  qed
qed

theorem prover_never_reuses_a_key_witness:
  "keys_differ numbered_world 328
   \<and> distinct (j_uses (snd (prover_main example_env plain_xmss numbered_world \<lparr>N_MEMBERS = 200, T = 128\<rparr> False None \<lparr>j_files = [], j_uses = []\<rparr>)))"
  using prover_never_reuses_a_key [OF build_params_default, of numbered_world "\<lparr>j_files = [], j_uses = []\<rparr>" example_env plain_xmss False None]
    numbered_world_keys by simp

end
