(* ===== verification/Pipeline.thy ===== *)
theory Pipeline
  imports Prover_Self
begin

text \<open>
  The benchmark as a whole: what the fixture generator writes, the aggregator turns into records, and
  the acceptance check passes them. The aggregator returns in a world without faults, and an
  honest-only run over a valid fixture exits the check with success.
\<close>

section \<open>Laws of the aggregation library\<close>

definition aggregator_total :: "('pk, 'sk, 'sig, 'rng) xmss \<Rightarrow> ('pk, 'sig, 'sph, 'agg) leanvm \<Rightarrow> bool" where
  "aggregator_total X L \<longleftrightarrow> (\<forall>raws slot message rate. raws \<noteq> [] \<longrightarrow> distinct (map fst raws)
     \<longrightarrow> (\<forall>(pk, sig) \<in> set raws. xmss_verify X pk message sig slot)
     \<longrightarrow> (\<exists>a. aggregate L (map (\<lambda>(pk, sig). (pk, slot, message, sig)) raws) rate = Inr a))"

text \<open>Records of a supported committee over a list of the bounded size fit the 32-bit offsets of their encoding.\<close>

definition records_fit :: "('b, 'pk, 'sk, 'sig, 'rng, 'sph, 'agg) check_env \<Rightarrow> bool" where
  "records_fit K \<longleftrightarrow> (\<exists>P. (\<forall>raws rate a. length raws \<le> MAX_COMMITTEE_SIZE \<longrightarrow> aggregate (k_leanvm K) raws rate = Inr a
        \<longrightarrow> length (agg_to_bytes (k_leanvm K) a) \<le> P)
     \<and> (\<forall>v. length (sw_status_list v) \<le> MAX_LIST_ENTRIES \<longrightarrow> length (sw_zk_proof v) \<le> P \<longrightarrow> length (as_ssz_bytes (k_snark_ssz K) v) < 2 ^ 32))"

lemma prove_at_total:
  assumes "aggregator_total X (k_leanvm K)" and "raws \<noteq> []" and "distinct (map fst raws)" and "\<forall>(pk, sig) \<in> set raws. xmss_verify X pk message sig slot"
  shows "\<exists>p. prove_at K raws message slot = Inr p"
proof -
  obtain a where "aggregate (k_leanvm K) (map (\<lambda>(pk, sig). (pk, slot, message, sig)) raws) LOG_INV_RATE = Inr a"
    using assms unfolding aggregator_total_def by blast
  then show ?thesis by (simp add: prove_at_def prover_aggregate_def expect_Inr)
qed

lemma update_record_decodes:
  assumes rec: "update_record K c alg xs v ks r" and fit: "records_fit K" "ssz_roundtrip (k_snark_ssz K)"
    and bounds: "length xs \<le> MAX_LIST_ENTRIES" "threshold c \<le> MAX_COMMITTEE_SIZE"
  shows "snark_from_bytes (k_snark_ssz K) (snark_to_bytes (k_snark_ssz K) r) = Inr r"
proof -
  obtain p slot raws where r: "r = snark_new alg xs v p" "length raws = threshold c"
    "prove_at K raws (message_for (blake2s_256 (k_hashes K)) c alg xs v) slot = Inr p"
    using rec unfolding update_record_def by blast
  from fit(1) obtain P where P: "\<And>raws rate a. length raws \<le> MAX_COMMITTEE_SIZE \<Longrightarrow> aggregate (k_leanvm K) raws rate = Inr a
        \<Longrightarrow> length (agg_to_bytes (k_leanvm K) a) \<le> P"
    "\<And>v. length (sw_status_list v) \<le> MAX_LIST_ENTRIES \<Longrightarrow> length (sw_zk_proof v) \<le> P \<Longrightarrow> length (as_ssz_bytes (k_snark_ssz K) v) < 2 ^ 32"
    unfolding records_fit_def by blast
  let ?m = "message_for (blake2s_256 (k_hashes K)) c alg xs v"
  obtain a where a: "aggregate (k_leanvm K) (map (\<lambda>(pk, sig). (pk, slot, ?m, sig)) raws) LOG_INV_RATE = Inr a" "p = agg_to_bytes (k_leanvm K) a"
    using r(3) unfolding prove_at_def prover_aggregate_def by (auto simp: expect_Inr split: sum.splits)
  have "length p \<le> P" unfolding a(2) using r(2) bounds(2) by (intro P(1) [OF _ a(1)]) simp
  then have "length (snark_to_bytes (k_snark_ssz K) r) < 2 ^ 32"
    unfolding snark_to_bytes_def using bounds(1) by (intro P(2)) (simp_all add: r(1) snark_new_def)
  then show ?thesis by (rule snark_roundtrip [OF fit(2)])
qed

section \<open>The acceptance check\<close>

text \<open>An update of the fixture mode is what the check wants of it.\<close>

lemma fixture_update_accepted:
  assumes rec: "fixture_update_record K c fixture i r" and written: "dir_read out (update_name i) = Inr (snark_to_bytes (k_snark_ssz K) r)"
    and valid: "valid_updates K X bld c fixture" and i: "i < N_UPDATES" and laws: "bitlist_laws MAX_COMMITTEE_SIZE (k_bits K)"
    and fit: "records_fit K" "ssz_roundtrip (k_snark_ssz K)" "threshold c \<le> MAX_COMMITTEE_SIZE"
  shows "update_ok K c out (Some fixture) i"
proof -
  obtain raw inputs where raw: "load_raw K fixture (raw_update_name i) = Inr raw" "aggregation_inputs K c raw = Inr inputs"
    and up: "update_record K c (sl_alg raw) (sl_status_list raw) (word_of_nat i) (set (map fst inputs)) r"
    using rec unfolding fixture_update_record_def by blast
  have sr: "signed_record K X bld c c fixture (raw_update_name i) (word_of_nat i) (word_of_nat i)" using valid i by (simp add: valid_updates_def)
  note inp = inputs_of_record [OF laws sr raw]
  have "length (sl_status_list raw) \<le> MAX_LIST_ENTRIES" using sr raw(1) by (auto simp: signed_record_def)
  then have dec: "snark_from_bytes (k_snark_ssz K) (snark_to_bytes (k_snark_ssz K) r) = Inr r"
    using update_record_decodes [OF up fit(1,2)] fit(3) by blast
  obtain p slot a pks where r: "r = snark_new (sl_alg raw) (sl_status_list raw) (word_of_nat i) p"
    "agg_from_bytes (k_leanvm K) p = Inr a" "agg_to_bytes (k_leanvm K) a = p"
    "agg_xmss_signers (k_leanvm K) a = [(slot, message_for (blake2s_256 (k_hashes K)) c (sl_alg raw) (sl_status_list raw) (word_of_nat i), pks)]"
    "set pks = set (map fst inputs)" "distinct pks"
    using up unfolding update_record_def claims_def by blast
  let ?d = "\<lparr>ds_record = r, ds_aggregate = a\<rparr>"
  have "update_at K out i = Some ?d"
    using written dec r(1-3) by (simp add: update_at_def decode_update_def snark_decode_def snark_proof_def snark_new_def ok_def)
  moreover have "snark_verify (k_leanvm K) (blake2s_256 (k_hashes K)) \<lparr>sv_committee = c, sv_last_version = 0\<rparr> r"
    unfolding failed_checks_none_fail using update_record_verifies [OF up] by simp
  moreover have "matches_fixture K c fixture i ?d"
  proof -
    obtain bs where bs: "dir_read fixture (raw_update_name i) = Inr bs" "status_list_from_bytes (k_bits K) (k_raw_ssz K) bs = Inr raw"
      using raw(1) by (auto simp: load_raw_def return_iff)
    have name: "''raw-'' @ update_name i = raw_update_name i" by (simp add: update_name_def raw_update_name_def)
    have slots: "signer_slots (k_bits K) raw = length (members c)" using raw(2) by (auto simp: aggregation_inputs_def return_iff)
    have idx: "map fst inputs = map (\<lambda>j. members c ! j) (signer_indices (k_bits K) raw)"
      using raw(2) length_signer_indices [OF laws, of raw]
      by (auto simp: aggregation_inputs_def return_iff comp_def case_prod_unfold map_fst_zip [symmetric] intro!: nth_equalityI)
    have bound: "\<forall>j \<in> set (signer_indices (k_bits K) raw). j < length (members c)"
      using signer_indices_bound [OF laws, of _ raw] slots by auto
    have "mset pks = mset (map fst inputs)" using r(5,6) inp(2) by (metis set_eq_iff_mset_eq_distinct)
    then have "mset (map Some pks) = mset (map Some (map fst inputs))" by (simp only: mset_map)
    also have "map Some (map fst inputs) = map (\<lambda>j. if j < length (members c) then Some (members c ! j) else None) (signer_indices (k_bits K) raw)"
      unfolding idx using bound by simp
    finally show ?thesis using bs r(1,4) inp(1) unfolding matches_fixture_def name by (simp add: snark_new_def)
  qed
  ultimately show ?thesis unfolding update_ok_def using r(1) by (simp add: snark_new_def)
qed

text \<open>The check passes a directory that holds an honest output and nothing else.\<close>

lemma honest_output_accepted:
  assumes out: "honest_output K c (fixture_update_record K c fixture) fl" and only: "\<forall>m. m \<notin> set expected_names \<longrightarrow> map_of fl m = None"
    and valid: "valid_updates K X bld c fixture" and laws: "bitlist_laws MAX_COMMITTEE_SIZE (k_bits K)" "ssz_canonical (wire_ssz (k_anchor K))"
    and fit: "records_fit K" "ssz_roundtrip (k_snark_ssz K)" "threshold c \<le> MAX_COMMITTEE_SIZE"
  shows "report_exit (check_output K (as_directory fl) (Some fixture)) = 0"
proof -
  obtain anchor where anchor: "dir_read fixture ''anchor.bin'' = Inr anchor"
    "committee_from_bytes (sha3_256 (k_hashes K)) (k_anchor K) anchor = Inr c"
    using valid by (auto simp: valid_updates_def load_committee_def return_iff)
  have bytes: "committee_to_bytes (k_anchor K) c = anchor" using committee_from_bytes_wf [OF laws(2) anchor(2)] by simp
  obtain rs where a: "map_of fl ''anchor.bin'' = Some anchor"
    and u: "\<And>i. i < N_UPDATES \<Longrightarrow> fixture_update_record K c fixture i (rs i) \<and> map_of fl (update_name i) = Some (snark_to_bytes (k_snark_ssz K) (rs i))"
    and l: "map_of fl ''canonical.bin'' = Some (snark_to_bytes (k_snark_ssz K) (rs (N_UPDATES - 1)))"
    using out unfolding honest_output_def bytes by blast
  have read: "dir_read (as_directory fl) m = Inr bs" if "map_of fl m = Some bs" for m bs
    using that by (simp add: dir_read_as_directory)
  have "set expected_names \<subseteq> fst ` set fl"
  proof
    fix m
    assume "m \<in> set expected_names"
    then have "m \<in> dom (map_of fl)" using a l u by (auto simp: expected_names_def)
    then show "m \<in> fst ` set fl" by (simp only: dom_map_of_conv_image_fst)
  qed
  moreover have "fst ` set fl \<subseteq> set expected_names"
    using only by (auto simp: dom_map_of_conv_image_fst [symmetric])
  ultimately have names: "honest_names True (map (\<lambda>(n, _). Inr n) fl)" unfolding honest_names_def
    by (intro exI [of _ "map fst fl"]) (simp add: case_prod_unfold comp_def)
  have oks: "list_all (update_ok K c (as_directory fl) (Some fixture)) [0..<N_UPDATES]"
  proof -
    have "update_ok K c (as_directory fl) (Some fixture) i" if "i < N_UPDATES" for i
      by (rule fixture_update_accepted [OF conjunct1 [OF u [OF that]] read [OF conjunct2 [OF u [OF that]]] valid that laws(1) fit])
    then show ?thesis by (simp add: list_all_iff)
  qed
  have last: "map_of fl (update_name (N_UPDATES - 1)) = Some (snark_to_bytes (k_snark_ssz K) (rs (N_UPDATES - 1)))"
    using u [of "N_UPDATES - 1"] by (simp add: N_UPDATES_def)
  have "dir_entries (as_directory fl) = Inr (map (\<lambda>(n, _). Inr n) fl)" by (simp add: as_directory_def)
  from check_runs [OF this read [OF a] anchor_failures_iff [THEN iffD2] anchor(2), of "Some fixture"]
  show ?thesis using names oks read [OF l] read [OF last] anchor(1) by simp
qed

section \<open>The aggregator returns\<close>

lemma prove_update_returns:
  assumes total: "aggregator_total X (k_leanvm K)" and laws: "bitlist_laws MAX_COMMITTEE_SIZE (k_bits K)" and T: "1 \<le> T bld"
    and rec: "signed_record K X bld c c fixture (snd u) v v" and writes: "\<And>f. w_write w f = FileClean"
  shows "returns (prove_update K w bld c fixture n u sizes)"
proof -
  obtain raw inputs slot where r: "load_raw K fixture (snd u) = Inr raw" "sl_version raw = v" "signer_count (k_bits K) raw = T bld"
    "aggregation_inputs K c raw = Inr inputs" "distinct (map fst inputs)" "slot_for c v = Some slot"
    "\<forall>(pk, sig) \<in> set inputs. xmss_verify X pk (message_for (blake2s_256 (k_hashes K)) c (sl_alg raw) (sl_status_list raw) v) sig slot"
    using rec unfolding signed_record_def by blast
  have "inputs \<noteq> []" using inputs_of_record(3) [OF laws rec r(1,4)] T by auto
  from prove_at_total [OF total this r(5,7)] obtain p where
    "prove K c (sl_alg raw) inputs (sl_status_list raw) (sl_version raw) = Inr p"
    unfolding r(2) prove_is_prove_at [OF r(6), symmetric] by blast
  note p = returns_lift_seq [OF this]
  have last: "returns (if b then write_file w ''canonical.bin'' bs else lift (Inr ()))" for b bs
    using writes by (simp add: returns_intros)
  show ?thesis unfolding prove_update_def Let_def
    by (intro returns_lift_seq [OF r(1)] returns_lift_seq [OF assert_that_Inr [THEN iffD2, OF r(3)]] returns_lift_seq [OF r(4)] p
        returns_write_seq writes returns_seq [OF last] returns_lift)
qed

text \<open>The loop records one size per update, so there is a median.\<close>

lemma prove_updates_sizes:
  "steps (prove_update K w bld c fixture n) us sizes j = (Inr sizes', j') \<Longrightarrow> length (fst sizes') = length (fst sizes) + length us"
proof (induction us arbitrary: sizes j)
  case (Cons u us)
  from Cons.prems obtain s1 j1 where r: "prove_update K w bld c fixture n u sizes j = (Inr s1, j1)"
    "steps (prove_update K w bld c fixture n) us s1 j1 = (Inr sizes', j')" by (auto simp: return_iff)
  have "length (fst s1) = length (fst sizes) + 1"
    using r(1) unfolding prove_update_def Let_def seq_Inr lift_Inr by auto
  then show ?case using Cons.IH [OF r(2)] by simp
qed simp

lemma fixture_prover_returns:
  assumes total: "aggregator_total X (k_leanvm K)" and laws: "bitlist_laws MAX_COMMITTEE_SIZE (k_bits K)" and T: "1 \<le> T bld"
    and valid: "valid_updates K X bld c fixture" and writes: "\<And>f. w_write w f = FileClean"
  shows "returns (run_fixture_prover K w bld True fixture)"
proof -
  have v: "load_committee K fixture ''anchor.bin'' = Inr c" "length (members c) = N_MEMBERS bld" "threshold c = T bld"
    "fixture_files fixture ''raw-update-'' = Inr (map raw_update_name [0..<N_UPDATES])"
    "\<And>i. i < N_UPDATES \<Longrightarrow> signed_record K X bld c c fixture (raw_update_name i) (word_of_nat i) (word_of_nat i)"
    using valid by (auto simp: valid_updates_def)
  have rec: "signed_record K X bld c c fixture (snd u) (word_of_nat (fst u)) (word_of_nat (fst u))"
    if "u \<in> set (enumerate 0 (map raw_update_name [0..<N_UPDATES]))" for u
    using that v(5) [of "fst u"] by (auto simp: in_set_enumerate_eq)
  have loop: "returns (steps (prove_update K w bld c fixture n) (enumerate 0 (map raw_update_name [0..<N_UPDATES])) s)" for s n
    by (intro returns_steps prove_update_returns [OF total laws T rec writes])
  have median: "returns (lift (and_then (expect_some msg (median_usize (fst sizes))) (\<lambda>med. Inr (med, snd sizes))))"
    if "steps (prove_update K w bld c fixture n) (enumerate 0 (map raw_update_name [0..<N_UPDATES])) ([], ListSizes None) j = (Inr sizes, j')" for n sizes j j' msg
  proof -
    have "length (fst sizes) = N_UPDATES" using prove_updates_sizes [OF that] by simp
    then have "fst sizes \<noteq> []" by (auto simp: N_UPDATES_def)
    then have "median_usize (fst sizes) \<noteq> None" by (simp add: median_usize_def Let_def)
    then obtain med where "median_usize (fst sizes) = Some med" by blast
    then show ?thesis by (simp add: and_then_def expect_some_def returns_lift)
  qed
  have len: "length (map raw_update_name [0..<N_UPDATES]) = N_UPDATES" by simp
  note assertion = returns_lift_seq [OF assert_that_Inr [THEN iffD2]]
  show ?thesis unfolding run_fixture_prover_def if_True
    by (intro returns_lift_seq [OF refl] returns_lift_seq [OF v(1)] assertion [OF v(2)] assertion [OF v(3)] returns_write_seq writes
        returns_lift_seq [OF v(4)] assertion [OF len] returns_seq [OF loop] median)
qed

section \<open>The acceptance of an honest-only run\<close>

text \<open>Clearing the output directory empties it when an earlier run was its only writer.\<close>

definition only_artifacts :: "(string \<times> bytes) list \<Rightarrow> bool" where
  "only_artifacts fl \<longleftrightarrow> (\<forall>n \<in> set (map fst fl). from_utf8 (as_bytes n) \<noteq> None \<and> stale_artifact n)"

lemma clear_only_artifacts:
  assumes "only_artifacts (j_files j)" and "clear_files w stale_artifact (map fst (j_files j)) j = (Inr u, j')"
  shows "j_files j' = []"
proof -
  have "set (map fst (j_files j')) = {}"
    unfolding clear_files_ok [OF assms(2), THEN conjunct1] using assms(1) by (auto simp: only_artifacts_def)
  then show ?thesis by simp
qed

lemma honest_run_accepted:
  assumes K: "bitlist_laws MAX_COMMITTEE_SIZE (k_bits K)" "ssz_canonical (wire_ssz (k_anchor K))" "ssz_roundtrip (k_snark_ssz K)" "records_fit K"
    and L: "aggregate_complete X (k_leanvm K)" "aggregator_total X (k_leanvm K)" "agg_roundtrip (k_leanvm K)"
    and bld: "1 \<le> T bld" "T bld \<le> MAX_COMMITTEE_SIZE" and valid: "valid_updates K X bld c fixture"
    and w: "\<And>f. w_write w f = FileClean \<and> \<not> w_unlistable w f \<and> \<not> w_unremovable w f" and out: "only_artifacts (j_files j)"
  shows "\<exists>j'. prover_main K X w bld True (Some fixture) j = (Inr (), j')
    \<and> report_exit (check_output K (as_directory (j_files j')) (Some fixture)) = 0"
proof -
  obtain j1 where clear: "clear_files w stale_artifact (map fst (j_files j)) j = (Inr (), j1)"
    using clear_files_return [of w stale_artifact "map fst (j_files j)" j] w by blast
  have empty: "j_files j1 = []" by (rule clear_only_artifacts [OF out clear])
  obtain res j2 where run: "run_fixture_prover K w bld True fixture j1 = (Inr res, j2)"
    using fixture_prover_returns [OF L(2) K(1) bld(1) valid, of w] w unfolding returns_def by blast
  note ok = fixture_mode_ok [OF K(1) L(1) bld(1) L(3) valid _ run]
  have only: "\<forall>m. m \<notin> set expected_names \<longrightarrow> map_of (j_files j2) m = None"
    using ok(3) empty by simp
  have "threshold c \<le> MAX_COMMITTEE_SIZE" using valid bld(2) by (simp add: valid_updates_def)
  from honest_output_accepted [OF ok(1) only valid K(1,2,4,3) this]
  have "report_exit (check_output K (as_directory (j_files j2)) (Some fixture)) = 0" by simp
  moreover have "prover_main K X w bld True (Some fixture) j = (Inr (), j2)"
    unfolding prover_main_def using clear run by (auto simp: return_iff)
  ultimately show ?thesis by blast
qed

section \<open>Property\<close>

text \<open>
  C16. The benchmark runs end to end: for every build the committee type supports and every list size
  the environment accepts, if no file operation fails and the libraries do what they document, the
  fixture generator returns; the aggregator, run over that fixture with the honest records only,
  returns; and the acceptance check of its output against the fixture exits with success. Whatever
  an earlier generator left in the fixture directory and an earlier aggregator in the output
  directory does not matter.
\<close>

theorem benchmark_runs_end_to_end:
  assumes "faultless X w (N_MEMBERS bld)" and "keys_differ w (N_MEMBERS bld)" and "signs_correctly X w"
    and "codec_laws K" and "inj (as_ssz_bytes (key_ssz (k_anchor K)))" and "N_MEMBERS bld \<le> MAX_COMMITTEE_SIZE"
    and "ssz_canonical (wire_ssz (k_anchor K))" and "ssz_roundtrip (k_snark_ssz K)" and "records_fit K"
    and "aggregate_complete X (k_leanvm K)" and "aggregator_total X (k_leanvm K)" and "agg_roundtrip (k_leanvm K)"
    and "build_params env_n env_t = Inr bld" and "list_entries_from_env le = Some entries"
    and "distinct (map fst (j_files jf))" and "only_artifacts (j_files jp)"
  shows "\<exists>jf' jp'. committee_fixture K X w bld le jf = (Inr (), jf')
    \<and> prover_main K X w bld True (Some (as_directory (j_files jf'))) jp = (Inr (), jp')
    \<and> check_prover_output K [as_directory (j_files jp'), as_directory (j_files jf')] = 0"
proof -
  have K: "bitlist_laws MAX_COMMITTEE_SIZE (k_bits K)" using assms(4) by (simp add: codec_laws_def)
  obtain jf' where jf': "committee_fixture K X w bld le jf = (Inr (), jf')"
    using fixture_returns [OF assms(1-3) K assms(5,6,13,14)] unfolding returns_def by (metis old.unit.exhaust)
  then obtain c where valid: "valid_updates K X bld c (as_directory (j_files jf'))"
    using fixture_leaves_valid [OF _ assms(4,3,2,13,15)] by blast
  have T: "1 \<le> T bld" "T bld \<le> MAX_COMMITTEE_SIZE" using build_params_satisfiable [OF assms(13)] assms(6) by auto
  have w: "w_write w f = FileClean \<and> \<not> w_unlistable w f \<and> \<not> w_unremovable w f" for f using assms(1) by (simp add: faultless_def)
  show ?thesis using jf' honest_run_accepted [OF K assms(7-12) T valid w assms(16)] by (auto simp: check_prover_output_def)
qed

section \<open>A concrete world\<close>

text \<open>An encoding of aggregated records: the tag, the version, the number of entries, the entries and the proof.\<close>

definition plain_snark_ssz :: "snark_wire ssz" where
  "plain_snark_ssz = \<lparr>
     as_ssz_bytes = (\<lambda>v. sw_alg v # u32_to_le (sw_version v) @ u32_to_le (word_of_nat (length (sw_status_list v)))
        @ concat (map bytes_of (sw_status_list v)) @ sw_zk_proof v),
     from_ssz_bytes = (\<lambda>b. if length b < 9 then Inl ''InvalidByteLength'' else
        let nl = unat (u32_from_le (region 5 4 b))
        in Inr \<lparr>sw_alg = b ! 0, sw_status_list = arrays (region 9 (32 * nl) b), sw_version = u32_from_le (region 1 4 b),
                sw_zk_proof = drop (9 + 32 * nl) b\<rparr>)\<rparr>"

lemma plain_snark_length:
  "length (as_ssz_bytes plain_snark_ssz v) = 9 + 32 * length (sw_status_list v) + length (sw_zk_proof v)"
  by (simp add: plain_snark_ssz_def length_concat_arrays)

lemma plain_snark_roundtrip: "ssz_roundtrip plain_snark_ssz"
proof -
  have "from_ssz_bytes plain_snark_ssz (as_ssz_bytes plain_snark_ssz v) = Inr v" if "length (as_ssz_bytes plain_snark_ssz v) < 2 ^ 32" for v
  proof -
    let ?nl = "length (sw_status_list v)"
    have n: "unat (word_of_nat ?nl :: u32) = ?nl" using that unfolding plain_snark_length by (simp add: unat_of_nat)
    obtain bs where bs: "bs = as_ssz_bytes plain_snark_ssz v" by blast
    have regions: "region 5 4 bs = u32_to_le (word_of_nat ?nl)" "region 1 4 bs = u32_to_le (sw_version v)"
      "region 9 (32 * ?nl) bs = concat (map bytes_of (sw_status_list v))" "drop (32 * ?nl) (drop 9 bs) = sw_zk_proof v" "bs ! 0 = sw_alg v" "9 \<le> length bs"
      unfolding bs by (simp_all add: plain_snark_ssz_def region_def length_concat_arrays del: drop_drop)
    have tail: "drop (9 + 32 * ?nl) bs = sw_zk_proof v" using regions(4) by (simp add: add.commute)
    have "from_ssz_bytes plain_snark_ssz bs = Inr v"
      using regions(1-3,5,6) tail n by (simp add: plain_snark_ssz_def Let_def arrays_concat)
    then show ?thesis unfolding bs .
  qed
  then show ?thesis by (simp add: ssz_roundtrip_def)
qed

definition pipeline_env where
  "pipeline_env = corpus_env\<lparr>k_snark_ssz := plain_snark_ssz\<rparr>"

lemma pipeline_env_laws:
  "codec_laws pipeline_env" "inj (as_ssz_bytes (key_ssz (k_anchor pipeline_env)))" "ssz_canonical (wire_ssz (k_anchor pipeline_env))"
  "ssz_roundtrip (k_snark_ssz pipeline_env)" "k_leanvm pipeline_env = plain_leanvm"
  using corpus_env_laws reference_laws plain_snark_roundtrip
  by (simp_all add: pipeline_env_def codec_laws_def compact_raw_def corpus_env_def example_env_def reference_codecs_def)

lemma plain_aggregator_total: "aggregator_total plain_xmss plain_leanvm"
  by (auto simp: aggregator_total_def plain_leanvm_def neq_Nil_conv)

lemma pipeline_records_fit: "records_fit pipeline_env"
proof -
  have "length (agg_to_bytes plain_leanvm a) \<le> 36 + 32 * MAX_COMMITTEE_SIZE"
    if "length raws \<le> MAX_COMMITTEE_SIZE" "aggregate plain_leanvm raws rate = Inr a" for raws rate a
    using that length_concat_arrays [of "map fst raws"] by (cases raws) (auto simp: plain_leanvm_def)
  moreover have "length (as_ssz_bytes (k_snark_ssz pipeline_env) v) < 2 ^ 32"
    if "length (sw_status_list v) \<le> MAX_LIST_ENTRIES" "length (sw_zk_proof v) \<le> 36 + 32 * MAX_COMMITTEE_SIZE" for v
    using that by (simp add: pipeline_env_def plain_snark_length MAX_LIST_ENTRIES_def MAX_COMMITTEE_SIZE_def)
  ultimately show ?thesis unfolding records_fit_def pipeline_env_laws(5) by blast
qed

theorem benchmark_runs_end_to_end_witness:
  "\<exists>jf' jp'. committee_fixture pipeline_env plain_xmss numbered_world \<lparr>N_MEMBERS = 200, T = 128\<rparr> None \<lparr>j_files = [], j_uses = []\<rparr> = (Inr (), jf')
     \<and> prover_main pipeline_env plain_xmss numbered_world \<lparr>N_MEMBERS = 200, T = 128\<rparr> True (Some (as_directory (j_files jf'))) \<lparr>j_files = [], j_uses = []\<rparr> = (Inr (), jp')
     \<and> check_prover_output pipeline_env [as_directory (j_files jp'), as_directory (j_files jf')] = 0"
proof -
  have "list_entries_from_env None = Some None" by (simp add: list_entries_from_env_def)
  moreover have "agg_roundtrip (k_leanvm pipeline_env)" "aggregate_complete plain_xmss (k_leanvm pipeline_env)" "aggregator_total plain_xmss (k_leanvm pipeline_env)"
    using plain_agg_roundtrip plain_aggregate_complete plain_aggregator_total by (simp_all add: pipeline_env_laws(5) agg_roundtrip_def)
  ultimately show ?thesis using numbered_world_keys
    by (intro benchmark_runs_end_to_end [OF numbered_world_laws(1) _ numbered_world_laws(2) pipeline_env_laws(1,2) _ pipeline_env_laws(3,4) pipeline_records_fit _ _ _ build_params_default])
       (simp_all add: MAX_COMMITTEE_SIZE_def only_artifacts_def)
qed

end
