(* ===== verification/Root_Main.thy ===== *)
theory Root_Main
  imports Pipeline
begin

text \<open>
  The single-process demonstration (src/main.rs): a committee is generated, its members sign rotating
  updates, each is aggregated and verified, and three forgeries are offered to the verifier. Setup
  of the circuit, memory figures and printing are left out; clock readings are inputs.

  The lemmas show that a run without faults returns, having verified every update, and that it
  reports every forgery rejected unless two of its statements collide under the hash.
\<close>

section \<open>Durations\<close>

text \<open>A duration is a number of nanoseconds.\<close>

definition ms :: "nat \<Rightarrow> real" where
  "ms d = real d / 1000000"

definition dur_stats :: "nat list \<Rightarrow> (panic, real \<times> real \<times> real) result" where
  "dur_stats v =
     and_then (assert_that ''no timings to summarise'' (v \<noteq> [])) (\<lambda>_.
     let xs = sort (map ms v); n = length xs;
         median = (if n mod 2 = 1 then xs ! (n div 2) else (xs ! (n div 2 - 1) + xs ! (n div 2)) / 2)
     in Inr (xs ! 0, median, xs ! (n - 1)))"

section \<open>One round\<close>

text \<open>The readings around the prover and around the verifier.\<close>

definition run_flow ::
  "('b, 'pk, 'sk, 'sig, 'rng, 'sph, 'agg) check_env \<Rightarrow> ('pk, 'sk, 'sig, 'rng) xmss \<Rightarrow> ('pk, 'sk, 'rng) world \<Rightarrow> nat \<times> nat \<times> nat \<times> nat
    \<Rightarrow> 'pk snark_verifier \<Rightarrow> ('sk \<times> 'pk) list \<Rightarrow> usize list \<Rightarrow> 32 barr list \<Rightarrow> u32 \<Rightarrow> ('pk, snark_status_list \<times> nat \<times> nat) step" where
  "run_flow K X w clock verifier keypairs signers xs version =
     (let c = sv_committee verifier;
          message = message_for (blake2s_256 (k_hashes K)) c WotsXmss xs version in
     seq (lift (expect_some ''slot overflow'' (slot_for c version))) (\<lambda>slot.
     seq (sign_all X w keypairs signers message slot) (\<lambda>raws.
     seq (lift (prove K c WotsXmss raws xs version)) (\<lambda>zk_proof.
     let status_list = snark_new WotsXmss xs version zk_proof in
     seq (lift (assert_that ''a legitimate update failed to verify''
            (snark_verify (k_leanvm K) (blake2s_256 (k_hashes K)) verifier status_list))) (\<lambda>_.
     case clock of (p0, p1, v0, v1) \<Rightarrow> lift (Inr (status_list, p1 - p0, v1 - v0)))))))"

definition make_signed_proof ::
  "('b, 'pk, 'sk, 'sig, 'rng, 'sph, 'agg) check_env \<Rightarrow> ('pk, 'sk, 'sig, 'rng) xmss \<Rightarrow> ('pk, 'sk, 'rng) world \<Rightarrow> 'pk committee
    \<Rightarrow> ('sk \<times> 'pk) list \<Rightarrow> usize list \<Rightarrow> 32 barr list \<Rightarrow> u32 \<Rightarrow> u32 \<Rightarrow> ('pk, bytes) step" where
  "make_signed_proof K X w c keypairs signers xs slot version =
     seq (lift (assert_that ''adversarial fixture must not reuse an XMSS key at one slot'' (adjacent_differ (sort signers)))) (\<lambda>_.
     let message = message_for (blake2s_256 (k_hashes K)) c WotsXmss xs version in
     seq (sign_all X w keypairs signers message slot) (\<lambda>raws.
     lift (prove_at K raws message slot)))"

section \<open>The process\<close>

record flow_state =
  fl_list :: "32 barr list"
  fl_prove :: "nat list"
  fl_verify :: "nat list"
  fl_sizes :: "usize list"

text \<open>The body of the update loop; the progress line names the first and the last signer.\<close>

definition flow_update ::
  "('b, 'pk, 'sk, 'sig, 'rng, 'sph, 'agg) check_env \<Rightarrow> ('pk, 'sk, 'sig, 'rng) xmss \<Rightarrow> ('pk, 'sk, 'rng) world \<Rightarrow> (nat \<Rightarrow> nat \<times> nat \<times> nat \<times> nat)
    \<Rightarrow> build \<Rightarrow> 'pk snark_verifier \<Rightarrow> ('sk \<times> 'pk) list \<Rightarrow> nat \<Rightarrow> flow_state \<Rightarrow> ('pk, flow_state) step" where
  "flow_update K X w clock bld verifier keypairs i st =
     (let xs = fl_list st @ [fst (random_entry (sha3_256 (k_hashes K)) w i)];
          signers = rotating_signers bld i; version = word_of_nat i :: u32 in
     seq (lift (expect_some ''slot overflow'' (slot_for (sv_committee verifier) version))) (\<lambda>_.
     seq (run_flow K X w (clock i) verifier keypairs signers xs version) (\<lambda>(sl, p, v).
     seq (lift (assert_that ''index out of bounds'' (signers \<noteq> []))) (\<lambda>_.
     lift (Inr \<lparr>fl_list = xs, fl_prove = fl_prove st @ [p], fl_verify = fl_verify st @ [v],
                fl_sizes = fl_sizes st @ [length (ss_zk_proof sl)]\<rparr>)))))"

text \<open>What the process reports.\<close>

record flow_report =
  tamper_rejected :: bool
  outsider_rejected :: bool
  version_rejected :: bool
  prove_stats :: "real \<times> real \<times> real"
  verify_stats :: "real \<times> real \<times> real"
  proof_med :: real

definition sec_ok :: "flow_report \<Rightarrow> bool" where
  "sec_ok r \<longleftrightarrow> tamper_rejected r \<and> outsider_rejected r \<and> version_rejected r"

definition security_tests ::
  "('b, 'pk, 'sk, 'sig, 'rng, 'sph, 'agg) check_env \<Rightarrow> ('pk, 'sk, 'sig, 'rng) xmss \<Rightarrow> ('pk, 'sk, 'rng) world
    \<Rightarrow> build \<Rightarrow> 'pk snark_verifier \<Rightarrow> ('sk \<times> 'pk) list \<Rightarrow> 32 barr list \<Rightarrow> ('pk, bool \<times> bool \<times> bool) step" where
  "security_tests K X w bld verifier keypairs xs =
     (let c = sv_committee verifier; quorum = [0..<T bld];
          rejected = (\<lambda>r. \<not> snark_verify (k_leanvm K) (blake2s_256 (k_hashes K)) verifier r);
          honest_version = word_of_nat N_UPDATES :: u32 in
     seq (lift (expect_some ''slot overflow'' (slot_for c honest_version))) (\<lambda>honest_slot.
     seq (make_signed_proof K X w c keypairs quorum xs honest_slot honest_version) (\<lambda>good_proof.
     let tampered = xs @ [hash_any (sha3_256 (k_hashes K)) (as_bytes ''FAKE-REVOCATION'')];
         tamper = rejected (snark_new WotsXmss tampered honest_version good_proof) in
     seq (lift (generate_keys ''outsider keygen'' w (N_MEMBERS bld) (T bld))) (\<lambda>os.
     let out_list = [fst (random_entry (sha3_256 (k_hashes K)) w N_UPDATES)] in
     seq (make_signed_proof K X w c os quorum out_list SLOT 0) (\<lambda>out_proof.
     let outsider = rejected (snark_new WotsXmss out_list 0 out_proof); spoof_version = KEY_SLOTS in
     seq (lift (expect_some ''slot overflow'' (slot_for c spoof_version))) (\<lambda>spoof_slot.
     let signed_version = word_of_nat (N_UPDATES - 1) in
     seq (make_signed_proof K X w c keypairs quorum xs spoof_slot signed_version) (\<lambda>versioned_proof.
     let version = rejected (snark_new WotsXmss xs spoof_version versioned_proof) in
     lift (Inr (tamper, outsider, version)))))))))"

definition root_main ::
  "('b, 'pk, 'sk, 'sig, 'rng, 'sph, 'agg) check_env \<Rightarrow> ('pk, 'sk, 'sig, 'rng) xmss \<Rightarrow> ('pk, 'sk, 'rng) world \<Rightarrow> (nat \<Rightarrow> nat \<times> nat \<times> nat \<times> nat)
    \<Rightarrow> build \<Rightarrow> ('pk, flow_report) step" where
  "root_main K X w clock bld =
     seq (lift (generate_keys ''keygen failed'' w 0 (N_MEMBERS bld))) (\<lambda>keypairs.
     seq (lift (expect ''Committee::new'' (committee_new (sha3_256 (k_hashes K)) (k_anchor K) (map snd keypairs) (T bld) SLOT))) (\<lambda>c.
     let verifier = \<lparr>sv_committee = c, sv_last_version = 0\<rparr> in
     seq (steps (flow_update K X w clock bld verifier keypairs) [0..<N_UPDATES]
            \<lparr>fl_list = [], fl_prove = [], fl_verify = [], fl_sizes = []\<rparr>) (\<lambda>st.
     seq (security_tests K X w bld verifier keypairs (fl_list st)) (\<lambda>(tamper, outsider, version).
     seq (lift (dur_stats (fl_prove st))) (\<lambda>pv.
     seq (lift (dur_stats (fl_verify st))) (\<lambda>vf.
     seq (lift (expect_some ''cannot take the median of no samples'' (median_usize (fl_sizes st)))) (\<lambda>med.
     lift (Inr \<lparr>tamper_rejected = tamper, outsider_rejected = outsider, version_rejected = version,
                prove_stats = pv, verify_stats = vf, proof_med = med\<rparr>))))))))"

section \<open>Signing and aggregating return\<close>

lemma sign_all_returns:
  assumes f: "faultless X w m" and keys: "generate_keys msg w first n = Inr kps" and "\<forall>i \<in> set is. i < n" and "first + n \<le> m + 1"
    and slot: "SLOT \<le> slot" "slot \<le> SLOT + KEY_SLOTS"
  shows "returns (sign_all X w kps is message slot)"
  using assms(3)
proof (induction "is")
  case Nil
  then show ?case by (simp add: returns_def)
next
  case (Cons i "is")
  have i: "key_at kps i = Inr (kps ! i)" "w_key_gen w (first + i) SLOT (SLOT + KEY_SLOTS) = Inr (kps ! i)" "first + i \<le> m"
    using keys Cons.prems assms(4) by (auto simp: generate_keys_from key_at_def)
  have rest: "returns (sign_all X w kps is message slot)" using Cons by simp
  have eq: "sign_all X w kps (i # is) message slot = seq (lift (key_at kps i)) (\<lambda>kp.
      seq (sign_with ''signing failed'' X w kp message slot) (\<lambda>sig.
      seq (sign_all X w kps is message slot) (\<lambda>rest. lift (Inr ((snd kp, sig) # rest)))))" by (simp add: fun_eq_iff)
  show ?case unfolding eq
    by (intro returns_lift_seq [OF i(1)] returns_seq rest returns_lift faultless_sign [OF f i(3,2) slot])
qed

text \<open>What a run rests on: a faultless world whose generated keys differ, and the laws of the libraries.\<close>

definition flow_laws ::
  "('b, 'pk, 'sk, 'sig, 'rng, 'sph, 'agg) check_env \<Rightarrow> ('pk, 'sk, 'sig, 'rng) xmss \<Rightarrow> ('pk, 'sk, 'rng) world \<Rightarrow> build \<Rightarrow> bool" where
  "flow_laws K X w bld \<longleftrightarrow> faultless X w (N_MEMBERS bld + T bld) \<and> keys_differ w (N_MEMBERS bld + T bld) \<and> signs_correctly X w
     \<and> aggregate_complete X (k_leanvm K) \<and> aggregator_total X (k_leanvm K)"

text \<open>A proof over the signatures of a group of distinct keys, in the window of the keys: it exists and claims the group.\<close>

lemma signed_proof_runs:
  assumes laws: "flow_laws K X w bld" and keys: "generate_keys msg w first n = Inr kps" "first + n \<le> N_MEMBERS bld + T bld"
    and idx: "is \<noteq> []" "distinct is" "\<forall>i \<in> set is. i < n" and dist: "distinct (map snd kps)"
    and slot: "SLOT \<le> slot" "slot \<le> SLOT + KEY_SLOTS"
  shows "\<exists>raws j'. sign_all X w kps is message slot j = (Inr raws, j') \<and> map fst raws = map (\<lambda>i. snd (kps ! i)) is
    \<and> (\<exists>p. prove_at K raws message slot = Inr p \<and> claims K p slot message ((\<lambda>i. snd (kps ! i)) ` set is))"
proof -
  have l: "faultless X w (N_MEMBERS bld + T bld)" "signs_correctly X w" "aggregate_complete X (k_leanvm K)" "aggregator_total X (k_leanvm K)"
    using laws by (auto simp: flow_laws_def)
  obtain raws j' where run: "sign_all X w kps is message slot j = (Inr raws, j')"
    using sign_all_returns [OF l(1) keys(1) idx(3) _ slot] keys(2) unfolding returns_def by fastforce
  have ok: "map fst raws = map (\<lambda>i. snd (kps ! i)) is" "\<forall>(pk, sig) \<in> set raws. xmss_verify X pk message sig slot"
    using sign_all_ok [OF l(2) keys(1) run] by blast+
  have len: "length kps = n" using keys(1) by (simp add: generate_keys_from)
  have "distinct (map (\<lambda>i. map snd kps ! i) is)" using idx(2,3) dist len by (intro distinct_nth_keys) auto
  moreover have "map (\<lambda>i. map snd kps ! i) is = map (\<lambda>i. snd (kps ! i)) is" using idx(3) len by simp
  ultimately have d: "distinct (map fst raws)" using ok(1) by (simp only:)
  have ne: "raws \<noteq> []" using ok(1) idx(1) by auto
  obtain p where p: "prove_at K raws message slot = Inr p" using prove_at_total [OF l(4) ne d ok(2)] by blast
  have "claims K p slot message (set (map fst raws))" by (rule prove_at_claims [OF l(3) ne d ok(2) p])
  then have "claims K p slot message ((\<lambda>i. snd (kps ! i)) ` set is)" unfolding ok(1) by simp
  then show ?thesis using run ok(1) p by blast
qed

lemma make_signed_proof_runs:
  assumes "flow_laws K X w bld" "generate_keys msg w first n = Inr kps" "first + n \<le> N_MEMBERS bld + T bld"
    and idx: "is \<noteq> []" "distinct is" "\<forall>i \<in> set is. i < n" "distinct (map snd kps)" "SLOT \<le> slot" "slot \<le> SLOT + KEY_SLOTS"
  shows "\<exists>p j'. make_signed_proof K X w c kps is xs slot v j = (Inr p, j')
    \<and> claims K p slot (message_for (blake2s_256 (k_hashes K)) c WotsXmss xs v) ((\<lambda>i. snd (kps ! i)) ` set is)"
proof -
  let ?m = "message_for (blake2s_256 (k_hashes K)) c WotsXmss xs v"
  obtain raws j' p where r: "sign_all X w kps is ?m slot j = (Inr raws, j')" "prove_at K raws ?m slot = Inr p"
    "claims K p slot ?m ((\<lambda>i. snd (kps ! i)) ` set is)" using signed_proof_runs [OF assms] by blast
  have "adjacent_differ (sort is)" using idx(2) by (simp add: adversarial_guard)
  then have "make_signed_proof K X w c kps is xs slot v j = (Inr p, j')"
    unfolding make_signed_proof_def Let_def using r(1,2) by (auto simp: return_iff)
  then show ?thesis using r(3) by blast
qed

section \<open>The updates\<close>

text \<open>The keys of a quorum of members.\<close>

lemma quorum_keys_of:
  assumes c: "committee_of K X w bld kps c" and idx: "distinct is" "\<forall>i \<in> set is. i < N_MEMBERS bld"
  shows "(\<lambda>i. snd (kps ! i)) ` set is \<subseteq> set (members c)" and "card ((\<lambda>i. snd (kps ! i)) ` set is) = length is"
proof -
  note m = committee_of_members [OF c]
  have eq: "(\<lambda>i. snd (kps ! i)) ` set is = set (map (\<lambda>i. members c ! i) is)" using m(1,2) idx(2) by auto
  have "distinct (map (\<lambda>i. members c ! i) is)" using m(1,2,5) idx by (intro distinct_nth_keys) auto
  then show "card ((\<lambda>i. snd (kps ! i)) ` set is) = length is" unfolding eq by (simp add: distinct_card del: set_map)
  show "(\<lambda>i. snd (kps ! i)) ` set is \<subseteq> set (members c)" unfolding eq using m(1,2) idx(2) by auto
qed

lemma member_keys: "committee_of K X w bld kps c \<Longrightarrow> generate_keys msg w 0 (N_MEMBERS bld) = Inr kps"
  by (simp add: committee_of_def generate_keys_from)

lemma member_range: "0 + N_MEMBERS bld \<le> N_MEMBERS bld + T bld"
  by simp

lemma run_flow_runs:
  assumes laws: "flow_laws K X w bld" and c: "committee_of K X w bld kps c" and T: "1 \<le> T bld" and v: "v \<le> KEY_SLOTS"
    and idx: "distinct is" "\<forall>i \<in> set is. i < N_MEMBERS bld" "length is = T bld"
  shows "\<exists>r j'. run_flow K X w clk \<lparr>sv_committee = c, sv_last_version = 0\<rparr> kps is xs v j = (Inr r, j')"
proof -
  let ?m = "message_for (blake2s_256 (k_hashes K)) c WotsXmss xs v"
  note m = committee_of_members [OF c]
  obtain slot where slot: "slot_for c v = Some slot" "SLOT \<le> slot" "slot \<le> SLOT + KEY_SLOTS" using run_slot [OF m(4) v] by blast
  have ne: "is \<noteq> []" using idx(3) T by auto
  have d: "distinct (map snd kps)" using m(1,5) by simp
  obtain raws j' p where r: "sign_all X w kps is ?m slot j = (Inr raws, j')" "prove_at K raws ?m slot = Inr p"
    "claims K p slot ?m ((\<lambda>i. snd (kps ! i)) ` set is)"
    using signed_proof_runs [OF laws member_keys [OF c] member_range ne idx(1,2) d slot(2,3)] by blast
  have "failed_checks K c (snark_new WotsXmss xs v p) = Some []"
    using claims_failed [OF r(3)] quorum_keys_of [OF c idx(1,2)] slot(1) idx(3) m(3) by simp
  then have ok: "snark_verify (k_leanvm K) (blake2s_256 (k_hashes K)) \<lparr>sv_committee = c, sv_last_version = 0\<rparr> (snark_new WotsXmss xs v p)"
    by (simp add: failed_checks_none_fail)
  obtain p0 p1 v0 v1 where clk: "clk = (p0, p1, v0, v1)" by (metis prod.exhaust)
  have "run_flow K X w clk \<lparr>sv_committee = c, sv_last_version = 0\<rparr> kps is xs v j = (Inr (snark_new WotsXmss xs v p, p1 - p0, v1 - v0), j')"
    unfolding run_flow_def Let_def using r(1,2) ok slot(1) by (auto simp: return_iff clk prove_is_prove_at [OF slot(1)])
  then show ?thesis by blast
qed

text \<open>The list of the first \<open>n\<close> updates.\<close>

definition flow_list :: "('b, 'pk, 'sk, 'sig, 'rng, 'sph, 'agg) check_env \<Rightarrow> ('pk, 'sk, 'rng) world \<Rightarrow> nat \<Rightarrow> 32 barr list" where
  "flow_list K w n = map (\<lambda>i. fst (random_entry (sha3_256 (k_hashes K)) w i)) [0..<n]"

lemma flow_update_runs:
  assumes laws: "flow_laws K X w bld" and c: "committee_of K X w bld kps c" and T: "1 \<le> T bld" "T bld \<le> N_MEMBERS bld" and i: "i < N_UPDATES"
  shows "\<exists>st' j'. flow_update K X w clock bld \<lparr>sv_committee = c, sv_last_version = 0\<rparr> kps i st j = (Inr st', j')
    \<and> fl_list st' = fl_list st @ [fst (random_entry (sha3_256 (k_hashes K)) w i)]
    \<and> length (fl_prove st') = length (fl_prove st) + 1 \<and> length (fl_verify st') = length (fl_verify st) + 1 \<and> length (fl_sizes st') = length (fl_sizes st) + 1"
proof -
  have v: "(word_of_nat i :: u32) \<le> KEY_SLOTS" using i by (simp add: word_le_nat_alt unat_of_nat KEY_SLOTS_def N_UPDATES_def)
  obtain slot where slot: "slot_for c (word_of_nat i) = Some slot" using run_slot [OF committee_of_members(4) [OF c] v] by blast
  note q = rotating_signers_distinct [OF T(2)]
  have idx: "\<forall>k \<in> set (rotating_signers bld i). k < N_MEMBERS bld" using q(3) T by simp
  have ne: "rotating_signers bld i \<noteq> []" using q(2) [of i] T(1) by auto
  obtain r p t j' where "run_flow K X w (clock i) \<lparr>sv_committee = c, sv_last_version = 0\<rparr> kps (rotating_signers bld i)
      (fl_list st @ [fst (random_entry (sha3_256 (k_hashes K)) w i)]) (word_of_nat i) j = (Inr (r, p, t), j')"
    using run_flow_runs [OF laws c T(1) v q(1) idx q(2)] by (metis prod.exhaust)
  then show ?thesis unfolding flow_update_def Let_def using slot ne by (simp add: seq_def lift_def expect_some_def assert_that_def)
qed

lemma flow_updates_run:
  assumes "flow_laws K X w bld" "committee_of K X w bld kps c" "1 \<le> T bld" "T bld \<le> N_MEMBERS bld" and "n \<le> N_UPDATES"
  shows "\<exists>st j'. steps (flow_update K X w clock bld \<lparr>sv_committee = c, sv_last_version = 0\<rparr> kps) [0..<n]
      \<lparr>fl_list = [], fl_prove = [], fl_verify = [], fl_sizes = []\<rparr> j = (Inr st, j')
    \<and> fl_list st = flow_list K w n \<and> length (fl_prove st) = n \<and> length (fl_verify st) = n \<and> length (fl_sizes st) = n"
  using assms(5)
proof (induction n)
  case (Suc n)
  obtain st j1 where ih: "steps (flow_update K X w clock bld \<lparr>sv_committee = c, sv_last_version = 0\<rparr> kps) [0..<n]
      \<lparr>fl_list = [], fl_prove = [], fl_verify = [], fl_sizes = []\<rparr> j = (Inr st, j1)"
    "fl_list st = flow_list K w n" "length (fl_prove st) = n" "length (fl_verify st) = n" "length (fl_sizes st) = n" using Suc.IH Suc.prems by auto
  show ?case using flow_update_runs [OF assms(1-4), of n clock st j1] ih Suc.prems by (auto simp: steps_snoc flow_list_def)
qed (simp add: flow_list_def)

section \<open>The forgeries\<close>

lemma security_tests_run:
  assumes laws: "flow_laws K X w bld" and c: "committee_of K X w bld kps c" and T: "1 \<le> T bld" "T bld \<le> N_MEMBERS bld"
  shows "\<exists>tamper outsider version j'. security_tests K X w bld \<lparr>sv_committee = c, sv_last_version = 0\<rparr> kps xs j = (Inr (tamper, outsider, version), j')
    \<and> outsider
    \<and> (tamper \<or> statements_collide K c WotsXmss (xs @ [fake_revocation (sha3_256 (k_hashes K))]) (word_of_nat N_UPDATES) xs (word_of_nat N_UPDATES))
    \<and> (version \<or> statements_collide K c WotsXmss xs KEY_SLOTS xs (word_of_nat (N_UPDATES - 1)))"
proof -
  let ?v = "word_of_nat N_UPDATES :: u32" and ?signed = "word_of_nat (N_UPDATES - 1) :: u32" and ?q = "[0..<T bld]"
  let ?out = "[fst (random_entry (sha3_256 (k_hashes K)) w N_UPDATES)]"
  let ?m = "message_for (blake2s_256 (k_hashes K)) c WotsXmss"
  note m = committee_of_members [OF c]
  have "?v \<le> KEY_SLOTS" by (simp add: N_UPDATES_def KEY_SLOTS_def)
  then obtain slot where slot: "slot_for c ?v = Some slot" "SLOT \<le> slot" "slot \<le> SLOT + KEY_SLOTS" using run_slot [OF m(4)] by blast
  obtain spoof where spoof: "slot_for c KEY_SLOTS = Some spoof" "SLOT \<le> spoof" "spoof \<le> SLOT + KEY_SLOTS" using run_slot [OF m(4) order_refl] by blast
  have q: "?q \<noteq> []" "distinct ?q" "\<forall>i \<in> set ?q. i < N_MEMBERS bld" "\<forall>i \<in> set ?q. i < T bld" using T by auto
  have d: "distinct (map snd kps)" using m(1,5) by simp
  have window: "SLOT \<le> SLOT" "SLOT \<le> SLOT + KEY_SLOTS" by (simp_all add: SLOT_def KEY_SLOTS_def)
  note signed = make_signed_proof_runs [OF laws member_keys [OF c] member_range q(1-3) d] and keys = quorum_keys_of [OF c q(2,3)]
  obtain p j1 where p: "make_signed_proof K X w c kps ?q xs slot ?v j = (Inr p, j1)" "claims K p slot (?m xs ?v) ((\<lambda>i. snd (kps ! i)) ` set ?q)"
    using signed [OF slot(2,3)] by blast
  have l: "faultless X w (N_MEMBERS bld + T bld)" "keys_differ w (N_MEMBERS bld + T bld)" using laws by (auto simp: flow_laws_def)
  obtain os where os: "generate_keys ''outsider keygen'' w (N_MEMBERS bld) (T bld) = Inr os"
    using generate_keys_return [OF l(1), of "N_MEMBERS bld" "T bld"] by auto
  note od = outsider_keys [OF l(2) member_keys [OF c, unfolded generate_keys_from add_0] os, folded m(1)]
  obtain po j2 where po: "make_signed_proof K X w c os ?q ?out SLOT 0 j1 = (Inr po, j2)" "claims K po SLOT (?m ?out 0) ((\<lambda>i. snd (os ! i)) ` set ?q)"
    using make_signed_proof_runs [OF laws os order_refl q(1,2,4) od(1) window] by blast
  obtain pv j3 where pv: "make_signed_proof K X w c kps ?q xs spoof ?signed j2 = (Inr pv, j3)" "claims K pv spoof (?m xs ?signed) ((\<lambda>i. snd (kps ! i)) ` set ?q)"
    using signed [OF spoof(2,3)] by blast
  have tamper: "failed_checks K c (snark_new WotsXmss (xs @ [fake_revocation (sha3_256 (k_hashes K))]) ?v p) \<noteq> Some []
      \<or> statements_collide K c WotsXmss (xs @ [fake_revocation (sha3_256 (k_hashes K))]) ?v xs ?v"
    using claims_failed [OF p(2)] messages_differ [of K c WotsXmss "xs @ [fake_revocation (sha3_256 (k_hashes K))]" ?v xs ?v] by auto
  have "snd (os ! 0) \<in> set (map snd os)" using os T(1) by (auto simp: generate_keys_from)
  moreover have "snd (os ! 0) \<in> (\<lambda>i. snd (os ! i)) ` set ?q" using T(1) by (intro imageI) simp
  ultimately have "\<not> (\<lambda>i. snd (os ! i)) ` set ?q \<subseteq> set (members c)" using od(2) by blast
  then have outsider: "failed_checks K c (snark_new WotsXmss ?out 0 po) \<noteq> Some []" using claims_failed [OF po(2)] by auto
  have "KEY_SLOTS \<noteq> ?signed" by (simp add: KEY_SLOTS_def N_UPDATES_def)
  then have version: "failed_checks K c (snark_new WotsXmss xs KEY_SLOTS pv) \<noteq> Some []
      \<or> statements_collide K c WotsXmss xs KEY_SLOTS xs ?signed"
    using claims_failed [OF pv(2)] messages_differ [of K c WotsXmss xs KEY_SLOTS xs ?signed] by auto
  have run: "\<exists>tamper outsider version j'. security_tests K X w bld \<lparr>sv_committee = c, sv_last_version = 0\<rparr> kps xs j = (Inr (tamper, outsider, version), j')
      \<and> tamper = (failed_checks K c (snark_new WotsXmss (xs @ [fake_revocation (sha3_256 (k_hashes K))]) ?v p) \<noteq> Some [])
      \<and> outsider = (failed_checks K c (snark_new WotsXmss ?out 0 po) \<noteq> Some []) \<and> version = (failed_checks K c (snark_new WotsXmss xs KEY_SLOTS pv) \<noteq> Some [])"
    unfolding security_tests_def Let_def fake_revocation_def failed_checks_none_fail snark_verifier.simps
    using p(1) po(1) pv(1) os slot(1) spoof(1) by (simp add: seq_def lift_def expect_some_def)
  then show ?thesis using tamper outsider version by blast
qed

section \<open>Property\<close>

lemma dur_stats_return: "v \<noteq> [] \<Longrightarrow> \<exists>s. dur_stats v = Inr s"
  by (simp add: dur_stats_def and_then_def assert_that_def Let_def)

lemma median_return: "v \<noteq> [] \<Longrightarrow> \<exists>m. median_usize v = Some m"
  by (simp add: median_usize_def Let_def)

text \<open>
  C18. The demonstration shows what it promises: for every build the committee type supports, in a
  world without faults whose keys differ, it returns, having signed, aggregated and verified every
  update. It reports the outsider rejected; the tampered list rejected, unless that list and the one
  its own updates built hash alike as statements of the version after the last; and the relabelled
  version rejected, unless the relabelled statement and the one signed for the last version hash
  alike. Both exceptions are about the committee of this run and the list of this run.
\<close>

theorem demonstration_rejects_every_forgery:
  assumes "flow_laws K X w bld" and "inj (as_ssz_bytes (key_ssz (k_anchor K)))" and "N_MEMBERS bld \<le> MAX_COMMITTEE_SIZE"
    and "build_params env_n env_t = Inr bld" and "xs = flow_list K w N_UPDATES"
  shows "\<exists>kps c rep j'. generate_keys ''keygen failed'' w 0 (N_MEMBERS bld) = Inr kps
    \<and> committee_new (sha3_256 (k_hashes K)) (k_anchor K) (map snd kps) (T bld) SLOT = Inr c
    \<and> root_main K X w clock bld j = (Inr rep, j') \<and> outsider_rejected rep
    \<and> (tamper_rejected rep \<or> statements_collide K c WotsXmss (xs @ [fake_revocation (sha3_256 (k_hashes K))]) (word_of_nat N_UPDATES) xs (word_of_nat N_UPDATES))
    \<and> (version_rejected rep \<or> statements_collide K c WotsXmss xs KEY_SLOTS xs (word_of_nat (N_UPDATES - 1)))"
proof -
  have T: "1 \<le> T bld" "T bld \<le> N_MEMBERS bld" using build_params_satisfiable [OF assms(4)] by auto
  have l: "faultless X w (N_MEMBERS bld)" "keys_differ w (N_MEMBERS bld)" "signs_correctly X w"
    using assms(1) by (auto simp: flow_laws_def faultless_def keys_differ_def)
  obtain kps c where c: "committee_new (sha3_256 (k_hashes K)) (k_anchor K) (map snd kps) (T bld) SLOT = Inr c" "committee_of K X w bld kps c"
    using generated_committee [OF l assms(2,3) T] by blast
  note kps = member_keys [OF c(2), of "''keygen failed''"]
  obtain st j1 where st: "steps (flow_update K X w clock bld \<lparr>sv_committee = c, sv_last_version = 0\<rparr> kps) [0..<N_UPDATES]
      \<lparr>fl_list = [], fl_prove = [], fl_verify = [], fl_sizes = []\<rparr> j = (Inr st, j1)"
    "length (fl_prove st) = N_UPDATES" "length (fl_verify st) = N_UPDATES" "length (fl_sizes st) = N_UPDATES" "fl_list st = xs"
    using flow_updates_run [OF assms(1) c(2) T order_refl] unfolding assms(5) by blast
  obtain ta ou ve j2 where sec: "security_tests K X w bld \<lparr>sv_committee = c, sv_last_version = 0\<rparr> kps (fl_list st) j1 = (Inr (ta, ou, ve), j2)" "ou"
    "ta \<or> statements_collide K c WotsXmss (xs @ [fake_revocation (sha3_256 (k_hashes K))]) (word_of_nat N_UPDATES) xs (word_of_nat N_UPDATES)"
    "ve \<or> statements_collide K c WotsXmss xs KEY_SLOTS xs (word_of_nat (N_UPDATES - 1))" unfolding st(5) using security_tests_run [OF assms(1) c(2) T] by blast
  have ne: "fl_prove st \<noteq> []" "fl_verify st \<noteq> []" "fl_sizes st \<noteq> []" using st(2-4) by (auto simp: N_UPDATES_def)
  obtain pv vf med where stats: "dur_stats (fl_prove st) = Inr pv" "dur_stats (fl_verify st) = Inr vf" "median_usize (fl_sizes st) = Some med"
    using dur_stats_return [OF ne(1)] dur_stats_return [OF ne(2)] median_return [OF ne(3)] by blast
  have "root_main K X w clock bld j = (Inr \<lparr>tamper_rejected = ta, outsider_rejected = ou, version_rejected = ve,
      prove_stats = pv, verify_stats = vf, proof_med = med\<rparr>, j2)"
    unfolding root_main_def Let_def using kps c(1) st(1) sec(1) stats by (simp add: seq_def lift_def expect_def expect_some_def)
  then show ?thesis using kps c(1) sec(2-4)
    by (intro exI [of _ kps] exI [of _ c] exI [of _ "\<lparr>tamper_rejected = ta, outsider_rejected = ou, version_rejected = ve,
      prove_stats = pv, verify_stats = vf, proof_med = med\<rparr>"] exI [of _ j2]) simp
qed

text \<open>A hash that keeps the length and the version of a statement, so that no two statements of the run collide.\<close>

definition version_hash :: "bytes \<Rightarrow> 32 barr" where
  "version_hash bs = mk_barr (u64_to_le (word_of_nat (length bs)) @ region (length MESSAGE_CONTEXT + 32) 4 bs @ replicate 20 0)"

definition flow_env where
  "flow_env = pipeline_env\<lparr>k_hashes := \<lparr>sha3_256 = fold_hash, blake2s_256 = version_hash\<rparr>\<rparr>"

lemma version_hash_statement:
  "bytes_of (version_hash (message_preimage d xs v))
     = u64_to_le (word_of_nat (length MESSAGE_CONTEXT + 44 + 32 * length xs)) @ u32_to_le v @ replicate 20 0"
proof -
  have "length (message_preimage d xs v) = length MESSAGE_CONTEXT + 44 + 32 * length xs"
    by (simp add: message_preimage_def length_concat_arrays)
  moreover have "region (length MESSAGE_CONTEXT + 32) 4 (message_preimage d xs v) = u32_to_le v"
    by (simp add: message_preimage_def region_def)
  ultimately show ?thesis by (simp add: version_hash_def)
qed

lemma flow_env_separates:
  "\<not> statements_collide flow_env c alg (flow_list flow_env w N_UPDATES @ [e]) v (flow_list flow_env w N_UPDATES) v"
  "\<not> statements_collide flow_env c alg xs KEY_SLOTS xs (word_of_nat (N_UPDATES - 1))"
proof -
  have h: "blake2s_256 (k_hashes flow_env) = version_hash" by (simp add: flow_env_def)
  have eq: "bytes_of a = bytes_of b" if "a = b" for a b :: "32 barr" using that by simp
  have lengths: "le_nat 8 763 \<noteq> le_nat 8 731" "le_nat 4 64 \<noteq> le_nat 4 19"
    using le_nat_inj [of 763 8 731] le_nat_inj [of 64 4 19] by auto
  show "\<not> statements_collide flow_env c alg (flow_list flow_env w N_UPDATES @ [e]) v (flow_list flow_env w N_UPDATES) v"
    unfolding statements_collide_def collides_def h
    by (auto dest!: eq simp: version_hash_statement flow_list_def N_UPDATES_def MESSAGE_CONTEXT_def as_bytes_def u64_to_le_def lengths)
  show "\<not> statements_collide flow_env c alg xs KEY_SLOTS xs (word_of_nat (N_UPDATES - 1))"
    unfolding statements_collide_def collides_def h
    by (auto dest!: eq simp: version_hash_statement N_UPDATES_def KEY_SLOTS_def u32_to_le_def lengths)
qed

theorem demonstration_rejects_every_forgery_witness:
  "flow_laws flow_env plain_xmss numbered_world \<lparr>N_MEMBERS = 200, T = 128\<rparr>
   \<and> (\<exists>rep j'. root_main flow_env plain_xmss numbered_world (\<lambda>_. (0, 5, 6, 8)) \<lparr>N_MEMBERS = 200, T = 128\<rparr> \<lparr>j_files = [], j_uses = []\<rparr> = (Inr rep, j')
        \<and> sec_ok rep)"
proof -
  have K: "k_leanvm flow_env = plain_leanvm" "k_anchor flow_env = k_anchor pipeline_env" by (simp_all add: flow_env_def pipeline_env_laws(5))
  have laws: "flow_laws flow_env plain_xmss numbered_world \<lparr>N_MEMBERS = 200, T = 128\<rparr>"
    using numbered_world_keys(2) numbered_world_laws plain_aggregate_complete plain_aggregator_total by (simp add: flow_laws_def K(1))
  have inj: "inj (as_ssz_bytes (key_ssz (k_anchor flow_env)))" using pipeline_env_laws(2) by (simp add: K(2))
  have size: "N_MEMBERS \<lparr>N_MEMBERS = 200, T = 128\<rparr> \<le> MAX_COMMITTEE_SIZE" by (simp add: MAX_COMMITTEE_SIZE_def)
  show ?thesis
    using demonstration_rejects_every_forgery [OF laws inj size build_params_default refl, of "\<lambda>_. (0, 5, 6, 8)" "\<lparr>j_files = [], j_uses = []\<rparr>"]
      laws by (auto simp: sec_ok_def flow_env_separates simp del: One_nat_def)
qed

end
