(* ===== verification/Crew.thy ===== *)
theory Crew
  imports Root_Main Signer_Node
begin

text \<open>
  Processes that hold members: nodes with durable slot counters in a file system. What the two
  signing binaries share (src/bin/signer.rs, src/bin/raw_agg.rs): enlisting a member with a fresh
  key and counter, signing at a slot, and the removal of the state afterwards.

  A call of a node uses the fault and the randomness of its position in the sequence of calls. The
  lemmas show that whatever fails, no key is used twice at one slot, by one node or by two, and that a member
  signs at every slot at or above its frontier when nothing fails.
\<close>

section \<open>State\<close>

record ('pk, 'sk) crew =
  cr_nodes :: "('pk, 'sk) signer_node list"
  cr_fs :: fs
  cr_calls :: nat

text \<open>Faults by position: of the counter of a member, of a reservation, and of a removal.\<close>

record crew_faults =
  cf_dir :: bool
  cf_lock :: "nat \<Rightarrow> lock_fault"
  cf_meta :: "nat \<Rightarrow> read_fault"
  cf_install :: "nat \<Rightarrow> replace_fault"
  cf_persist :: "nat \<Rightarrow> persist_fault"
  cf_kept :: "path \<Rightarrow> bool"

section \<open>Operations\<close>

text \<open>A new key, its counter and its node; the value is the public key.\<close>

definition enlist ::
  "('b, 'pk, 'sk, 'sig, 'rng, 'sph, 'agg) check_env \<Rightarrow> ('pk, 'sk, 'rng) world \<Rightarrow> crew_faults \<Rightarrow> string \<Rightarrow> path \<Rightarrow> nat
    \<Rightarrow> (('pk, 'sk) crew, 'pk) process" where
  "enlist K w cf msg p i =
     seq (lift (expect msg (w_key_gen w i SLOT (SLOT + KEY_SLOTS)))) (\<lambda>kp s.
     case counter_create (sha3_256 (k_hashes K)) (key_ssz (k_anchor K)) (cf_lock cf i) (cf_meta cf i) (cf_install cf i) p (snd kp) SLOT (SLOT + KEY_SLOTS) (cr_fs s) of
       (Inl e, f) \<Rightarrow> (Inl (Panic ''slot state''), s\<lparr>cr_fs := f\<rparr>)
     | (Inr c, f) \<Rightarrow> (Inr (snd kp), s\<lparr>cr_fs := f, cr_nodes := cr_nodes s @ [signer_node_new (snd kp) (fst kp) c]\<rparr>))"

text \<open>\<open>signers[k].sign_at\<close>, plain and timed.\<close>

definition crew_sign ::
  "('b, 'pk, 'sk, 'sig, 'rng, 'sph, 'agg) check_env \<Rightarrow> ('pk, 'sk, 'sig, 'rng) xmss \<Rightarrow> ('pk, 'sk, 'rng) world \<Rightarrow> crew_faults
    \<Rightarrow> usize \<Rightarrow> 32 barr \<Rightarrow> u32 \<Rightarrow> (('pk, 'sk) crew, 'sig) process" where
  "crew_sign K X w cf k message slot s =
     (if k < length (cr_nodes s) then
        case sign_at (sha3_256 (k_hashes K)) X (cf_persist cf (cr_calls s)) (w_tape w (cr_calls s)) message slot (cr_nodes s ! k) (cr_fs s) of
          (r, n', f) \<Rightarrow> (expect ''signing failed'' r, s\<lparr>cr_nodes := (cr_nodes s)[k := n'], cr_fs := f, cr_calls := cr_calls s + 1\<rparr>)
      else (Inl (Panic ''index out of bounds''), s))"

definition crew_sign_timed ::
  "('b, 'pk, 'sk, 'sig, 'rng, 'sph, 'agg) check_env \<Rightarrow> ('pk, 'sk, 'sig, 'rng) xmss \<Rightarrow> ('pk, 'sk, 'rng) world \<Rightarrow> crew_faults
    \<Rightarrow> nat \<times> nat \<times> nat \<times> nat \<Rightarrow> usize \<Rightarrow> 32 barr \<Rightarrow> u32 \<Rightarrow> (('pk, 'sk) crew, 'sig \<times> sign_at_timings) process" where
  "crew_sign_timed K X w cf clock k message slot s =
     (if k < length (cr_nodes s) then
        case sign_at_timed (sha3_256 (k_hashes K)) X (cf_persist cf (cr_calls s)) (w_tape w (cr_calls s)) clock message slot (cr_nodes s ! k) (cr_fs s) of
          (r, n', f) \<Rightarrow> (expect ''signing failed'' r, s\<lparr>cr_nodes := (cr_nodes s)[k := n'], cr_fs := f, cr_calls := cr_calls s + 1\<rparr>)
      else (Inl (Panic ''index out of bounds''), s))"

definition public_key :: "usize \<Rightarrow> (('pk, 'sk) crew, 'pk) process" where
  "public_key k s = (if k < length (cr_nodes s) then (Inr (n_pk (cr_nodes s ! k)), s) else (Inl (Panic ''index out of bounds''), s))"

text \<open>Removing files whose removal may fail, the error ignored; a removal is not made durable.\<close>

definition remove_where :: "crew_faults \<Rightarrow> (path \<Rightarrow> bool) \<Rightarrow> (('pk, 'sk) crew, unit) process" where
  "remove_where cf which s =
     (Inr (), s\<lparr>cr_fs := (cr_fs s)\<lparr>files := \<lambda>p. if which p \<and> \<not> cf_kept cf p then None else files (cr_fs s) p\<rparr>\<rparr>)"

text \<open>Dropping the nodes releases their locks; their record of key uses stays as a ghost.\<close>

definition drop_nodes :: "(('pk, 'sk) crew, unit) process" where
  "drop_nodes s = (Inr (), s\<lparr>cr_fs := fold (\<lambda>n. counter_drop (n_counter n)) (cr_nodes s) (cr_fs s)\<rparr>)"

section \<open>No key is used twice at one slot\<close>

text \<open>An invariant of a process, whatever it ends with.\<close>

definition keeps :: "('s \<Rightarrow> bool) \<Rightarrow> ('s, 'a) process \<Rightarrow> bool" where
  "keeps P m \<longleftrightarrow> (\<forall>s. P s \<longrightarrow> P (snd (m s)))"

named_theorems keeps_intros "which steps keep an invariant"

lemma keeps_lift [keeps_intros]: "keeps P (lift r)"
  by (simp add: keeps_def lift_def)

lemma keeps_seq [keeps_intros]:
  assumes "keeps P m" and "\<And>a. keeps P (f a)"
  shows "keeps P (seq m f)"
  using assms unfolding keeps_def seq_def by (fastforce split: prod.splits sum.splits)

lemma keeps_steps [keeps_intros]: "(\<And>x a. keeps P (f x a)) \<Longrightarrow> keeps P (steps f xs a)"
proof (induction xs arbitrary: a)
  case (Cons x xs)
  have "steps f (x # xs) a = seq (f x a) (\<lambda>b. steps f xs b)" by (simp add: fun_eq_iff)
  then show ?case using Cons by (simp add: keeps_seq)
qed (simp add: keeps_def)

text \<open>
  A crew of \<open>n\<close> nodes: node \<open>k\<close> holds the key generated from index \<open>k\<close>, and has used it at increasing slots
  below its frontier.
\<close>

definition crew_at :: "('pk, 'sk, 'rng) world \<Rightarrow> nat \<Rightarrow> ('pk, 'sk) crew \<Rightarrow> bool" where
  "crew_at w n s \<longleftrightarrow> length (cr_nodes s) = n
     \<and> (\<forall>k < n. uses_ok (cr_nodes s ! k) \<and> (\<exists>sk. w_key_gen w k SLOT (SLOT + KEY_SLOTS) = Inr (sk, n_pk (cr_nodes s ! k))))"

text \<open>Every use of a key in the crew, as the key with the slot.\<close>

definition key_slots :: "('pk, 'sk) crew \<Rightarrow> ('pk \<times> u32) list" where
  "key_slots s = concat (map (\<lambda>n. map (\<lambda>u. (n_pk n, fst u)) (n_uses n)) (cr_nodes s))"

lemma crew_at_key_slots:
  assumes at: "crew_at w n s" and differ: "keys_differ w m" and "n \<le> m + 1"
  shows "distinct (key_slots s)"
proof -
  let ?f = "\<lambda>n. map (\<lambda>u. (n_pk n, fst u)) (n_uses n)"
  have each: "distinct (?f n)" if "uses_ok n" for n :: "('a, 'b) signer_node"
  proof -
    have "distinct (map (\<lambda>u. unat (fst u)) (n_uses n))" using that by (simp add: uses_ok_def strict_sorted_iff)
    then show ?thesis by (simp add: distinct_map inj_on_def)
  qed
  have apart: "i = k" if ik: "i < n" "k < n" and eq: "n_pk (cr_nodes s ! i) = n_pk (cr_nodes s ! k)" for i k
  proof -
    obtain a b where "w_key_gen w i SLOT (SLOT + KEY_SLOTS) = Inr (a, n_pk (cr_nodes s ! i))"
      "w_key_gen w k SLOT (SLOT + KEY_SLOTS) = Inr (b, n_pk (cr_nodes s ! k))" using at ik unfolding crew_at_def by blast
    then show ?thesis using differ [unfolded keys_differ_def, rule_format, of i k] ik eq assms(3) by simp
  qed
  have len: "length (cr_nodes s) = n" using at by (simp add: crew_at_def)
  have "distinct (concat (map (\<lambda>k. ?f (cr_nodes s ! k)) [0..<m']))" if "m' \<le> n" for m'
    using that
  proof (induction m')
    case (Suc m')
    have "n_pk (cr_nodes s ! m') \<noteq> n_pk (cr_nodes s ! k)" if "k < m'" for k using apart [of m' k] Suc.prems that by auto
    then have "x \<notin> set (concat (map (\<lambda>k. ?f (cr_nodes s ! k)) [0..<m']))" if "x \<in> set (?f (cr_nodes s ! m'))" for x
      using that by (cases x) force
    then have "set (?f (cr_nodes s ! m')) \<inter> set (concat (map (\<lambda>k. ?f (cr_nodes s ! k)) [0..<m'])) = {}" by blast
    moreover have "distinct (?f (cr_nodes s ! m'))" using at Suc.prems by (intro each) (simp add: crew_at_def)
    ultimately show ?case using Suc by (simp add: Int_commute)
  qed simp
  moreover have "map ?f (cr_nodes s) = map (\<lambda>k. ?f (cr_nodes s ! k)) [0..<n]"
    using len by (intro nth_equalityI) simp_all
  ultimately show ?thesis unfolding key_slots_def by simp
qed

lemma crew_at_update:
  assumes "crew_at w n s" and "uses_ok n'" and "n_pk n' = n_pk (cr_nodes s ! k)"
  shows "crew_at w n (s\<lparr>cr_nodes := (cr_nodes s)[k := n'], cr_fs := f, cr_calls := m\<rparr>)"
  using assms by (cases "k < length (cr_nodes s)") (auto simp: crew_at_def nth_list_update)

text \<open>
  A step that takes a crew of \<open>n\<close> nodes to one of \<open>n'\<close>; where a panic ends it, the crew has some number
  of nodes in between.
\<close>

definition grows :: "('pk, 'sk, 'rng) world \<Rightarrow> nat \<Rightarrow> (('pk, 'sk) crew, 'a) process \<Rightarrow> nat \<Rightarrow> bool" where
  "grows w n m n' \<longleftrightarrow> (\<forall>s. crew_at w n s \<longrightarrow> (\<exists>k \<le> n'. crew_at w k (snd (m s))) \<and> (\<forall>a. fst (m s) = Inr a \<longrightarrow> crew_at w n' (snd (m s))))"

named_theorems grows_intros "how steps change the number of nodes"

lemma grows_keeps [grows_intros]: "keeps (crew_at w n) m \<Longrightarrow> grows w n m n"
  by (auto simp: grows_def keeps_def)

lemma grows_seq:
  assumes "grows w n m k" and "\<And>a. grows w k (f a) n'" and "k \<le> n'"
  shows "grows w n (seq m f) n'"
  unfolding grows_def
proof (intro allI impI)
  fix s
  assume at: "crew_at w n s"
  obtain r s' where m: "m s = (r, s')" by force
  show "(\<exists>k \<le> n'. crew_at w k (snd (seq m f s))) \<and> (\<forall>a. fst (seq m f s) = Inr a \<longrightarrow> crew_at w n' (snd (seq m f s)))"
  proof (cases r)
    case (Inl e)
    then show ?thesis using assms(1,3) at m unfolding grows_def seq_def by (fastforce intro: order_trans)
  next
    case (Inr a)
    then have "crew_at w k s'" using assms(1) at m unfolding grows_def by fastforce
    then show ?thesis using assms(2) [of a] Inr m unfolding grows_def seq_def by simp
  qed
qed

lemma grows_seq_keeps [grows_intros]:
  "keeps (crew_at w n) m \<Longrightarrow> (\<And>a. grows w n (f a) n') \<Longrightarrow> n \<le> n' \<Longrightarrow> grows w n (seq m f) n'"
  by (rule grows_seq [OF grows_keeps])

lemma grows_steps:
  assumes "\<And>i a. grows w i (f i a) (i + 1)"
  shows "grows w 0 (steps f [0..<n] a) n"
proof (induction n)
  case (Suc n)
  have "steps f [0..<Suc n] a = seq (steps f [0..<n] a) (\<lambda>b. f n b)"
    by (auto simp: fun_eq_iff steps_append seq_def split: prod.splits sum.splits)
  then show ?case using grows_seq [OF Suc assms [of n]] by simp
qed (simp add: grows_def)

lemma grown_key_slots:
  assumes "grows w 0 m n" and "keys_differ w m'" and "n \<le> m' + 1"
  shows "distinct (key_slots (snd (m \<lparr>cr_nodes = [], cr_fs = disk, cr_calls = 0\<rparr>)))"
proof -
  have "crew_at w 0 \<lparr>cr_nodes = [], cr_fs = disk, cr_calls = 0\<rparr>" by (simp add: crew_at_def)
  then obtain k where "k \<le> n" "crew_at w k (snd (m \<lparr>cr_nodes = [], cr_fs = disk, cr_calls = 0\<rparr>))"
    using assms(1) unfolding grows_def by blast
  then show ?thesis using crew_at_key_slots [OF _ assms(2)] assms(3) by (meson order_trans)
qed

lemma sign_at_is_step: "sign_at sha3 X f rng msg slot n s = sign_step sha3 X (SignAt f rng msg slot) (n, s)"
  by (simp add: sign_step_def)

lemma sign_step_key: "n_pk (fst (snd (sign_step sha3 X op (n, s)))) = n_pk n"
proof -
  obtain r c' s' where "slot_step sha3 (reservation op) (n_counter n, s) = (r, c', s')" by (metis prod.exhaust)
  from sign_step_reserves(1) [OF this, of X] show ?thesis by (cases r) simp_all
qed

lemma crew_sign_keeps [keeps_intros]: "keeps (crew_at w n) (crew_sign K X w' cf k message slot)"
  unfolding keeps_def
proof (intro allI impI)
  fix s
  assume at: "crew_at w n s"
  show "crew_at w n (snd (crew_sign K X w' cf k message slot s))"
  proof (cases "k < length (cr_nodes s)")
    case True
    let ?op = "SignAt (cf_persist cf (cr_calls s)) (w_tape w' (cr_calls s)) message slot"
    have "uses_ok (cr_nodes s ! k)" using at True by (simp add: crew_at_def)
    note step = uses_ok_step [OF this, of "sha3_256 (k_hashes K)" X ?op "cr_fs s"]
    show ?thesis using True crew_at_update [OF at step sign_step_key]
      by (simp add: crew_sign_def sign_at_is_step case_prod_unfold)
  qed (simp add: crew_sign_def at)
qed

text \<open>The timed call is the plain call with the phases added.\<close>

definition phases_of :: "nat \<times> nat \<times> nat \<times> nat \<Rightarrow> sign_at_timings" where
  "phases_of clock = (case clock of (t0, t1, t2, t3) \<Rightarrow> \<lparr>t_reserve = t1 - t0, t_crypto = t3 - t2\<rparr>)"

lemma expect_map_sum: "expect m (map_sum id f r) = map_sum id f (expect m r)"
  by (cases r) (simp_all add: expect_def)

lemma crew_sign_timed_is_sign:
  "crew_sign_timed K X w cf clock k message slot s =
     (map_sum id (\<lambda>sig. (sig, phases_of clock)) (fst (crew_sign K X w cf k message slot s)), snd (crew_sign K X w cf k message slot s))"
proof -
  obtain t0 t1 t2 t3 where clock: "clock = (t0, t1, t2, t3)" by (metis prod.exhaust)
  show ?thesis
    by (simp add: crew_sign_timed_def crew_sign_def timed_signing_is_signing clock phases_of_def case_prod_unfold expect_map_sum)
qed

lemma crew_sign_timed_keeps [keeps_intros]: "keeps (crew_at w n) (crew_sign_timed K X w' cf clock k message slot)"
  using crew_sign_keeps [of w n K X w' cf k message slot] unfolding keeps_def crew_sign_timed_is_sign by simp

text \<open>Enlisting member \<open>n\<close> adds the node of key \<open>n\<close>, or ends the process.\<close>

lemma enlist_grows: "grows w n (enlist K w cf msg p n) (n + 1)"
  unfolding grows_def
proof (intro allI impI)
  fix s
  assume at: "crew_at w n s"
  show "(\<exists>k \<le> n + 1. crew_at w k (snd (enlist K w cf msg p n s))) \<and> (\<forall>a. fst (enlist K w cf msg p n s) = Inr a \<longrightarrow> crew_at w (n + 1) (snd (enlist K w cf msg p n s)))"
  proof (cases "w_key_gen w n SLOT (SLOT + KEY_SLOTS)")
    case (Inl e)
    then show ?thesis using at by (auto simp: enlist_def seq_def lift_def expect_def intro: exI [of _ n])
  next
    case (Inr kp)
    obtain r f where c: "counter_create (sha3_256 (k_hashes K)) (key_ssz (k_anchor K)) (cf_lock cf n) (cf_meta cf n) (cf_install cf n) p (snd kp)
        SLOT (SLOT + KEY_SLOTS) (cr_fs s) = (r, f)" by force
    have fs: "crew_at w n (s\<lparr>cr_fs := f\<rparr>)" using at by (simp add: crew_at_def)
    have node: "crew_at w (n + 1) (s\<lparr>cr_fs := f, cr_nodes := cr_nodes s @ [signer_node_new (snd kp) (fst kp) c]\<rparr>)" for c
      using at Inr by (auto simp: crew_at_def nth_append less_Suc_eq uses_ok_def signer_node_new_def intro: exI [of _ "fst kp"])
    show ?thesis using Inr c fs node by (cases r) (auto simp: enlist_def seq_def lift_def expect_def intro: exI [of _ n])
  qed
qed

lemma housekeeping_keeps [keeps_intros]:
  "keeps (crew_at w n) (public_key k)" "keeps (crew_at w n) (remove_where cf which)" "keeps (crew_at w n) drop_nodes"
  by (simp_all add: keeps_def public_key_def remove_where_def drop_nodes_def crew_at_def)

section \<open>Signing succeeds\<close>

text \<open>A node whose frontier is at or below a slot of its window, signing without faults.\<close>

lemma sign_at_grants:
  assumes next_le: "unat (c_next (n_counter n)) \<le> unat slot" and slot: "slot \<le> c_end (n_counter n)"
    and gen: "unat (c_generation (n_counter n)) + 1 < 2 ^ 64" and key: "xmss_sign X rng (n_sk n) message slot = Inr sig"
  shows "\<exists>f'. sign_at sha3 X PersistClean rng message slot n f = (Inr sig,
    n\<lparr>n_counter := (n_counter n)\<lparr>c_generation := c_generation (n_counter n) + 1, c_next := ucast slot + 1\<rparr>, n_uses := n_uses n @ [(slot, message)]\<rparr>, f')"
proof -
  let ?op = "ReserveAt PersistClean slot"
  have target: "op_target ?op (n_counter n) = Some slot"
    using next_le slot by (simp add: op_target_def word_le_nat_alt)
  obtain f' where "persist_next sha3 PersistClean (ucast slot + 1) (n_counter n) f
      = (Inr (), (n_counter n)\<lparr>c_generation := c_generation (n_counter n) + 1\<rparr>, f')"
    using gen by (simp add: persist_next_def checked_add_def Let_def)
  then have "reserve_at sha3 PersistClean slot (n_counter n) f
      = (Inr slot, (n_counter n)\<lparr>c_generation := c_generation (n_counter n) + 1, c_next := ucast slot + 1\<rparr>, f')"
    using slot_step_burns [OF target, of sha3 f] by (simp add: op_fault_def slot_step_def)
  then show ?thesis using key by (simp add: sign_at_def sign_at_inner_def use_key_def)
qed

end
