(* ===== verification/Signer_Bin.thy ===== *)
theory Signer_Bin
  imports Crew
begin

text \<open>
  One committee member measured on its own (src/bin/signer.rs): a fresh key with its durable counter
  signs the statement of each version at the slot the anchor derives, and every signature is
  verified. Memory figures and printing are left out; clock readings are inputs.

  The lemmas show that without faults the member signs each version once, at consecutive slots, and
  the process exits with success, and that with any faults no slot is used twice.
\<close>

section \<open>The process\<close>

text \<open>\<open>Path::with_extension\<close>: what follows the last dot of the name, unless it starts the name, is replaced.\<close>

definition with_extension :: "path \<Rightarrow> string \<Rightarrow> path" where
  "with_extension p ext =
     (if p = [] then []
      else let name = last p; before = takeWhile (\<lambda>c. c \<noteq> CHR ''.'') (rev name);
               stem = (if length before + 1 < length name then take (length name - length before - 1) name else name)
           in butlast p @ [stem @ (if ext = [] then [] else ''.'' @ ext)])"

definition state_files :: "path \<Rightarrow> path list" where
  "state_files state = map (\<lambda>ext. if ext = [] then state else with_extension state ext) [[], ''lock'', ''tmp'']"

text \<open>Around one signature: the phases, the elapsed time and the CPU time.\<close>

record signer_clock =
  sc_phases :: "nat \<times> nat \<times> nat \<times> nat"
  sc_sign :: "nat \<times> nat"
  sc_cpu :: "nat \<times> nat"

record signer_report =
  sr_list :: "32 barr list"
  sr_drawn :: nat
  sr_failures :: usize
  sr_sizes :: list_sizes
  sr_samples :: "(nat \<times> nat \<times> nat \<times> nat) list"

definition signer_round ::
  "('b, 'pk, 'sk, 'sig, 'rng, 'sph, 'agg) check_env \<Rightarrow> ('pk, 'sk, 'sig, 'rng) xmss \<Rightarrow> ('pk, 'sk, 'rng) world \<Rightarrow> crew_faults
    \<Rightarrow> (nat \<Rightarrow> signer_clock) \<Rightarrow> usize option \<Rightarrow> 'pk committee \<Rightarrow> nat \<Rightarrow> signer_report \<Rightarrow> (('pk, 'sk) crew, signer_report) process" where
  "signer_round K X w cf clock entries c i st =
     seq (lift (expect_some ''attempt to calculate the remainder with a divisor of zero''
            (advance_list (random_entry (sha3_256 (k_hashes K)) w) i entries (sr_list st) (sr_drawn st)))) (\<lambda>(xs, g).
     let sizes = record_size (length xs) (sr_sizes st); version = word_of_nat i :: u32 in
     seq (lift (expect_some ''slot overflow'' (slot_for c version))) (\<lambda>slot.
     let message = message_for (blake2s_256 (k_hashes K)) c WotsXmss xs version in
     seq (crew_sign_timed K X w cf (sc_phases (clock i)) 0 message slot) (\<lambda>(signature, phases).
     seq (public_key 0) (\<lambda>pk.
     lift (Inr \<lparr>sr_list = xs, sr_drawn = g,
       sr_failures = (if \<not> xmss_verify X pk message signature slot then sr_failures st + 1 else sr_failures st),
       sr_sizes = sizes,
       sr_samples = sr_samples st @ [(snd (sc_sign (clock i)) - fst (sc_sign (clock i)), t_reserve phases, t_crypto phases,
         snd (sc_cpu (clock i)) - fst (sc_cpu (clock i)))]\<rparr>)))))"

text \<open>The series of one component of the samples.\<close>

definition series_of :: "('x \<Rightarrow> nat) \<Rightarrow> 'x list \<Rightarrow> (panic, series) result" where
  "series_of f xs = expect_some ''timings are never NaN'' (series_new (map (\<lambda>x. Some (ms (f x))) xs))"

definition signer_main ::
  "('b, 'pk, 'sk, 'sig, 'rng, 'sph, 'agg) check_env \<Rightarrow> ('pk, 'sk, 'sig, 'rng) xmss \<Rightarrow> ('pk, 'sk, 'rng) world \<Rightarrow> crew_faults
    \<Rightarrow> (nat \<Rightarrow> signer_clock) \<Rightarrow> string \<Rightarrow> nat \<Rightarrow> ustr option \<Rightarrow> (('pk, 'sk) crew, nat \<times> signer_report) process" where
  "signer_main K X w cf clock state_dir pid list_entries =
     (let state = path_of_text state_dir @ [''signer-bench-'' @ show_nat pid];
          clean = remove_where cf (List.member (state_files state)) in
     seq clean (\<lambda>_.
     seq (enlist K w cf ''keygen failed'' state 0) (\<lambda>pk.
     seq (lift (expect ''Committee::new'' (committee_new (sha3_256 (k_hashes K)) (k_anchor K) [pk] 1 SLOT))) (\<lambda>c.
     seq (lift (expect_some ''list entries out of range'' (list_entries_from_env list_entries))) (\<lambda>entries.
     seq (steps (signer_round K X w cf clock entries c) [0..<N_UPDATES]
            \<lparr>sr_list = [], sr_drawn = 0, sr_failures = 0, sr_sizes = ListSizes None, sr_samples = []\<rparr>) (\<lambda>rep.
     seq (lift (series_of (\<lambda>(s, r, x, u). s) (sr_samples rep))) (\<lambda>_.
     seq (lift (series_of (\<lambda>(s, r, x, u). r) (sr_samples rep))) (\<lambda>_.
     seq (lift (series_of (\<lambda>(s, r, x, u). x) (sr_samples rep))) (\<lambda>_.
     seq (lift (series_of (\<lambda>(s, r, x, u). u) (sr_samples rep))) (\<lambda>_.
     seq drop_nodes (\<lambda>_.
     seq clean (\<lambda>_.
     lift (Inr (if sr_failures rep > 0 then 1 else 0, rep))))))))))))))"

section \<open>Any run\<close>

lemma signer_round_keeps: "keeps (crew_at w n) (signer_round K X w cf clock entries c i st)"
  unfolding signer_round_def Let_def case_prod_unfold by (intro keeps_intros)

lemma signer_main_grows: "grows w 0 (signer_main K X w cf clock state_dir pid list_entries) 1"
  unfolding signer_main_def Let_def
  by (intro grows_seq_keeps grows_seq [OF enlist_grows [of w 0, unfolded add_0]] grows_keeps keeps_intros signer_round_keeps) simp_all

section \<open>A run without faults\<close>

text \<open>The member after \<open>i\<close> rounds: its counter stands at the slot of version \<open>i\<close>, and its key was used once per version.\<close>

definition signed_rounds :: "('pk, 'sk) crew \<Rightarrow> 'pk \<Rightarrow> 'sk \<Rightarrow> path \<Rightarrow> 32 barr \<Rightarrow> nat \<Rightarrow> bool" where
  "signed_rounds s pk sk p tag i \<longleftrightarrow> (\<exists>n. cr_nodes s = [n] \<and> n_pk n = pk \<and> n_sk n = sk
     \<and> n_counter n = counter_of p tag (SLOT + KEY_SLOTS) (word_of_nat i, word_of_nat (unat SLOT + i))
     \<and> map fst (n_uses n) = map (\<lambda>k. SLOT + word_of_nat k) [0..<i])"

lemma slot_words:
  assumes "i < N_UPDATES"
  shows "(ucast (SLOT + word_of_nat i :: u32) :: u64) = word_of_nat (unat SLOT + i)" and "unat (SLOT + word_of_nat i :: u32) = unat SLOT + i"
    and "SLOT + word_of_nat i \<le> SLOT + KEY_SLOTS" and "(word_of_nat i :: u32) \<le> KEY_SLOTS"
proof -
  have i: "i < 20" using assms by (simp add: N_UPDATES_def)
  show u: "unat (SLOT + word_of_nat i :: u32) = unat SLOT + i" using i by (simp add: unat_word_ariths unat_of_nat SLOT_def)
  then show "SLOT + word_of_nat i \<le> SLOT + KEY_SLOTS" using i by (simp add: word_le_nat_alt SLOT_def KEY_SLOTS_def)
  show "(word_of_nat i :: u32) \<le> KEY_SLOTS" using i by (simp add: word_le_nat_alt unat_of_nat KEY_SLOTS_def)
  show "(ucast (SLOT + word_of_nat i :: u32) :: u64) = word_of_nat (unat SLOT + i)"
    unfolding u [symmetric] by (simp add: word_unat_eq_iff unat_of_nat unat_ucast_u32_u64)
qed

lemma crew_signs:
  assumes at: "signed_rounds s pk sk p tag i" and i: "i < N_UPDATES" and clean: "cf_persist cf (cr_calls s) = PersistClean"
    and key: "\<And>rng. \<exists>sig. xmss_sign X rng sk message (SLOT + word_of_nat i) = Inr sig"
  shows "\<exists>sig rng s'. crew_sign K X w cf 0 message (SLOT + word_of_nat i) s = (Inr sig, s') \<and> xmss_sign X rng sk message (SLOT + word_of_nat i) = Inr sig
    \<and> signed_rounds s' pk sk p tag (i + 1)"
proof -
  let ?slot = "SLOT + word_of_nat i :: u32"
  obtain n where n: "cr_nodes s = [n]" "n_pk n = pk" "n_sk n = sk"
    "n_counter n = counter_of p tag (SLOT + KEY_SLOTS) (word_of_nat i, word_of_nat (unat SLOT + i))"
    "map fst (n_uses n) = map (\<lambda>k. SLOT + word_of_nat k) [0..<i]"
    using at unfolding signed_rounds_def by blast
  have i': "i < 20" using i by (simp add: N_UPDATES_def)
  note words = slot_words [OF i]
  obtain sig where sig: "xmss_sign X (w_tape w (cr_calls s)) (n_sk n) message ?slot = Inr sig" using key n(3) by blast
  have next_le: "unat (c_next (n_counter n)) \<le> unat ?slot" unfolding n(4) words(1) [symmetric] words(2)
    by (simp add: counter_of_def unat_ucast_u32_u64 words(2))
  have gen: "unat (c_generation (n_counter n)) + 1 < 2 ^ 64" unfolding n(4) using i' by (simp add: counter_of_def unat_of_nat)
  have le: "?slot \<le> c_end (n_counter n)" unfolding n(4) using words(3) by (simp add: counter_of_def)
  let ?n' = "n\<lparr>n_counter := (n_counter n)\<lparr>c_generation := c_generation (n_counter n) + 1, c_next := ucast ?slot + 1\<rparr>, n_uses := n_uses n @ [(?slot, message)]\<rparr>"
  obtain f' where f': "sign_at (sha3_256 (k_hashes K)) X PersistClean (w_tape w (cr_calls s)) message ?slot n (cr_fs s) = (Inr sig, ?n', f')"
    using sign_at_grants [OF next_le le gen sig] by blast
  let ?s' = "s\<lparr>cr_nodes := [?n'], cr_fs := f', cr_calls := cr_calls s + 1\<rparr>"
  have "crew_sign K X w cf 0 message ?slot s = (Inr sig, ?s')"
    using f' n(1) clean by (simp add: crew_sign_def expect_def)
  moreover have "signed_rounds ?s' pk sk p tag (i + 1)"
    unfolding signed_rounds_def using n(2-5) words(1) by (intro exI [of _ ?n']) (simp add: counter_of_def)
  ultimately show ?thesis using sig n(3) by blast
qed

text \<open>A world without faults for the one member.\<close>

definition calm :: "crew_faults \<Rightarrow> bool" where
  "calm cf \<longleftrightarrow> (\<forall>i. cf_lock cf i = LockClean \<and> cf_meta cf i = ReadClean \<and> cf_install cf i = ReplaceClean \<and> cf_persist cf i = PersistClean) \<and> (\<forall>p. \<not> cf_kept cf p) \<and> \<not> cf_dir cf"

lemma signer_round_runs:
  assumes at: "signed_rounds s pk sk p tag i" and i: "i < N_UPDATES" and calm: "calm cf" and f: "faultless X w 0" and ok: "signs_correctly X w"
    and gen: "w_key_gen w 0 SLOT (SLOT + KEY_SLOTS) = Inr (sk, pk)" and c: "genesis_slot c = SLOT" and entries: "entries \<noteq> Some 0"
  shows "\<exists>st' s'. signer_round K X w cf clock entries c i st s = (Inr st', s') \<and> sr_failures st' = sr_failures st \<and> signed_rounds s' pk sk p tag (i + 1)"
proof -
  obtain xs g where list: "advance_list (random_entry (sha3_256 (k_hashes K)) w) i entries (sr_list st) (sr_drawn st) = Some (xs, g)"
    using advance_list_returns [OF entries, where fresh = "random_entry (sha3_256 (k_hashes K)) w" and v = i and xs = "sr_list st" and g = "sr_drawn st"] by blast
  note words = slot_words [OF i]
  obtain slot where slot: "slot_for c (word_of_nat i) = Some slot" using run_slot [OF c words(4)] by blast
  have eq: "slot = SLOT + word_of_nat i" by (rule slot_of_genesis [OF c slot])
  let ?m = "message_for (blake2s_256 (k_hashes K)) c WotsXmss xs (word_of_nat i)"
  have window: "SLOT \<le> slot" "slot \<le> SLOT + KEY_SLOTS" unfolding eq using words(2,3) by (simp_all add: word_le_nat_alt)
  have key: "\<exists>sig. xmss_sign X rng sk ?m slot = Inr sig" for rng
    using f gen window unfolding faultless_def by force
  obtain sig rng s' where s': "crew_sign K X w cf 0 ?m slot s = (Inr sig, s')" "xmss_sign X rng sk ?m slot = Inr sig" "signed_rounds s' pk sk p tag (i + 1)"
    using crew_signs [OF at i, of cf X ?m K w] calm key unfolding calm_def eq by blast
  have verified: "xmss_verify X pk ?m sig slot" using signs_correctlyD [OF ok gen] s'(2) by simp
  obtain n where n: "cr_nodes s' = [n]" "n_pk n = pk" using s'(3) unfolding signed_rounds_def by blast
  have timed: "crew_sign_timed K X w cf (sc_phases (clock i)) 0 ?m slot s = (Inr (sig, phases_of (sc_phases (clock i))), s')"
    using s'(1) by (simp add: crew_sign_timed_is_sign)
  show ?thesis unfolding signer_round_def Let_def using list slot timed n verified s'(3)
    by (simp add: seq_def lift_def expect_some_def public_key_def)
qed

lemma signer_rounds_run:
  assumes "calm cf" "faultless X w 0" "signs_correctly X w" "w_key_gen w 0 SLOT (SLOT + KEY_SLOTS) = Inr (sk, pk)" "genesis_slot c = SLOT" "entries \<noteq> Some 0"
    and start: "signed_rounds s pk sk p tag 0" and "n \<le> N_UPDATES"
  shows "\<exists>st' s'. steps (signer_round K X w cf clock entries c) [0..<n] st s = (Inr st', s') \<and> sr_failures st' = sr_failures st \<and> signed_rounds s' pk sk p tag n"
  using assms(8)
proof (induction n)
  case 0
  then show ?case using start by simp
next
  case (Suc n)
  obtain st1 s1 where ih: "steps (signer_round K X w cf clock entries c) [0..<n] st s = (Inr st1, s1)" "sr_failures st1 = sr_failures st" "signed_rounds s1 pk sk p tag n"
    using Suc.IH Suc.prems by auto
  have "n < N_UPDATES" using Suc.prems by simp
  from signer_round_runs [OF ih(3) this assms(1-6), of K clock st1] ih(1,2) show ?case by (auto simp: steps_snoc)
qed

lemma series_of_returns: "\<exists>r. series_of f xs = Inr r"
proof -
  have "map (\<lambda>x. Some (ms (f x))) xs = map Some (map (\<lambda>x. ms (f x)) xs)" by (simp add: comp_def)
  then show ?thesis unfolding series_of_def by (simp only: series_new_numbers) (simp add: expect_some_def)
qed

section \<open>Property\<close>

lemma seq_housekeeping:
  "seq (remove_where cf which) f s = f () (snd (remove_where cf which s))" "seq drop_nodes f s = f () (snd (drop_nodes s))"
  by (simp_all add: seq_def remove_where_def drop_nodes_def)

lemma lift_seq: "r = Inr a \<Longrightarrow> seq (lift r) f j = f a j"
  by (simp add: seq_def lift_def)

text \<open>The member's counter in an emptied place.\<close>

lemma enlist_runs:
  assumes calm: "calm cf" and gen: "w_key_gen w 0 SLOT (SLOT + KEY_SLOTS) = Inr (sk, pk)" and fresh: "cr_nodes s = []"
    and free: "files (cr_fs s) p = None" "sibling p ''lock'' \<notin> locks (cr_fs s)"
  shows "\<exists>s'. enlist K w cf msg p 0 s = (Inr pk, s') \<and> signed_rounds s' pk sk p (key_fingerprint (sha3_256 (k_hashes K)) (key_ssz (k_anchor K)) pk) 0"
proof -
  let ?tag = "key_fingerprint (sha3_256 (k_hashes K)) (key_ssz (k_anchor K)) pk"
  obtain f' where f': "counter_create (sha3_256 (k_hashes K)) (key_ssz (k_anchor K)) LockClean ReadClean ReplaceClean p pk SLOT (SLOT + KEY_SLOTS) (cr_fs s)
      = (Inr (counter_of p ?tag (SLOT + KEY_SLOTS) (0, ucast SLOT)), f')"
    by (rule create_succeeds [OF free])
  have clean: "cf_lock cf 0 = LockClean" "cf_meta cf 0 = ReadClean" "cf_install cf 0 = ReplaceClean" using calm by (simp_all add: calm_def)
  let ?s' = "s\<lparr>cr_fs := f', cr_nodes := [signer_node_new pk sk (counter_of p ?tag (SLOT + KEY_SLOTS) (0, ucast SLOT))]\<rparr>"
  have "enlist K w cf msg p 0 s = (Inr pk, ?s')"
    unfolding enlist_def lift_seq [OF expect_Inr [THEN iffD2, OF gen]] fst_conv snd_conv clean f' prod.case sum.case fresh by simp
  moreover have "signed_rounds ?s' pk sk p ?tag 0" by (simp add: signed_rounds_def signer_node_new_def)
  ultimately show ?thesis by blast
qed

text \<open>
  A member signs each version exactly once: in a world without faults, whatever state an earlier
  run left behind, the process exits with success, it has used its key at the slots of the versions
  0 to \<open>N_UPDATES - 1\<close>, in order and once each, every signature verified, and at the end the state
  file is gone and its lock free.
\<close>

theorem member_signs_each_version_once:
  assumes "calm cf" and "faultless X w 0" and "signs_correctly X w" and "list_entries_from_env le = Some entries"
    and "cr_nodes s = []" and "state = path_of_text dir @ [''signer-bench-'' @ show_nat pid]" and "sibling state ''lock'' \<notin> locks (cr_fs s)"
  shows "\<exists>rep s' n. signer_main K X w cf clock dir pid le s = (Inr (0, rep), s') \<and> sr_failures rep = 0 \<and> cr_nodes s' = [n]
    \<and> map fst (n_uses n) = map (\<lambda>k. SLOT + word_of_nat k) [0..<N_UPDATES]
    \<and> files (cr_fs s') state = None \<and> sibling state ''lock'' \<notin> locks (cr_fs s')"
proof -
  obtain sk pk where gen: "w_key_gen w 0 SLOT (SLOT + KEY_SLOTS) = Inr (sk, pk)" using faultless_key [OF assms(2), of 0] by auto
  let ?which = "List.member (state_files state)" and ?tag = "key_fingerprint (sha3_256 (k_hashes K)) (key_ssz (k_anchor K)) pk"
  let ?s0 = "snd (remove_where cf ?which s)"
  have here: "?which state" by (simp add: state_files_def List.member_iff)
  have "files (cr_fs ?s0) state = None" "sibling state ''lock'' \<notin> locks (cr_fs ?s0)" "cr_nodes ?s0 = []"
    using assms(1,5,7) here by (simp_all add: remove_where_def calm_def)
  then obtain s1 where s1: "enlist K w cf ''keygen failed'' state 0 ?s0 = (Inr pk, s1)" "signed_rounds s1 pk sk state ?tag 0"
    using enlist_runs [OF assms(1) gen] by blast
  obtain c where c: "committee_new (sha3_256 (k_hashes K)) (k_anchor K) [pk] 1 SLOT = Inr c"
    using committee_new_ok [of 1 "[pk]" "k_anchor K"] by (auto simp: MAX_COMMITTEE_SIZE_def)
  have genesis: "genesis_slot c = SLOT" using committee_new_wf [OF c] by simp
  have entries: "entries \<noteq> Some 0" using env_entries_bounded [of le] assms(4) by auto
  let ?st = "\<lparr>sr_list = [], sr_drawn = 0, sr_failures = 0, sr_sizes = ListSizes None, sr_samples = []\<rparr>"
  obtain rep s2 where r: "steps (signer_round K X w cf clock entries c) [0..<N_UPDATES] ?st s1 = (Inr rep, s2)" "sr_failures rep = 0"
    "signed_rounds s2 pk sk state ?tag N_UPDATES"
    using signer_rounds_run [OF assms(1-3) gen genesis entries s1(2) order_refl, of K clock ?st] by auto
  obtain n where n: "cr_nodes s2 = [n]" "c_path (n_counter n) = state" "map fst (n_uses n) = map (\<lambda>k. SLOT + word_of_nat k) [0..<N_UPDATES]"
    using r(3) unfolding signed_rounds_def by (auto simp: counter_of_def)
  obtain a b d e where series: "series_of (\<lambda>(s, r, x, u). s) (sr_samples rep) = Inr a" "series_of (\<lambda>(s, r, x, u). r) (sr_samples rep) = Inr b"
    "series_of (\<lambda>(s, r, x, u). x) (sr_samples rep) = Inr d" "series_of (\<lambda>(s, r, x, u). u) (sr_samples rep) = Inr e"
    using series_of_returns by metis
  let ?s3 = "snd (drop_nodes s2)"
  let ?s4 = "snd (remove_where cf ?which ?s3)"
  note enlisted = seq_run [of "enlist K w cf ''keygen failed'' state 0" ?s0, OF s1(1)] and rounds = seq_run [of "steps (signer_round K X w cf clock entries c) [0..<N_UPDATES] ?st" s1, OF r(1)]
  note lifted = lift_seq [OF expect_Inr [THEN iffD2, OF c]] lift_seq [OF expect_some_Inr [THEN iffD2, OF assms(4)]] series [THEN lift_seq]
  have "signer_main K X w cf clock dir pid le s = (Inr (0, rep), ?s4)"
    unfolding signer_main_def Let_def assms(6) [symmetric] seq_housekeeping enlisted lifted rounds by (simp add: lift_def r(2))
  moreover have "files (cr_fs ?s4) state = None" "sibling state ''lock'' \<notin> locks (cr_fs ?s4)" "cr_nodes ?s4 = [n]"
    using assms(1) here n(1,2) by (simp_all add: remove_where_def drop_nodes_def calm_def counter_drop_def unlock_sibling_def)
  ultimately show ?thesis using r(2) n(3) by blast
qed

definition calm_faults :: crew_faults where
  "calm_faults = \<lparr>cf_dir = False, cf_lock = (\<lambda>_. LockClean), cf_meta = (\<lambda>_. ReadClean), cf_install = (\<lambda>_. ReplaceClean), cf_persist = (\<lambda>_. PersistClean), cf_kept = (\<lambda>_. False)\<rparr>"

theorem member_signs_each_version_once_witness:
  "\<exists>rep s' n. signer_main pipeline_env plain_xmss numbered_world calm_faults (\<lambda>_. \<lparr>sc_phases = (0, 1, 1, 3), sc_sign = (0, 3), sc_cpu = (0, 2)\<rparr>)
       ''/tmp'' 7 None \<lparr>cr_nodes = [], cr_fs = no_files, cr_calls = 0\<rparr> = (Inr (0, rep), s') \<and> cr_nodes s' = [n] \<and> length (n_uses n) = 20"
proof -
  have "calm calm_faults" "list_entries_from_env None = Some None" by (simp_all add: calm_def calm_faults_def list_entries_from_env_def)
  from member_signs_each_version_once [OF this(1) numbered_world_laws this(2), of "\<lparr>cr_nodes = [], cr_fs = no_files, cr_calls = 0\<rparr>" _ "''/tmp''" 7 pipeline_env
      "\<lambda>_. \<lparr>sc_phases = (0, 1, 1, 3), sc_sign = (0, 3), sc_cpu = (0, 2)\<rparr>", OF _ refl]
  obtain rep s' n where r: "signer_main pipeline_env plain_xmss numbered_world calm_faults (\<lambda>_. \<lparr>sc_phases = (0, 1, 1, 3), sc_sign = (0, 3), sc_cpu = (0, 2)\<rparr>)
       ''/tmp'' 7 None \<lparr>cr_nodes = [], cr_fs = no_files, cr_calls = 0\<rparr> = (Inr (0, rep), s')" "cr_nodes s' = [n]"
    "map fst (n_uses n) = map (\<lambda>k. SLOT + word_of_nat k) [0..<N_UPDATES]"
    by (auto simp: no_files_def)
  have "length (map fst (n_uses n)) = length (map (\<lambda>k. SLOT + word_of_nat k) [0..<N_UPDATES])" by (simp only: r(3))
  then show ?thesis using r(1,2) by (auto simp: N_UPDATES_def)
qed

end
