(* ===== verification/Raw_Agg.thy ===== *)
theory Raw_Agg
  imports Signer_Bin
begin

text \<open>
  The raw baseline (src/bin/raw_agg.rs). Over a fixture it is the raw relying party: it verifies every
  update and offers six forged records to the predicate. On its own it is the whole committee: every
  member is a node with a durable counter, and the process signs, verifies and forges by itself.
  Memory figures and printing are left out; clock readings are inputs.

  The lemmas show that the exit status over a fixture is exact, and that on its own the process never
  uses a key twice at one slot, whatever fails.
\<close>

section \<open>Records\<close>

definition measure_verification ::
  "('b, 'pk, 'sk, 'sig, 'rng, 'sph, 'agg) check_env \<Rightarrow> ('pk, 'sk, 'sig, 'rng) xmss \<Rightarrow> clock_readings \<Rightarrow> bytes \<Rightarrow> 'pk verifier_node
    \<Rightarrow> (status_list_error, ('b, 'sig) status_list) decode_verify" where
  "measure_verification K X clock bs verifier =
     decode_then_verify clock (status_list_from_bytes (k_bits K) (k_raw_ssz K) bs)
       (verify_status_list (k_bits K) X (blake2s_256 (k_hashes K)) verifier)"

definition corrupt_last_signature ::
  "('b, 'pk, 'sk, 'sig, 'rng, 'sph, 'agg) check_env \<Rightarrow> bytes \<Rightarrow> (panic, ('b, 'sig) status_list) result" where
  "corrupt_last_signature K wire =
     and_then (expect ''honest control must decode'' (status_list_from_bytes (k_bits K) (k_raw_ssz K) wire)) (\<lambda>honest.
     and_then (assert_that ''record has signature bytes'' (wire \<noteq> [])) (\<lambda>_.
     let bs = butlast wire @ [last wire XOR 1] in
     and_then (expect ''changing a signature bit must preserve the record shape'' (status_list_from_bytes (k_bits K) (k_raw_ssz K) bs)) (\<lambda>corrupted.
     and_then (assert_that ''the signature control must differ from its honest record in a signature only''
       (sl_status_list corrupted = sl_status_list honest \<and> sl_version corrupted = sl_version honest
        \<and> signer_indices (k_bits K) corrupted = signer_indices (k_bits K) honest \<and> status_list_to_bytes (k_raw_ssz K) corrupted \<noteq> wire)) (\<lambda>_.
     Inr corrupted))))"

definition ra_fixture_files :: "directory \<Rightarrow> string \<Rightarrow> (panic, string list) result" where
  "ra_fixture_files dir start =
     (case dir_entries dir of Inl e \<Rightarrow> Inl (Panic ''cannot read fixture directory'') | Inr entries \<Rightarrow> Inr (prefixed entries start))"

definition ra_load_raw ::
  "('b, 'pk, 'sk, 'sig, 'rng, 'sph, 'agg) check_env \<Rightarrow> directory \<Rightarrow> string \<Rightarrow> (panic, ('b, 'sig) status_list) result" where
  "ra_load_raw K dir name =
     and_then (expect ''cannot read raw fixture'' (dir_read dir name)) (\<lambda>bs.
     expect ''malformed raw fixture'' (status_list_from_bytes (k_bits K) (k_raw_ssz K) bs))"

definition indexed_signatures :: "'b bitlist \<Rightarrow> ('b, 'sig) status_list \<Rightarrow> (usize \<times> 'sig) list" where
  "indexed_signatures B r = zip (signer_indices B r) (sl_signatures r)"

text \<open>The times of one update, and the bytes of its record.\<close>

record raw_sample =
  rs_decode :: nat
  rs_verify :: nat
  rs_total :: nat
  rs_cpu :: nat
  rs_bytes :: usize

definition sample_of :: "('e, 'r) decode_verify \<Rightarrow> bytes \<Rightarrow> raw_sample" where
  "sample_of d bs = \<lparr>rs_decode = dv_decode d, rs_verify = dv_verify d, rs_total = dv_total d, rs_cpu = dv_cpu d, rs_bytes = length bs\<rparr>"

text \<open>The figures of a run: the series and the median size.\<close>

definition raw_summary :: "raw_sample list \<Rightarrow> (panic, (series \<times> series \<times> series \<times> series) \<times> real) result" where
  "raw_summary samples =
     and_then (series_of rs_decode samples) (\<lambda>decode.
     and_then (series_of rs_verify samples) (\<lambda>verify.
     and_then (series_of rs_total samples) (\<lambda>tot.
     and_then (series_of rs_cpu samples) (\<lambda>total_cpu.
     and_then (expect_some ''cannot take the median of no samples'' (median_usize (map rs_bytes samples))) (\<lambda>record_med.
     Inr ((decode, verify, tot, total_cpu), record_med))))))"

section \<open>Over a fixture\<close>

definition raw_fixture_update ::
  "('b, 'pk, 'sk, 'sig, 'rng, 'sph, 'agg) check_env \<Rightarrow> ('pk, 'sk, 'sig, 'rng) xmss \<Rightarrow> (nat \<Rightarrow> clock_readings) \<Rightarrow> 'pk verifier_node \<Rightarrow> directory
    \<Rightarrow> nat \<times> string \<Rightarrow> raw_sample list \<times> list_sizes \<Rightarrow> (panic, raw_sample list \<times> list_sizes) result" where
  "raw_fixture_update K X clock verifier dir update st =
     and_then (expect ''cannot read raw fixture'' (dir_read dir (snd update))) (\<lambda>bs.
     let measured = measure_verification K X (clock (fst update)) bs verifier in
     and_then (assert_that ''an honest fixture failed raw verification'' (dv_accepted measured)) (\<lambda>_.
     Inr (fst st @ [sample_of measured bs],
          case dv_decoded measured of Inl e \<Rightarrow> snd st | Inr r \<Rightarrow> record_size (length (sl_status_list r)) (snd st))))"

text \<open>
  The six negative controls: tampered, relabelled, short, outsider, slot and signature. The version
  is incremented without a check: the binary is a release build.
\<close>

definition raw_fixture_controls ::
  "('b, 'pk, 'sk, 'sig, 'rng, 'sph, 'agg) check_env \<Rightarrow> build \<Rightarrow> directory \<Rightarrow> (panic, ('b, 'sig) status_list list) result" where
  "raw_fixture_controls K bld dir =
     and_then (expect ''cannot read raw-attack-honest.bin'' (dir_read dir ''raw-attack-honest.bin'')) (\<lambda>honest_bytes.
     and_then (expect ''malformed raw-attack-honest.bin'' (status_list_from_bytes (k_bits K) (k_raw_ssz K) honest_bytes)) (\<lambda>honest.
     let honest_pairs = indexed_signatures (k_bits K) honest;
         tampered_list = sl_status_list honest @ [hash_any (sha3_256 (k_hashes K)) (as_bytes ''FAKE-REVOCATION'')] in
     and_then (expect ''tampered control must be structurally valid''
       (status_list_new (k_bits K) (sl_alg honest) tampered_list (sl_version honest) (N_MEMBERS bld) honest_pairs)) (\<lambda>tampered.
     and_then (expect ''relabelled control must be structurally valid''
       (status_list_new (k_bits K) (sl_alg honest) (sl_status_list honest) (sl_version honest + 1) (N_MEMBERS bld) honest_pairs)) (\<lambda>relabelled.
     and_then (expect ''short control must be structurally valid''
       (status_list_new (k_bits K) (sl_alg honest) (sl_status_list honest) (sl_version honest) (N_MEMBERS bld) (take (T bld - 1) honest_pairs))) (\<lambda>short.
     and_then (ra_load_raw K dir ''raw-attack-outsider.bin'') (\<lambda>outsider.
     and_then (ra_load_raw K dir ''raw-attack-slot.bin'') (\<lambda>slot_attack.
     and_then (corrupt_last_signature K honest_bytes) (\<lambda>corrupted.
     Inr [tampered, relabelled, short, outsider, slot_attack, corrupted]))))))))"

definition raw_anchor ::
  "('b, 'pk, 'sk, 'sig, 'rng, 'sph, 'agg) check_env \<Rightarrow> build \<Rightarrow> directory \<Rightarrow> (panic, 'pk verifier_node) result" where
  "raw_anchor K bld dir =
     and_then (expect ''cannot read fixture anchor'' (dir_read dir ''anchor.bin'')) (\<lambda>anchor_bytes.
     and_then (expect ''malformed fixture anchor'' (committee_from_bytes (sha3_256 (k_hashes K)) (k_anchor K) anchor_bytes)) (\<lambda>c.
     and_then (assert_that ''fixture N/build N drift'' (length (members c) = N_MEMBERS bld)) (\<lambda>_.
     and_then (assert_that ''fixture t/build t drift'' (threshold c = T bld)) (\<lambda>_.
     Inr \<lparr>v_committee = c\<rparr>))))"

text \<open>The exit status.\<close>

definition run_fixture_verifier ::
  "('b, 'pk, 'sk, 'sig, 'rng, 'sph, 'agg) check_env \<Rightarrow> ('pk, 'sk, 'sig, 'rng) xmss \<Rightarrow> (nat \<Rightarrow> clock_readings) \<Rightarrow> build \<Rightarrow> directory
    \<Rightarrow> (panic, nat) result" where
  "run_fixture_verifier K X clock bld dir =
     and_then (raw_anchor K bld dir) (\<lambda>verifier.
     and_then (ra_fixture_files dir ''raw-update-'') (\<lambda>updates.
     and_then (assert_that ''fixture must contain exactly N_UPDATES honest records'' (length updates = N_UPDATES)) (\<lambda>_.
     and_then (each (raw_fixture_update K X clock verifier dir) (enumerate 0 updates) ([], ListSizes None)) (\<lambda>(samples, sizes).
     and_then (raw_fixture_controls K bld dir) (\<lambda>controls.
     let all_rejected = list_all (\<lambda>r. \<not> verify_status_list (k_bits K) X (blake2s_256 (k_hashes K)) verifier r) controls in
     and_then (raw_summary samples) (\<lambda>_.
     Inr (if \<not> all_rejected then 1 else 0)))))))"

section \<open>On its own\<close>

definition four_digits :: "nat \<Rightarrow> string" where
  "four_digits i = (let d = show_nat i in replicate (4 - length d) CHR ''0'' @ d)"

text \<open>Signatures of listed members, each behind its durable reservation.\<close>

fun crew_signs_all ::
  "('b, 'pk, 'sk, 'sig, 'rng, 'sph, 'agg) check_env \<Rightarrow> ('pk, 'sk, 'sig, 'rng) xmss \<Rightarrow> ('pk, 'sk, 'rng) world \<Rightarrow> crew_faults
    \<Rightarrow> usize list \<Rightarrow> 32 barr \<Rightarrow> u32 \<Rightarrow> (('pk, 'sk) crew, (usize \<times> 'sig) list) process" where
  "crew_signs_all K X w cf [] message slot s = (Inr [], s)"
| "crew_signs_all K X w cf (k # ks) message slot s =
     seq (crew_sign K X w cf k message slot) (\<lambda>sig.
     seq (crew_signs_all K X w cf ks message slot) (\<lambda>rest.
     lift (Inr ((k, sig) # rest)))) s"

definition raw_self_update ::
  "('b, 'pk, 'sk, 'sig, 'rng, 'sph, 'agg) check_env \<Rightarrow> ('pk, 'sk, 'sig, 'rng) xmss \<Rightarrow> ('pk, 'sk, 'rng) world \<Rightarrow> crew_faults
    \<Rightarrow> (nat \<Rightarrow> clock_readings) \<Rightarrow> build \<Rightarrow> 'pk committee \<Rightarrow> nat \<Rightarrow> 32 barr list \<times> raw_sample list
    \<Rightarrow> (('pk, 'sk) crew, 32 barr list \<times> raw_sample list) process" where
  "raw_self_update K X w cf clock bld c i st =
     (let xs = fst st @ [fst (random_entry (sha3_256 (k_hashes K)) w i)]; quorum = rotating_signers bld i; version = word_of_nat i :: u32 in
     seq (lift (expect_some ''slot overflow'' (slot_for c version))) (\<lambda>slot.
     let message = message_for (blake2s_256 (k_hashes K)) c WotsXmss xs version in
     seq (crew_signs_all K X w cf quorum message slot) (\<lambda>raws.
     seq (lift (expect ''well-formed quorum'' (status_list_new (k_bits K) WotsXmss xs version (N_MEMBERS bld) raws))) (\<lambda>r.
     let wire = status_list_to_bytes (k_raw_ssz K) r; measured = measure_verification K X (clock i) wire \<lparr>v_committee = c\<rparr> in
     seq (lift (assert_that ''a legitimate update failed to verify'' (dv_accepted measured))) (\<lambda>_.
     lift (Inr (xs, snd st @ [sample_of measured wire])))))))"

text \<open>The six forgeries, in the order they are made; the outsider's node comes after those of the members.\<close>

definition raw_self_controls ::
  "('b, 'pk, 'sk, 'sig, 'rng, 'sph, 'agg) check_env \<Rightarrow> ('pk, 'sk, 'sig, 'rng) xmss \<Rightarrow> ('pk, 'sk, 'rng) world \<Rightarrow> crew_faults
    \<Rightarrow> build \<Rightarrow> path \<Rightarrow> 'pk committee \<Rightarrow> 32 barr list \<Rightarrow> (('pk, 'sk) crew, ('b, 'sig) status_list list) process" where
  "raw_self_controls K X w cf bld state_dir c xs =
     (let version = word_of_nat N_UPDATES :: u32; quorum = [0..<T bld];
          record = (\<lambda>ys v ps. lift (expect ''well-formed'' (status_list_new (k_bits K) WotsXmss ys v (N_MEMBERS bld) ps))) in
     seq (lift (expect_some ''slot overflow'' (slot_for c version))) (\<lambda>slot.
     let message = message_for (blake2s_256 (k_hashes K)) c WotsXmss xs version in
     seq (crew_signs_all K X w cf quorum message slot) (\<lambda>honest.
     seq (record (xs @ [hash_any (sha3_256 (k_hashes K)) (as_bytes ''FAKE-REVOCATION'')]) version honest) (\<lambda>tampered.
     seq (record xs (version + 1) honest) (\<lambda>relabelled.
     seq (record xs version (take (T bld - 1) honest)) (\<lambda>short.
     seq (record xs version honest) (\<lambda>honest_record.
     let honest_wire = status_list_to_bytes (k_raw_ssz K) honest_record in
     seq (enlist K w cf ''keygen'' (state_dir @ [''outsider'']) (N_MEMBERS bld)) (\<lambda>_.
     seq (crew_sign K X w cf (N_MEMBERS bld) message slot) (\<lambda>outsider_sig.
     seq (lift (assert_that ''index out of bounds'' (honest \<noteq> []))) (\<lambda>_.
     seq (record xs version (honest[0 := (0, outsider_sig)])) (\<lambda>infiltrated.
     seq (lift (expect_some ''slot overflow'' (slot_for c (version + 1)))) (\<lambda>late_slot.
     seq (crew_signs_all K X w cf quorum message late_slot) (\<lambda>late_pairs.
     seq (record xs version late_pairs) (\<lambda>late.
     seq (lift (corrupt_last_signature K honest_wire)) (\<lambda>corrupted.
     lift (Inr [tampered, relabelled, short, infiltrated, late, corrupted]))))))))))))))))"

definition raw_self_main ::
  "('b, 'pk, 'sk, 'sig, 'rng, 'sph, 'agg) check_env \<Rightarrow> ('pk, 'sk, 'sig, 'rng) xmss \<Rightarrow> ('pk, 'sk, 'rng) world \<Rightarrow> crew_faults
    \<Rightarrow> (nat \<Rightarrow> clock_readings) \<Rightarrow> build \<Rightarrow> string \<Rightarrow> nat \<Rightarrow> (('pk, 'sk) crew, nat) process" where
  "raw_self_main K X w cf clock bld base pid =
     (let state_dir = path_of_text base @ [''raw-agg-'' @ show_nat pid];
          clean = remove_where cf (\<lambda>p. starts_with p state_dir) in
     seq clean (\<lambda>_.
     seq (lift (assert_that ''cannot create slot state dir'' (\<not> cf_dir cf))) (\<lambda>_.
     seq (steps (\<lambda>i ms. seq (enlist K w cf ''keygen failed'' (state_dir @ [''member-'' @ four_digits i]) i) (\<lambda>pk. lift (Inr (ms @ [pk])))) [0..<N_MEMBERS bld] []) (\<lambda>ms.
     seq (lift (expect ''Committee::new'' (committee_new (sha3_256 (k_hashes K)) (k_anchor K) ms (T bld) SLOT))) (\<lambda>c.
     seq (steps (raw_self_update K X w cf clock bld c) [0..<N_UPDATES] ([], [])) (\<lambda>(xs, samples).
     seq (raw_self_controls K X w cf bld state_dir c xs) (\<lambda>controls.
     let all_rejected = list_all (\<lambda>r. \<not> verify_status_list (k_bits K) X (blake2s_256 (k_hashes K)) \<lparr>v_committee = c\<rparr> r) controls in
     seq (lift (raw_summary samples)) (\<lambda>_.
     seq drop_nodes (\<lambda>_.
     seq clean (\<lambda>_.
     lift (Inr (if \<not> all_rejected then 1 else 0))))))))))))"

text \<open>The process: the mode is chosen by the environment.\<close>

definition raw_agg_main ::
  "('b, 'pk, 'sk, 'sig, 'rng, 'sph, 'agg) check_env \<Rightarrow> ('pk, 'sk, 'sig, 'rng) xmss \<Rightarrow> ('pk, 'sk, 'rng) world \<Rightarrow> crew_faults
    \<Rightarrow> (nat \<Rightarrow> clock_readings) \<Rightarrow> build \<Rightarrow> string \<Rightarrow> nat \<Rightarrow> directory option \<Rightarrow> (('pk, 'sk) crew, nat) process" where
  "raw_agg_main K X w cf clock bld base pid bench_input_dir =
     (case bench_input_dir of
        Some fixture \<Rightarrow> lift (run_fixture_verifier K X clock bld fixture)
      | None \<Rightarrow> raw_self_main K X w cf clock bld base pid)"

section \<open>Key uses\<close>

lemma crew_signs_all_keeps [keeps_intros]: "keeps (crew_at w n) (crew_signs_all K X w' cf ks message slot)"
proof (induction ks)
  case (Cons k ks)
  have eq: "crew_signs_all K X w' cf (k # ks) message slot = seq (crew_sign K X w' cf k message slot) (\<lambda>sig.
      seq (crew_signs_all K X w' cf ks message slot) (\<lambda>rest. lift (Inr ((k, sig) # rest))))" by (simp add: fun_eq_iff)
  show ?case unfolding eq using Cons by (intro keeps_intros)
qed (simp add: keeps_def)

lemma raw_self_update_keeps: "keeps (crew_at w n) (raw_self_update K X w cf clock bld c i st)"
  unfolding raw_self_update_def Let_def by (intro keeps_intros)

lemma raw_self_controls_grow: "grows w (N_MEMBERS bld) (raw_self_controls K X w cf bld state_dir c xs) (N_MEMBERS bld + 1)"
  unfolding raw_self_controls_def Let_def
  by (intro grows_seq_keeps grows_seq [OF enlist_grows] grows_keeps keeps_intros) simp_all

lemma raw_members_grow:
  "grows w 0 (steps (\<lambda>i ms. seq (enlist K w cf msg (p i) i) (\<lambda>pk. lift (Inr (ms @ [pk])))) [0..<n] []) n"
  by (intro grows_steps grows_seq [OF enlist_grows] grows_keeps keeps_intros) simp

lemma raw_self_grows: "grows w 0 (raw_self_main K X w cf clock bld base pid) (N_MEMBERS bld + 1)"
  unfolding raw_self_main_def Let_def case_prod_unfold
  by (intro grows_seq_keeps grows_seq [OF raw_members_grow] grows_seq [OF raw_self_controls_grow] grows_keeps keeps_intros raw_self_update_keeps) simp_all

lemma raw_agg_key_slots:
  assumes "keys_differ w (N_MEMBERS bld)"
  shows "distinct (key_slots (snd (raw_agg_main K X w cf clock bld base pid input \<lparr>cr_nodes = [], cr_fs = disk, cr_calls = 0\<rparr>)))"
proof (cases input)
  case None
  show ?thesis unfolding None raw_agg_main_def option.case by (rule grown_key_slots [OF raw_self_grows assms]) simp
next
  case (Some fixture)
  then show ?thesis by (simp add: raw_agg_main_def lift_def key_slots_def)
qed

text \<open>
  C19. The measuring processes never use a key twice at one slot: whatever fails in the file system, in
  key generation or in signing, and wherever a panic ends them, no two signing calls of a run are
  under the same key at the same slot, whichever nodes made them. That covers the raw baseline, with
  its rotating quorums, its outsider, whose key is none of the members', and its late quorum, and
  the single-member benchmark. Key generation is to yield different public keys for the members
  and the outsider.
\<close>

theorem measured_members_never_reuse_a_slot:
  assumes "keys_differ w (N_MEMBERS bld)"
  shows "distinct (key_slots (snd (raw_agg_main K X w cf clock bld base pid input \<lparr>cr_nodes = [], cr_fs = disk, cr_calls = 0\<rparr>)))
    \<and> distinct (key_slots (snd (signer_main K X w cf sclock base pid le \<lparr>cr_nodes = [], cr_fs = disk, cr_calls = 0\<rparr>)))"
  by (intro conjI raw_agg_key_slots [OF assms] grown_key_slots [OF signer_main_grows assms]) simp_all

theorem measured_members_never_reuse_a_slot_witness:
  "keys_differ numbered_world 200
   \<and> distinct (key_slots (snd (raw_agg_main pipeline_env plain_xmss numbered_world calm_faults still_clock \<lparr>N_MEMBERS = 200, T = 128\<rparr> ''/tmp'' 7 None
       \<lparr>cr_nodes = [], cr_fs = no_files, cr_calls = 0\<rparr>)))"
  using measured_members_never_reuse_a_slot [of numbered_world "\<lparr>N_MEMBERS = 200, T = 128\<rparr>" pipeline_env plain_xmss calm_faults still_clock "''/tmp''" 7 None no_files]
    numbered_world_keys(1) by simp

section \<open>The verdict over a fixture\<close>

text \<open>A file of the fixture that decodes to a record, and the predicate on a record.\<close>

definition decodes_to ::
  "('b, 'pk, 'sk, 'sig, 'rng, 'sph, 'agg) check_env \<Rightarrow> directory \<Rightarrow> string \<Rightarrow> ('b, 'sig) status_list \<Rightarrow> bool" where
  "decodes_to K dir name r \<longleftrightarrow> (\<exists>bs. dir_read dir name = Inr bs \<and> status_list_from_bytes (k_bits K) (k_raw_ssz K) bs = Inr r)"

definition raw_accepts ::
  "('b, 'pk, 'sk, 'sig, 'rng, 'sph, 'agg) check_env \<Rightarrow> ('pk, 'sk, 'sig, 'rng) xmss \<Rightarrow> 'pk committee \<Rightarrow> ('b, 'sig) status_list \<Rightarrow> bool" where
  "raw_accepts K X c r \<longleftrightarrow> verify_status_list (k_bits K) X (blake2s_256 (k_hashes K)) \<lparr>v_committee = c\<rparr> r"

definition raw_verifies ::
  "('b, 'pk, 'sk, 'sig, 'rng, 'sph, 'agg) check_env \<Rightarrow> ('pk, 'sk, 'sig, 'rng) xmss \<Rightarrow> 'pk committee \<Rightarrow> directory \<Rightarrow> string \<Rightarrow> bool" where
  "raw_verifies K X c dir name \<longleftrightarrow> (\<exists>r. decodes_to K dir name r \<and> raw_accepts K X c r)"

lemma ra_load_raw_Inr: "ra_load_raw K dir name = Inr r \<longleftrightarrow> decodes_to K dir name r"
  by (auto simp: ra_load_raw_def decodes_to_def return_iff)

text \<open>
  A record whose signature bits were flipped: the last byte of the wire form changed in its lowest bit
  still decodes, to a record that differs from the honest one in its signatures only.
\<close>

definition bit_flipped ::
  "('b, 'pk, 'sk, 'sig, 'rng, 'sph, 'agg) check_env \<Rightarrow> bytes \<Rightarrow> ('b, 'sig) status_list \<Rightarrow> ('b, 'sig) status_list \<Rightarrow> bool" where
  "bit_flipped K wire honest r \<longleftrightarrow> wire \<noteq> [] \<and> status_list_from_bytes (k_bits K) (k_raw_ssz K) (butlast wire @ [last wire XOR 1]) = Inr r
     \<and> sl_status_list r = sl_status_list honest \<and> sl_version r = sl_version honest
     \<and> signer_indices (k_bits K) r = signer_indices (k_bits K) honest \<and> status_list_to_bytes (k_raw_ssz K) r \<noteq> wire"

lemma corrupt_last_signature_Inr:
  "corrupt_last_signature K wire = Inr r \<longleftrightarrow>
     (\<exists>honest. status_list_from_bytes (k_bits K) (k_raw_ssz K) wire = Inr honest \<and> bit_flipped K wire honest r)"
  by (auto simp: corrupt_last_signature_def bit_flipped_def return_iff Let_def)

lemma raw_fixture_controls_Inr:
  "raw_fixture_controls K bld dir = Inr rs \<longleftrightarrow>
     (\<exists>wire honest tampered relabelled short outsider slot corrupted. rs = [tampered, relabelled, short, outsider, slot, corrupted]
        \<and> dir_read dir ''raw-attack-honest.bin'' = Inr wire \<and> status_list_from_bytes (k_bits K) (k_raw_ssz K) wire = Inr honest
        \<and> status_list_new (k_bits K) (sl_alg honest) (sl_status_list honest @ [fake_revocation (sha3_256 (k_hashes K))]) (sl_version honest)
            (N_MEMBERS bld) (record_pairs (k_bits K) honest) = Inr tampered
        \<and> status_list_new (k_bits K) (sl_alg honest) (sl_status_list honest) (sl_version honest + 1) (N_MEMBERS bld) (record_pairs (k_bits K) honest) = Inr relabelled
        \<and> status_list_new (k_bits K) (sl_alg honest) (sl_status_list honest) (sl_version honest) (N_MEMBERS bld)
            (take (T bld - 1) (record_pairs (k_bits K) honest)) = Inr short
        \<and> decodes_to K dir ''raw-attack-outsider.bin'' outsider \<and> decodes_to K dir ''raw-attack-slot.bin'' slot \<and> bit_flipped K wire honest corrupted)"
  by (auto simp: raw_fixture_controls_def return_iff Let_def ra_load_raw_Inr corrupt_last_signature_Inr indexed_signatures_def record_pairs_def fake_revocation_def)

text \<open>A record made from indexed signatures: when it can be made, and when the predicate accepts it.\<close>

lemma made_record:
  assumes laws: "bitlist_laws MAX_COMMITTEE_SIZE B" and n: "n \<le> MAX_COMMITTEE_SIZE" and ps: "sorted_wrt (<) (map fst ps)"
  shows "(\<exists>r. status_list_new B alg xs v n ps = Inr r) \<longleftrightarrow> list_all (\<lambda>p. fst p < n) ps"
    and "status_list_new B alg xs v n ps = Inr r \<Longrightarrow> length (members c) = n \<Longrightarrow>
      verify_status_list B X blake \<lparr>v_committee = c\<rparr> r \<longleftrightarrow> quorum_signed X blake c alg xs v ps"
proof -
  have valid: "valid_pairs n ps \<longleftrightarrow> list_all (\<lambda>p. fst p < n) ps"
    using ps n by (auto simp: valid_pairs_def list_all_iff strict_sorted_iff)
  show new: "(\<exists>r. status_list_new B alg xs v n ps = Inr r) \<longleftrightarrow> list_all (\<lambda>p. fst p < n) ps"
    using status_list_new_ok [OF laws, of n ps alg xs v] status_list_new_error [OF laws, of n ps alg xs v] valid by auto
  assume r: "status_list_new B alg xs v n ps = Inr r" and len: "length (members c) = n"
  have "valid_pairs n ps" using r new valid by blast
  note hr = honest_record_pairs [OF laws this r]
  have "sort_key fst ps = ps" using ps by (intro sort_key_id_if_sorted) (simp add: strict_sorted_iff)
  then show "verify_status_list B X blake \<lparr>v_committee = c\<rparr> r \<longleftrightarrow> quorum_signed X blake c alg xs v ps"
    using hr len by (simp add: verify_status_list_iff [OF laws])
qed

lemma record_pairs_sorted:
  "bitlist_laws N B \<Longrightarrow> sorted_wrt (<) (map fst (record_pairs B r))"
  "bitlist_laws N B \<Longrightarrow> sorted_wrt (<) (map fst (take k (record_pairs B r)))"
proof -
  assume "bitlist_laws N B"
  then show sorted: "sorted_wrt (<) (map fst (record_pairs B r))"
    using signer_indices_sorted [of B r] by (simp add: record_pairs_def map_fst_zip_take sorted_wrt_take)
  then show "sorted_wrt (<) (map fst (take k (record_pairs B r)))" by (simp add: sorted_wrt_take flip: take_map)
qed

lemma measured_accepted:
  "dv_accepted (measure_verification K X t bs n) \<longleftrightarrow>
     (\<exists>r. status_list_from_bytes (k_bits K) (k_raw_ssz K) bs = Inr r \<and> verify_status_list (k_bits K) X (blake2s_256 (k_hashes K)) n r)"
  by (cases "status_list_from_bytes (k_bits K) (k_raw_ssz K) bs") (simp_all add: measure_verification_def decode_then_verify_def)

lemma raw_fixture_update_returns:
  "(\<exists>st'. raw_fixture_update K X clock \<lparr>v_committee = c\<rparr> dir u st = Inr st') \<longleftrightarrow> raw_verifies K X c dir (snd u)"
  "raw_fixture_update K X clock verifier dir u st = Inr st' \<Longrightarrow> length (fst st') = length (fst st) + 1"
  by (auto simp: raw_fixture_update_def raw_verifies_def raw_accepts_def decodes_to_def measured_accepted Let_def return_iff)

lemma raw_fixture_updates_return:
  "(\<exists>st'. each (raw_fixture_update K X clock \<lparr>v_committee = c\<rparr> dir) us st = Inr st') \<longleftrightarrow> list_all (\<lambda>u. raw_verifies K X c dir (snd u)) us"
proof (induction us arbitrary: st)
  case (Cons u us)
  show ?case
  proof (cases "raw_fixture_update K X clock \<lparr>v_committee = c\<rparr> dir u st")
    case (Inl e)
    then show ?thesis using raw_fixture_update_returns(1) [of K X clock c dir u st] by simp
  next
    case (Inr st1)
    then show ?thesis using raw_fixture_update_returns(1) [of K X clock c dir u st] Cons [of st1] by auto
  qed
qed simp

lemma raw_fixture_updates_length:
  "each (raw_fixture_update K X clock verifier dir) us st = Inr st' \<Longrightarrow> length (fst st') = length (fst st) + length us"
proof (induction us arbitrary: st)
  case (Cons u us)
  then obtain st1 where "raw_fixture_update K X clock verifier dir u st = Inr st1" "each (raw_fixture_update K X clock verifier dir) us st1 = Inr st'"
    by (auto split: sum.splits)
  then show ?case using Cons.IH raw_fixture_update_returns(2) by fastforce
qed simp

lemma raw_summary_returns: "samples \<noteq> [] \<Longrightarrow> \<exists>r. raw_summary samples = Inr r"
proof -
  assume ne: "samples \<noteq> []"
  obtain a b d e med where "series_of rs_decode samples = Inr a" "series_of rs_verify samples = Inr b" "series_of rs_total samples = Inr d"
    "series_of rs_cpu samples = Inr e" "median_usize (map rs_bytes samples) = Some med"
    using series_of_returns median_return ne by (metis Nil_is_map_conv)
  then show ?thesis by (simp add: raw_summary_def and_then_def expect_some_def)
qed

lemma raw_anchor_Inr:
  "raw_anchor K bld dir = Inr verifier \<longleftrightarrow> (\<exists>c. load_committee K dir ''anchor.bin'' = Inr c \<and> length (members c) = N_MEMBERS bld
     \<and> threshold c = T bld \<and> verifier = \<lparr>v_committee = c\<rparr>)"
  by (auto simp: raw_anchor_def load_committee_def return_iff)

lemma run_fixture_verifier_Inr:
  "run_fixture_verifier K X clock bld dir = Inr code \<longleftrightarrow>
     (\<exists>c entries controls. load_committee K dir ''anchor.bin'' = Inr c \<and> length (members c) = N_MEMBERS bld \<and> threshold c = T bld
        \<and> dir_entries dir = Inr entries \<and> length (prefixed entries ''raw-update-'') = N_UPDATES
        \<and> list_all (raw_verifies K X c dir) (prefixed entries ''raw-update-'') \<and> raw_fixture_controls K bld dir = Inr controls
        \<and> code = (if list_all (\<lambda>r. \<not> raw_accepts K X c r) controls then 0 else 1))"
  (is "?run \<longleftrightarrow> ?spec")
proof
  assume ?run
  then obtain verifier entries samples sizes controls where r: "raw_anchor K bld dir = Inr verifier" "dir_entries dir = Inr entries"
    "length (prefixed entries ''raw-update-'') = N_UPDATES"
    "each (raw_fixture_update K X clock verifier dir) (enumerate 0 (prefixed entries ''raw-update-'')) ([], ListSizes None) = Inr (samples, sizes)"
    "raw_fixture_controls K bld dir = Inr controls"
    "code = (if list_all (\<lambda>r. \<not> verify_status_list (k_bits K) X (blake2s_256 (k_hashes K)) verifier r) controls then 0 else 1)"
    by (auto simp: run_fixture_verifier_def ra_fixture_files_def return_iff Let_def split: sum.splits)
  obtain c where c: "load_committee K dir ''anchor.bin'' = Inr c" "length (members c) = N_MEMBERS bld" "threshold c = T bld" "verifier = \<lparr>v_committee = c\<rparr>"
    using r(1) unfolding raw_anchor_Inr by blast
  have "list_all (raw_verifies K X c dir) (prefixed entries ''raw-update-'')"
    using r(4) raw_fixture_updates_return [of K X clock c dir "enumerate 0 (prefixed entries ''raw-update-'')"] unfolding c(4) list_all_enumerate by blast
  then show ?spec using c r(2,3,5,6) by (intro exI [of _ c] exI [of _ entries] exI [of _ controls]) (simp add: raw_accepts_def)
next
  assume ?spec
  then obtain c entries controls where s: "load_committee K dir ''anchor.bin'' = Inr c" "length (members c) = N_MEMBERS bld" "threshold c = T bld"
    "dir_entries dir = Inr entries" "length (prefixed entries ''raw-update-'') = N_UPDATES" "list_all (raw_verifies K X c dir) (prefixed entries ''raw-update-'')"
    "raw_fixture_controls K bld dir = Inr controls" "code = (if list_all (\<lambda>r. \<not> raw_accepts K X c r) controls then 0 else 1)"
    by blast
  have anchor: "raw_anchor K bld dir = Inr \<lparr>v_committee = c\<rparr>" using s(1-3) by (simp add: raw_anchor_Inr)
  obtain samples sizes where loop: "each (raw_fixture_update K X clock \<lparr>v_committee = c\<rparr> dir) (enumerate 0 (prefixed entries ''raw-update-''))
      ([], ListSizes None) = Inr (samples, sizes)"
    using s(6) raw_fixture_updates_return [of K X clock c dir "enumerate 0 (prefixed entries ''raw-update-'')" "([], ListSizes None)"]
    unfolding list_all_enumerate by (metis prod.exhaust)
  have "length samples = N_UPDATES" using raw_fixture_updates_length [OF loop] s(5) by simp
  then have "samples \<noteq> []" by (auto simp: N_UPDATES_def)
  then obtain sm where "raw_summary samples = Inr sm" using raw_summary_returns by blast
  then show ?run using anchor loop s(4,5,7,8)
    by (auto simp: run_fixture_verifier_def ra_fixture_files_def raw_accepts_def and_then_def assert_that_def Let_def)
qed

section \<open>An example fixture\<close>

text \<open>A corpus of one record, and of that record with its signatures moved to the next slot.\<close>

definition round_signed_at :: "u32 \<Rightarrow> (bool list, 32 barr \<times> 32 barr \<times> u32) status_list" where
  "round_signed_at slot = (let m = message_for version_hash example_committee WotsXmss [numbered_key 9] 1 in
     \<lparr>sl_alg = WotsXmss, sl_status_list = [numbered_key 9], sl_version = 1, sl_signers = [True, False, True],
      sl_signatures = [(numbered_key 0, m, slot), (numbered_key 2, m, slot)]\<rparr>)"

definition two_record_wire :: "(bool list, 32 barr \<times> 32 barr \<times> u32) raw_wire ssz" where
  "two_record_wire = \<lparr>as_ssz_bytes = (\<lambda>w. if w = \<lparr>rw_alg = algorithm_tag WotsXmss, rw_status_list = [numbered_key 9], rw_version = 1,
        rw_signers = [True, False, True], rw_signatures = sl_signatures (round_signed_at 44)\<rparr> then [7] else [6]),
     from_ssz_bytes = (\<lambda>b. if b = [7] \<or> b = [6] then Inr \<lparr>rw_alg = algorithm_tag WotsXmss, rw_status_list = [numbered_key 9], rw_version = 1,
        rw_signers = [True, False, True], rw_signatures = sl_signatures (round_signed_at (if b = [7] then 44 else 45))\<rparr>
       else Inl ''InvalidByteLength'')\<rparr>"

definition baseline_env where
  "baseline_env = example_env\<lparr>k_hashes := \<lparr>sha3_256 = fold_hash, blake2s_256 = version_hash\<rparr>, k_raw_ssz := two_record_wire\<rparr>"

definition baseline_fixture :: directory where
  "baseline_fixture = \<lparr>dir_entries = Inr (map (Inr \<circ> raw_update_name) [0..<N_UPDATES]),
     dir_read = (\<lambda>n. if n = ''anchor.bin'' then Inr (committee_to_bytes reference_codecs example_committee)
       else Inr [if n = ''raw-attack-outsider.bin'' \<or> n = ''raw-attack-slot.bin'' then 6 else 7])\<rparr>"


lemma baseline_env_parts [simp]:
  "k_hashes baseline_env = \<lparr>sha3_256 = fold_hash, blake2s_256 = version_hash\<rparr>" "k_raw_ssz baseline_env = two_record_wire"
  "k_bits baseline_env = bools_bitlist MAX_COMMITTEE_SIZE" "k_anchor baseline_env = reference_codecs"
  by (simp_all add: baseline_env_def example_env_def)

lemma two_record_wire_decodes:
  "status_list_from_bytes (bools_bitlist N) two_record_wire [7] = Inr (round_signed_at 44)"
  "status_list_from_bytes (bools_bitlist N) two_record_wire [6] = Inr (round_signed_at 45)"
  by (simp_all add: status_list_from_bytes_def two_record_wire_def round_signed_at_def Let_def signer_count_def bools_bitlist_def algorithm_from_tag_def algorithm_tag_def)

lemma round_signed_at_fields:
  "record_pairs (bools_bitlist N) (round_signed_at slot)
     = [(0, numbered_key 0, message_for version_hash example_committee WotsXmss [numbered_key 9] 1, slot),
        (2, numbered_key 2, message_for version_hash example_committee WotsXmss [numbered_key 9] 1, slot)]"
  "sl_alg (round_signed_at slot) = WotsXmss" "sl_status_list (round_signed_at slot) = [numbered_key 9]" "sl_version (round_signed_at slot) = 1"
  "signer_indices (bools_bitlist N) (round_signed_at slot) = [0, 2]"
  "signer_slots (bools_bitlist N) (round_signed_at slot) = 3" "signer_count (bools_bitlist N) (round_signed_at slot) = 2"
  by (simp_all add: record_pairs_def signer_indices_def bit_indices_def bools_bitlist_def round_signed_at_def Let_def upt_rec signer_slots_def signer_count_def enumerate_eq_zip)

lemma round_quorum:
  "quorum_signed plain_xmss version_hash example_committee WotsXmss [numbered_key 9] 1 (record_pairs (bools_bitlist N) (round_signed_at slot)) \<longleftrightarrow> slot = 44"
  "\<not> quorum_signed plain_xmss version_hash example_committee WotsXmss [numbered_key 9, e] 1 (record_pairs (bools_bitlist N) (round_signed_at slot))"
  "\<not> quorum_signed plain_xmss version_hash example_committee WotsXmss [numbered_key 9] 2 (record_pairs (bools_bitlist N) (round_signed_at 44))"
proof -
  have eq: "bytes_of a = bytes_of b" if "a = b" for a b :: "32 barr" using that by simp
  have longer: "message_for version_hash example_committee WotsXmss [numbered_key 9, e] 1 \<noteq> message_for version_hash example_committee WotsXmss [numbered_key 9] 1"
    using le_nat_inj [of 155 8 123]
    by (auto dest!: eq simp: message_for_def status_list_message_def version_hash_statement MESSAGE_CONTEXT_def as_bytes_def u64_to_le_def)
  show "quorum_signed plain_xmss version_hash example_committee WotsXmss [numbered_key 9] 1 (record_pairs (bools_bitlist N) (round_signed_at slot)) \<longleftrightarrow> slot = 44"
    by (auto simp: quorum_signed_def round_signed_at_fields slot_for_Some example_committee_def example_members_def plain_xmss_def word_unat_eq_iff)
  show "\<not> quorum_signed plain_xmss version_hash example_committee WotsXmss [numbered_key 9, e] 1 (record_pairs (bools_bitlist N) (round_signed_at slot))"
    using longer [THEN not_sym] by (simp add: quorum_signed_def round_signed_at_fields plain_xmss_def)
  show "\<not> quorum_signed plain_xmss version_hash example_committee WotsXmss [numbered_key 9] 2 (record_pairs (bools_bitlist N) (round_signed_at 44))"
    by (simp add: quorum_signed_def round_signed_at_fields slot_for_Some example_committee_def plain_xmss_def)
qed

lemma raw_accepts_round: "raw_accepts baseline_env plain_xmss example_committee (round_signed_at slot) \<longleftrightarrow> slot = 44"
  using round_quorum(1) [of MAX_COMMITTEE_SIZE slot]
  by (auto simp: raw_accepts_def verify_status_list_iff [OF bools_bitlist_laws] round_signed_at_fields example_committee_def example_members_def)
    (simp add: round_signed_at_def Let_def)

section \<open>The verdict is exact\<close>

text \<open>
  C39. The raw baseline's verdict over a fixture is exact. It ends with an exit status, rather than a
  panic, exactly when the anchor decodes to a committee of the build's size and threshold, the
  listing has \<open>N_UPDATES\<close> updates, every one of them decodes and is accepted by the raw predicate,
  the honest control decodes and names members of the build only, the outsider's and the slot
  control decode, and the honest control with its last bit flipped decodes to a record that differs
  in its signatures only. The status is failure exactly when the honest signatures pass as a quorum
  for the list with the fake revocation or for the next version, or one of the three records is
  accepted; the short control, one signature below the threshold, never is.
\<close>

theorem raw_baseline_verdict_is_exact:
  assumes "bitlist_laws MAX_COMMITTEE_SIZE (k_bits K)" and "N_MEMBERS bld \<le> MAX_COMMITTEE_SIZE"
  shows "run_fixture_verifier K X clock bld dir = Inr code \<longleftrightarrow>
     (\<exists>c entries wire honest outsider slot corrupted.
        load_committee K dir ''anchor.bin'' = Inr c \<and> length (members c) = N_MEMBERS bld \<and> threshold c = T bld
        \<and> dir_entries dir = Inr entries \<and> length (prefixed entries ''raw-update-'') = N_UPDATES
        \<and> list_all (raw_verifies K X c dir) (prefixed entries ''raw-update-'')
        \<and> dir_read dir ''raw-attack-honest.bin'' = Inr wire \<and> status_list_from_bytes (k_bits K) (k_raw_ssz K) wire = Inr honest
        \<and> list_all (\<lambda>p. fst p < N_MEMBERS bld) (record_pairs (k_bits K) honest)
        \<and> decodes_to K dir ''raw-attack-outsider.bin'' outsider \<and> decodes_to K dir ''raw-attack-slot.bin'' slot
        \<and> bit_flipped K wire honest corrupted
        \<and> code = (if quorum_signed X (blake2s_256 (k_hashes K)) c (sl_alg honest)
                        (sl_status_list honest @ [hash_any (sha3_256 (k_hashes K)) (as_bytes ''FAKE-REVOCATION'')]) (sl_version honest) (record_pairs (k_bits K) honest)
                    \<or> quorum_signed X (blake2s_256 (k_hashes K)) c (sl_alg honest) (sl_status_list honest) (sl_version honest + 1) (record_pairs (k_bits K) honest)
                    \<or> raw_accepts K X c outsider \<or> raw_accepts K X c slot \<or> raw_accepts K X c corrupted
                   then 1 else 0))"
  (is "_ \<longleftrightarrow> ?spec")
proof -
  let ?blake = "blake2s_256 (k_hashes K)" and ?pairs = "record_pairs (k_bits K)" and ?N = "N_MEMBERS bld"
  note sorted = record_pairs_sorted(1) [OF assms(1)] and short = record_pairs_sorted(2) [OF assms(1)]
  have few: "\<not> quorum_signed X ?blake c alg xs v (take (T bld - 1) ps)" if "threshold c = T bld" for c alg xs v ps
    using that by (auto simp: quorum_signed_def)
  note made = made_record [OF assms]
  show ?thesis
  proof
    assume "run_fixture_verifier K X clock bld dir = Inr code"
    then obtain c entries wire honest tampered relabelled short_record outsider slot corrupted where r:
      "load_committee K dir ''anchor.bin'' = Inr c" "length (members c) = ?N" "threshold c = T bld" "dir_entries dir = Inr entries"
      "length (prefixed entries ''raw-update-'') = N_UPDATES" "list_all (raw_verifies K X c dir) (prefixed entries ''raw-update-'')"
      "dir_read dir ''raw-attack-honest.bin'' = Inr wire" "status_list_from_bytes (k_bits K) (k_raw_ssz K) wire = Inr honest"
      and new: "status_list_new (k_bits K) (sl_alg honest) (sl_status_list honest @ [fake_revocation (sha3_256 (k_hashes K))]) (sl_version honest) ?N (?pairs honest) = Inr tampered"
        "status_list_new (k_bits K) (sl_alg honest) (sl_status_list honest) (sl_version honest + 1) ?N (?pairs honest) = Inr relabelled"
        "status_list_new (k_bits K) (sl_alg honest) (sl_status_list honest) (sl_version honest) ?N (take (T bld - 1) (?pairs honest)) = Inr short_record"
      and more: "decodes_to K dir ''raw-attack-outsider.bin'' outsider" "decodes_to K dir ''raw-attack-slot.bin'' slot" "bit_flipped K wire honest corrupted"
      and code: "code = (if list_all (\<lambda>r. \<not> raw_accepts K X c r) [tampered, relabelled, short_record, outsider, slot, corrupted] then 0 else 1)"
      unfolding run_fixture_verifier_Inr raw_fixture_controls_Inr by blast
    have "list_all (\<lambda>p. fst p < ?N) (?pairs honest)" using made(1) [OF sorted] new(1) by blast
    moreover have "\<not> raw_accepts K X c short_record"
      unfolding raw_accepts_def made(2) [OF short new(3) r(2)] by (rule few [OF r(3)])
    moreover have "raw_accepts K X c tampered \<longleftrightarrow> quorum_signed X ?blake c (sl_alg honest)
        (sl_status_list honest @ [fake_revocation (sha3_256 (k_hashes K))]) (sl_version honest) (?pairs honest)"
      unfolding raw_accepts_def by (rule made(2) [OF sorted new(1) r(2)])
    moreover have "raw_accepts K X c relabelled \<longleftrightarrow> quorum_signed X ?blake c (sl_alg honest) (sl_status_list honest) (sl_version honest + 1) (?pairs honest)"
      unfolding raw_accepts_def by (rule made(2) [OF sorted new(2) r(2)])
    ultimately show ?spec using r more code
      by (intro exI [of _ c] exI [of _ entries] exI [of _ wire] exI [of _ honest] exI [of _ outsider] exI [of _ slot] exI [of _ corrupted])
        (simp add: fake_revocation_def)
  next
    assume ?spec
    then obtain c entries wire honest outsider slot corrupted where r:
      "load_committee K dir ''anchor.bin'' = Inr c" "length (members c) = ?N" "threshold c = T bld" "dir_entries dir = Inr entries"
      "length (prefixed entries ''raw-update-'') = N_UPDATES" "list_all (raw_verifies K X c dir) (prefixed entries ''raw-update-'')"
      "dir_read dir ''raw-attack-honest.bin'' = Inr wire" "status_list_from_bytes (k_bits K) (k_raw_ssz K) wire = Inr honest"
      "list_all (\<lambda>p. fst p < ?N) (?pairs honest)"
      and more: "decodes_to K dir ''raw-attack-outsider.bin'' outsider" "decodes_to K dir ''raw-attack-slot.bin'' slot" "bit_flipped K wire honest corrupted"
      and code: "code = (if quorum_signed X ?blake c (sl_alg honest) (sl_status_list honest @ [fake_revocation (sha3_256 (k_hashes K))]) (sl_version honest) (?pairs honest)
          \<or> quorum_signed X ?blake c (sl_alg honest) (sl_status_list honest) (sl_version honest + 1) (?pairs honest)
          \<or> raw_accepts K X c outsider \<or> raw_accepts K X c slot \<or> raw_accepts K X c corrupted then 1 else 0)"
      unfolding fake_revocation_def by blast
    have taken: "list_all (\<lambda>p. fst p < ?N) (take (T bld - 1) (?pairs honest))"
      using r(9) by (auto simp: list_all_iff dest: in_set_takeD)
    note makes = iffD2 [OF made(1) [OF sorted] r(9)]
    obtain tampered where t: "status_list_new (k_bits K) (sl_alg honest) (sl_status_list honest @ [fake_revocation (sha3_256 (k_hashes K))])
        (sl_version honest) ?N (?pairs honest) = Inr tampered" using makes by blast
    obtain relabelled where l: "status_list_new (k_bits K) (sl_alg honest) (sl_status_list honest) (sl_version honest + 1) ?N (?pairs honest) = Inr relabelled"
      using makes by blast
    obtain short_record where s: "status_list_new (k_bits K) (sl_alg honest) (sl_status_list honest) (sl_version honest) ?N (take (T bld - 1) (?pairs honest)) = Inr short_record"
      using iffD2 [OF made(1) [OF short] taken] by blast
    note new = t l s
    have "raw_fixture_controls K bld dir = Inr [tampered, relabelled, short_record, outsider, slot, corrupted]"
      unfolding raw_fixture_controls_Inr using r(7,8) new more by blast
    moreover have "raw_accepts K X c tampered \<longleftrightarrow> quorum_signed X ?blake c (sl_alg honest)
        (sl_status_list honest @ [fake_revocation (sha3_256 (k_hashes K))]) (sl_version honest) (?pairs honest)"
      unfolding raw_accepts_def by (rule made(2) [OF sorted new(1) r(2)])
    moreover have "raw_accepts K X c relabelled \<longleftrightarrow> quorum_signed X ?blake c (sl_alg honest) (sl_status_list honest) (sl_version honest + 1) (?pairs honest)"
      unfolding raw_accepts_def by (rule made(2) [OF sorted new(2) r(2)])
    moreover have "\<not> raw_accepts K X c short_record"
      unfolding raw_accepts_def made(2) [OF short new(3) r(2)] by (rule few [OF r(3)])
    ultimately have "code = (if list_all (\<lambda>r. \<not> raw_accepts K X c r) [tampered, relabelled, short_record, outsider, slot, corrupted] then 0 else 1)"
      unfolding code by simp
    with r(1-6) \<open>raw_fixture_controls K bld dir = _\<close> show "run_fixture_verifier K X clock bld dir = Inr code"
      unfolding run_fixture_verifier_Inr by blast
  qed
qed

theorem raw_baseline_verdict_is_exact_witness:
  "run_fixture_verifier baseline_env plain_xmss still_clock \<lparr>N_MEMBERS = 3, T = 2\<rparr> baseline_fixture = Inr 0"
proof -
  let ?names = "prefixed (map (Inr \<circ> raw_update_name) [0..<N_UPDATES]) ''raw-update-''"
  have laws: "bitlist_laws MAX_COMMITTEE_SIZE (k_bits baseline_env)" using bools_bitlist_laws by simp
  have names: "length ?names = N_UPDATES" by code_simp
  have load: "load_committee baseline_env baseline_fixture ''anchor.bin'' = Inr example_committee"
    using example_anchor_decodes by (simp add: load_committee_def baseline_fixture_def example_anchor_def return_iff)
  have reads: "decodes_to baseline_env baseline_fixture n (round_signed_at 44)" "dir_read baseline_fixture n = Inr [7]"
    if "n \<notin> {''anchor.bin'', ''raw-attack-outsider.bin'', ''raw-attack-slot.bin''}" for n
    using that two_record_wire_decodes(1) by (simp_all add: decodes_to_def baseline_fixture_def)
  have "n \<notin> {''anchor.bin'', ''raw-attack-outsider.bin'', ''raw-attack-slot.bin''}" if "n \<in> set ?names" for n
    using that by (auto simp: prefixed_set starts_with_def)
  then have verified: "list_all (raw_verifies baseline_env plain_xmss example_committee baseline_fixture) ?names"
    using reads(1) raw_accepts_round [of 44] by (auto simp: list_all_iff raw_verifies_def)
  have moved: "decodes_to baseline_env baseline_fixture ''raw-attack-outsider.bin'' (round_signed_at 45)"
    "decodes_to baseline_env baseline_fixture ''raw-attack-slot.bin'' (round_signed_at 45)"
    using two_record_wire_decodes(2) by (simp_all add: decodes_to_def baseline_fixture_def)
  have flip: "bit_flipped baseline_env [7] (round_signed_at 44) (round_signed_at 45)"
    by (simp add: bit_flipped_def round_signed_at_fields two_record_wire_decodes)
      (simp add: status_list_to_bytes_def two_record_wire_def round_signed_at_def Let_def)
  have size: "N_MEMBERS \<lparr>N_MEMBERS = 3, T = 2\<rparr> \<le> MAX_COMMITTEE_SIZE" by (simp add: MAX_COMMITTEE_SIZE_def)
  have n: "length (members example_committee) = N_MEMBERS \<lparr>N_MEMBERS = 3, T = 2\<rparr>" "threshold example_committee = T \<lparr>N_MEMBERS = 3, T = 2\<rparr>"
    by (simp_all add: example_committee_def example_members_def)
  have listing: "dir_entries baseline_fixture = Inr (map (Inr \<circ> raw_update_name) [0..<N_UPDATES])" by (simp add: baseline_fixture_def)
  have honest: "dir_read baseline_fixture ''raw-attack-honest.bin'' = Inr [7]"
    "status_list_from_bytes (k_bits baseline_env) (k_raw_ssz baseline_env) [7] = Inr (round_signed_at 44)"
    using reads(2) two_record_wire_decodes(1) by simp_all
  have bound: "list_all (\<lambda>p. fst p < N_MEMBERS \<lparr>N_MEMBERS = 3, T = 2\<rparr>) (record_pairs (k_bits baseline_env) (round_signed_at 44))"
    by (simp add: round_signed_at_fields)
  show ?thesis
    by (rule iffD2 [OF raw_baseline_verdict_is_exact [OF laws size]], intro exI conjI, rule load, rule n, rule n, rule listing, rule names, rule verified,
        rule honest, rule honest, rule bound, rule moved, rule moved, rule flip)
      (simp add: round_signed_at_fields(2-4) round_quorum raw_accepts_round)
qed

end
