(* ===== verification/Mldsa_Bins.thy ===== *)
theory Mldsa_Bins
  imports Root_Main Mldsa
begin

text \<open>
  The ML-DSA measurement binaries (mldsa/src/bin): their shared support, the fixture generator, the
  raw verifier and the single-member signer. Memory figures, CPU time and printing are left out;
  clock readings are inputs.

  The lemmas show that the workload is the one of the XMSS binaries, that the verifier ends without a
  panic exactly when the fixture is what it should be and every control is rejected, and that the
  signer's every signature verified.
\<close>

section \<open>Support\<close>

definition MAX_UPDATES :: usize where "MAX_UPDATES = 64"

definition ml_fingerprint :: "(bytes \<Rightarrow> 32 barr) \<Rightarrow> u32 \<Rightarrow> 32 barr" where
  "ml_fingerprint sha3 index = sha3 (as_bytes ''decentralized-root-of-trust/ml-dsa-benchmark-entry/v1'' @ [0] @ u32_to_le index)"

definition ML_MAX_LIST_ENTRIES :: usize where "ML_MAX_LIST_ENTRIES = 2 ^ 20"

definition ml_list_entries_from_env :: "ustr option \<Rightarrow> (panic, usize option) result" where
  "ml_list_entries_from_env var =
     (case var of
        None \<Rightarrow> Inr None
      | Some raw \<Rightarrow>
          if raw = [] then Inr None
          else (case parse_unsigned usize_max raw of
                  Inr entries \<Rightarrow> if 1 \<le> entries \<and> entries \<le> ML_MAX_LIST_ENTRIES then Inr (Some entries)
                                 else Inl (Panic ''BENCH_LIST_ENTRIES must be an integer in its range'')
                | Inl e \<Rightarrow> Inl (Panic ''BENCH_LIST_ENTRIES must be an integer in its range'')))"

text \<open>Fresh entries are numbered; the number wraps, as in a release build.\<close>

definition numbered_entry :: "(bytes \<Rightarrow> 32 barr) \<Rightarrow> u32 \<Rightarrow> 32 barr \<times> u32" where
  "numbered_entry sha3 next_entry = (ml_fingerprint sha3 next_entry, next_entry + 1)"

definition ml_advance_list ::
  "(bytes \<Rightarrow> 32 barr) \<Rightarrow> usize \<Rightarrow> usize option \<Rightarrow> 32 barr list \<Rightarrow> u32 \<Rightarrow> (panic, 32 barr list \<times> u32) result" where
  "ml_advance_list sha3 version fixed xs next_entry =
     (case fixed of
        None \<Rightarrow> Inr (xs @ [ml_fingerprint sha3 next_entry], next_entry + 1)
      | Some len \<Rightarrow>
          if length xs \<noteq> len then Inr (draw (numbered_entry sha3) len next_entry)
          else if len = 0 then Inl (Panic ''attempt to calculate the remainder with a divisor of zero'')
          else Inr (xs[usize_wrapping_pred version mod len := ml_fingerprint sha3 next_entry], next_entry + 1))"

definition ML_QUORUM_SELECTION :: string where "ML_QUORUM_SELECTION = ''spread-splitmix64-v1''"

definition ml_workload_manifest :: "usize option \<Rightarrow> string" where
  "ml_workload_manifest entries =
     (let shown = (case entries of None \<Rightarrow> ''growing'' | Some len \<Rightarrow> show_nat len)
      in ''list_entries='' @ shown @ line_end @ ''quorum='' @ ML_QUORUM_SELECTION @ line_end)"

text \<open>The shuffle, with the closure's state as an argument.\<close>

fun ml_shuffle :: "usize \<Rightarrow> nat \<Rightarrow> usize \<Rightarrow> u64 \<Rightarrow> usize list \<Rightarrow> usize list" where
  "ml_shuffle n 0 pos state xs = xs"
| "ml_shuffle n (Suc k) pos state xs =
     (let state' = state + 0x9E3779B97F4A7C15;
          z1 = (state' XOR drop_bit 30 state') * 0xBF58476D1CE4E5B9;
          z2 = (z1 XOR drop_bit 27 z1) * 0x94D049BB133111EB;
          next = z2 XOR drop_bit 31 z2;
          pick = pos + unat (next mod word_of_nat (n - pos))
      in ml_shuffle n k (pos + 1) state' (swap pos pick xs))"

definition ml_quorum_indices :: "usize \<Rightarrow> usize \<Rightarrow> u32 \<Rightarrow> (panic, usize list) result" where
  "ml_quorum_indices n t version =
     and_then (assert_that ''quorum exceeds committee'' (t \<le> n)) (\<lambda>_.
     let state = 0x9E3779B97F4A7C15 XOR (ucast version * 0xD6E8FEB86659FD93)
     in Inr (take t (ml_shuffle n t 0 state [0..<n])))"

definition parse_count :: "ustr \<Rightarrow> usize \<Rightarrow> (panic, usize) result" where
  "parse_count arg most =
     and_then (expect ''must be a positive decimal integer'' (parse_unsigned usize_max arg)) (\<lambda>value.
     and_then (assert_that ''must lie in its range'' (1 \<le> value \<and> value \<le> most)) (\<lambda>_. Inr value))"

record ml_summary =
  sm_count :: usize
  sm_min :: real
  sm_median :: real
  sm_max :: real
  sm_mean :: real
  sm_sd :: real
  sm_total :: real

definition ml_summary_of :: "real list \<Rightarrow> (panic, ml_summary) result" where
  "ml_summary_of values =
     and_then (assert_that ''cannot summarize an empty measurement series'' (values \<noteq> [])) (\<lambda>_.
     let sorted = sort values; count = length sorted; middle = count div 2;
         median = (if count mod 2 = 0 then (sorted ! (middle - 1) + sorted ! middle) / 2 else sorted ! middle);
         tot = sum_list sorted; mean = tot / real count;
         sd = (if count < 2 then 0 else sqrt (sum_list (map (\<lambda>x. (x - mean) ^ 2) sorted) / real (count - 1)))
     in Inr \<lparr>sm_count = count, sm_min = sorted ! 0, sm_median = median, sm_max = sorted ! (count - 1),
             sm_mean = mean, sm_sd = sd, sm_total = tot\<rparr>)"

text \<open>The libraries of these binaries: the hash of the entries beside those of the protocol.\<close>

type_synonym 'b ml_libs = "(bytes \<Rightarrow> 32 barr) \<times> 'b ml_env"

section \<open>Processes\<close>

text \<open>The files written, and the number of draws from the random source.\<close>

record ml_job =
  mj_files :: "(string \<times> bytes) list"
  mj_draws :: nat

record 'rng ml_world =
  mlw_tape :: "nat \<Rightarrow> 'rng"
  mlw_mkdir_fails :: bool
  mlw_write :: "string \<Rightarrow> file_fault"

definition ml_draw :: "('rng ml_world) \<Rightarrow> ('rng \<Rightarrow> (panic, 'a) result) \<Rightarrow> (ml_job, 'a) process" where
  "ml_draw w f s = (f (mlw_tape w (mj_draws s)), s\<lparr>mj_draws := mj_draws s + 1\<rparr>)"

definition ml_keygen ::
  "('pk, 'sk, 'sig, 'rng) mldsa \<Rightarrow> 'rng ml_world \<Rightarrow> string \<Rightarrow> (ml_job, 'sk ml_signer) process" where
  "ml_keygen M w msg = ml_draw w (\<lambda>rng. expect msg (ml_generate M rng))"

definition ml_signature ::
  "('pk, 'sk, 'sig, 'rng) mldsa \<Rightarrow> 'rng ml_world \<Rightarrow> string \<Rightarrow> 'sk ml_signer \<Rightarrow> bytes \<Rightarrow> (ml_job, 'sig) process" where
  "ml_signature M w msg signer message = ml_draw w (\<lambda>rng. expect msg (ml_sign M rng signer message))"

text \<open>\<open>create_new\<close>: a name that exists is refused.\<close>

definition write_new :: "'rng ml_world \<Rightarrow> string \<Rightarrow> bytes \<Rightarrow> (ml_job, unit) process" where
  "write_new w name bs s =
     (if map_of (mj_files s) name \<noteq> None \<or> mlw_write w name = FileNotOpened then (Inl (Panic ''cannot create''), s)
      else case mlw_write w name of
             FilePartial k \<Rightarrow> (Inl (Panic ''cannot write''), s\<lparr>mj_files := mj_files s @ [(name, take k bs)]\<rparr>)
           | _ \<Rightarrow> (Inr (), s\<lparr>mj_files := mj_files s @ [(name, bs)]\<rparr>))"

section \<open>The fixture generator\<close>

fun ml_quorum_signatures ::
  "('pk, 'sk, 'sig, 'rng) mldsa \<Rightarrow> 'rng ml_world \<Rightarrow> 'sk ml_signer list \<Rightarrow> usize list \<Rightarrow> bytes \<Rightarrow> (ml_job, (usize \<times> 'sig) list) process" where
  "ml_quorum_signatures M w signers [] message s = (Inr [], s)"
| "ml_quorum_signatures M w signers (i # is) message s =
     seq (lift (assert_that ''index out of bounds'' (i < length signers))) (\<lambda>_.
     seq (ml_signature M w ''ML-DSA signing failed'' (signers ! i) message) (\<lambda>sig.
     seq (ml_quorum_signatures M w signers is message) (\<lambda>rest.
     lift (Inr ((i, sig) # rest))))) s"

definition ml_signed_record ::
  "'b ml_libs \<Rightarrow> ('pk, 'sk, 'sig, 'rng) mldsa \<Rightarrow> 'rng ml_world \<Rightarrow> 'pk ml_committee \<Rightarrow> 'sk ml_signer list \<Rightarrow> 32 barr list \<Rightarrow> u32
    \<Rightarrow> (ml_job, ('b, 'sig) ml_status_list) process" where
  "ml_signed_record E M w c signers xs version =
     (let message = bytes_of (statement_for (snd E) c xs version); n = length (ml_members c) in
     seq (lift (ml_quorum_indices n (ml_threshold c) version)) (\<lambda>quorum.
     seq (ml_quorum_signatures M w signers quorum message) (\<lambda>signatures.
     lift (expect ''fixture record construction failed'' (ml_new (snd E) xs version n signatures)))))"

definition five_digits :: "nat \<Rightarrow> string" where
  "five_digits i = (let d = show_nat i in replicate (5 - length d) CHR ''0'' @ d)"

definition ml_update_name :: "nat \<Rightarrow> string" where
  "ml_update_name i = ''update-'' @ five_digits i @ ''.ssz''"

definition ml_manifest :: "usize \<Rightarrow> usize \<Rightarrow> usize \<Rightarrow> string" where
  "ml_manifest n t updates = ''N='' @ show_nat n @ line_end @ ''t='' @ show_nat t @ line_end @ ''updates='' @ show_nat updates @ line_end"

text \<open>One update: the list, the next number and the bytes of the first record.\<close>

definition ml_fixture_update ::
  "'b ml_libs \<Rightarrow> ('pk, 'sk, 'sig, 'rng) mldsa \<Rightarrow> 'rng ml_world \<Rightarrow> 'pk ml_committee \<Rightarrow> 'sk ml_signer list \<Rightarrow> usize option \<Rightarrow> nat
    \<Rightarrow> (32 barr list \<times> u32) \<times> bytes option \<Rightarrow> (ml_job, (32 barr list \<times> u32) \<times> bytes option) process" where
  "ml_fixture_update E M w c signers entries version st =
     seq (lift (ml_advance_list (fst E) version entries (fst (fst st)) (snd (fst st)))) (\<lambda>(xs, next_entry).
     seq (ml_signed_record E M w c signers xs (word_of_nat version)) (\<lambda>r.
     let bs = ml_to_bytes (snd E) M r in
     seq (write_new w (ml_update_name version) bs) (\<lambda>_.
     lift (Inr ((xs, next_entry), if version = 0 then Some bs else snd st)))))"

text \<open>The negative control: a valid signature of an outsider, labelled as the first signer's.\<close>

definition ml_outsider_control ::
  "'b ml_libs \<Rightarrow> ('pk, 'sk, 'sig, 'rng) mldsa \<Rightarrow> 'rng ml_world \<Rightarrow> 'pk ml_committee \<Rightarrow> usize \<Rightarrow> bytes option \<Rightarrow> (ml_job, unit) process" where
  "ml_outsider_control E M w c n first_record =
     seq (lift (expect_some ''at least one update is required'' first_record)) (\<lambda>bs.
     seq (lift (expect ''first fixture record did not decode'' (ml_from_bytes (snd E) M bs))) (\<lambda>first.
     let message = bytes_of (statement_for (snd E) c (ms_status_list first) (ms_version first)) in
     seq (ml_keygen M w ''outsider key generation failed'') (\<lambda>outsider.
     seq (ml_signature M w ''outsider signing failed'' outsider message) (\<lambda>outsider_signature.
     let indexed = zip (ml_signer_indices (snd E) first) (ms_signatures first) in
     seq (lift (assert_that ''index out of bounds'' (indexed \<noteq> []))) (\<lambda>_.
     seq (lift (expect ''outsider control construction failed''
            (ml_new (snd E) (ms_status_list first) (ms_version first) n (indexed[0 := (fst (hd indexed), outsider_signature)])))) (\<lambda>r.
     write_new w ''attack-outsider.ssz'' (ml_to_bytes (snd E) M r)))))))"

text \<open>The arguments after the program name: the directory, which is the job's, then \<open>N\<close>, \<open>t\<close> and the number of updates.\<close>

definition mldsa_fixture ::
  "'b ml_libs \<Rightarrow> ('pk, 'sk, 'sig, 'rng) mldsa \<Rightarrow> 'rng ml_world \<Rightarrow> ustr list \<Rightarrow> ustr option \<Rightarrow> (ml_job, unit) process" where
  "mldsa_fixture E M w args entries_env =
     seq (lift (assert_that ''usage: mldsa_fixture'' (length args = 4))) (\<lambda>_.
     seq (lift (parse_count (args ! 1) ML_MAX_COMMITTEE_SIZE)) (\<lambda>n.
     seq (lift (parse_count (args ! 2) n)) (\<lambda>t.
     seq (lift (parse_count (args ! 3) MAX_UPDATES)) (\<lambda>updates.
     seq (lift (assert_that ''cannot create new fixture directory'' (\<not> mlw_mkdir_fails w))) (\<lambda>_.
     seq (steps (\<lambda>_ signers. seq (ml_keygen M w ''ML-DSA key generation failed'') (\<lambda>k. lift (Inr (signers @ [k])))) [0..<n] []) (\<lambda>signers.
     seq (lift (expect ''invalid committee'' (ml_committee_new (snd E) M (map (ml_public_key M) signers) t))) (\<lambda>c.
     seq (write_new w ''anchor.ssz'' (ml_committee_to_bytes (snd E) M c)) (\<lambda>_.
     seq (lift (ml_list_entries_from_env entries_env)) (\<lambda>entries.
     seq (steps (ml_fixture_update E M w c signers entries) [0..<updates] (([], 0), None)) (\<lambda>st.
     seq (ml_outsider_control E M w c n (snd st)) (\<lambda>_.
     seq (write_new w ''workload.txt'' (as_bytes (ml_workload_manifest entries))) (\<lambda>_.
     write_new w ''manifest.txt'' (as_bytes (ml_manifest n t updates))))))))))))))"

section \<open>The raw verifier\<close>

definition MAX_ANCHOR_FILE_BYTES :: nat where "MAX_ANCHOR_FILE_BYTES = 4 * 1024 * 1024"

definition read_bounded :: "directory \<Rightarrow> string \<Rightarrow> nat \<Rightarrow> (panic, bytes) result" where
  "read_bounded dir name limit =
     and_then (expect ''cannot stat or read'' (dir_read dir name)) (\<lambda>bs.
     and_then (assert_that ''fixture exceeds the allowed size'' (length bs \<le> limit)) (\<lambda>_. Inr bs))"

definition ml_indexed_signatures :: "'b ml_env \<Rightarrow> ('b, 'sig) ml_status_list \<Rightarrow> (usize \<times> 'sig) list" where
  "ml_indexed_signatures E r = zip (ml_signer_indices E r) (ms_signatures r)"

definition ml_corrupt_last_signature ::
  "'b ml_env \<Rightarrow> ('pk, 'sk, 'sig, 'rng) mldsa \<Rightarrow> bytes \<Rightarrow> ('b, 'sig) ml_status_list \<Rightarrow> (panic, ('b, 'sig) ml_status_list) result" where
  "ml_corrupt_last_signature E M bs honest =
     and_then (assert_that ''record has a signature'' (SIGNATURE_BYTES \<le> length bs)) (\<lambda>_.
     let first_byte = length bs - SIGNATURE_BYTES; corrupted = bs[first_byte := bs ! first_byte XOR 1] in
     and_then (expect ''changing a challenge-seed bit must preserve the record shape'' (ml_from_bytes E M corrupted)) (\<lambda>r.
     and_then (assert_that ''the signature control must differ from its honest record in a signature only''
       (ms_status_list r = ms_status_list honest \<and> ms_version r = ms_version honest
        \<and> ml_signer_indices E r = ml_signer_indices E honest \<and> ml_to_bytes E M r \<noteq> bs)) (\<lambda>_.
     Inr r)))"

text \<open>The controls in the order they are made: tampered, relabelled, short, outsider and signature.\<close>

definition ml_controls ::
  "'b ml_env \<Rightarrow> ('pk, 'sk, 'sig, 'rng) mldsa \<Rightarrow> 'pk ml_committee \<Rightarrow> directory \<Rightarrow> (panic, ('b, 'sig) ml_status_list list) result" where
  "ml_controls E M c dir =
     and_then (read_bounded dir ''update-00000.ssz'' MAX_RECORD_BYTES) (\<lambda>bs.
     and_then (expect ''invalid first fixture record'' (ml_from_bytes E M bs)) (\<lambda>honest.
     and_then (assert_that ''assertion failed: verifier.verify_status_list(&honest)'' (ml_verify_status_list E M c honest)) (\<lambda>_.
     let n = length (ml_members c); t = ml_threshold c; signatures = ml_indexed_signatures E honest;
         changed_list = ms_status_list honest @ [mk_barr (replicate 32 0xFF)] in
     and_then (expect ''unwrap'' (ml_new E changed_list (ms_version honest) n signatures)) (\<lambda>tampered.
     and_then (expect ''unwrap'' (ml_new E (ms_status_list honest) (ms_version honest + 1) n signatures)) (\<lambda>relabelled.
     and_then (expect ''unwrap'' (ml_new E (ms_status_list honest) (ms_version honest) n (take (t - 1) signatures))) (\<lambda>short.
     and_then (read_bounded dir ''attack-outsider.ssz'' MAX_RECORD_BYTES) (\<lambda>outsider_bytes.
     and_then (expect ''invalid outsider fixture record'' (ml_from_bytes E M outsider_bytes)) (\<lambda>outsider.
     and_then (ml_corrupt_last_signature E M bs honest) (\<lambda>signature.
     Inr [tampered, relabelled, short, outsider, signature])))))))))"

definition negative_controls ::
  "'b ml_env \<Rightarrow> ('pk, 'sk, 'sig, 'rng) mldsa \<Rightarrow> 'pk ml_committee \<Rightarrow> directory \<Rightarrow> (panic, bool) result" where
  "negative_controls E M c dir =
     and_then (ml_controls E M c dir) (\<lambda>controls. Inr (list_all (\<lambda>r. \<not> ml_verify_status_list E M c r) controls))"

text \<open>One update; the clock is read at the start, after decoding, around the predicate and at the end.\<close>

definition ml_raw_update ::
  "'b ml_env \<Rightarrow> ('pk, 'sk, 'sig, 'rng) mldsa \<Rightarrow> (nat \<Rightarrow> nat \<times> nat \<times> nat \<times> nat \<times> nat) \<Rightarrow> 'pk ml_committee \<Rightarrow> directory
    \<Rightarrow> nat \<Rightarrow> (real \<times> real \<times> real \<times> real) list \<times> list_sizes \<Rightarrow> (panic, (real \<times> real \<times> real \<times> real) list \<times> list_sizes) result" where
  "ml_raw_update E M clock c dir index st =
     and_then (read_bounded dir (ml_update_name index) MAX_RECORD_BYTES) (\<lambda>bs.
     and_then (expect ''invalid fixture record'' (ml_from_bytes E M bs)) (\<lambda>r.
     let accepted = ml_verify_status_list E M c r in
     and_then (assert_that ''fixture version mismatch'' (ms_version r = word_of_nat index)) (\<lambda>_.
     and_then (assert_that ''fixture quorum mismatch'' (ml_signer_count E r = ml_threshold c)) (\<lambda>_.
     and_then (assert_that ''honest fixture failed ML-DSA verification'' accepted) (\<lambda>_.
     case clock index of (start, decoded, verify, verified, total_end) \<Rightarrow>
     Inr (fst st @ [(ms (decoded - start), ms (verified - verify), ms (total_end - start), real (length bs))],
          record_size (length (ms_status_list r)) (snd st)))))))"

text \<open>The arguments after the program name: the directory and the number of updates.\<close>

definition mldsa_raw_agg ::
  "'b ml_env \<Rightarrow> ('pk, 'sk, 'sig, 'rng) mldsa \<Rightarrow> (nat \<Rightarrow> nat \<times> nat \<times> nat \<times> nat \<times> nat) \<Rightarrow> ustr list \<Rightarrow> directory
    \<Rightarrow> (panic, list_sizes) result" where
  "mldsa_raw_agg E M clock args dir =
     and_then (assert_that ''usage: mldsa_raw_agg'' (length args = 2)) (\<lambda>_.
     and_then (parse_count (args ! 1) MAX_UPDATES) (\<lambda>updates.
     and_then (read_bounded dir ''anchor.ssz'' MAX_ANCHOR_FILE_BYTES) (\<lambda>anchor_bytes.
     and_then (expect ''invalid fixture anchor'' (ml_committee_from_bytes E M anchor_bytes)) (\<lambda>c.
     and_then (read_bounded dir ''manifest.txt'' 128) (\<lambda>manifest_bytes.
     and_then (expect_some ''invalid fixture manifest'' (from_utf8 manifest_bytes)) (\<lambda>manifest.
     and_then (assert_that ''fixture N/t/update count differs from the requested run''
       (manifest_bytes = as_bytes (ml_manifest (length (ml_members c)) (ml_threshold c) updates))) (\<lambda>_.
     and_then (each (ml_raw_update E M clock c dir) [0..<updates] ([], ListSizes None)) (\<lambda>st.
     and_then (negative_controls E M c dir) (\<lambda>all_rejected.
     and_then (assert_that ''at least one ML-DSA negative control was accepted'' all_rejected) (\<lambda>_.
     and_then (ml_summary_of (map (\<lambda>(d, v, t, b). d) (fst st))) (\<lambda>_.
     and_then (ml_summary_of (map (\<lambda>(d, v, t, b). v) (fst st))) (\<lambda>_.
     and_then (ml_summary_of (map (\<lambda>(d, v, t, b). t) (fst st))) (\<lambda>_.
     and_then (ml_summary_of (map (\<lambda>(d, v, t, b). b) (fst st))) (\<lambda>_.
     Inr (snd st)))))))))))))))"

section \<open>The signer\<close>

definition ml_signer_round ::
  "'b ml_libs \<Rightarrow> ('pk, 'sk, 'sig, 'rng) mldsa \<Rightarrow> 'rng ml_world \<Rightarrow> (nat \<Rightarrow> nat \<times> nat) \<Rightarrow> usize option \<Rightarrow> 'pk ml_committee \<Rightarrow> 'sk ml_signer
    \<Rightarrow> nat \<Rightarrow> (32 barr list \<times> u32) \<times> real list \<times> list_sizes \<Rightarrow> (ml_job, (32 barr list \<times> u32) \<times> real list \<times> list_sizes) process" where
  "ml_signer_round E M w clock entries c signer index st =
     seq (lift (ml_advance_list (fst E) index entries (fst (fst st)) (snd (fst st)))) (\<lambda>(xs, next_entry).
     let sizes = record_size (length xs) (snd (snd st)); message = bytes_of (statement_for (snd E) c xs (word_of_nat index)) in
     seq (ml_signature M w ''ML-DSA signing failed'' signer message) (\<lambda>signature.
     seq (lift (assert_that ''self-verification failed'' (ml_verify M (ml_members c ! 0) message signature))) (\<lambda>_.
     lift (Inr ((xs, next_entry), fst (snd st) @ [ms (snd (clock index) - fst (clock index))], sizes)))))"

text \<open>The arguments after the program name: at most the number of updates, 20 by default.\<close>

definition mldsa_signer ::
  "'b ml_libs \<Rightarrow> ('pk, 'sk, 'sig, 'rng) mldsa \<Rightarrow> 'rng ml_world \<Rightarrow> (nat \<Rightarrow> nat \<times> nat) \<Rightarrow> ustr list \<Rightarrow> ustr option
    \<Rightarrow> (ml_job, ml_summary \<times> list_sizes) process" where
  "mldsa_signer E M w clock args entries_env =
     seq (lift (assert_that ''usage: mldsa_signer'' (length args \<le> 1))) (\<lambda>_.
     seq (lift (case args of [] \<Rightarrow> Inr 20 | a # _ \<Rightarrow> parse_count a MAX_UPDATES)) (\<lambda>updates.
     seq (ml_keygen M w ''ML-DSA key generation failed'') (\<lambda>signer.
     seq (lift (expect ''single-member anchor'' (ml_committee_new (snd E) M [ml_public_key M signer] 1))) (\<lambda>c.
     seq (lift (ml_list_entries_from_env entries_env)) (\<lambda>entries.
     seq (steps (ml_signer_round E M w clock entries c signer) [0..<updates] (([], 0), [], ListSizes None)) (\<lambda>st.
     seq (lift (ml_summary_of (fst (snd st)))) (\<lambda>sign.
     lift (Inr (sign, snd (snd st))))))))))"

section \<open>The workload of both builds\<close>

lemma ml_shuffle_eq: "ml_shuffle n k pos state xs = shuffle n k pos state xs"
  by (induction k arbitrary: pos state xs) (simp_all add: splitmix_def Let_def)

lemma ml_quorum_indices_eq: "ml_quorum_indices n t v = expect_some ''quorum exceeds committee'' (quorum_indices n t v)"
  by (simp add: ml_quorum_indices_def quorum_indices_def quorum_seed_def ml_shuffle_eq assert_that_def and_then_def expect_some_def)

lemma ml_list_entries_eq:
  "ml_list_entries_from_env var = expect_some ''BENCH_LIST_ENTRIES must be an integer in its range'' (list_entries_from_env var)"
  by (auto simp: ml_list_entries_from_env_def list_entries_from_env_def ML_MAX_LIST_ENTRIES_def MAX_LIST_ENTRIES_def expect_some_def
      split: option.splits sum.splits)

lemma ml_advance_list_eq:
  "ml_advance_list sha3 v fixed xs k =
     expect_some ''attempt to calculate the remainder with a divisor of zero'' (advance_list (numbered_entry sha3) v fixed xs k)"
  by (simp add: ml_advance_list_def advance_list_def numbered_entry_def expect_some_def split: option.splits)

lemma ml_quorum_ok:
  assumes "t \<le> n" and "n \<le> usize_max"
  shows "\<exists>is. ml_quorum_indices n t v = Inr is \<and> length is = t \<and> distinct is \<and> (\<forall>i \<in> set is. i < n)"
  using quorum_in_range [OF assms, of v] by (auto simp: ml_quorum_indices_eq expect_some_def)

section \<open>The verdict of the verifier\<close>

text \<open>An update that a relying party accepts as the given version, with exactly a quorum of signatures.\<close>

definition ml_update_verifies ::
  "'b ml_env \<Rightarrow> ('pk, 'sk, 'sig, 'rng) mldsa \<Rightarrow> 'pk ml_committee \<Rightarrow> directory \<Rightarrow> nat \<Rightarrow> bool" where
  "ml_update_verifies E M c dir i \<longleftrightarrow> (\<exists>bs r. read_bounded dir (ml_update_name i) MAX_RECORD_BYTES = Inr bs \<and> ml_from_bytes E M bs = Inr r
     \<and> ms_version r = word_of_nat i \<and> ml_signer_count E r = ml_threshold c \<and> ml_verify_status_list E M c r)"

lemma ml_raw_update_returns:
  "(\<exists>st'. ml_raw_update E M clock c dir i st = Inr st') \<longleftrightarrow> ml_update_verifies E M c dir i"
  "ml_raw_update E M clock c dir i st = Inr st' \<Longrightarrow> length (fst st') = length (fst st) + 1"
  by (auto simp: ml_raw_update_def ml_update_verifies_def return_iff Let_def case_prod_unfold)

lemma ml_raw_updates_return:
  "(\<exists>st'. each (ml_raw_update E M clock c dir) is st = Inr st') \<longleftrightarrow> list_all (ml_update_verifies E M c dir) is"
proof (induction "is" arbitrary: st)
  case (Cons i "is")
  show ?case
  proof (cases "ml_raw_update E M clock c dir i st")
    case (Inl e)
    then show ?thesis using ml_raw_update_returns(1) [of E M clock c dir i st] by simp
  next
    case (Inr st1)
    then show ?thesis using ml_raw_update_returns(1) [of E M clock c dir i st] Cons [of st1] by auto
  qed
qed simp

lemma ml_raw_updates_length:
  "each (ml_raw_update E M clock c dir) is st = Inr st' \<Longrightarrow> length (fst st') = length (fst st) + length is"
proof (induction "is" arbitrary: st)
  case (Cons i "is")
  then obtain st1 where "ml_raw_update E M clock c dir i st = Inr st1" "each (ml_raw_update E M clock c dir) is st1 = Inr st'"
    by (auto split: sum.splits)
  then show ?case using Cons.IH ml_raw_update_returns(2) by fastforce
qed simp

lemma ml_summary_returns: "xs \<noteq> [] \<Longrightarrow> \<exists>r. ml_summary_of xs = Inr r"
  by (simp add: ml_summary_of_def assert_that_def and_then_def Let_def)

lemma parse_count_bounds: "parse_count arg most = Inr n \<Longrightarrow> 1 \<le> n \<and> n \<le> most"
  by (auto simp: parse_count_def return_iff)

lemma ml_manifest_text: "from_utf8 (as_bytes (ml_manifest n t u)) \<noteq> None"
proof -
  have "of_char c < (128 :: nat)" if "c \<in> set (show_nat k)" for c k using show_nat_digits [of k] that by fastforce
  then have "\<forall>c \<in> set (ml_manifest n t u). of_char c < (128 :: nat)" by (auto simp: ml_manifest_def line_end_def)
  then show ?thesis by (simp add: from_utf8_ascii)
qed

text \<open>The anchor of a fixture.\<close>

definition ml_load_anchor :: "'b ml_env \<Rightarrow> ('pk, 'sk, 'sig, 'rng) mldsa \<Rightarrow> directory \<Rightarrow> (panic, 'pk ml_committee) result" where
  "ml_load_anchor E M dir =
     and_then (read_bounded dir ''anchor.ssz'' MAX_ANCHOR_FILE_BYTES) (\<lambda>bs. expect ''invalid fixture anchor'' (ml_committee_from_bytes E M bs))"

lemma mldsa_raw_agg_runs:
  assumes args: "length args = 2" "parse_count (args ! 1) MAX_UPDATES = Inr updates" and c: "ml_load_anchor E M dir = Inr c"
    and manifest: "read_bounded dir ''manifest.txt'' 128 = Inr (as_bytes (ml_manifest (length (ml_members c)) (ml_threshold c) updates))"
    and ok: "list_all (ml_update_verifies E M c dir) [0..<updates]" and controls: "negative_controls E M c dir = Inr True"
  shows "\<exists>sizes. mldsa_raw_agg E M clock args dir = Inr sizes"
proof -
  obtain bs where bs: "read_bounded dir ''anchor.ssz'' MAX_ANCHOR_FILE_BYTES = Inr bs" "ml_committee_from_bytes E M bs = Inr c"
    using c by (auto simp: ml_load_anchor_def return_iff)
  obtain shown where shown: "from_utf8 (as_bytes (ml_manifest (length (ml_members c)) (ml_threshold c) updates)) = Some shown"
    using ml_manifest_text by blast
  obtain st where loop: "each (ml_raw_update E M clock c dir) [0..<updates] ([], ListSizes None) = Inr st"
    using ok ml_raw_updates_return [of E M clock c dir "[0..<updates]" "([], ListSizes None)"] by blast
  have "length (fst st) = updates" using ml_raw_updates_length [OF loop] by simp
  then have ne: "fst st \<noteq> []" using parse_count_bounds [OF args(2)] by auto
  have summary: "\<exists>r. ml_summary_of (map f (fst st)) = Inr r" for f :: "real \<times> real \<times> real \<times> real \<Rightarrow> real"
    by (rule ml_summary_returns) (simp add: ne)
  obtain a b d e where "ml_summary_of (map (\<lambda>(d, v, t, b). d) (fst st)) = Inr a" "ml_summary_of (map (\<lambda>(d, v, t, b). v) (fst st)) = Inr b"
    "ml_summary_of (map (\<lambda>(d, v, t, b). t) (fst st)) = Inr d" "ml_summary_of (map (\<lambda>(d, v, t, b). b) (fst st)) = Inr e"
    using summary by metis
  then have "mldsa_raw_agg E M clock args dir = Inr (snd st)"
    using args bs manifest shown loop controls
    by (simp add: mldsa_raw_agg_def and_then_def assert_that_def expect_def expect_some_def)
  then show ?thesis by blast
qed

section \<open>Properties\<close>

text \<open>
  Both builds measure the same workload: the ML-DSA binaries' own copy of it chooses the same
  quorum for every committee size, threshold and version, accepts the same list sizes from the
  environment, advances the list in the same way, and declares it in the same words.
\<close>

theorem workloads_agree:
  "ml_quorum_indices n t v = expect_some ''quorum exceeds committee'' (quorum_indices n t v)
   \<and> ml_list_entries_from_env var = expect_some ''BENCH_LIST_ENTRIES must be an integer in its range'' (list_entries_from_env var)
   \<and> ml_advance_list sha3 version fixed xs k =
       expect_some ''attempt to calculate the remainder with a divisor of zero'' (advance_list (numbered_entry sha3) version fixed xs k)
   \<and> ml_workload_manifest fixed = workload_manifest fixed"
  by (simp add: ml_quorum_indices_eq ml_list_entries_eq ml_advance_list_eq ml_workload_manifest_def workload_manifest_def
      ML_QUORUM_SELECTION_def QUORUM_SELECTION_def)

text \<open>
  The ML-DSA verifier's verdict over a fixture is exact: the process ends without a panic exactly
  when it was asked for a number of updates in range, the anchor decodes, the manifest names this
  anchor's size and threshold and that number, every update decodes, carries its version and exactly
  \<open>t\<close> signatures and is accepted by the predicate, and the predicate rejects all five controls.
\<close>

theorem ml_raw_verdict_is_exact:
  "(\<exists>sizes. mldsa_raw_agg E M clock args dir = Inr sizes) \<longleftrightarrow>
     (\<exists>updates c. length args = 2 \<and> parse_count (args ! 1) MAX_UPDATES = Inr updates \<and> ml_load_anchor E M dir = Inr c
        \<and> read_bounded dir ''manifest.txt'' 128 = Inr (as_bytes (ml_manifest (length (ml_members c)) (ml_threshold c) updates))
        \<and> list_all (ml_update_verifies E M c dir) [0..<updates] \<and> negative_controls E M c dir = Inr True)"
  (is "?run \<longleftrightarrow> ?spec")
proof
  assume ?run
  then obtain updates bs c manifest_bytes st where r: "length args = 2" "parse_count (args ! 1) MAX_UPDATES = Inr updates"
    "read_bounded dir ''anchor.ssz'' MAX_ANCHOR_FILE_BYTES = Inr bs" "ml_committee_from_bytes E M bs = Inr c"
    "read_bounded dir ''manifest.txt'' 128 = Inr manifest_bytes"
    "manifest_bytes = as_bytes (ml_manifest (length (ml_members c)) (ml_threshold c) updates)"
    "each (ml_raw_update E M clock c dir) [0..<updates] ([], ListSizes None) = Inr st" "negative_controls E M c dir = Inr True"
    unfolding mldsa_raw_agg_def return_iff by auto
  then show ?spec
    using ml_raw_updates_return [of E M clock c dir "[0..<updates]" "([], ListSizes None)"]
    by (intro exI [of _ updates] exI [of _ c]) (auto simp: ml_load_anchor_def return_iff)
next
  assume ?spec
  then show ?run using mldsa_raw_agg_runs by blast
qed

end
