(* ===== verification/Walkthrough.thy ===== *)
theory Walkthrough
  imports Crew
begin

text \<open>
  The local walkthrough of the library (examples/local_demo.rs): five members with durable counters,
  a prover where the mode needs one, and a relying party with a freshness mark live in one process;
  three versions are signed, published and accepted, and the first record is offered again. Printing,
  the set-up of the circuit and durations are left out.

  The lemmas show that a run without faults succeeds in either mode: every version is accepted and
  the replay is refused as stale.
\<close>

section \<open>Parameters\<close>

definition WALK_N :: usize where "WALK_N = 5"
definition WALK_T :: usize where "WALK_T = 3"
definition GENESIS_SLOT :: u32 where "GENESIS_SLOT = 43"
definition WALK_KEY_SLOTS :: u32 where "WALK_KEY_SLOTS = 256"
definition WALK_LOG_INV_RATE :: usize where "WALK_LOG_INV_RATE = 2"
definition ADDITIONS :: "usize list" where "ADDITIONS = [2, 3, 2]"

datatype walk_mode = WalkRaw | WalkSnark

text \<open>An error the process reports, and a panic; the messages leave out what they quote.\<close>

datatype walk_error = Failed string | Panicked string

definition failing :: "string \<Rightarrow> ('e, 'a) result \<Rightarrow> (walk_error, 'a) result" where
  "failing msg r = map_err (\<lambda>_. Failed msg) r"

definition panicking :: "string \<Rightarrow> ('e, 'a) result \<Rightarrow> (walk_error, 'a) result" where
  "panicking msg r = map_err (\<lambda>_. Panicked msg) r"

definition present :: "walk_error \<Rightarrow> 'a option \<Rightarrow> (walk_error, 'a) result" where
  "present e x = (case x of None \<Rightarrow> Inl e | Some a \<Rightarrow> Inr a)"

section \<open>State\<close>

text \<open>
  The members, the relying party of the mode, and the file system, with the signing calls made so far and
  the outcome of every delivery, which the process prints.
\<close>

record ('pk, 'sk) walk =
  wk_members :: "('pk, 'sk) signer_node list"
  wk_raw :: "'pk raw_node option"
  wk_snark :: "'pk snark_node option"
  wk_fs :: fs
  wk_signed :: nat
  wk_delivered :: "(bytes \<times> outcome) list"

text \<open>
  Key generation from a seed, the randomness of each signature, and which call fails; where a
  removal of the directory fails, \<open>ww_kept\<close> names the files that survive it.
\<close>

record ('pk, 'sk, 'rng) walk_world =
  ww_key_gen :: "32 barr \<Rightarrow> u32 \<Rightarrow> u32 \<Rightarrow> (string, 'sk \<times> 'pk) result"
  ww_tape :: "nat \<Rightarrow> 'rng"
  ww_reset_fails :: bool
  ww_kept :: "path \<Rightarrow> bool"
  ww_scratch_fails :: bool
  ww_lock :: "nat \<Rightarrow> lock_fault"
  ww_meta :: "nat \<Rightarrow> read_fault"
  ww_install :: "nat \<Rightarrow> replace_fault"
  ww_mark_lock :: lock_fault
  ww_mark_read :: read_fault
  ww_mark_install :: replace_fault
  ww_persist :: "nat \<Rightarrow> persist_fault"
  ww_advance :: "nat \<Rightarrow> replace_fault"

section \<open>Helpers\<close>

definition walk_seed :: "nat \<Rightarrow> 32 barr" where
  "walk_seed member = mk_barr ([0xE1, word_of_nat member] @ replicate 30 0)"

definition walk_quorum :: "nat \<Rightarrow> usize list" where
  "walk_quorum rnd = map (\<lambda>offset. (rnd + offset) mod WALK_N) [0..<WALK_T]"

definition walk_label :: "nat \<Rightarrow> nat \<Rightarrow> string" where
  "walk_label rnd offset = ''did:iiot:device-'' @ show_nat rnd @ ''-'' @ show_nat offset"

text \<open>The list with the new entries, and their notes.\<close>

definition add_batch :: "(bytes \<Rightarrow> 32 barr) \<Rightarrow> 32 barr list \<Rightarrow> nat \<Rightarrow> usize \<Rightarrow> 32 barr list \<times> (string \<times> 32 barr) list" where
  "add_batch sha3 xs rnd n =
     (let notes = map (\<lambda>offset. (walk_label rnd offset, hash_any sha3 (as_bytes (walk_label rnd offset)))) [0..<n]
      in (xs @ map snd notes, notes))"

definition parse_mode :: "string option \<Rightarrow> (walk_error, walk_mode) result" where
  "parse_mode arg =
     (if arg = Some ''raw'' then Inr WalkRaw else if arg = Some ''snark'' then Inr WalkSnark
      else Inl (Failed ''usage: cargo run --release --example local_demo -- raw|snark''))"

text \<open>Removing what an earlier run left and creating the directory.\<close>

definition reset_scratch :: "('pk, 'sk, 'rng) walk_world \<Rightarrow> path \<Rightarrow> (walk_error, ('pk, 'sk) walk, unit) fallible" where
  "reset_scratch w dir s =
     (let s' = s\<lparr>wk_fs := (wk_fs s)\<lparr>files := \<lambda>p. if starts_with p dir \<and> \<not> (ww_reset_fails w \<and> ww_kept w p) then None else files (wk_fs s) p\<rparr>\<rparr>
      in if ww_reset_fails w then (Inl (Failed ''cannot reset''), s')
         else if ww_scratch_fails w then (Inl (Failed ''cannot create''), s')
         else (Inr (), s'))"

section \<open>The committee\<close>

definition member_file :: "nat \<Rightarrow> string" where
  "member_file i = ''member-'' @ show_nat i @ ''.slot''"

definition walk_member ::
  "('b, 'pk, 'sk, 'sig, 'rng, 'sph, 'agg) check_env \<Rightarrow> ('pk, 'sk, 'rng) walk_world \<Rightarrow> path \<Rightarrow> nat \<Rightarrow> 'pk list
    \<Rightarrow> (walk_error, ('pk, 'sk) walk, 'pk list) fallible" where
  "walk_member K w dir index pubkeys =
     seq (lift (failing ''keygen failed'' (ww_key_gen w (walk_seed index) GENESIS_SLOT (GENESIS_SLOT + WALK_KEY_SLOTS)))) (\<lambda>(sk, pk) s.
     case counter_create (sha3_256 (k_hashes K)) (key_ssz (k_anchor K)) (ww_lock w index) (ww_meta w index) (ww_install w index)
            (dir @ [member_file index]) pk GENESIS_SLOT (GENESIS_SLOT + WALK_KEY_SLOTS) (wk_fs s) of
       (Inl e, f) \<Rightarrow> (Inl (Failed ''slot counter failed''), s\<lparr>wk_fs := f\<rparr>)
     | (Inr c, f) \<Rightarrow> (Inr (pubkeys @ [pk]), s\<lparr>wk_fs := f, wk_members := wk_members s @ [signer_node_new pk sk c]\<rparr>))"

definition bring_up_committee ::
  "('b, 'pk, 'sk, 'sig, 'rng, 'sph, 'agg) check_env \<Rightarrow> ('pk, 'sk, 'rng) walk_world \<Rightarrow> path \<Rightarrow> (walk_error, ('pk, 'sk) walk, 'pk committee) fallible" where
  "bring_up_committee K w dir =
     seq (steps (walk_member K w dir) [0..<WALK_N] []) (\<lambda>pubkeys.
     lift (panicking ''Committee::new'' (committee_new (sha3_256 (k_hashes K)) (k_anchor K) pubkeys WALK_T GENESIS_SLOT)))"

text \<open>The relying party of the mode, over a new mark.\<close>

definition start_node ::
  "('b, 'pk, 'sk, 'sig, 'rng, 'sph, 'agg) check_env \<Rightarrow> ('pk, 'sk, 'rng) walk_world \<Rightarrow> path \<Rightarrow> walk_mode \<Rightarrow> 'pk committee
    \<Rightarrow> (walk_error, ('pk, 'sk) walk, unit) fallible" where
  "start_node K w dir mode c s =
     (case mark_create (sha3_256 (k_hashes K)) (ww_mark_lock w) (ww_mark_read w) (ww_mark_install w) (dir @ [''high-water.state''])
             (committee_to_bytes (k_anchor K) c) (wk_fs s) of
        (Inl e, f) \<Rightarrow> (Inl (Failed ''cannot create freshness state''), s\<lparr>wk_fs := f\<rparr>)
      | (Inr m, f) \<Rightarrow>
          (Inr (), case mode of
             WalkRaw \<Rightarrow> s\<lparr>wk_fs := f, wk_raw := Some (raw_node_new c m)\<rparr>
           | WalkSnark \<Rightarrow> s\<lparr>wk_fs := f, wk_snark := Some (snark_node_new c m)\<rparr>))"

section \<open>A round\<close>

definition walk_sign ::
  "('b, 'pk, 'sk, 'sig, 'rng, 'sph, 'agg) check_env \<Rightarrow> ('pk, 'sk, 'sig, 'rng) xmss \<Rightarrow> ('pk, 'sk, 'rng) walk_world
    \<Rightarrow> 32 barr \<Rightarrow> u32 \<Rightarrow> usize \<Rightarrow> (usize \<times> 'sig) list \<Rightarrow> (walk_error, ('pk, 'sk) walk, (usize \<times> 'sig) list) fallible" where
  "walk_sign K X w message slot index sigs s =
     (if index < length (wk_members s) then
        case sign_at (sha3_256 (k_hashes K)) X (ww_persist w (wk_signed s)) (ww_tape w (wk_signed s)) message slot (wk_members s ! index) (wk_fs s) of
          (r, n', f) \<Rightarrow> (map_sum id (\<lambda>sig. sigs @ [(index, sig)]) (failing ''refused to sign'' r),
            s\<lparr>wk_members := (wk_members s)[index := n'], wk_fs := f, wk_signed := wk_signed s + 1\<rparr>)
      else (Inl (Panicked ''index out of bounds''), s))"

text \<open>A delivery to the node of the mode.\<close>

definition offer_raw ::
  "('b, 'pk, 'sk, 'sig, 'rng, 'sph, 'agg) check_env \<Rightarrow> ('pk, 'sk, 'sig, 'rng) xmss \<Rightarrow> ('pk, 'sk, 'rng) walk_world \<Rightarrow> bytes
    \<Rightarrow> (walk_error, ('pk, 'sk) walk, outcome) fallible" where
  "offer_raw K X w bs s =
     (case wk_raw s of
        None \<Rightarrow> (Inl (Panicked ''raw node exists''), s)
      | Some node \<Rightarrow>
          (case raw_accept (k_bits K) (k_raw_ssz K) X (blake2s_256 (k_hashes K)) (ww_advance w (length (wk_delivered s))) bs node (wk_fs s) of
             (out, node', f) \<Rightarrow> (Inr out, s\<lparr>wk_raw := Some node', wk_fs := f, wk_delivered := wk_delivered s @ [(bs, out)]\<rparr>)))"

definition offer_snark ::
  "('b, 'pk, 'sk, 'sig, 'rng, 'sph, 'agg) check_env \<Rightarrow> ('pk, 'sk, 'rng) walk_world \<Rightarrow> bytes \<Rightarrow> (walk_error, ('pk, 'sk) walk, outcome) fallible" where
  "offer_snark K w bs s =
     (case wk_snark s of
        None \<Rightarrow> (Inl (Panicked ''snark node exists''), s)
      | Some node \<Rightarrow>
          (case snark_accept (k_leanvm K) (k_snark_ssz K) (blake2s_256 (k_hashes K)) (ww_advance w (length (wk_delivered s))) bs node (wk_fs s) of
             (out, node', f) \<Rightarrow> (Inr out, s\<lparr>wk_snark := Some node', wk_fs := f, wk_delivered := wk_delivered s @ [(bs, out)]\<rparr>)))"

definition publish_raw ::
  "('b, 'pk, 'sk, 'sig, 'rng, 'sph, 'agg) check_env \<Rightarrow> ('pk, 'sk, 'sig, 'rng) xmss \<Rightarrow> ('pk, 'sk, 'rng) walk_world \<Rightarrow> 32 barr list \<Rightarrow> u32
    \<Rightarrow> (usize \<times> 'sig) list \<Rightarrow> (walk_error, ('pk, 'sk) walk, u32 option \<times> bytes) fallible" where
  "publish_raw K X w xs version sigs =
     seq (lift (failing ''invalid record'' (status_list_new (k_bits K) WotsXmss xs version WALK_N sigs))) (\<lambda>r.
     let bs = status_list_to_bytes (k_raw_ssz K) r in
     seq (offer_raw K X w bs) (\<lambda>out.
     lift (Inr (outcome_accepted out, bs))))"

definition publish_snark ::
  "('b, 'pk, 'sk, 'sig, 'rng, 'sph, 'agg) check_env \<Rightarrow> ('pk, 'sk, 'rng) walk_world \<Rightarrow> 'pk committee \<Rightarrow> 32 barr list \<Rightarrow> u32
    \<Rightarrow> (usize \<times> 'sig) list \<Rightarrow> (walk_error, ('pk, 'sk) walk, u32 option \<times> bytes) fallible" where
  "publish_snark K w c xs version sigs =
     seq (lift (collect_results (\<lambda>(index, sig). if index < length (members c) then Inr (members c ! index, sig)
            else Inl (Panicked ''index out of bounds'')) sigs)) (\<lambda>raws.
     seq (lift (panicking ''aggregation failed'' (make_proof (k_leanvm K) (blake2s_256 (k_hashes K)) c WotsXmss raws xs version WALK_LOG_INV_RATE))) (\<lambda>p.
     let bs = snark_to_bytes (k_snark_ssz K) (snark_new WotsXmss xs version p) in
     seq (offer_snark K w bs) (\<lambda>out.
     lift (Inr (outcome_accepted out, bs)))))"

text \<open>The list and the first record, before and after a round.\<close>

definition walk_round ::
  "('b, 'pk, 'sk, 'sig, 'rng, 'sph, 'agg) check_env \<Rightarrow> ('pk, 'sk, 'sig, 'rng) xmss \<Rightarrow> ('pk, 'sk, 'rng) walk_world \<Rightarrow> walk_mode \<Rightarrow> 'pk committee
    \<Rightarrow> nat \<times> usize \<Rightarrow> 32 barr list \<times> bytes option \<Rightarrow> (walk_error, ('pk, 'sk) walk, 32 barr list \<times> bytes option) fallible" where
  "walk_round K X w mode c rnd st =
     (let version = word_of_nat (fst rnd) :: u32 in
     seq (lift (present (Failed ''no slot under this anchor'') (slot_for c version))) (\<lambda>slot.
     let added = fst (add_batch (sha3_256 (k_hashes K)) (fst st) (fst rnd) (snd rnd));
         xs = (if fst rnd = 2 then drop (min 3 (length added)) added else added);
         message = message_for (blake2s_256 (k_hashes K)) c WotsXmss xs version in
     seq (steps (walk_sign K X w message slot) (walk_quorum (fst rnd)) []) (\<lambda>sigs.
     seq (case mode of WalkRaw \<Rightarrow> publish_raw K X w xs version sigs | WalkSnark \<Rightarrow> publish_snark K w c xs version sigs) (\<lambda>(accepted, bs).
     if accepted \<noteq> Some version then lift (Inl (Failed ''record was not accepted by the relying party''))
     else lift (Inr (xs, case snd st of None \<Rightarrow> Some bs | Some b \<Rightarrow> Some b))))))"

definition replay_old_record ::
  "('b, 'pk, 'sk, 'sig, 'rng, 'sph, 'agg) check_env \<Rightarrow> ('pk, 'sk, 'sig, 'rng) xmss \<Rightarrow> ('pk, 'sk, 'rng) walk_world \<Rightarrow> walk_mode \<Rightarrow> bytes
    \<Rightarrow> (walk_error, ('pk, 'sk) walk, unit) fallible" where
  "replay_old_record K X w mode first_record =
     seq (case mode of WalkRaw \<Rightarrow> offer_raw K X w first_record | WalkSnark \<Rightarrow> offer_snark K w first_record) (\<lambda>out.
     lift (case out of OutStale v k \<Rightarrow> Inr () | _ \<Rightarrow> Inl (Failed ''old record replay was not stale'')))"

text \<open>Removing the directory at the end; a failure is only reported.\<close>

definition cleanup_scratch :: "('pk, 'sk, 'rng) walk_world \<Rightarrow> path \<Rightarrow> (walk_error, ('pk, 'sk) walk, unit) fallible" where
  "cleanup_scratch w dir s =
     (Inr (), s\<lparr>wk_fs := (wk_fs s)\<lparr>files := \<lambda>p. if starts_with p dir \<and> \<not> ww_kept w p then None else files (wk_fs s) p\<rparr>\<rparr>)"

definition walk_run ::
  "('b, 'pk, 'sk, 'sig, 'rng, 'sph, 'agg) check_env \<Rightarrow> ('pk, 'sk, 'sig, 'rng) xmss \<Rightarrow> ('pk, 'sk, 'rng) walk_world \<Rightarrow> path \<Rightarrow> string option
    \<Rightarrow> (walk_error, ('pk, 'sk) walk, unit) fallible" where
  "walk_run K X w dir arg =
     seq (lift (parse_mode arg)) (\<lambda>mode.
     seq (reset_scratch w dir) (\<lambda>_.
     seq (bring_up_committee K w dir) (\<lambda>c.
     seq (start_node K w dir mode c) (\<lambda>_.
     seq (steps (walk_round K X w mode c) (enumerate 0 ADDITIONS) ([], None)) (\<lambda>st.
     seq (lift (present (Panicked ''at least one round ran'') (snd st))) (\<lambda>first_record.
     seq (replay_old_record K X w mode first_record) (\<lambda>_.
     cleanup_scratch w dir)))))))"

text \<open>The exit status: 1 for an error that is reported, 101 for a panic.\<close>

definition walk_main ::
  "('b, 'pk, 'sk, 'sig, 'rng, 'sph, 'agg) check_env \<Rightarrow> ('pk, 'sk, 'sig, 'rng) xmss \<Rightarrow> ('pk, 'sk, 'rng) walk_world \<Rightarrow> path \<Rightarrow> string option
    \<Rightarrow> ('pk, 'sk) walk \<Rightarrow> nat \<times> ('pk, 'sk) walk" where
  "walk_main K X w dir arg s =
     (case walk_run K X w dir arg s of
        (Inr _, s') \<Rightarrow> (0, s') | (Inl (Failed e), s') \<Rightarrow> (1, s') | (Inl (Panicked e), s') \<Rightarrow> (101, s'))"

section \<open>The relying party of the mode\<close>

text \<open>What the node of the mode makes of a byte string, where its mark stands, and under which anchor it verifies.\<close>

definition walk_judge ::
  "('b, 'pk, 'sk, 'sig, 'rng, 'sph, 'agg) check_env \<Rightarrow> ('pk, 'sk, 'sig, 'rng) xmss \<Rightarrow> walk_mode \<Rightarrow> ('pk, 'sk) walk \<Rightarrow> bytes \<Rightarrow> u32 option" where
  "walk_judge K X mode s bs =
     (case mode of
        WalkRaw \<Rightarrow> (case wk_raw s of None \<Rightarrow> None | Some n \<Rightarrow> raw_judge (k_bits K) (k_raw_ssz K) X (blake2s_256 (k_hashes K)) n bs)
      | WalkSnark \<Rightarrow> (case wk_snark s of None \<Rightarrow> None | Some n \<Rightarrow> snark_judge (k_leanvm K) (k_snark_ssz K) (blake2s_256 (k_hashes K)) n bs))"

definition walk_floor :: "walk_mode \<Rightarrow> ('pk, 'sk) walk \<Rightarrow> nat" where
  "walk_floor mode s =
     (case mode of
        WalkRaw \<Rightarrow> (case wk_raw s of None \<Rightarrow> 0 | Some n \<Rightarrow> mark_floor (rn_mark n))
      | WalkSnark \<Rightarrow> (case wk_snark s of None \<Rightarrow> 0 | Some n \<Rightarrow> mark_floor (sn_mark n)))"

definition walk_anchor :: "walk_mode \<Rightarrow> ('pk, 'sk) walk \<Rightarrow> 'pk committee option" where
  "walk_anchor mode s =
     (case mode of
        WalkRaw \<Rightarrow> map_option (\<lambda>n. v_committee (rn_verifier n)) (wk_raw s)
      | WalkSnark \<Rightarrow> map_option (\<lambda>n. sv_committee (sn_verifier n)) (wk_snark s))"

lemmas walk_node_defs = walk_judge_def walk_floor_def walk_anchor_def

definition offer ::
  "('b, 'pk, 'sk, 'sig, 'rng, 'sph, 'agg) check_env \<Rightarrow> ('pk, 'sk, 'sig, 'rng) xmss \<Rightarrow> ('pk, 'sk, 'rng) walk_world \<Rightarrow> walk_mode \<Rightarrow> bytes
    \<Rightarrow> (walk_error, ('pk, 'sk) walk, outcome) fallible" where
  "offer K X w mode bs = (case mode of WalkRaw \<Rightarrow> offer_raw K X w bs | WalkSnark \<Rightarrow> offer_snark K w bs)"

text \<open>An authentic record above the mark is accepted; one below it is stale.\<close>

lemma offer_accepts:
  assumes judge: "walk_judge K X mode s bs = Some v" and above: "walk_floor mode s \<le> unat v" and clean: "ww_advance w (length (wk_delivered s)) = ReplaceClean"
  shows "\<exists>s'. offer K X w mode bs s = (Inr (OutAccepted v), s') \<and> walk_judge K X mode s' = walk_judge K X mode s
    \<and> walk_floor mode s' = unat v + 1 \<and> walk_anchor mode s' = walk_anchor mode s \<and> wk_members s' = wk_members s
    \<and> wk_delivered s' = wk_delivered s @ [(bs, OutAccepted v)]"
proof (cases mode)
  case WalkRaw
  obtain n where n: "wk_raw s = Some n" "raw_judge (k_bits K) (k_raw_ssz K) X (blake2s_256 (k_hashes K)) n bs = Some v"
    using judge WalkRaw by (auto simp: walk_judge_def split: option.splits)
  have "mark_floor (rn_mark n) \<le> unat v" using above n(1) WalkRaw by (simp add: walk_floor_def)
  from raw_party.accepts_fresh [OF n(2) this] obtain n' f'
    where a: "raw_accept (k_bits K) (k_raw_ssz K) X (blake2s_256 (k_hashes K)) ReplaceClean bs n (wk_fs s) = (OutAccepted v, n', f')" by blast
  note sound = raw_party.accepted_sound [OF a]
  have "rn_verifier n' = rn_verifier n"
    using a by (auto simp: raw_accept_def raw_accept_record_def split: sum.splits if_splits prod.splits)
  then show ?thesis using n(1) a sound clean WalkRaw by (simp add: offer_def offer_raw_def walk_node_defs fun_eq_iff)
next
  case WalkSnark
  obtain n where n: "wk_snark s = Some n" "snark_judge (k_leanvm K) (k_snark_ssz K) (blake2s_256 (k_hashes K)) n bs = Some v"
    using judge WalkSnark by (auto simp: walk_judge_def split: option.splits)
  have "mark_floor (sn_mark n) \<le> unat v" using above n(1) WalkSnark by (simp add: walk_floor_def)
  from snark_party.accepts_fresh [OF n(2) this] obtain n' f'
    where a: "snark_accept (k_leanvm K) (k_snark_ssz K) (blake2s_256 (k_hashes K)) ReplaceClean bs n (wk_fs s) = (OutAccepted v, n', f')" by blast
  note sound = snark_party.accepted_sound [OF a]
  have "sn_verifier n' = sn_verifier n"
    using a by (auto simp: snark_accept_def split: sum.splits if_splits prod.splits)
  then show ?thesis using n(1) a sound clean WalkSnark by (simp add: offer_def offer_snark_def walk_node_defs fun_eq_iff)
qed

lemma below_mark_is_stale:
  "unat v < mark_floor m \<Longrightarrow> \<exists>k. outcome_advance rf m v f = (OutStale v k, m, f) \<and> unat k + 1 = mark_floor m"
  by (intro exI [of _ "m_current m"]) (auto simp: outcome_advance_stale mark_floor_def word_le_nat_alt split: if_splits)

lemma offer_stale:
  assumes judge: "walk_judge K X mode s bs = Some v" and below: "unat v < walk_floor mode s"
  shows "\<exists>k s'. offer K X w mode bs s = (Inr (OutStale v k), s') \<and> unat k + 1 = walk_floor mode s \<and> walk_floor mode s' = walk_floor mode s
    \<and> wk_members s' = wk_members s \<and> wk_delivered s' = wk_delivered s @ [(bs, OutStale v k)]"
proof (cases mode)
  case WalkRaw
  obtain n where n: "wk_raw s = Some n" "raw_judge (k_bits K) (k_raw_ssz K) X (blake2s_256 (k_hashes K)) n bs = Some v"
    using judge WalkRaw by (auto simp: walk_judge_def split: option.splits)
  have "unat v < mark_floor (rn_mark n)" using below n(1) WalkRaw by (simp add: walk_floor_def)
  from below_mark_is_stale [OF this, of "ww_advance w (length (wk_delivered s))" "wk_fs s"] raw_party.offers [OF n(2), of "ww_advance w (length (wk_delivered s))" "wk_fs s"]
  show ?thesis using n(1) WalkRaw by (auto simp: offer_def offer_raw_def walk_floor_def)
next
  case WalkSnark
  obtain n where n: "wk_snark s = Some n" "snark_judge (k_leanvm K) (k_snark_ssz K) (blake2s_256 (k_hashes K)) n bs = Some v"
    using judge WalkSnark by (auto simp: walk_judge_def split: option.splits)
  have "unat v < mark_floor (sn_mark n)" using below n(1) WalkSnark by (simp add: walk_floor_def)
  from below_mark_is_stale [OF this, of "ww_advance w (length (wk_delivered s))" "wk_fs s"] snark_party.offers [OF n(2), of "ww_advance w (length (wk_delivered s))" "wk_fs s"]
  show ?thesis using n(1) WalkSnark by (auto simp: offer_def offer_snark_def walk_floor_def)
qed

section \<open>Publishing\<close>

text \<open>What a run rests on: codecs and libraries that do what they document.\<close>

definition walk_laws ::
  "('b, 'pk, 'sk, 'sig, 'rng, 'sph, 'agg) check_env \<Rightarrow> ('pk, 'sk, 'sig, 'rng) xmss \<Rightarrow> bool" where
  "walk_laws K X \<longleftrightarrow> codec_laws K \<and> ssz_roundtrip (k_snark_ssz K) \<and> records_fit K \<and> aggregate_complete X (k_leanvm K) \<and> aggregator_total X (k_leanvm K)"

text \<open>The signatures of a quorum of distinct members at the slot of the version.\<close>

definition walk_signed ::
  "('b, 'pk, 'sk, 'sig, 'rng, 'sph, 'agg) check_env \<Rightarrow> ('pk, 'sk, 'sig, 'rng) xmss \<Rightarrow> 'pk committee \<Rightarrow> 32 barr list \<Rightarrow> u32 \<Rightarrow> (usize \<times> 'sig) list \<Rightarrow> bool" where
  "walk_signed K X c xs v ps \<longleftrightarrow> distinct (map fst ps) \<and> length ps = WALK_T \<and> (\<forall>p \<in> set ps. fst p < WALK_N)
     \<and> (\<exists>slot. slot_for c v = Some slot
          \<and> (\<forall>(i, sig) \<in> set ps. xmss_verify X (members c ! i) (message_for (blake2s_256 (k_hashes K)) c WotsXmss xs v) sig slot))"

text \<open>The committee of the walkthrough.\<close>

definition walk_committee :: "('b, 'pk, 'sk, 'sig, 'rng, 'sph, 'agg) check_env \<Rightarrow> 'pk committee \<Rightarrow> bool" where
  "walk_committee K c \<longleftrightarrow> wf_committee (sha3_256 (k_hashes K)) (k_anchor K) c \<and> length (members c) = WALK_N \<and> threshold c = WALK_T \<and> genesis_slot c = GENESIS_SLOT"

lemma raw_record_made:
  assumes laws: "codec_laws K" and c: "walk_committee K (v_committee n)" and signed: "walk_signed K X (v_committee n) xs v ps"
    and len: "length xs \<le> MAX_LIST_ENTRIES"
  shows "\<exists>r. status_list_new (k_bits K) WotsXmss xs v WALK_N ps = Inr r
    \<and> status_list_from_bytes (k_bits K) (k_raw_ssz K) (status_list_to_bytes (k_raw_ssz K) r) = Inr r
    \<and> verify_status_list (k_bits K) X (blake2s_256 (k_hashes K)) n r \<and> sl_version r = v"
proof -
  have K: "bitlist_laws MAX_COMMITTEE_SIZE (k_bits K)" "ssz_roundtrip (k_raw_ssz K)" "compact_raw K MAX_LIST_ENTRIES"
    using laws by (simp_all add: codec_laws_def)
  have ms: "length (members (v_committee n)) = WALK_N" "threshold (v_committee n) = WALK_T"
    "wf_committee (sha3_256 (k_hashes K)) (k_anchor K) (v_committee n)" using c by (simp_all add: walk_committee_def)
  have ps: "valid_pairs (length (members (v_committee n))) ps"
    using signed by (auto simp: walk_signed_def valid_pairs_def ms(1) WALK_N_def MAX_COMMITTEE_SIZE_def)
  have t: "threshold (v_committee n) \<le> length ps" using signed ms(2) by (simp add: walk_signed_def)
  obtain slot where slot: "slot_for (v_committee n) v = Some slot"
    "\<forall>(i, sig) \<in> set ps. xmss_verify X (members (v_committee n) ! i) (message_for (blake2s_256 (k_hashes K)) (v_committee n) WotsXmss xs v) sig slot"
    using signed unfolding walk_signed_def by blast
  obtain r where r: "status_list_new (k_bits K) WotsXmss xs v WALK_N ps = Inr r" "verify_status_list (k_bits K) X (blake2s_256 (k_hashes K)) n r"
    "sl_version r = v" "signer_count (k_bits K) r = length (sl_signatures r)"
    using honest_record_verifies [OF K(1) ms(3) ps t slot] unfolding ms(1) by blast
  have "status_list_from_bytes (k_bits K) (k_raw_ssz K) (status_list_to_bytes (k_raw_ssz K) r) = Inr r"
    by (rule status_list_roundtrip [OF K(2) built_record_fits [OF K(1,3) r(1) len] r(4)])
  then show ?thesis using r by blast
qed

lemma snark_record_made:
  assumes laws: "walk_laws K X" and c: "walk_committee K c" and signed: "walk_signed K X c xs v ps" and len: "length xs \<le> MAX_LIST_ENTRIES"
  shows "\<exists>p. make_proof (k_leanvm K) (blake2s_256 (k_hashes K)) c WotsXmss (map (\<lambda>(i, sig). (members c ! i, sig)) ps) xs v WALK_LOG_INV_RATE = Inr p
    \<and> snark_from_bytes (k_snark_ssz K) (snark_to_bytes (k_snark_ssz K) (snark_new WotsXmss xs v p)) = Inr (snark_new WotsXmss xs v p)
    \<and> (\<forall>sv. sv_committee sv = c \<longrightarrow> snark_verify (k_leanvm K) (blake2s_256 (k_hashes K)) sv (snark_new WotsXmss xs v p))"
proof -
  have K: "ssz_roundtrip (k_snark_ssz K)" "records_fit K" "aggregate_complete X (k_leanvm K)" "aggregator_total X (k_leanvm K)"
    using laws by (simp_all add: walk_laws_def)
  have ms: "length (members c) = WALK_N" "threshold c = WALK_T" and wf: "wf_committee (sha3_256 (k_hashes K)) (k_anchor K) c"
    using c by (simp_all add: walk_committee_def)
  let ?raws = "map (\<lambda>(i, sig). (members c ! i, sig)) ps" and ?m = "message_for (blake2s_256 (k_hashes K)) c WotsXmss xs v"
  obtain slot where slot: "slot_for c v = Some slot" "\<forall>(i, sig) \<in> set ps. xmss_verify X (members c ! i) ?m sig slot"
    using signed unfolding walk_signed_def by blast
  have idx: "distinct (map fst ps)" "length ps = WALK_T" "\<forall>p \<in> set ps. fst p < length (members c)"
    using signed ms(1) by (auto simp: walk_signed_def)
  have "distinct (map (\<lambda>i. members c ! i) (map fst ps))"
    using idx(1,3) by (intro distinct_nth_keys wf_committee_distinct [OF wf]) auto
  moreover have keys: "map fst ?raws = map (\<lambda>i. members c ! i) (map fst ps)" by (simp add: comp_def case_prod_unfold)
  ultimately have d: "distinct (map fst ?raws)" by (simp only:)
  have sub: "set (map fst ?raws) \<subseteq> set (members c)" using idx(3) unfolding keys by auto
  have ver: "\<forall>(pk, sig) \<in> set ?raws. xmss_verify X pk ?m sig slot" using slot(2) by auto
  have ne: "?raws \<noteq> []" and t: "threshold c \<le> length ?raws" using idx(2) ms(2) by (auto simp: WALK_T_def)
  obtain a where a: "aggregate (k_leanvm K) (map (\<lambda>(pk, sig). (pk, slot, ?m, sig)) ?raws) WALK_LOG_INV_RATE = Inr a"
    using K(4) ne d ver unfolding aggregator_total_def by blast
  let ?p = "agg_to_bytes (k_leanvm K) a"
  have made: "make_proof (k_leanvm K) (blake2s_256 (k_hashes K)) c WotsXmss ?raws xs v WALK_LOG_INV_RATE = Inr ?p"
    unfolding make_proof_def slot(1) option.case prover_aggregate_def a by simp
  from K(2) obtain P where P: "\<And>raws rate a. length raws \<le> MAX_COMMITTEE_SIZE \<Longrightarrow> aggregate (k_leanvm K) raws rate = Inr a
        \<Longrightarrow> length (agg_to_bytes (k_leanvm K) a) \<le> P"
    "\<And>v. length (sw_status_list v) \<le> MAX_LIST_ENTRIES \<Longrightarrow> length (sw_zk_proof v) \<le> P \<Longrightarrow> length (as_ssz_bytes (k_snark_ssz K) v) < 2 ^ 32"
    unfolding records_fit_def by blast
  have "length ?p \<le> P" using idx(2) by (intro P(1) [OF _ a]) (simp add: WALK_T_def MAX_COMMITTEE_SIZE_def)
  then have "length (snark_to_bytes (k_snark_ssz K) (snark_new WotsXmss xs v ?p)) < 2 ^ 32"
    unfolding snark_to_bytes_def using len by (intro P(2)) (simp_all add: snark_new_def)
  note decodes = snark_roundtrip [OF K(1) this]
  have "snark_verify (k_leanvm K) (blake2s_256 (k_hashes K)) sv (snark_new WotsXmss xs v ?p)" if "sv_committee sv = c" for sv
    by (rule make_proof_verifies [OF K(3), where sv = sv, unfolded that, OF wf d sub t slot(1) ver made])
  then show ?thesis using made decodes by blast
qed

lemma publish_accepted:
  assumes laws: "walk_laws K X" and anchor: "walk_anchor mode s = Some c" "walk_committee K c" and signed: "walk_signed K X c xs v ps"
    and len: "length xs \<le> MAX_LIST_ENTRIES" and above: "walk_floor mode s \<le> unat v" and clean: "ww_advance w (length (wk_delivered s)) = ReplaceClean"
  shows "\<exists>bs s'. (case mode of WalkRaw \<Rightarrow> publish_raw K X w xs v ps | WalkSnark \<Rightarrow> publish_snark K w c xs v ps) s = (Inr (Some v, bs), s')
    \<and> walk_judge K X mode s bs = Some v \<and> walk_judge K X mode s' = walk_judge K X mode s
    \<and> walk_floor mode s' = unat v + 1 \<and> walk_anchor mode s' = Some c \<and> wk_members s' = wk_members s
    \<and> wk_delivered s' = wk_delivered s @ [(bs, OutAccepted v)]"
proof (cases mode)
  case WalkRaw
  obtain n where n: "wk_raw s = Some n" "v_committee (rn_verifier n) = c" using anchor(1) WalkRaw by (auto simp: walk_anchor_def)
  have "codec_laws K" using laws by (simp add: walk_laws_def)
  then obtain r where r: "status_list_new (k_bits K) WotsXmss xs v WALK_N ps = Inr r"
    "status_list_from_bytes (k_bits K) (k_raw_ssz K) (status_list_to_bytes (k_raw_ssz K) r) = Inr r"
    "verify_status_list (k_bits K) X (blake2s_256 (k_hashes K)) (rn_verifier n) r" "sl_version r = v"
    using raw_record_made [of K "rn_verifier n" X xs v ps] anchor(2) signed len unfolding n(2) by blast
  let ?bs = "status_list_to_bytes (k_raw_ssz K) r"
  have judge: "walk_judge K X mode s ?bs = Some v" using n(1) r(2-4) WalkRaw by (simp add: walk_judge_def raw_judge_def)
  obtain s' where s': "offer K X w mode ?bs s = (Inr (OutAccepted v), s')" "walk_judge K X mode s' = walk_judge K X mode s"
    "walk_floor mode s' = unat v + 1" "walk_anchor mode s' = walk_anchor mode s" "wk_members s' = wk_members s"
    "wk_delivered s' = wk_delivered s @ [(?bs, OutAccepted v)]"
    using offer_accepts [OF judge above clean] by blast
  have "publish_raw K X w xs v ps s = (Inr (Some v, ?bs), s')"
    using s'(1) r(1) WalkRaw by (simp add: publish_raw_def failing_def offer_def outcome_accepted_def seq_def lift_def Let_def)
  then show ?thesis using judge s' anchor(1) WalkRaw by (intro exI [of _ ?bs] exI [of _ s']) simp
next
  case WalkSnark
  obtain n where n: "wk_snark s = Some n" "sv_committee (sn_verifier n) = c" using anchor(1) WalkSnark by (auto simp: walk_anchor_def)
  let ?raws = "map (\<lambda>(i, sig). (members c ! i, sig)) ps"
  obtain p where p: "make_proof (k_leanvm K) (blake2s_256 (k_hashes K)) c WotsXmss ?raws xs v WALK_LOG_INV_RATE = Inr p"
    "snark_from_bytes (k_snark_ssz K) (snark_to_bytes (k_snark_ssz K) (snark_new WotsXmss xs v p)) = Inr (snark_new WotsXmss xs v p)"
    "snark_verify (k_leanvm K) (blake2s_256 (k_hashes K)) (sn_verifier n) (snark_new WotsXmss xs v p)"
    using snark_record_made [OF laws anchor(2) signed len] n(2) by blast
  have raws: "collect_results (\<lambda>(index, sig). if index < length (members c) then Inr (members c ! index, sig)
      else Inl (Panicked ''index out of bounds'')) ps = Inr ?raws"
    using signed anchor(2) by (auto simp: collect_results_Inr walk_signed_def walk_committee_def case_prod_unfold)
  let ?bs = "snark_to_bytes (k_snark_ssz K) (snark_new WotsXmss xs v p)"
  have judge: "walk_judge K X mode s ?bs = Some v" using n(1) p(2,3) WalkSnark by (simp add: walk_judge_def snark_judge_def) (simp add: snark_new_def)
  obtain s' where s': "offer K X w mode ?bs s = (Inr (OutAccepted v), s')" "walk_judge K X mode s' = walk_judge K X mode s"
    "walk_floor mode s' = unat v + 1" "walk_anchor mode s' = walk_anchor mode s" "wk_members s' = wk_members s"
    "wk_delivered s' = wk_delivered s @ [(?bs, OutAccepted v)]"
    using offer_accepts [OF judge above clean] by blast
  have "publish_snark K w c xs v ps s = (Inr (Some v, ?bs), s')"
    using s'(1) raws p(1) WalkSnark by (simp add: publish_snark_def panicking_def offer_def outcome_accepted_def seq_def lift_def Let_def)
  then show ?thesis using judge s' anchor(1) WalkSnark by (intro exI [of _ ?bs] exI [of _ s']) simp
qed

section \<open>Signing\<close>

text \<open>A world in which nothing fails.\<close>

definition gentle :: "('pk, 'sk, 'rng) walk_world \<Rightarrow> bool" where
  "gentle w \<longleftrightarrow> \<not> ww_reset_fails w \<and> \<not> ww_scratch_fails w \<and> ww_mark_lock w = LockClean \<and> ww_mark_read w = ReadClean \<and> ww_mark_install w = ReplaceClean
     \<and> (\<forall>i. ww_lock w i = LockClean \<and> ww_meta w i = ReadClean \<and> ww_install w i = ReplaceClean \<and> ww_persist w i = PersistClean \<and> ww_advance w i = ReplaceClean)"

text \<open>The keys the seeds yield: different, signing at every slot of their window, and verifying.\<close>

definition walk_keys ::
  "('b, 'pk, 'sk, 'sig, 'rng, 'sph, 'agg) check_env \<Rightarrow> ('pk, 'sk, 'sig, 'rng) xmss \<Rightarrow> ('pk, 'sk, 'rng) walk_world \<Rightarrow> ('sk \<times> 'pk) list \<Rightarrow> bool" where
  "walk_keys K X w kps \<longleftrightarrow> map (\<lambda>i. ww_key_gen w (walk_seed i) GENESIS_SLOT (GENESIS_SLOT + WALK_KEY_SLOTS)) [0..<WALK_N] = map Inr kps
     \<and> distinct (map (\<lambda>kp. as_ssz_bytes (key_ssz (k_anchor K)) (snd kp)) kps)
     \<and> (\<forall>(sk, pk) \<in> set kps. \<forall>rng message slot. GENESIS_SLOT \<le> slot \<longrightarrow> slot \<le> GENESIS_SLOT + WALK_KEY_SLOTS
          \<longrightarrow> (\<exists>sig. xmss_sign X rng sk message slot = Inr sig \<and> xmss_verify X pk message sig slot))"

definition walk_slot :: "nat \<Rightarrow> u32" where
  "walk_slot i = GENESIS_SLOT + word_of_nat i"

text \<open>A member before round \<open>i\<close>: it has signed once in every earlier round whose quorum it was in.\<close>

definition member_ready :: "('sk \<times> 'pk) \<Rightarrow> nat \<Rightarrow> nat \<Rightarrow> ('pk, 'sk) signer_node \<Rightarrow> bool" where
  "member_ready kp k i n \<longleftrightarrow> n_sk n = fst kp \<and> c_end (n_counter n) = GENESIS_SLOT + WALK_KEY_SLOTS
     \<and> unat (c_next (n_counter n)) \<le> unat GENESIS_SLOT + i \<and> unat (c_generation (n_counter n)) \<le> i
     \<and> map fst (n_uses n) = map walk_slot (filter (\<lambda>j. k \<in> set (walk_quorum j)) [0..<i])"

definition crew_ready :: "('sk \<times> 'pk) list \<Rightarrow> nat \<Rightarrow> usize list \<Rightarrow> ('pk, 'sk) walk \<Rightarrow> bool" where
  "crew_ready kps i finished s \<longleftrightarrow> length (wk_members s) = WALK_N
     \<and> (\<forall>k < WALK_N. member_ready (kps ! k) k (if k \<in> set finished then i + 1 else i) (wk_members s ! k))"

lemma walk_slot_words:
  assumes "i < 3"
  shows "unat (walk_slot i) = 43 + i" "walk_slot i \<le> GENESIS_SLOT + WALK_KEY_SLOTS" "GENESIS_SLOT \<le> walk_slot i"
proof -
  have u: "unat (word_of_nat i :: u32) = i" using assms by (simp add: unat_of_nat)
  show at: "unat (walk_slot i) = 43 + i" using assms by (simp add: walk_slot_def GENESIS_SLOT_def unat_word_ariths u)
  show "walk_slot i \<le> GENESIS_SLOT + WALK_KEY_SLOTS" using assms unfolding word_le_nat_alt at by (simp add: GENESIS_SLOT_def WALK_KEY_SLOTS_def)
  show "GENESIS_SLOT \<le> walk_slot i" unfolding word_le_nat_alt at by (simp add: GENESIS_SLOT_def)
qed

lemma walk_keys_at:
  assumes "walk_keys K X w kps"
  shows "length kps = WALK_N" and "k < WALK_N \<Longrightarrow> ww_key_gen w (walk_seed k) GENESIS_SLOT (GENESIS_SLOT + WALK_KEY_SLOTS) = Inr (kps ! k)"
    and "k < WALK_N \<Longrightarrow> GENESIS_SLOT \<le> slot \<Longrightarrow> slot \<le> GENESIS_SLOT + WALK_KEY_SLOTS \<Longrightarrow>
      \<exists>sig. xmss_sign X rng (fst (kps ! k)) message slot = Inr sig \<and> xmss_verify X (snd (kps ! k)) message sig slot"
proof -
  let ?gens = "map (\<lambda>i. ww_key_gen w (walk_seed i) GENESIS_SLOT (GENESIS_SLOT + WALK_KEY_SLOTS)) [0..<WALK_N]"
  have eq: "?gens = map Inr kps"
    and keys: "\<forall>(sk, pk) \<in> set kps. \<forall>rng message slot. GENESIS_SLOT \<le> slot \<longrightarrow> slot \<le> GENESIS_SLOT + WALK_KEY_SLOTS
          \<longrightarrow> (\<exists>sig. xmss_sign X rng sk message slot = Inr sig \<and> xmss_verify X pk message sig slot)"
    using assms unfolding walk_keys_def by simp_all
  show len: "length kps = WALK_N" using arg_cong [OF eq, of length] by simp
  show "ww_key_gen w (walk_seed k) GENESIS_SLOT (GENESIS_SLOT + WALK_KEY_SLOTS) = Inr (kps ! k)" if "k < WALK_N"
    using arg_cong [OF eq, of "\<lambda>xs. xs ! k"] that len by simp
  show "\<exists>sig. xmss_sign X rng (fst (kps ! k)) message slot = Inr sig \<and> xmss_verify X (snd (kps ! k)) message sig slot"
    if "k < WALK_N" "GENESIS_SLOT \<le> slot" "slot \<le> GENESIS_SLOT + WALK_KEY_SLOTS"
  proof -
    have "kps ! k \<in> set kps" using that(1) len by simp
    then show ?thesis using bspec [OF keys, of "kps ! k"] that(2,3) by (auto simp: case_prod_unfold)
  qed
qed

lemma walk_sign_runs:
  assumes ready: "crew_ready kps i finished s" and i: "i < 3" and w: "gentle w" "walk_keys K X w kps"
    and k: "k < WALK_N" "k \<notin> set finished" "k \<in> set (walk_quorum i)"
  shows "\<exists>sig s'. walk_sign K X w message (walk_slot i) k sigs s = (Inr (sigs @ [(k, sig)]), s') \<and> xmss_verify X (snd (kps ! k)) message sig (walk_slot i)
    \<and> crew_ready kps i (k # finished) s' \<and> wk_raw s' = wk_raw s \<and> wk_snark s' = wk_snark s \<and> wk_delivered s' = wk_delivered s"
proof -
  let ?n = "wk_members s ! k"
  have len: "length (wk_members s) = WALK_N" and at: "member_ready (kps ! k) k i ?n" using ready k by (auto simp: crew_ready_def)
  note words = walk_slot_words [OF i]
  obtain sig where sig: "xmss_sign X (ww_tape w (wk_signed s)) (n_sk ?n) message (walk_slot i) = Inr sig" "xmss_verify X (snd (kps ! k)) message sig (walk_slot i)"
    using walk_keys_at(3) [OF w(2) k(1) words(3,2), of "ww_tape w (wk_signed s)" message] at unfolding member_ready_def by auto
  have next_le: "unat (c_next (n_counter ?n)) \<le> unat (walk_slot i)" using at unfolding member_ready_def words(1) by (simp add: GENESIS_SLOT_def)
  have gen: "unat (c_generation (n_counter ?n)) \<le> i" and c_end: "walk_slot i \<le> c_end (n_counter ?n)" using at words(2) by (simp_all add: member_ready_def)
  have room: "unat (c_generation (n_counter ?n)) + 1 < 2 ^ 64" using gen i by simp
  let ?n' = "?n\<lparr>n_counter := (n_counter ?n)\<lparr>c_generation := c_generation (n_counter ?n) + 1, c_next := ucast (walk_slot i) + 1\<rparr>,
      n_uses := n_uses ?n @ [(walk_slot i, message)]\<rparr>"
  obtain f' where f': "sign_at (sha3_256 (k_hashes K)) X PersistClean (ww_tape w (wk_signed s)) message (walk_slot i) ?n (wk_fs s) = (Inr sig, ?n', f')"
    using sign_at_grants [OF next_le c_end room sig(1)] by blast
  let ?s' = "s\<lparr>wk_members := (wk_members s)[k := ?n'], wk_fs := f', wk_signed := wk_signed s + 1\<rparr>"
  have "walk_sign K X w message (walk_slot i) k sigs s = (Inr (sigs @ [(k, sig)]), ?s')"
    using f' k(1) len w(1) by (simp add: walk_sign_def gentle_def failing_def)
  moreover have "member_ready (kps ! k) k (i + 1) ?n'"
  proof -
    have "unat (ucast (walk_slot i) + 1 :: u64) = 43 + i + 1" using words(1) i by (simp add: unat_word_ariths unat_ucast_u32_u64)
    moreover have "unat (c_generation (n_counter ?n) + 1) \<le> i + 1" using gen i by (simp add: unat_word_ariths)
    ultimately show ?thesis using at k(3) by (simp add: member_ready_def GENESIS_SLOT_def)
  qed
  ultimately show ?thesis using ready sig(2) k(1) len
    by (intro exI [of _ sig] exI [of _ ?s']) (auto simp: crew_ready_def nth_list_update)
qed

lemma walk_signs_run:
  assumes "i < 3" "gentle w" "walk_keys K X w kps"
  shows "crew_ready kps i finished s \<Longrightarrow> distinct ks \<Longrightarrow> set ks \<subseteq> {..<WALK_N} \<inter> set (walk_quorum i) - set finished \<Longrightarrow>
    \<exists>ps s'. steps (walk_sign K X w message (walk_slot i)) ks sigs s = (Inr (sigs @ ps), s') \<and> map fst ps = ks
      \<and> (\<forall>(k, sig) \<in> set ps. xmss_verify X (snd (kps ! k)) message sig (walk_slot i))
      \<and> crew_ready kps i (rev ks @ finished) s' \<and> wk_raw s' = wk_raw s \<and> wk_snark s' = wk_snark s \<and> wk_delivered s' = wk_delivered s"
proof (induction ks arbitrary: sigs s finished)
  case (Cons k ks)
  obtain sig s1 where s1: "walk_sign K X w message (walk_slot i) k sigs s = (Inr (sigs @ [(k, sig)]), s1)" "xmss_verify X (snd (kps ! k)) message sig (walk_slot i)"
    "crew_ready kps i (k # finished) s1" "wk_raw s1 = wk_raw s" "wk_snark s1 = wk_snark s" "wk_delivered s1 = wk_delivered s"
    using walk_sign_runs [OF Cons.prems(1) assms, of k message sigs] Cons.prems(3) by auto
  obtain ps s2 where s2: "steps (walk_sign K X w message (walk_slot i)) ks (sigs @ [(k, sig)]) s1 = (Inr ((sigs @ [(k, sig)]) @ ps), s2)" "map fst ps = ks"
      "\<forall>(k, sig) \<in> set ps. xmss_verify X (snd (kps ! k)) message sig (walk_slot i)"
      "crew_ready kps i (rev ks @ k # finished) s2" "wk_raw s2 = wk_raw s1" "wk_snark s2 = wk_snark s1"
      "wk_delivered s2 = wk_delivered s1"
    using Cons.IH [OF s1(3), of "sigs @ [(k, sig)]"] Cons.prems(2,3) by auto
  have "steps (walk_sign K X w message (walk_slot i)) (k # ks) sigs s = (Inr (sigs @ (k, sig) # ps), s2)"
    using s1(1) s2(1) by (simp add: seq_def)
  then show ?case using s1 s2 by (intro exI [of _ "(k, sig) # ps"] exI [of _ s2]) auto
qed simp

section \<open>Rounds\<close>

lemma walk_quorum_props:
  assumes "i < 3"
  shows "distinct (walk_quorum i)" "set (walk_quorum i) \<subseteq> {..<WALK_N}" "length (walk_quorum i) = WALK_T"
proof -
  have "list_all (\<lambda>i. distinct (walk_quorum i)) [0..<3]" by code_simp
  then show "distinct (walk_quorum i)" using assms by (simp add: list_all_iff)
  show "set (walk_quorum i) \<subseteq> {..<WALK_N}" by (auto simp: walk_quorum_def WALK_N_def)
  show "length (walk_quorum i) = WALK_T" by (simp add: walk_quorum_def)
qed

lemma crew_ready_next: "crew_ready kps i (rev (walk_quorum i)) s \<Longrightarrow> crew_ready kps (i + 1) [] s"
proof -
  assume ready: "crew_ready kps i (rev (walk_quorum i)) s"
  have "member_ready (kps ! k) k (i + 1) (wk_members s ! k)" if "k < WALK_N" for k
  proof -
    have at: "member_ready (kps ! k) k (if k \<in> set (rev (walk_quorum i)) then i + 1 else i) (wk_members s ! k)"
      using ready that unfolding crew_ready_def by blast
    show ?thesis
    proof (cases "k \<in> set (walk_quorum i)")
      case True
      then show ?thesis using at by simp
    next
      case False
      then show ?thesis using at by (auto simp: member_ready_def)
    qed
  qed
  then show ?thesis using ready by (simp add: crew_ready_def)
qed

lemma walk_round_runs:
  assumes laws: "walk_laws K X" and w: "gentle w" "walk_keys K X w kps" and c: "walk_committee K c" "members c = map snd kps"
    and i: "i < 3" and ready: "crew_ready kps i [] s" and node: "walk_anchor mode s = Some c" "walk_floor mode s = i"
    and len: "length (fst st) + n \<le> MAX_LIST_ENTRIES" and first: "case snd st of None \<Rightarrow> i = 0 | Some b \<Rightarrow> walk_judge K X mode s b = Some 0"
  shows "\<exists>xs bs b s'. walk_round K X w mode c (i, n) st s = (Inr (xs, Some b), s') \<and> b = (case snd st of None \<Rightarrow> bs | Some b \<Rightarrow> b)
    \<and> length xs \<le> length (fst st) + n \<and> walk_judge K X mode s' b = Some 0
    \<and> crew_ready kps (i + 1) [] s' \<and> walk_anchor mode s' = Some c \<and> walk_floor mode s' = i + 1
    \<and> wk_delivered s' = wk_delivered s @ [(bs, OutAccepted (word_of_nat i))]"
proof -
  let ?v = "word_of_nat i :: u32" and ?added = "fst (add_batch (sha3_256 (k_hashes K)) (fst st) i n)"
  let ?xs = "if i = 2 then drop (min 3 (length ?added)) ?added else ?added"
  let ?m = "message_for (blake2s_256 (k_hashes K)) c WotsXmss ?xs ?v"
  have v: "unat ?v = i" using i by (simp add: unat_of_nat)
  note words = walk_slot_words [OF i] and quorum = walk_quorum_props [OF i]
  have slot: "slot_for c ?v = Some (walk_slot i)"
    using c(1) unfolding slot_for_Some v words(1) by (simp add: walk_committee_def GENESIS_SLOT_def)
  obtain ps s1 where s1: "steps (walk_sign K X w ?m (walk_slot i)) (walk_quorum i) [] s = (Inr ps, s1)" "map fst ps = walk_quorum i"
    "\<forall>(k, sig) \<in> set ps. xmss_verify X (snd (kps ! k)) ?m sig (walk_slot i)" "crew_ready kps i (rev (walk_quorum i)) s1"
    "wk_raw s1 = wk_raw s" "wk_snark s1 = wk_snark s" "wk_delivered s1 = wk_delivered s"
    using walk_signs_run [OF i w ready quorum(1), of ?m "[]"] quorum(2) by auto
  have idx: "fst p < WALK_N" if "p \<in> set ps" for p
  proof -
    have "fst p \<in> set (map fst ps)" using that by simp
    then show ?thesis using quorum(2) unfolding s1(2) by auto
  qed
  have "xmss_verify X (members c ! k) ?m sig (walk_slot i)" if "(k, sig) \<in> set ps" for k sig
    using s1(3) that idx [OF that] walk_keys_at(1) [OF w(2)] unfolding c(2) by auto
  moreover have "length ps = WALK_T" using arg_cong [OF s1(2), of length] quorum(3) by simp
  ultimately have signed: "walk_signed K X c ?xs ?v ps"
    unfolding walk_signed_def using slot s1(2) quorum(1) idx by auto
  have lengths: "length ?added = length (fst st) + n" by (simp add: add_batch_def Let_def)
  have "length ?xs \<le> length ?added" by simp
  then have len': "length ?xs \<le> length (fst st) + n" unfolding lengths .
  have same: "walk_judge K X mode s1 = walk_judge K X mode s" "walk_anchor mode s1 = Some c" "walk_floor mode s1 = i"
    using node unfolding walk_node_defs fun_eq_iff s1(5,6) by simp_all
  have clean: "ww_advance w (length (wk_delivered s1)) = ReplaceClean" using w(1) by (simp add: gentle_def)
  obtain bs s2 where s2: "(case mode of WalkRaw \<Rightarrow> publish_raw K X w ?xs ?v ps | WalkSnark \<Rightarrow> publish_snark K w c ?xs ?v ps) s1 = (Inr (Some ?v, bs), s2)"
    "walk_judge K X mode s1 bs = Some ?v" "walk_judge K X mode s2 = walk_judge K X mode s1"
    "walk_floor mode s2 = i + 1" "walk_anchor mode s2 = Some c" "wk_members s2 = wk_members s1"
    "wk_delivered s2 = wk_delivered s @ [(bs, OutAccepted ?v)]"
    using publish_accepted [OF laws same(2) c(1) signed order_trans [OF len' len] _ clean] same(3) v s1(7) by auto
  let ?b = "case snd st of None \<Rightarrow> bs | Some b \<Rightarrow> b"
  have "walk_round K X w mode c (i, n) st s = (Inr (?xs, Some ?b), s2)"
    using slot s1(1) s2(1) unfolding walk_round_def fst_conv snd_conv Let_def present_def
    by (simp add: seq_def lift_def split: option.splits)
  moreover have "walk_judge K X mode s2 ?b = Some 0" using first s2(2,3) same(1) by (cases "snd st") auto
  moreover have "crew_ready kps (i + 1) [] s2" using crew_ready_next [OF s1(4)] s2(6) by (simp add: crew_ready_def)
  ultimately show ?thesis using s2(4,5,7) len' by (intro exI [of _ ?xs] exI [of _ bs] exI [of _ ?b] exI [of _ s2]) simp
qed

lemma walk_rounds_run:
  assumes laws: "walk_laws K X" and w: "gentle w" "walk_keys K X w kps" and c: "walk_committee K c" "members c = map snd kps"
    and ready: "crew_ready kps 0 [] s" and node: "walk_anchor mode s = Some c" "walk_floor mode s = 0"
  shows "\<exists>xs b0 b1 b2 s'. steps (walk_round K X w mode c) (enumerate 0 ADDITIONS) ([], None) s = (Inr (xs, Some b0), s')
    \<and> walk_judge K X mode s' b0 = Some 0 \<and> crew_ready kps 3 [] s' \<and> walk_floor mode s' = 3
    \<and> wk_delivered s' = wk_delivered s @ [(b0, OutAccepted 0), (b1, OutAccepted 1), (b2, OutAccepted 2)]"
proof -
  note rnd = walk_round_runs [OF laws w c]
  obtain xs1 b0 s1 where r1: "walk_round K X w mode c (0, 2) ([], None) s = (Inr (xs1, Some b0), s1)" "length xs1 \<le> 2" "walk_judge K X mode s1 b0 = Some 0"
    "crew_ready kps 1 [] s1" "walk_anchor mode s1 = Some c" "walk_floor mode s1 = 1" "wk_delivered s1 = wk_delivered s @ [(b0, OutAccepted 0)]"
    using rnd [OF _ ready node, of "([], None)" 2] by (auto simp: MAX_LIST_ENTRIES_def simp del: One_nat_def)
  obtain xs2 b1 s2 where r2: "walk_round K X w mode c (1, 3) (xs1, Some b0) s1 = (Inr (xs2, Some b0), s2)" "length xs2 \<le> 5" "walk_judge K X mode s2 b0 = Some 0"
    "crew_ready kps 2 [] s2" "walk_anchor mode s2 = Some c" "walk_floor mode s2 = 2" "wk_delivered s2 = wk_delivered s1 @ [(b1, OutAccepted 1)]"
    using rnd [OF _ r1(4,5,6), of "(xs1, Some b0)" 3] r1(2,3) by (auto simp: MAX_LIST_ENTRIES_def simp del: One_nat_def)
  obtain xs3 b2 s3 where r3: "walk_round K X w mode c (2, 2) (xs2, Some b0) s2 = (Inr (xs3, Some b0), s3)" "walk_judge K X mode s3 b0 = Some 0"
    "crew_ready kps 3 [] s3" "walk_floor mode s3 = 3" "wk_delivered s3 = wk_delivered s2 @ [(b2, OutAccepted 2)]"
    using rnd [OF _ r2(4,5,6), of "(xs2, Some b0)" 2] r2(2,3) by (auto simp: MAX_LIST_ENTRIES_def simp del: One_nat_def)
  have "enumerate 0 ADDITIONS = [(0, 2), (1, 3), (2, 2)]" by (simp add: ADDITIONS_def)
  then have "steps (walk_round K X w mode c) (enumerate 0 ADDITIONS) ([], None) s = (Inr (xs3, Some b0), s3)"
    using r1(1) r2(1) r3(1) by (simp add: seq_def)
  then show ?thesis using r1(7) r2(7) r3 by (intro exI [of _ xs3] exI [of _ b0] exI [of _ b1] exI [of _ b2] exI [of _ s3]) simp
qed

section \<open>Start-up\<close>

text \<open>A place in the directory that is free, with its lock.\<close>

definition free_at :: "path \<Rightarrow> fs \<Rightarrow> string \<Rightarrow> bool" where
  "free_at dir f name \<longleftrightarrow> files f (dir @ [name]) = None \<and> sibling (dir @ [name]) ''lock'' \<notin> locks f"

lemma create_succeeds_in:
  assumes "free_at dir f name"
  obtains f' where "counter_create sha3 S LockClean ReadClean ReplaceClean (dir @ [name]) pk start e f
      = (Inr (counter_of (dir @ [name]) (key_fingerprint sha3 S pk) e (0, ucast start)), f')"
    and "\<And>other. free_at dir f other \<Longrightarrow> other \<notin> {name, name @ ''.lock'', name @ ''.tmp''} \<Longrightarrow> free_at dir f' other"
proof -
  have "files f (dir @ [name]) = None" "sibling (dir @ [name]) ''lock'' \<notin> locks f" using assms by (simp_all add: free_at_def)
  then have "\<exists>f'. counter_create sha3 S LockClean ReadClean ReplaceClean (dir @ [name]) pk start e f
      = (Inr (counter_of (dir @ [name]) (key_fingerprint sha3 S pk) e (0, ucast start)), f')
    \<and> (\<forall>other. free_at dir f other \<longrightarrow> other \<notin> {name, name @ ''.lock'', name @ ''.tmp''} \<longrightarrow> free_at dir f' other)"
    by (auto simp: counter_create_def acquire_lock_def try_lock_sibling_def install_journal_def replace_file_def counter_of_def
        free_at_def sibling_def Let_def)
  then show thesis by (elim exE conjE) (rule that, assumption, simp)
qed

text \<open>The names the walkthrough creates files under do not clash, nor with the siblings of one another.\<close>

lemma walk_names:
  assumes "i < WALK_N"
  shows "j < WALK_N \<Longrightarrow> j \<noteq> i \<Longrightarrow> member_file j \<notin> {member_file i, member_file i @ ''.lock'', member_file i @ ''.tmp''}"
    and "''high-water.state'' \<notin> {member_file i, member_file i @ ''.lock'', member_file i @ ''.tmp''}"
proof -
  have all: "list_all (\<lambda>i. list_all (\<lambda>j. j \<noteq> i \<longrightarrow> member_file j \<noteq> member_file i \<and> member_file j \<noteq> member_file i @ ''.lock'' \<and> member_file j \<noteq> member_file i @ ''.tmp'') [0..<5]
      \<and> ''high-water.state'' \<noteq> member_file i \<and> ''high-water.state'' \<noteq> member_file i @ ''.lock'' \<and> ''high-water.state'' \<noteq> member_file i @ ''.tmp'') [0..<5]"
    by code_simp
  have i: "i \<in> set [0..<5]" using assms by (simp add: WALK_N_def)
  show "member_file j \<notin> {member_file i, member_file i @ ''.lock'', member_file i @ ''.tmp''}" if "j < WALK_N" "j \<noteq> i"
    using all [unfolded list_all_iff, rule_format, OF i] that by (auto simp: WALK_N_def)
  show "''high-water.state'' \<notin> {member_file i, member_file i @ ''.lock'', member_file i @ ''.tmp''}"
    using all [unfolded list_all_iff, rule_format, OF i] by blast
qed

lemma new_member_ready:
  "member_ready (sk, pk) k 0 (signer_node_new pk sk (counter_of p tag (GENESIS_SLOT + WALK_KEY_SLOTS) (0, ucast GENESIS_SLOT)))"
  by (simp add: member_ready_def signer_node_new_def counter_of_def GENESIS_SLOT_def)

lemma walk_members_run:
  assumes w: "gentle w" "walk_keys K X w kps" and start: "wk_members s = []"
    and free: "\<And>j. j < WALK_N \<Longrightarrow> free_at dir (wk_fs s) (member_file j)" "free_at dir (wk_fs s) ''high-water.state''" and "k \<le> WALK_N"
  shows "\<exists>s'. steps (walk_member K w dir) [0..<k] [] s = (Inr (map snd (take k kps)), s') \<and> length (wk_members s') = k \<and> wk_delivered s' = wk_delivered s
    \<and> (\<forall>j < k. member_ready (kps ! j) j 0 (wk_members s' ! j))
    \<and> (\<forall>j. k \<le> j \<longrightarrow> j < WALK_N \<longrightarrow> free_at dir (wk_fs s') (member_file j)) \<and> free_at dir (wk_fs s') ''high-water.state''"
  using assms(6)
proof (induction k)
  case 0
  then show ?case using start free by simp
next
  case (Suc k)
  then obtain s1 where s1: "steps (walk_member K w dir) [0..<k] [] s = (Inr (map snd (take k kps)), s1)" "length (wk_members s1) = k"
    "\<forall>j < k. member_ready (kps ! j) j 0 (wk_members s1 ! j)"
    "\<forall>j. k \<le> j \<longrightarrow> j < WALK_N \<longrightarrow> free_at dir (wk_fs s1) (member_file j)" "free_at dir (wk_fs s1) ''high-water.state''" "wk_delivered s1 = wk_delivered s" by auto
  have k: "k < WALK_N" using Suc.prems by simp
  then have here: "free_at dir (wk_fs s1) (member_file k)" using s1(4) by blast
  let ?pk = "snd (kps ! k)" and ?sk = "fst (kps ! k)"
  let ?c = "counter_of (dir @ [member_file k]) (key_fingerprint (sha3_256 (k_hashes K)) (key_ssz (k_anchor K)) ?pk) (GENESIS_SLOT + WALK_KEY_SLOTS) (0, ucast GENESIS_SLOT)"
  obtain f' where f': "counter_create (sha3_256 (k_hashes K)) (key_ssz (k_anchor K)) LockClean ReadClean ReplaceClean (dir @ [member_file k]) ?pk GENESIS_SLOT
      (GENESIS_SLOT + WALK_KEY_SLOTS) (wk_fs s1) = (Inr ?c, f')"
    "\<And>other. free_at dir (wk_fs s1) other \<Longrightarrow> other \<notin> {member_file k, member_file k @ ''.lock'', member_file k @ ''.tmp''} \<Longrightarrow> free_at dir f' other"
    by (rule create_succeeds_in [OF here, where ?sha3.0 = "sha3_256 (k_hashes K)" and S = "key_ssz (k_anchor K)" and pk = ?pk
        and start = GENESIS_SLOT and e = "GENESIS_SLOT + WALK_KEY_SLOTS"]) (rule that, assumption, simp)
  let ?s2 = "s1\<lparr>wk_fs := f', wk_members := wk_members s1 @ [signer_node_new ?pk ?sk ?c]\<rparr>"
  have "walk_member K w dir k (map snd (take k kps)) s1 = (Inr (map snd (take k kps) @ [?pk]), ?s2)"
    using walk_keys_at(2) [OF w(2) k] w(1) f'(1)
    by (simp add: walk_member_def gentle_def failing_def seq_def lift_def case_prod_unfold)
  moreover have "map snd (take k kps) @ [?pk] = map snd (take (Suc k) kps)"
    using k walk_keys_at(1) [OF w(2)] by (simp add: take_Suc_conv_app_nth)
  ultimately have run: "steps (walk_member K w dir) [0..<Suc k] [] s = (Inr (map snd (take (Suc k) kps)), ?s2)"
    using s1(1) by (auto simp: steps_snoc)
  have ready: "\<forall>j < Suc k. member_ready (kps ! j) j 0 (wk_members ?s2 ! j)"
    using s1(2,3) new_member_ready [of ?sk ?pk] by (auto simp: nth_append less_Suc_eq)
  have later: "free_at dir f' (member_file j)" if "Suc k \<le> j" "j < WALK_N" for j
  proof (rule f'(2))
    show "free_at dir (wk_fs s1) (member_file j)" using s1(4) that by simp
    show "member_file j \<notin> {member_file k, member_file k @ ''.lock'', member_file k @ ''.tmp''}" using walk_names(1) [OF k that(2)] that by simp
  qed
  have mark: "free_at dir f' ''high-water.state''" by (rule f'(2) [OF s1(5) walk_names(2) [OF k]])
  show ?case using run s1(2,6) ready later mark by (intro exI [of _ ?s2]) simp
qed

lemma start_node_runs:
  assumes "gentle w" and "free_at dir (wk_fs s) ''high-water.state''"
  shows "\<exists>s'. start_node K w dir mode c s = (Inr (), s') \<and> walk_anchor mode s' = Some c \<and> walk_floor mode s' = 0 \<and> wk_members s' = wk_members s
    \<and> wk_delivered s' = wk_delivered s"
proof -
  let ?p = "dir @ [''high-water.state'']"
  have free: "files (wk_fs s) ?p = None" "sibling ?p ''lock'' \<notin> locks (wk_fs s)" using assms(2) by (simp_all add: free_at_def)
  obtain m f' where m: "mark_create (sha3_256 (k_hashes K)) LockClean ReadClean ReplaceClean ?p (committee_to_bytes (k_anchor K) c) (wk_fs s) = (Inr m, f')"
    "\<not> m_have m"
    using free by (auto simp: mark_create_def mark_acquire_lock_def try_lock_sibling_def mark_persist_def replace_file_def sibling_not_self [symmetric] Let_def)
  then show ?thesis using assms(1)
    by (cases mode) (auto simp: start_node_def gentle_def walk_node_defs raw_node_new_def snark_node_new_def mark_floor_def)
qed

lemma walk_starts:
  assumes w: "gentle w" "walk_keys K X w kps" and start: "wk_members s = []" "\<And>name. free_at dir (wk_fs s) name"
  shows "\<exists>c s1 s2. bring_up_committee K w dir s = (Inr c, s1) \<and> start_node K w dir mode c s1 = (Inr (), s2) \<and> walk_committee K c \<and> members c = map snd kps
    \<and> crew_ready kps 0 [] s2 \<and> walk_anchor mode s2 = Some c \<and> walk_floor mode s2 = 0 \<and> wk_delivered s2 = wk_delivered s"
proof -
  obtain s1 where s1: "steps (walk_member K w dir) [0..<WALK_N] [] s = (Inr (map snd (take WALK_N kps)), s1)" "length (wk_members s1) = WALK_N"
    "\<forall>j < WALK_N. member_ready (kps ! j) j 0 (wk_members s1 ! j)" "free_at dir (wk_fs s1) ''high-water.state''"
    "wk_delivered s1 = wk_delivered s"
    using walk_members_run [OF w start(1) start(2) start(2) order_refl] by blast
  have len: "length kps = WALK_N" by (rule walk_keys_at(1) [OF w(2)])
  have "distinct (map (as_ssz_bytes (key_ssz (k_anchor K))) (map snd kps))" using w(2) by (simp add: walk_keys_def comp_def)
  moreover have "1 \<le> WALK_T" "WALK_T \<le> length (map snd kps)" "length (map snd kps) \<le> MAX_COMMITTEE_SIZE"
    using len by (simp_all add: WALK_T_def WALK_N_def MAX_COMMITTEE_SIZE_def)
  ultimately obtain c where c: "committee_new (sha3_256 (k_hashes K)) (k_anchor K) (map snd kps) WALK_T GENESIS_SLOT = Inr c"
    using committee_new_ok by blast
  have up: "bring_up_committee K w dir s = (Inr c, s1)"
    using s1(1) c len by (simp add: bring_up_committee_def panicking_def seq_def lift_def)
  obtain s2 where s2: "start_node K w dir mode c s1 = (Inr (), s2)" "walk_anchor mode s2 = Some c" "walk_floor mode s2 = 0" "wk_members s2 = wk_members s1"
    "wk_delivered s2 = wk_delivered s1"
    using start_node_runs [OF w(1) s1(4)] by blast
  have "walk_committee K c \<and> members c = map snd kps" using committee_new_wf [OF c] len by (simp add: walk_committee_def)
  moreover have "crew_ready kps 0 [] s2" using s1(2,3) s2(4) by (simp add: crew_ready_def)
  ultimately show ?thesis using up s1(5) s2 by (intro exI [of _ c] exI [of _ s1] exI [of _ s2]) simp
qed

section \<open>Property\<close>

text \<open>
  C20. The protocol works from end to end: in a world without faults, over libraries that do what they
  document and in either mode, the walkthrough exits with success. Its five members, with fresh
  keys and counters, have signed exactly in the rounds whose quorum they were in, each at the slot
  the anchor derives; the relying party was delivered four records and no more: it accepted versions
  0, 1 and 2 in this order, and to the first record, delivered again, byte for byte, it answered that
  version 0 is stale under the known version 2; its mark stands at version 2.
\<close>

theorem walkthrough_succeeds:
  assumes laws: "walk_laws K X" and w: "gentle w" "walk_keys K X w kps" and mode: "parse_mode arg = Inr mode"
    and start: "wk_members s = []" "wk_delivered s = []" "\<And>name. sibling (dir @ [name]) ''lock'' \<notin> locks (wk_fs s)"
  shows "\<exists>s' b0 b1 b2. walk_main K X w dir arg s = (0, s') \<and> walk_floor mode s' = 3
    \<and> wk_delivered s' = [(b0, OutAccepted 0), (b1, OutAccepted 1), (b2, OutAccepted 2), (b0, OutStale 0 2)]
    \<and> map (\<lambda>n. map fst (n_uses n)) (wk_members s') = map (\<lambda>k. map walk_slot (filter (\<lambda>j. k \<in> set (walk_quorum j)) [0..<3])) [0..<WALK_N]"
proof -
  obtain s0 where s0: "reset_scratch w dir s = (Inr (), s0)" "wk_members s0 = []" "wk_delivered s0 = []" "\<And>name. free_at dir (wk_fs s0) name"
    using w(1) start by (simp add: reset_scratch_def gentle_def free_at_def starts_with_def)
  obtain c s1 s2 where up: "bring_up_committee K w dir s0 = (Inr c, s1)" "start_node K w dir mode c s1 = (Inr (), s2)" "walk_committee K c" "members c = map snd kps"
    "crew_ready kps 0 [] s2" "walk_anchor mode s2 = Some c" "walk_floor mode s2 = 0" "wk_delivered s2 = []"
    using walk_starts [OF w s0(2,4)] unfolding s0(3) by blast
  obtain xs b0 b1 b2 s3 where s3: "steps (walk_round K X w mode c) (enumerate 0 ADDITIONS) ([], None) s2 = (Inr (xs, Some b0), s3)"
    "walk_judge K X mode s3 b0 = Some 0" "crew_ready kps 3 [] s3" "walk_floor mode s3 = 3"
    "wk_delivered s3 = [(b0, OutAccepted 0), (b1, OutAccepted 1), (b2, OutAccepted 2)]"
    using walk_rounds_run [OF laws w up(3-7)] unfolding up(8) by auto
  obtain k s4 where k: "unat k + 1 = walk_floor mode s3" and s4: "offer K X w mode b0 s3 = (Inr (OutStale 0 k), s4)" "walk_floor mode s4 = 3"
    "wk_members s4 = wk_members s3" "wk_delivered s4 = wk_delivered s3 @ [(b0, OutStale 0 k)]"
    using offer_stale [OF s3(2), of w] s3(4) by auto
  have "k = 2" using k s3(4) by (simp add: word_unat_eq_iff)
  have replay: "replay_old_record K X w mode b0 s3 = (Inr (), s4)"
    using s4(1) by (simp add: replay_old_record_def offer_def seq_def lift_def)
  let ?s5 = "snd (cleanup_scratch w dir s4)"
  have "walk_run K X w dir arg s = (Inr (), ?s5)"
    unfolding walk_run_def using mode s0(1) up(1,2) s3(1) replay by (simp add: seq_def lift_def present_def cleanup_scratch_def)
  then have "walk_main K X w dir arg s = (0, ?s5)" by (simp add: walk_main_def)
  moreover have "walk_floor mode ?s5 = 3" using s4(2) by (cases mode) (simp_all add: walk_floor_def cleanup_scratch_def)
  moreover have "wk_delivered ?s5 = [(b0, OutAccepted 0), (b1, OutAccepted 1), (b2, OutAccepted 2), (b0, OutStale 0 2)]"
    using s3(5) s4(4) \<open>k = 2\<close> by (simp add: cleanup_scratch_def)
  moreover have "map (\<lambda>n. map fst (n_uses n)) (wk_members ?s5) = map (\<lambda>k. map walk_slot (filter (\<lambda>j. k \<in> set (walk_quorum j)) [0..<3])) [0..<WALK_N]"
    using s3(3) s4(3) by (intro nth_equalityI) (simp_all add: crew_ready_def member_ready_def cleanup_scratch_def)
  ultimately show ?thesis by blast
qed

text \<open>A world where the key of a seed is the seed, and nothing fails.\<close>

definition seeded_world :: "(32 barr, 32 barr, unit) walk_world" where
  "seeded_world = \<lparr>ww_key_gen = (\<lambda>seed _ _. Inr (seed, seed)), ww_tape = (\<lambda>_. ()), ww_reset_fails = False, ww_kept = (\<lambda>_. False),
     ww_scratch_fails = False, ww_lock = (\<lambda>_. LockClean), ww_meta = (\<lambda>_. ReadClean), ww_install = (\<lambda>_. ReplaceClean), ww_mark_lock = LockClean, ww_mark_read = ReadClean,
     ww_mark_install = ReplaceClean, ww_persist = (\<lambda>_. PersistClean), ww_advance = (\<lambda>_. ReplaceClean)\<rparr>"

lemma seeded_world_keys: "walk_keys pipeline_env plain_xmss seeded_world (map (\<lambda>i. (walk_seed i, walk_seed i)) [0..<WALK_N])"
proof -
  have "bytes_of (walk_seed i) = [0xE1, word_of_nat i] @ replicate 30 0" for i by (simp add: walk_seed_def)
  moreover have "distinct (map (\<lambda>i. [0xE1, word_of_nat i] @ replicate 30 (0 :: 8 word)) [0..<5])" by code_simp
  ultimately have "distinct (map bytes_of (map walk_seed [0..<WALK_N]))" by (simp add: WALK_N_def comp_def)
  then have "distinct (map walk_seed [0..<WALK_N])" by (rule distinct_map [THEN iffD1, THEN conjunct1])
  then have "distinct (map (as_ssz_bytes (key_ssz (k_anchor pipeline_env))) (map walk_seed [0..<WALK_N]))"
    by (rule distinct_map [THEN iffD2, OF conjI]) (rule inj_on_subset [OF pipeline_env_laws(2) subset_UNIV])
  then show ?thesis by (auto simp: walk_keys_def seeded_world_def plain_xmss_def comp_def)
qed

theorem walkthrough_succeeds_witness:
  "\<exists>s' b0 b1 b2. walk_main pipeline_env plain_xmss seeded_world [''scratch''] (Some ''raw'')
       \<lparr>wk_members = [], wk_raw = None, wk_snark = None, wk_fs = no_files, wk_signed = 0, wk_delivered = []\<rparr> = (0, s') \<and> walk_floor WalkRaw s' = 3
    \<and> wk_delivered s' = [(b0, OutAccepted 0), (b1, OutAccepted 1), (b2, OutAccepted 2), (b0, OutStale 0 2)]
    \<and> map (\<lambda>n. map fst (n_uses n)) (wk_members s') = map (\<lambda>k. map walk_slot (filter (\<lambda>j. k \<in> set (walk_quorum j)) [0..<3])) [0..<WALK_N]"
proof (rule walkthrough_succeeds)
  show "walk_laws pipeline_env plain_xmss"
    using pipeline_env_laws(1,4) pipeline_records_fit plain_aggregate_complete plain_aggregator_total by (simp add: walk_laws_def pipeline_env_laws(5))
  show "gentle seeded_world" by (simp add: gentle_def seeded_world_def)
  show "walk_keys pipeline_env plain_xmss seeded_world (map (\<lambda>i. (walk_seed i, walk_seed i)) [0..<WALK_N])" by (rule seeded_world_keys)
  show "parse_mode (Some ''raw'') = Inr WalkRaw" by (simp add: parse_mode_def)
qed (simp_all add: no_files_def)

end
