(* ===== verification/Spec2Isabelle.thy ===== *)
theory Spec2Isabelle
  imports Freshness_Crash Slot_Traces Agreement Demo_Bootstrap Raw_Agg Mldsa_Bins Walkthrough
begin

text \<open>
  A verification development of the decentralized root of trust: a committee of \<open>N\<close> members
  publishes a versioned status list, each version signed by at least \<open>t\<close> of them with stateful XMSS
  keys, and relying parties that know only the committee's anchor accept each version once.

  \<^bold>\<open>The program and its parts.\<close> A member (src/node/signer.rs) owns an XMSS key, which must never sign
  twice at one slot. Its slot counter (src/state/slot_counter.rs) makes a slot durable in a two-slot
  journal before the key is used. An anchor (src/protocol/committee.rs) fixes the members, the
  threshold and the slot of a version, and derives the message the members sign
  (src/protocol/status_list.rs). A record carries the signatures of a quorum, raw with a bitmap of
  signers (src/node/raw_verifier.rs, src/node/raw_node.rs) or aggregated into one proof
  (src/node/snark_prover.rs, src/node/snark_verifier.rs, src/node/snark_node.rs). A relying party
  decodes, verifies, and only then offers the version to its freshness mark
  (src/state/freshness.rs, src/node/mod.rs). mldsa/src is the same protocol over ML-DSA-65. demo/src
  runs both over TCP: a bootstrap step, ten members who also aggregate, and node A.

  \<^bold>\<open>Theories and what they model.\<close>
  \<^item> \<open>Prelude\<close>, \<open>Rust_Text\<close>: byte arrays, little-endian integers, results; UTF-8, parsing and printing of
    numbers, white space.
  \<^item> \<open>Externals\<close>, \<open>Instances\<close>: the libraries (hash functions, SSZ codecs, bit lists, XMSS, leanVM) as
    records of functions with the laws they document as predicates, and small concrete instances on
    which every law holds, for the witnesses. No law is assumed of a hash function: where a theorem
    depends on one, its conclusion exhibits the collision.
  \<^item> \<open>File_System\<close>: visible and durable content, locks, and atomic replacement with every system call
    failing. A fault is an argument of the operation that meets it.
  \<^item> \<open>Interfaces\<close>, \<open>Relying_Party\<close>: the contracts (codecs, gates of increasing versions, relying
    parties) as locales, each interpreted on the model's own definitions.
  \<^item> \<open>Slot_Counter\<close>, \<open>Slot_Crash\<close>, \<open>Slot_Traces\<close>, \<open>Slot_Api\<close>: the counter's journal, recovery,
    migration and reservations; a machine of reservations, write-back, process death, power loss and
    reopening; its runs; the properties of the interface.
  \<^item> \<open>Freshness\<close>, \<open>Freshness_Crash\<close>: the mark file and its machine.
  \<^item> \<open>Signer_Bits\<close>, \<open>Status_List\<close>, \<open>Committee\<close>: bitmaps, records and messages, anchors.
  \<^item> \<open>Raw_Verifier\<close>, \<open>Snark_Path\<close>, \<open>Signer_Node\<close>: the two predicates and nodes, the signer.
  \<^item> \<open>Mldsa\<close>: the ML-DSA anchor, record, statement, signer and predicate.
  \<^item> \<open>Params\<close>, \<open>Workload\<close>, \<open>Bench_Stats\<close>, \<open>Prover_Check\<close>: src/params.rs; src/bench (the workload, the
    statistics, the timing boundary, the state directory); the acceptance check of a prover's output
    (src/bin/check_prover_output.rs).
  \<^item> \<open>Corpus\<close>, \<open>Jobs\<close>: directories of artifacts as a process finds them, and processes that write
    them: steps with panics, files, generated keys, and a ghost of every use of a one-time key.
  \<^item> \<open>Fixture_Bin\<close>, \<open>Fixture_Valid\<close>, \<open>Fixture_Runs\<close>: src/bin/committee_fixture.rs, what its fixture
    holds, and that it returns. \<open>Prover_Bin\<close>, \<open>Prover_Spec\<close>, \<open>Prover_Self\<close>: src/bin/prover.rs over a
    fixture and on its own. \<open>Verifier_Bin\<close>: src/bin/verifier.rs. \<open>Pipeline\<close>: the three binaries one
    after the other.
  \<^item> \<open>Root_Main\<close>: src/main.rs. \<open>Crew\<close>: members with durable counters inside one process.
    \<open>Signer_Bin\<close>: src/bin/signer.rs. \<open>Raw_Agg\<close>: src/bin/raw_agg.rs. \<open>Mldsa_Bins\<close>: mldsa/src/bin
    (support/mod.rs, mldsa_fixture.rs, mldsa_raw_agg.rs, mldsa_signer.rs). \<open>Walkthrough\<close>:
    examples/local_demo.rs.
  \<^item> \<open>Demo_Wire\<close>: demo/src/config.rs, wire.rs, vc.rs and storage.rs. \<open>Demo_Member\<close>, \<open>Demo_Examples\<close>:
    demo/src/bin/signer.rs and a concrete round. \<open>Demo_Round\<close>, \<open>Demo_Holder\<close>: the round of node A and
    demo/src/bin/holder.rs. \<open>Demo_Mldsa\<close>: mldsa_signer.rs and mldsa_holder.rs. \<open>Demo_Bootstrap\<close>: the
    two bootstrap steps.
  \<^item> \<open>Agreement\<close>: what counters, anchors and predicates guarantee together.

  \<^bold>\<open>How code becomes definitions.\<close> A struct is a record and an enum a datatype; \<open>Result\<close> is a sum with the
  error on the left; integers of the wire and the state are words of their width and indices are
  naturals below \<open>usize_max\<close>. A function that changes a value or the disk takes and returns it. A
  panic is an error value of its own datatype. A test for a file takes a fault of its metadata, which
  Rust's \<open>exists\<close> reads as absence and \<open>try_exists\<close> reports. What a network peer answers, in which order answers
  arrive, what a clock shows and which system call fails are arguments, so every theorem holds for
  all of them. Threads appear as their effects: one member's calls are serialised by its mutexes,
  and a poisoned mutex is a field.

  \<^bold>\<open>What the lemmas show.\<close>
  \<^item> Counter and signer: no slot is handed out twice across crashes (with the exact limit of the
    journal proved as a run), slots are durable before the key is used, the key's slots increase.
  \<^item> Freshness: accepted versions increase over the life of the mark file, and the mark reopens above
    everything accepted.
  \<^item> Records and anchors: what verifies carries a quorum of distinct members on this anchor, list and
    version; honest quorums verify; encodings are canonical; the message binds what it should; every
    anchor is well-formed.
  \<^item> Agreement: two verifying records of one version carry one list, or one of the two is a forgery
    under an honest member's key: it vouches for a message that the log of that member's node does not
    have at that slot. Nothing is assumed of XMSS; the logs are those the counters allow.
  \<^item> Demo: frames and the validity list refine their abstract counterparts; members sign one list per
    version and only the next version; aggregators publish only what verifies, and with enough honest
    answers durably publish it; a poll for a file ends at its deadline; node A's verdicts rest on authentic records; the bootstrapped anchor starts the
    members. The limits found are theorems as well: the round that panics without a slot, the
    revocation judged on the echo, the stale record that is answered.
  \<^item> Checking binaries: the acceptance check, the verifier, the raw baseline and the ML-DSA verifier
    end with success exactly when their input is what it should be and every forgery is refused; the
    verifier's mark only advances.
  \<^item> Signing binaries: fixture generator, aggregator, raw baseline and single member never use a key
    twice at one slot, whichever of their nodes uses it, whatever fails and wherever a panic ends them.
  \<^item> Runs without faults: the fixture generator, the aggregator over its fixture and the acceptance
    check succeed one after the other; the demonstration verifies every update and rejects every
    forgery unless two statements of that run collide; the single member signs every version once; the
    local walkthrough ends with success in either mode, having had its three versions accepted in order
    and its replay answered as stale.
  \<^item> Workload: quorums are distinct and in range, lists have the declared size, and the ML-DSA copy
    agrees with the XMSS one. Statistics do not depend on the order of the samples.

  \<^bold>\<open>Bounds and loops.\<close> No definition needs fuel. Recursion is structural, on a list or a counter, except
  for the chunking of bytes and the polling loop, which have measures. The polling loop runs against a
  clock: what each read gives, how long each turn takes and how far each sleep overshoots are arguments,
  and the time left to the deadline shrinks with every turn. Sizes that the code bounds (committee, frame,
  record, window) are the code's constants.

  \<^bold>\<open>Not modelled.\<close> Printing, memory figures and CPU time, except where a figure can panic; clock readings
  are inputs. The accept loops of the servers, which only dispatch to modelled handlers; the creation
  of directories, of which only the failure appears; the generation of a random credential (a
  parameter); the command-line probe of the demo (demo/src/bin/probe.rs), a client of a modelled
  handler; mldsa_statement_experiment.rs, which times building blocks of modelled functions.
  Floating-point figures are exact reals. The bodies of XMSS,
  leanVM, ML-DSA, the SSZ derive macros and the hash functions are outside the repository and are
  parameters.
\<close>

end
